(* ===== verification/Kernel_Prelude.thy ===== *)
theory Kernel_Prelude
  imports Main "HOL-Library.Word"
begin

text \<open>
  The vocabulary the components share.
  Machine integers keep their width: \<open>usize\<close>, \<open>isize\<close> and addresses are 64-bit words,
  signed values are the same words read with \<^const>\<open>sint\<close>; arithmetic wraps, as it does in
  the release profile the kernel is built with (\<^verbatim>\<open>.arceos/Cargo.toml\<close> sets no overflow checks).
  A fallible operation returns an \<open>outcome\<close>: the value, the error of the source's
  \<^verbatim>\<open>Result\<close> type, or \<open>Panic\<close> for every \<^verbatim>\<open>assert!\<close>, \<^verbatim>\<open>unwrap\<close>, \<^verbatim>\<open>expect\<close> and
  out-of-range index of the source.
  Stateful code is explicit state passing: an operation maps a state to an outcome and the
  state it leaves, and \<open>sbind\<close> sequences two of them the way the \<^verbatim>\<open>?\<close> operator does.
\<close>

section \<open>Machine integers\<close>

type_synonym u8 = "8 word"
type_synonym u16 = "16 word"
type_synonym u32 = "32 word"
type_synonym u64 = "64 word"
type_synonym i32 = "32 word"
type_synonym i64 = "64 word"
type_synonym usize = "64 word"
type_synonym isize = "64 word"

text \<open>\<^verbatim>\<open>usize::checked_add\<close> and \<^verbatim>\<open>usize::checked_sub\<close> of the Rust library.\<close>

definition checked_add :: "usize \<Rightarrow> usize \<Rightarrow> usize option" where
  "checked_add a b = (if a \<le> a + b then Some (a + b) else None)"

definition checked_sub :: "usize \<Rightarrow> usize \<Rightarrow> usize option" where
  "checked_sub a b = (if b \<le> a then Some (a - b) else None)"

definition saturating_sub :: "usize \<Rightarrow> usize \<Rightarrow> usize" where
  "saturating_sub a b = (if b \<le> a then a - b else 0)"

lemma unat_less_2p64: "unat (a :: usize) < 2 ^ 64"
  using unsigned_less [of a] by simp

lemma checked_add_unat:
  "checked_add a b = (if unat a + unat b < 2 ^ 64 then Some (a + b) else None)"
  using unat_less_2p64 [of b]
  by (auto simp: checked_add_def unat_plus_if_size word_size word_le_nat_alt)

lemma checked_add_SomeD:
  "checked_add a b = Some c \<Longrightarrow> c = a + b \<and> a \<le> c \<and> unat c = unat a + unat b"
  by (auto simp: checked_add_unat unat_plus_if_size word_size word_le_nat_alt split: if_splits)

text \<open>Width changes: \<^verbatim>\<open>as\<close> between unsigned integers truncates or extends.\<close>

lemma unat_ucast: "unat (ucast (w :: 'a::len word) :: 'b::len word) = unat w mod 2 ^ LENGTH('b)"
  by (simp add: unsigned_ucast_eq take_bit_eq_mod)

lemma ucast_u32_u64 [simp]: "ucast (ucast (w :: u32) :: u64) = w"
proof -
  have "unat w < 2 ^ 32" using unsigned_less [of w] by simp
  then show ?thesis by (simp add: word_unat_eq_iff unat_ucast)
qed

text \<open>A signed integer that is not negative.\<close>

lemma sint_i32: "unat (w :: i32) < 2 ^ 31 \<Longrightarrow> sint w = uint w"
proof -
  assume "unat w < 2 ^ 31"
  then have "int (unat w) < int (2 ^ 31)" by (rule of_nat_less_iff [THEN iffD2])
  then have u: "uint w < 2 ^ 31" unfolding uint_nat by simp
  have z: "0 \<le> uint w" by simp
  have "signed_take_bit 31 (uint w) = uint w" by (rule signed_take_bit_int_eq_self) (use u z in linarith)+
  then show ?thesis unfolding sint_uint by simp
qed

lemma scast_i32_usize: "unat (w :: i32) < 2 ^ 31 \<Longrightarrow> (scast w :: usize) = ucast w"
  unfolding scast_eq ucast_eq by (simp only: sint_i32)

lemma sle_i32: "unat (w :: i32) < 2 ^ 31 \<Longrightarrow> unat (v :: i32) < 2 ^ 31 \<Longrightarrow> w \<le>s v \<longleftrightarrow> w \<le> v"
  unfolding word_sle_eq word_le_def by (simp only: sint_i32)

lemma ucast_usize_small: "unat (i :: usize) < 2 ^ 32 \<Longrightarrow> (ucast (ucast i :: u32) :: usize) = i"
  by (simp add: word_unat_eq_iff unat_ucast)

section \<open>Outcomes\<close>

datatype ('e, 'a) outcome = Ok 'a | Err 'e | Panic

definition is_ok :: "('e, 'a) outcome \<Rightarrow> bool" where
  "is_ok r = (case r of Ok _ \<Rightarrow> True | _ \<Rightarrow> False)"

lemma is_ok_simps [simp]:
  "is_ok (Ok a)" "\<not> is_ok (Err e)" "\<not> is_ok Panic"
  by (simp_all add: is_ok_def)

definition obind :: "('e, 'a) outcome \<Rightarrow> ('a \<Rightarrow> ('e, 'b) outcome) \<Rightarrow> ('e, 'b) outcome" where
  "obind r f = (case r of Ok a \<Rightarrow> f a | Err e \<Rightarrow> Err e | Panic \<Rightarrow> Panic)"

definition map_err :: "('e \<Rightarrow> 'f) \<Rightarrow> ('e, 'a) outcome \<Rightarrow> ('f, 'a) outcome" where
  "map_err f r = (case r of Ok a \<Rightarrow> Ok a | Err e \<Rightarrow> Err (f e) | Panic \<Rightarrow> Panic)"

definition ok_or :: "'a option \<Rightarrow> 'e \<Rightarrow> ('e, 'a) outcome" where
  "ok_or x e = (case x of Some a \<Rightarrow> Ok a | None \<Rightarrow> Err e)"

definition unwrap :: "'a option \<Rightarrow> ('e, 'a) outcome" where
  "unwrap x = (case x of Some a \<Rightarrow> Ok a | None \<Rightarrow> Panic)"

text \<open>\<^verbatim>\<open>Result::unwrap\<close> and \<^verbatim>\<open>Result::expect\<close>: the error becomes a panic.\<close>

definition expect_ok :: "('e, 'a) outcome \<Rightarrow> ('f, 'a) outcome" where
  "expect_ok r = (case r of Ok a \<Rightarrow> Ok a | Err _ \<Rightarrow> Panic | Panic \<Rightarrow> Panic)"

lemma obind_simps [simp]:
  "obind (Ok a) f = f a" "obind (Err e) f = Err e" "obind Panic f = Panic"
  by (simp_all add: obind_def)

lemma map_err_simps [simp]:
  "map_err f (Ok a) = Ok a" "map_err f (Err e) = Err (f e)" "map_err f Panic = Panic"
  by (simp_all add: map_err_def)

lemma ok_or_simps [simp]: "ok_or (Some a) e = Ok a" "ok_or None e = Err e"
  by (simp_all add: ok_or_def)

lemma unwrap_simps [simp]: "unwrap (Some a) = Ok a" "unwrap None = Panic"
  by (simp_all add: unwrap_def)

lemma expect_ok_simps [simp]:
  "expect_ok (Ok a) = Ok a" "expect_ok (Err e) = Panic" "expect_ok Panic = Panic"
  by (simp_all add: expect_ok_def)

lemma ok_or_eq_Ok [simp]: "ok_or x e = Ok a \<longleftrightarrow> x = Some a"
  by (cases x) simp_all

lemma ok_or_eq_Err [simp]: "ok_or x e = Err e' \<longleftrightarrow> x = None \<and> e' = e"
  by (cases x) auto

lemma ok_or_neq_Panic [simp]: "ok_or x e \<noteq> Panic"
  by (cases x) simp_all

lemma map_err_eq_Ok [simp]: "map_err f r = Ok a \<longleftrightarrow> r = Ok a"
  by (cases r) simp_all

lemma map_err_eq_Panic [simp]: "map_err f r = Panic \<longleftrightarrow> r = Panic"
  by (cases r) simp_all

lemma obind_eq_Ok: "obind r f = Ok b \<longleftrightarrow> (\<exists>a. r = Ok a \<and> f a = Ok b)"
  by (cases r) simp_all

section \<open>Outcomes with a state\<close>

definition sbind ::
  "('e, 'a) outcome \<times> 's \<Rightarrow> ('a \<Rightarrow> 's \<Rightarrow> ('e, 'b) outcome \<times> 's) \<Rightarrow> ('e, 'b) outcome \<times> 's" where
  "sbind m f = (case m of (Ok a, s) \<Rightarrow> f a s | (Err e, s) \<Rightarrow> (Err e, s) | (Panic, s) \<Rightarrow> (Panic, s))"

lemma sbind_simps [simp]:
  "sbind (Ok a, s) f = f a s" "sbind (Err e, s) f = (Err e, s)" "sbind (Panic, s) f = (Panic, s)"
  by (simp_all add: sbind_def)

lemma sbind_eq_Ok:
  "sbind m f = (Ok b, t) \<longleftrightarrow> (\<exists>a s. m = (Ok a, s) \<and> f a s = (Ok b, t))"
  by (cases m; cases "fst m") auto

lemma sbind_OkE:
  assumes "sbind m f = (Ok b, t)"
  obtains a s where "m = (Ok a, s)" and "f a s = (Ok b, t)"
  using assms by (auto simp: sbind_eq_Ok)

text \<open>An operation keeps a predicate on the state, whatever its outcome.\<close>

lemma sbind_keeps:
  assumes "P (snd m)" and "\<And>a s. m = (Ok a, s) \<Longrightarrow> P s \<Longrightarrow> P (snd (f a s))"
  shows "P (snd (sbind m f))"
  using assms by (cases m; cases "fst m") auto

section \<open>Error numbers\<close>

text \<open>
  The \<^verbatim>\<open>LinuxError\<close> variants the modelled sources name (the Rust enum is generated from
  \<^verbatim>\<open>vendor/axerrno/src/errno.h\<close>), their codes, and \<^verbatim>\<open>AxError\<close>.
\<close>

datatype linux_error =
    EPERM | ENOENT | ESRCH | EINTR | EIO | EBADF | ECHILD | EAGAIN | ENOMEM | EACCES
  | EFAULT | EBUSY | EEXIST | ENODEV | ENOTDIR | EISDIR | EINVAL | EMFILE | ENOSPC | ERANGE
  | ENOSYS | ENOTEMPTY | EILSEQ | EADDRINUSE | ECONNRESET | ENOTCONN | ECONNREFUSED

fun linux_error_code :: "linux_error \<Rightarrow> nat" where
  "linux_error_code EPERM = 1"
| "linux_error_code ENOENT = 2"
| "linux_error_code ESRCH = 3"
| "linux_error_code EINTR = 4"
| "linux_error_code EIO = 5"
| "linux_error_code EBADF = 9"
| "linux_error_code ECHILD = 10"
| "linux_error_code EAGAIN = 11"
| "linux_error_code ENOMEM = 12"
| "linux_error_code EACCES = 13"
| "linux_error_code EFAULT = 14"
| "linux_error_code EBUSY = 16"
| "linux_error_code EEXIST = 17"
| "linux_error_code ENODEV = 19"
| "linux_error_code ENOTDIR = 20"
| "linux_error_code EISDIR = 21"
| "linux_error_code EINVAL = 22"
| "linux_error_code EMFILE = 24"
| "linux_error_code ENOSPC = 28"
| "linux_error_code ERANGE = 34"
| "linux_error_code ENOSYS = 38"
| "linux_error_code ENOTEMPTY = 39"
| "linux_error_code EILSEQ = 84"
| "linux_error_code EADDRINUSE = 98"
| "linux_error_code ECONNRESET = 104"
| "linux_error_code ENOTCONN = 107"
| "linux_error_code ECONNREFUSED = 111"

lemma linux_error_code_range: "0 < linux_error_code e \<and> linux_error_code e \<le> 133"
  by (cases e) simp_all

datatype ax_error =
    AddrInUse | AlreadyExists | BadAddress | BadState | ConnectionRefused | ConnectionReset
  | DirectoryNotEmpty | InvalidData | InvalidInput | Io | IsADirectory | NoMemory
  | NotADirectory | NotConnected | NotFound | PermissionDenied | ResourceBusy | StorageFull
  | UnexpectedEof | Unsupported | WouldBlock | WriteZero

fun linux_of_ax :: "ax_error \<Rightarrow> linux_error" where
  "linux_of_ax AddrInUse = EADDRINUSE"
| "linux_of_ax AlreadyExists = EEXIST"
| "linux_of_ax BadAddress = EFAULT"
| "linux_of_ax BadState = EFAULT"
| "linux_of_ax ConnectionRefused = ECONNREFUSED"
| "linux_of_ax ConnectionReset = ECONNRESET"
| "linux_of_ax DirectoryNotEmpty = ENOTEMPTY"
| "linux_of_ax InvalidInput = EINVAL"
| "linux_of_ax InvalidData = EINVAL"
| "linux_of_ax Io = EIO"
| "linux_of_ax IsADirectory = EISDIR"
| "linux_of_ax NoMemory = ENOMEM"
| "linux_of_ax NotADirectory = ENOTDIR"
| "linux_of_ax NotConnected = ENOTCONN"
| "linux_of_ax NotFound = ENOENT"
| "linux_of_ax PermissionDenied = EACCES"
| "linux_of_ax ResourceBusy = EBUSY"
| "linux_of_ax StorageFull = ENOSPC"
| "linux_of_ax Unsupported = ENOSYS"
| "linux_of_ax UnexpectedEof = EIO"
| "linux_of_ax WriteZero = EIO"
| "linux_of_ax WouldBlock = EAGAIN"

text \<open>\<^verbatim>\<open>-err.code() as _\<close>: how an error leaves the kernel in a register.\<close>

definition neg_code :: "linux_error \<Rightarrow> ('n::len) word" where
  "neg_code e = - of_nat (linux_error_code e)"

section \<open>Lists\<close>

text \<open>The first index of a list that satisfies a predicate, as \<^verbatim>\<open>Iterator::position\<close>.\<close>

fun position :: "('a \<Rightarrow> bool) \<Rightarrow> 'a list \<Rightarrow> nat option" where
  "position p [] = None"
| "position p (x # xs) = (if p x then Some 0 else map_option Suc (position p xs))"

lemma position_None: "position p xs = None \<longleftrightarrow> (\<forall>x \<in> set xs. \<not> p x)"
  by (induction xs) auto

lemma position_SomeD:
  "position p xs = Some i \<Longrightarrow> i < length xs \<and> p (xs ! i) \<and> (\<forall>j < i. \<not> p (xs ! j))"
proof (induction xs arbitrary: i)
  case Nil
  then show ?case by simp
next
  case (Cons x xs)
  show ?case
  proof (cases "p x")
    case True
    with Cons.prems show ?thesis by auto
  next
    case False
    with Cons.prems obtain k where "position p xs = Some k" and "i = Suc k" by auto
    with Cons.IH [of k] False show ?thesis
      by (auto simp: less_Suc_eq_0_disj)
  qed
qed

lemma find_SomeD: "List.find p xs = Some x \<Longrightarrow> x \<in> set xs \<and> p x"
  by (induction xs) (auto split: if_splits)

lemma find_None: "List.find p xs = None \<longleftrightarrow> (\<forall>x \<in> set xs. \<not> p x)"
  by (induction xs) auto

end
