(* ===== verification/Memory_Addr.thy ===== *)
theory Memory_Addr
  imports Kernel_Prelude
begin

unbundle bit_operations_syntax

text \<open>
  Addresses and address ranges (\<^verbatim>\<open>vendor/memory_addr\<close>): alignment by masking, the checked
  and wrapping arithmetic of the \<^verbatim>\<open>MemoryAddr\<close> trait, \<^verbatim>\<open>AddrRange\<close> and the page iterator.
  The lemmas give each masked operation its value on natural numbers, which is what the
  components above reason with.
\<close>

section \<open>Alignment\<close>

definition PAGE_SIZE_4K :: usize where
  "PAGE_SIZE_4K = 0x1000"

definition align_down :: "usize \<Rightarrow> usize \<Rightarrow> usize" where
  "align_down addr align = addr AND NOT (align - 1)"

definition align_up :: "usize \<Rightarrow> usize \<Rightarrow> usize" where
  "align_up addr align = (addr + align - 1) AND NOT (align - 1)"

definition align_offset :: "usize \<Rightarrow> usize \<Rightarrow> usize" where
  "align_offset addr align = addr AND (align - 1)"

definition is_aligned :: "usize \<Rightarrow> usize \<Rightarrow> bool" where
  "is_aligned addr align = (align_offset addr align = 0)"

definition align_down_4k :: "usize \<Rightarrow> usize" where
  "align_down_4k addr = align_down addr PAGE_SIZE_4K"

definition align_up_4k :: "usize \<Rightarrow> usize" where
  "align_up_4k addr = align_up addr PAGE_SIZE_4K"

definition align_offset_4k :: "usize \<Rightarrow> usize" where
  "align_offset_4k addr = align_offset addr PAGE_SIZE_4K"

definition is_aligned_4k :: "usize \<Rightarrow> bool" where
  "is_aligned_4k addr = is_aligned addr PAGE_SIZE_4K"

lemmas align_defs =
  align_down_4k_def align_up_4k_def align_offset_4k_def is_aligned_4k_def
  align_down_def align_up_def align_offset_def is_aligned_def PAGE_SIZE_4K_def

lemma mask_4k: "(0xFFF :: usize) = mask 12"
  by (simp add: mask_eq_exp_minus_1)

lemma unat_align_offset_4k: "unat (align_offset_4k a) = unat a mod 4096"
  by (simp add: align_defs mask_4k take_bit_eq_mask [symmetric] take_bit_eq_mod unat_mod_distrib)

lemma align_down_plus_offset: "align_down_4k a + align_offset_4k a = a"
proof -
  have "(a AND NOT (mask 12)) + (a AND mask 12) = (a AND NOT (mask 12)) OR (a AND mask 12)"
    by (rule disjunctive_add_eq_or) (simp add: bit_eq_iff bit_simps)
  also have "\<dots> = a"
    by (simp add: bit_eq_iff bit_simps) blast
  finally show ?thesis
    by (simp add: align_defs mask_4k)
qed

lemma unat_align_down_4k: "unat (align_down_4k a) = unat a div 4096 * 4096"
proof -
  have le: "unat (align_offset_4k a) \<le> unat a"
    by (simp add: unat_align_offset_4k)
  have "align_down_4k a = a - align_offset_4k a"
    using align_down_plus_offset [of a] by (simp add: algebra_simps)
  then have "unat (align_down_4k a) = unat a - unat (align_offset_4k a)"
    using le by (simp add: unat_sub word_le_nat_alt)
  then show ?thesis
    by (simp add: unat_align_offset_4k minus_mod_eq_div_mult)
qed

lemma is_aligned_4k_iff: "is_aligned_4k a \<longleftrightarrow> 4096 dvd unat a"
proof -
  have "is_aligned_4k a \<longleftrightarrow> align_offset_4k a = 0"
    by (simp add: is_aligned_4k_def is_aligned_def align_offset_4k_def)
  also have "\<dots> \<longleftrightarrow> unat a mod 4096 = 0"
    by (metis unat_align_offset_4k unat_eq_zero)
  finally show ?thesis by (simp add: dvd_eq_mod_eq_0)
qed

lemma align_down_4k_le: "align_down_4k a \<le> a"
  by (simp add: word_le_nat_alt unat_align_down_4k)

lemma is_aligned_align_down_4k [simp]: "is_aligned_4k (align_down_4k a)"
  by (simp add: is_aligned_4k_iff unat_align_down_4k)

lemma align_down_4k_idem: "is_aligned_4k a \<Longrightarrow> align_down_4k a = a"
  by (simp add: is_aligned_4k_iff word_unat_eq_iff unat_align_down_4k)

lemma align_up_4k_eq: "align_up_4k a = align_down_4k (a + 0xFFF)"
  by (simp add: align_defs add.commute)

lemma unat_align_up_4k:
  assumes "unat a + 4095 < 2 ^ 64"
  shows "unat (align_up_4k a) = (unat a + 4095) div 4096 * 4096"
proof -
  have "unat (a + 0xFFF) = unat a + 4095"
    using assms by (simp add: unat_plus_if_size word_size)
  then show ?thesis
    by (simp add: align_up_4k_eq unat_align_down_4k)
qed

lemma is_aligned_align_up_4k [simp]: "is_aligned_4k (align_up_4k a)"
  by (simp add: align_up_4k_eq)

lemma align_up_4k_ge: "unat a + 4095 < 2 ^ 64 \<Longrightarrow> a \<le> align_up_4k a"
  by (simp add: word_le_nat_alt unat_align_up_4k)

section \<open>Address ranges\<close>

record addr_range =
  rstart :: usize
  rend :: usize

definition range_new :: "usize \<Rightarrow> usize \<Rightarrow> ('e, addr_range) outcome" where
  "range_new s e = (if s \<le> e then Ok \<lparr>rstart = s, rend = e\<rparr> else Panic)"

definition from_start_size :: "usize \<Rightarrow> usize \<Rightarrow> ('e, addr_range) outcome" where
  "from_start_size s sz =
     (case checked_add s sz of Some e \<Rightarrow> Ok \<lparr>rstart = s, rend = e\<rparr> | None \<Rightarrow> Panic)"

definition try_from_start_size :: "usize \<Rightarrow> usize \<Rightarrow> addr_range option" where
  "try_from_start_size s sz = map_option (\<lambda>e. \<lparr>rstart = s, rend = e\<rparr>) (checked_add s sz)"

definition range_is_empty :: "addr_range \<Rightarrow> bool" where
  "range_is_empty r = (rstart r \<ge> rend r)"

definition range_size :: "addr_range \<Rightarrow> usize" where
  "range_size r = rend r - rstart r"

definition range_contains :: "addr_range \<Rightarrow> usize \<Rightarrow> bool" where
  "range_contains r a = (rstart r \<le> a \<and> a < rend r)"

definition contains_range :: "addr_range \<Rightarrow> addr_range \<Rightarrow> bool" where
  "contains_range r other = (rstart r \<le> rstart other \<and> rend other \<le> rend r)"

definition contained_in :: "addr_range \<Rightarrow> addr_range \<Rightarrow> bool" where
  "contained_in r other = contains_range other r"

definition range_overlaps :: "addr_range \<Rightarrow> addr_range \<Rightarrow> bool" where
  "range_overlaps r other = (rstart r < rend other \<and> rstart other < rend r)"

text \<open>The addresses of a range, the meaning the lemmas above the crate refer to.\<close>

definition addrs :: "addr_range \<Rightarrow> usize set" where
  "addrs r = {a. rstart r \<le> a \<and> a < rend r}"

lemma mem_addrs [simp]: "a \<in> addrs r \<longleftrightarrow> rstart r \<le> a \<and> a < rend r"
  by (simp add: addrs_def)

lemma range_is_empty_iff: "range_is_empty r \<longleftrightarrow> addrs r = {}"
proof
  assume "range_is_empty r"
  then show "addrs r = {}"
    by (auto simp: range_is_empty_def set_eq_iff)
next
  assume "addrs r = {}"
  then have "rstart r \<notin> addrs r" by simp
  then show "range_is_empty r"
    by (simp add: range_is_empty_def)
qed

lemma range_overlaps_iff:
  assumes "\<not> range_is_empty r" and "\<not> range_is_empty q"
  shows "range_overlaps r q \<longleftrightarrow> addrs r \<inter> addrs q \<noteq> {}"
proof
  assume "range_overlaps r q"
  with assms have "max (rstart r) (rstart q) \<in> addrs r \<inter> addrs q"
    by (auto simp: range_overlaps_def range_is_empty_def max_def)
  then show "addrs r \<inter> addrs q \<noteq> {}" by blast
next
  assume "addrs r \<inter> addrs q \<noteq> {}"
  then show "range_overlaps r q"
    by (auto simp: range_overlaps_def)
qed

lemma contained_in_iff:
  assumes "\<not> range_is_empty r"
  shows "contained_in r q \<longleftrightarrow> addrs r \<subseteq> addrs q"
proof
  assume "contained_in r q"
  then show "addrs r \<subseteq> addrs q"
    by (auto simp: contained_in_def contains_range_def)
next
  assume sub: "addrs r \<subseteq> addrs q"
  from assms have r: "rstart r < rend r" by (simp add: range_is_empty_def)
  then have "rstart r \<in> addrs q" using sub by auto
  moreover have "rend r - 1 \<in> addrs q"
  proof -
    from r have "rend r - 1 < rend r" and "rstart r \<le> rend r - 1"
      by (auto simp: word_less_nat_alt word_le_nat_alt unat_sub_if_size word_size)
    then show ?thesis using sub by auto
  qed
  ultimately show "contained_in r q"
    by (auto simp: contained_in_def contains_range_def word_less_nat_alt word_le_nat_alt
        unat_sub_if_size split: if_splits)
qed

section \<open>The page iterator\<close>

text \<open>
  \<^verbatim>\<open>PageIter4K::next\<close> advances with the overflow-checked \<^verbatim>\<open>MemoryAddr::add\<close>; for the aligned
  bounds \<^verbatim>\<open>PageIter4K::new\<close> accepts, the addition never overflows (\<open>pages_step_no_overflow\<close>),
  so the guard below only makes the recursion total.
\<close>

function pages :: "usize \<Rightarrow> usize \<Rightarrow> usize list" where
  "pages s e = (if s < e \<and> s \<le> s + PAGE_SIZE_4K then s # pages (s + PAGE_SIZE_4K) e else [])"
  by pat_completeness auto
termination
proof (relation "measure (\<lambda>(s, e). unat e - unat s)")
  fix s e :: usize
  assume "s < e \<and> s \<le> s + PAGE_SIZE_4K"
  then have "unat s < unat e" and "unat (s + PAGE_SIZE_4K) = unat s + 4096"
    by (auto simp: PAGE_SIZE_4K_def word_less_nat_alt word_le_nat_alt unat_plus_if_size word_size
        split: if_splits)
  then show "((s + PAGE_SIZE_4K, e), (s, e)) \<in> measure (\<lambda>(s, e). unat e - unat s)"
    by simp
qed simp

declare pages.simps [simp del]

definition page_iter :: "usize \<Rightarrow> usize \<Rightarrow> usize list option" where
  "page_iter s e = (if \<not> is_aligned_4k s \<or> \<not> is_aligned_4k e then None else Some (pages s e))"

lemma pages_step_no_overflow:
  assumes "is_aligned_4k s" and "is_aligned_4k e" and "s < e"
  shows "s \<le> s + PAGE_SIZE_4K \<and> unat (s + PAGE_SIZE_4K) = unat s + 4096 \<and> s + PAGE_SIZE_4K \<le> e"
proof -
  from assms obtain k m where k: "unat s = 4096 * k" and m: "unat e = 4096 * m"
    by (auto simp: is_aligned_4k_iff elim!: dvdE)
  with assms(3) have "k < m" by (simp add: word_less_nat_alt)
  then have le: "unat s + 4096 \<le> unat e" using k m by simp
  moreover have "unat e < 2 ^ 64" by (rule unat_less_2p64)
  ultimately have "unat (s + PAGE_SIZE_4K) = unat s + 4096"
    by (simp add: PAGE_SIZE_4K_def unat_plus_if_size word_size)
  with le show ?thesis by (simp add: word_le_nat_alt)
qed

lemma is_aligned_next_page:
  assumes "is_aligned_4k s" and "is_aligned_4k e" and "s < e"
  shows "is_aligned_4k (s + PAGE_SIZE_4K)"
  using assms(1) pages_step_no_overflow [OF assms] by (simp add: is_aligned_4k_iff)

lemma set_pages:
  assumes "is_aligned_4k s" and "is_aligned_4k e"
  shows "set (pages s e) = {p. is_aligned_4k p \<and> s \<le> p \<and> p < e}"
  using assms
proof (induction s e rule: pages.induct)
  case (1 s e)
  show ?case
  proof (cases "s < e")
    case True
    note step = pages_step_no_overflow [OF "1.prems" True]
    have IH: "set (pages (s + PAGE_SIZE_4K) e) =
        {p. is_aligned_4k p \<and> s + PAGE_SIZE_4K \<le> p \<and> p < e}"
      using "1.IH" True step is_aligned_next_page [OF "1.prems" True] "1.prems" by blast
    have next_page: "p = s \<or> s + PAGE_SIZE_4K \<le> p" if "is_aligned_4k p" "s \<le> p" for p
    proof -
      from that "1.prems" obtain k m where "unat p = 4096 * k" and "unat s = 4096 * m"
        by (auto simp: is_aligned_4k_iff elim!: dvdE)
      with that(2) step show ?thesis
        by (cases "k = m") (auto simp: word_le_nat_alt word_unat_eq_iff)
    qed
    show ?thesis
      using True step IH "1.prems" next_page
      by (subst pages.simps) (auto dest: order_trans)
  next
    case False
    then show ?thesis by (subst pages.simps) auto
  qed
qed

lemma distinct_pages:
  assumes "is_aligned_4k s" and "is_aligned_4k e"
  shows "distinct (pages s e)"
  using assms
proof (induction s e rule: pages.induct)
  case (1 s e)
  show ?case
  proof (cases "s < e")
    case True
    note step = pages_step_no_overflow [OF "1.prems" True]
    note al = is_aligned_next_page [OF "1.prems" True]
    have "distinct (pages (s + PAGE_SIZE_4K) e)"
      using "1.IH" True step al "1.prems" by blast
    moreover have "s \<notin> set (pages (s + PAGE_SIZE_4K) e)"
      using step by (auto simp: set_pages [OF al "1.prems"(2)] word_le_nat_alt)
    ultimately show ?thesis by (subst pages.simps) simp
  next
    case False
    then show ?thesis by (subst pages.simps) simp
  qed
qed

end
