(* ===== verification/Ordered_Map.thy ===== *)
theory Ordered_Map
  imports Kernel_Prelude
begin

text \<open>
  \<^verbatim>\<open>alloc::collections::BTreeMap\<close>, as far as the kernel uses it: a list of entries in
  ascending key order. Iteration (\<^verbatim>\<open>iter\<close>, \<^verbatim>\<open>values\<close>, \<^verbatim>\<open>retain\<close>) is iteration over the
  list. The range queries are \<open>bt_last_lt\<close> (\<^verbatim>\<open>range(..k).last()\<close>), \<open>bt_last_le\<close>
  (\<^verbatim>\<open>range(..=k).last()\<close>), \<open>bt_first_ge\<close> (\<^verbatim>\<open>range(k..).next()\<close>) and \<open>bt_from\<close>
  (\<^verbatim>\<open>range(k..)\<close>). The locale \<open>ordered_map\<close> states what the clients rely on, and
  \<open>bt\<close> interprets it on these operations.
\<close>

section \<open>Operations\<close>

type_synonym ('k, 'v) btree_map = "('k \<times> 'v) list"

fun bt_get :: "'k::linorder \<Rightarrow> ('k, 'v) btree_map \<Rightarrow> 'v option" where
  "bt_get k [] = None"
| "bt_get k ((k', v) # m) = (if k = k' then Some v else bt_get k m)"

fun bt_insert :: "'k::linorder \<Rightarrow> 'v \<Rightarrow> ('k, 'v) btree_map \<Rightarrow> ('k, 'v) btree_map" where
  "bt_insert k v [] = [(k, v)]"
| "bt_insert k v ((k', v') # m) =
     (if k < k' then (k, v) # (k', v') # m
      else if k = k' then (k, v) # m
      else (k', v') # bt_insert k v m)"

definition bt_remove :: "'k::linorder \<Rightarrow> ('k, 'v) btree_map \<Rightarrow> ('k, 'v) btree_map" where
  "bt_remove k m = filter (\<lambda>e. fst e \<noteq> k) m"

definition bt_from :: "'k::linorder \<Rightarrow> ('k, 'v) btree_map \<Rightarrow> ('k, 'v) btree_map" where
  "bt_from k m = filter (\<lambda>e. k \<le> fst e) m"

definition list_last :: "'a list \<Rightarrow> 'a option" where
  "list_last xs = (if xs = [] then None else Some (last xs))"

definition list_first :: "'a list \<Rightarrow> 'a option" where
  "list_first xs = (case xs of [] \<Rightarrow> None | x # _ \<Rightarrow> Some x)"

definition bt_last_lt :: "'k::linorder \<Rightarrow> ('k, 'v) btree_map \<Rightarrow> ('k \<times> 'v) option" where
  "bt_last_lt k m = list_last (filter (\<lambda>e. fst e < k) m)"

definition bt_last_le :: "'k::linorder \<Rightarrow> ('k, 'v) btree_map \<Rightarrow> ('k \<times> 'v) option" where
  "bt_last_le k m = list_last (filter (\<lambda>e. fst e \<le> k) m)"

definition bt_first_ge :: "'k::linorder \<Rightarrow> ('k, 'v) btree_map \<Rightarrow> ('k \<times> 'v) option" where
  "bt_first_ge k m = list_first (bt_from k m)"

definition bt_inv :: "('k::linorder, 'v) btree_map \<Rightarrow> bool" where
  "bt_inv m = sorted_wrt (<) (map fst m)"

section \<open>The contract of an ordered map\<close>

locale ordered_map =
  fixes empty :: "'m"
    and get :: "'k::linorder \<Rightarrow> 'm \<Rightarrow> 'v option"
    and insert :: "'k \<Rightarrow> 'v \<Rightarrow> 'm \<Rightarrow> 'm"
    and remove :: "'k \<Rightarrow> 'm \<Rightarrow> 'm"
    and inv :: "'m \<Rightarrow> bool"
  assumes get_empty: "get k empty = None"
    and inv_empty: "inv empty"
    and get_insert: "inv m \<Longrightarrow> get k' (insert k v m) = (if k' = k then Some v else get k' m)"
    and get_remove: "inv m \<Longrightarrow> get k' (remove k m) = (if k' = k then None else get k' m)"
    and inv_insert: "inv m \<Longrightarrow> inv (insert k v m)"
    and inv_remove: "inv m \<Longrightarrow> inv (remove k m)"
begin

text \<open>The keys in use, as the client sees them through \<open>get\<close>.\<close>

definition keys_of :: "'m \<Rightarrow> 'k set" where
  "keys_of m = {k. get k m \<noteq> None}"

lemma keys_empty: "keys_of empty = {}"
  by (simp add: keys_of_def get_empty)

lemma keys_insert: "inv m \<Longrightarrow> keys_of (insert k v m) = Set.insert k (keys_of m)"
  by (auto simp: keys_of_def get_insert)

lemma keys_remove: "inv m \<Longrightarrow> keys_of (remove k m) = keys_of m - {k}"
  by (auto simp: keys_of_def get_remove)

lemma get_insert_remove:
  "inv m \<Longrightarrow> get k m = None \<Longrightarrow> get k' (remove k (insert k v m)) = get k' m"
  by (auto simp: get_insert get_remove inv_insert)

lemma get_insert_twice:
  "inv m \<Longrightarrow> get k' (insert k v (insert k w m)) = get k' (insert k v m)"
  by (simp add: get_insert inv_insert)

end

section \<open>The entry list meets the contract\<close>

lemma bt_inv_Nil [simp]: "bt_inv []"
  by (simp add: bt_inv_def)

lemma bt_inv_Cons: "bt_inv ((k, v) # m) \<longleftrightarrow> (\<forall>e \<in> set m. k < fst e) \<and> bt_inv m"
  by (auto simp: bt_inv_def)

lemma bt_inv_filter: "bt_inv m \<Longrightarrow> bt_inv (filter p m)"
  by (induction m) (auto simp: bt_inv_Cons)

lemma bt_inv_remove: "bt_inv m \<Longrightarrow> bt_inv (bt_remove k m)"
  by (simp add: bt_remove_def bt_inv_filter)

lemma bt_inv_uniq: "bt_inv m \<Longrightarrow> (k, v) \<in> set m \<Longrightarrow> (k, w) \<in> set m \<Longrightarrow> v = w"
  by (induction m) (force simp: bt_inv_Cons)+

lemma bt_inv_distinct: "bt_inv m \<Longrightarrow> distinct (map fst m)"
  unfolding bt_inv_def by (simp add: strict_sorted_iff)

lemma bt_get_Some: "bt_inv m \<Longrightarrow> bt_get k m = Some v \<longleftrightarrow> (k, v) \<in> set m"
  by (induction m) (force simp: bt_inv_Cons split: if_splits)+

lemma bt_get_None: "bt_get k m = None \<longleftrightarrow> k \<notin> fst ` set m"
  by (induction m) (auto split: if_splits)

lemma bt_get_mem: "bt_get k m = Some v \<Longrightarrow> (k, v) \<in> set m"
  by (induction m) (auto split: if_splits)

lemma set_bt_insert_subset: "set (bt_insert k v m) \<subseteq> Set.insert (k, v) (set m)"
  by (induction m) (auto split: if_splits)

lemma bt_inv_insert: "bt_inv m \<Longrightarrow> bt_inv (bt_insert k v m)"
proof (induction m)
  case Nil
  then show ?case by (simp add: bt_inv_Cons)
next
  case (Cons e m)
  obtain k' v' where e: "e = (k', v')" by (cases e)
  have "\<forall>x \<in> set (bt_insert k v m). k' < fst x" if "k' < k"
    using Cons.prems e that set_bt_insert_subset [of k v m] by (auto simp: bt_inv_Cons)
  with Cons e show ?case
    by (auto simp: bt_inv_Cons split: if_splits)
qed

lemma set_bt_insert:
  "bt_inv m \<Longrightarrow> set (bt_insert k v m) = Set.insert (k, v) {e \<in> set m. fst e \<noteq> k}"
  by (induction m) (fastforce simp: bt_inv_Cons split: if_splits)+

lemma set_bt_remove: "set (bt_remove k m) = {e \<in> set m. fst e \<noteq> k}"
  by (auto simp: bt_remove_def)

lemma set_bt_from: "set (bt_from k m) = {e \<in> set m. k \<le> fst e}"
  by (auto simp: bt_from_def)

lemma bt_get_remove:
  "bt_get k' (bt_remove k m) = (if k' = k then None else bt_get k' m)"
  by (induction m) (auto simp: bt_remove_def)

lemma bt_get_insert:
  "bt_get k' (bt_insert k v m) = (if k' = k then Some v else bt_get k' m)"
  by (induction m) auto

interpretation bt: ordered_map "[]" bt_get bt_insert bt_remove bt_inv
  by unfold_locales (auto simp: bt_get_insert bt_get_remove bt_inv_insert bt_inv_remove)

section \<open>Range queries\<close>

lemma list_last_Some: "list_last xs = Some x \<longleftrightarrow> xs \<noteq> [] \<and> x = last xs"
  by (auto simp: list_last_def)

lemma list_last_None: "list_last xs = None \<longleftrightarrow> xs = []"
  by (simp add: list_last_def)

lemma list_first_None: "list_first xs = None \<longleftrightarrow> xs = []"
  by (simp add: list_first_def split: list.splits)

lemma bt_last_max:
  assumes "bt_inv m" and "m \<noteq> []" and "e \<in> set m"
  shows "fst e \<le> fst (last m)"
  using assms
proof (induction m)
  case Nil
  then show ?case by simp
next
  case (Cons x m)
  obtain k v where x: "x = (k, v)" by (cases x)
  show ?case
  proof (cases "m = []")
    case True
    with Cons.prems show ?thesis by simp
  next
    case False
    with Cons.prems x have "k < fst (last m)" and "bt_inv m" by (auto simp: bt_inv_Cons)
    with Cons.IH Cons.prems(3) False x show ?thesis by (auto intro: less_imp_le)
  qed
qed

lemma bt_first_min:
  assumes "bt_inv (x # m)" and "e \<in> set (x # m)"
  shows "fst x \<le> fst e"
  using assms by (cases x) (auto simp: bt_inv_Cons)

lemma bt_last_lt_SomeD:
  assumes "bt_inv m" and "bt_last_lt k m = Some e"
  shows "e \<in> set m \<and> fst e < k \<and> (\<forall>x \<in> set m. fst x < k \<longrightarrow> fst x \<le> fst e)"
proof -
  let ?f = "filter (\<lambda>e. fst e < k) m"
  from assms(2) have ne: "?f \<noteq> []" and e: "e = last ?f"
    by (auto simp: bt_last_lt_def list_last_Some)
  have "e \<in> set ?f" using last_in_set [OF ne] e by blast
  moreover have "\<forall>x \<in> set ?f. fst x \<le> fst e"
    using bt_last_max [OF bt_inv_filter [OF assms(1)] ne] e by blast
  ultimately show ?thesis by auto
qed

lemma bt_last_lt_None: "bt_last_lt k m = None \<longleftrightarrow> (\<forall>x \<in> set m. \<not> fst x < k)"
  by (auto simp: bt_last_lt_def list_last_None filter_empty_conv)

lemma bt_last_le_SomeD:
  assumes "bt_inv m" and "bt_last_le k m = Some e"
  shows "e \<in> set m \<and> fst e \<le> k \<and> (\<forall>x \<in> set m. fst x \<le> k \<longrightarrow> fst x \<le> fst e)"
proof -
  let ?f = "filter (\<lambda>e. fst e \<le> k) m"
  from assms(2) have ne: "?f \<noteq> []" and e: "e = last ?f"
    by (auto simp: bt_last_le_def list_last_Some)
  have "e \<in> set ?f" using last_in_set [OF ne] e by blast
  moreover have "\<forall>x \<in> set ?f. fst x \<le> fst e"
    using bt_last_max [OF bt_inv_filter [OF assms(1)] ne] e by blast
  ultimately show ?thesis by auto
qed

lemma bt_last_le_None: "bt_last_le k m = None \<longleftrightarrow> (\<forall>x \<in> set m. \<not> fst x \<le> k)"
  by (auto simp: bt_last_le_def list_last_None filter_empty_conv)

lemma bt_first_ge_SomeD:
  assumes "bt_inv m" and "bt_first_ge k m = Some e"
  shows "e \<in> set m \<and> k \<le> fst e \<and> (\<forall>x \<in> set m. k \<le> fst x \<longrightarrow> fst e \<le> fst x)"
proof -
  from assms(2) obtain es where f: "bt_from k m = e # es"
    by (auto simp: bt_first_ge_def list_first_def split: list.splits)
  have "bt_inv (e # es)"
    using bt_inv_filter [OF assms(1), of "\<lambda>e. k \<le> fst e"] f by (simp add: bt_from_def)
  then have "\<forall>x \<in> set (bt_from k m). fst e \<le> fst x"
    using bt_first_min f by metis
  moreover have "e \<in> set (bt_from k m)" by (simp add: f)
  ultimately show ?thesis by (auto simp: set_bt_from)
qed

lemma bt_first_ge_None: "bt_first_ge k m = None \<longleftrightarrow> (\<forall>x \<in> set m. \<not> k \<le> fst x)"
  by (auto simp: bt_first_ge_def list_first_None bt_from_def filter_empty_conv)

text \<open>The same facts on entries written as pairs, and when a query has an answer.\<close>

lemma bt_last_lt_pair:
  assumes "bt_inv m" and "bt_last_lt k m = Some (k', v)"
  shows "(k', v) \<in> set m" and "k' < k" and "\<And>j w. (j, w) \<in> set m \<Longrightarrow> j < k \<Longrightarrow> j \<le> k'"
  using bt_last_lt_SomeD [OF assms] by force+

lemma bt_last_le_pair:
  assumes "bt_inv m" and "bt_last_le k m = Some (k', v)"
  shows "(k', v) \<in> set m" and "k' \<le> k" and "\<And>j w. (j, w) \<in> set m \<Longrightarrow> j \<le> k \<Longrightarrow> j \<le> k'"
  using bt_last_le_SomeD [OF assms] by force+

lemma bt_first_ge_pair:
  assumes "bt_inv m" and "bt_first_ge k m = Some (k', v)"
  shows "(k', v) \<in> set m" and "k \<le> k'" and "\<And>j w. (j, w) \<in> set m \<Longrightarrow> k \<le> j \<Longrightarrow> k' \<le> j"
  using bt_first_ge_SomeD [OF assms] by force+

lemma bt_last_lt_ex: "(j, w) \<in> set m \<Longrightarrow> j < k \<Longrightarrow> \<exists>k' v. bt_last_lt k m = Some (k', v)"
  by (cases "bt_last_lt k m") (auto simp: bt_last_lt_None)

lemma bt_last_le_ex: "(j, w) \<in> set m \<Longrightarrow> j \<le> k \<Longrightarrow> \<exists>k' v. bt_last_le k m = Some (k', v)"
  by (cases "bt_last_le k m") (auto simp: bt_last_le_None)

lemma bt_first_ge_ex: "(j, w) \<in> set m \<Longrightarrow> k \<le> j \<Longrightarrow> \<exists>k' v. bt_first_ge k m = Some (k', v)"
  by (cases "bt_first_ge k m") (auto simp: bt_first_ge_None)

end
