(* ===== verification/Memory_Set.thy ===== *)
theory Memory_Set
  imports Memory_Addr Ordered_Map
begin

text \<open>
  The set of memory areas of an address space (\<^verbatim>\<open>vendor/memory_set\<close>): an ordered map from
  start address to area. The mapping backend (the \<^verbatim>\<open>MappingBackend\<close> trait) is a record of its
  three methods, over a page-table state the set threads through. A backend method returns
  the boolean of the trait or panics.

  Lemmas: \<open>areas_wf\<close> (keys are the areas' starts, areas are not empty and do not overlap) is kept
  by every operation that succeeds; \<open>mapping_of\<close> reads the set as a partial function from
  addresses to flags and backend, and \<^verbatim>\<open>map\<close>, \<^verbatim>\<open>unmap\<close>, \<^verbatim>\<open>protect\<close> and \<^verbatim>\<open>clear\<close> refine the obvious
  updates of that function; \<^verbatim>\<open>find\<close>, \<^verbatim>\<open>overlaps\<close> and \<^verbatim>\<open>find_free_area\<close> are characterised by it.
\<close>

section \<open>Areas and backends\<close>

datatype mapping_error = MapInvalidParam | MapAlreadyExists | MapBadState

record ('f, 'b) memory_area =
  ma_range :: addr_range
  ma_flags :: 'f
  ma_backend :: 'b

record ('f, 'b, 'pt) mapping_backend =
  be_map :: "'b \<Rightarrow> usize \<Rightarrow> usize \<Rightarrow> 'f \<Rightarrow> 'pt \<Rightarrow> (mapping_error, bool) outcome \<times> 'pt"
  be_unmap :: "'b \<Rightarrow> usize \<Rightarrow> usize \<Rightarrow> 'pt \<Rightarrow> (mapping_error, bool) outcome \<times> 'pt"
  be_protect :: "'b \<Rightarrow> usize \<Rightarrow> usize \<Rightarrow> 'f \<Rightarrow> 'pt \<Rightarrow> (mapping_error, bool) outcome \<times> 'pt"

definition area_new :: "usize \<Rightarrow> usize \<Rightarrow> 'f \<Rightarrow> 'b \<Rightarrow> (mapping_error, ('f, 'b) memory_area) outcome" where
  "area_new s sz f b =
     obind (from_start_size s sz) (\<lambda>r. Ok \<lparr>ma_range = r, ma_flags = f, ma_backend = b\<rparr>)"

definition area_start :: "('f, 'b) memory_area \<Rightarrow> usize" where
  "area_start a = rstart (ma_range a)"

definition area_end :: "('f, 'b) memory_area \<Rightarrow> usize" where
  "area_end a = rend (ma_range a)"

definition area_size :: "('f, 'b) memory_area \<Rightarrow> usize" where
  "area_size a = range_size (ma_range a)"

definition set_flags :: "'f \<Rightarrow> ('f, 'b) memory_area \<Rightarrow> ('f, 'b) memory_area" where
  "set_flags f a = a\<lparr>ma_flags := f\<rparr>"

definition set_end :: "usize \<Rightarrow> ('f, 'b) memory_area \<Rightarrow> ('f, 'b) memory_area" where
  "set_end e a = a\<lparr>ma_range := (ma_range a)\<lparr>rend := e\<rparr>\<rparr>"

text \<open>\<^verbatim>\<open>b.then_some(()).ok_or(MappingError::BadState)\<close>\<close>

definition then_ok :: "(mapping_error, bool) outcome \<times> 'pt \<Rightarrow> (mapping_error, unit) outcome \<times> 'pt" where
  "then_ok m = sbind m (\<lambda>ok pt. (if ok then Ok () else Err MapBadState, pt))"

definition map_area ::
  "('f, 'b, 'pt) mapping_backend \<Rightarrow> ('f, 'b) memory_area \<Rightarrow> 'pt \<Rightarrow> (mapping_error, unit) outcome \<times> 'pt" where
  "map_area be a pt = then_ok (be_map be (ma_backend a) (area_start a) (area_size a) (ma_flags a) pt)"

definition unmap_area ::
  "('f, 'b, 'pt) mapping_backend \<Rightarrow> ('f, 'b) memory_area \<Rightarrow> 'pt \<Rightarrow> (mapping_error, unit) outcome \<times> 'pt" where
  "unmap_area be a pt = then_ok (be_unmap be (ma_backend a) (area_start a) (area_size a) pt)"

text \<open>\<^verbatim>\<open>protect_area\<close> ignores the boolean of the backend and succeeds unless it panics.\<close>

definition protect_area ::
  "('f, 'b, 'pt) mapping_backend \<Rightarrow> 'f \<Rightarrow> ('f, 'b) memory_area \<Rightarrow> 'pt \<Rightarrow> (mapping_error, unit) outcome \<times> 'pt" where
  "protect_area be new_flags a pt =
     sbind (be_protect be (ma_backend a) (area_start a) (area_size a) new_flags pt) (\<lambda>_ pt. (Ok (), pt))"

definition shrink_left ::
  "('f, 'b, 'pt) mapping_backend \<Rightarrow> usize \<Rightarrow> ('f, 'b) memory_area \<Rightarrow> 'pt
     \<Rightarrow> (mapping_error, ('f, 'b) memory_area) outcome \<times> 'pt" where
  "shrink_left be new_size a pt =
     (if \<not> (0 < new_size \<and> new_size < area_size a) then (Panic, pt)
      else let old_size = area_size a; unmap_size = old_size - new_size in
        sbind (then_ok (be_unmap be (ma_backend a) (area_start a) unmap_size pt))
          (\<lambda>_ pt. (Ok (a\<lparr>ma_range := (ma_range a)\<lparr>rstart := rstart (ma_range a) + unmap_size\<rparr>\<rparr>), pt)))"

definition shrink_right ::
  "('f, 'b, 'pt) mapping_backend \<Rightarrow> usize \<Rightarrow> ('f, 'b) memory_area \<Rightarrow> 'pt
     \<Rightarrow> (mapping_error, ('f, 'b) memory_area) outcome \<times> 'pt" where
  "shrink_right be new_size a pt =
     (if \<not> (0 < new_size \<and> new_size < area_size a) then (Panic, pt)
      else let old_size = area_size a; unmap_size = old_size - new_size;
             unmap_start = area_start a + new_size in
        sbind (then_ok (be_unmap be (ma_backend a) unmap_start unmap_size pt))
          (\<lambda>_ pt. (Ok (a\<lparr>ma_range := (ma_range a)\<lparr>rend := rend (ma_range a) - unmap_size\<rparr>\<rparr>), pt)))"

text \<open>\<open>split pos a\<close>: the left part that stays and the right part that is returned.\<close>

definition split ::
  "usize \<Rightarrow> ('f, 'b) memory_area \<Rightarrow> (mapping_error, (('f, 'b) memory_area \<times> ('f, 'b) memory_area) option) outcome" where
  "split pos a =
     (if area_start a < pos \<and> pos < area_end a then
        obind (area_new pos (area_end a - pos) (ma_flags a) (ma_backend a))
          (\<lambda>right. Ok (Some (set_end pos a, right)))
      else Ok None)"

section \<open>The set\<close>

type_synonym ('f, 'b) areas = "(usize, ('f, 'b) memory_area) btree_map"

definition memset_overlaps :: "addr_range \<Rightarrow> ('f, 'b) areas \<Rightarrow> bool" where
  "memset_overlaps rg m =
     ((case bt_last_lt (rstart rg) m of
         Some (_, before) \<Rightarrow> range_overlaps (ma_range before) rg
       | None \<Rightarrow> False) \<or>
      (case bt_first_ge (rstart rg) m of
         Some (_, after) \<Rightarrow> range_overlaps (ma_range after) rg
       | None \<Rightarrow> False))"

definition memset_find :: "usize \<Rightarrow> ('f, 'b) areas \<Rightarrow> ('f, 'b) memory_area option" where
  "memset_find addr m =
     (case bt_last_le addr m of
        Some (_, a) \<Rightarrow> if range_contains (ma_range a) addr then Some a else None
      | None \<Rightarrow> None)"

text \<open>The loop of \<^verbatim>\<open>find_free_area\<close>: \<open>Inl\<close> is its early return, \<open>Inr\<close> the final \<^verbatim>\<open>last_end\<close>.\<close>

fun ffa_loop :: "usize \<Rightarrow> usize \<Rightarrow> ('f, 'b) areas \<Rightarrow> usize + usize" where
  "ffa_loop last_end sz [] = Inr last_end"
| "ffa_loop last_end sz ((addr, a) # m) =
     (if (case checked_add last_end sz of Some e \<Rightarrow> e \<le> addr | None \<Rightarrow> False) then Inl last_end
      else ffa_loop (area_end a) sz m)"

definition memset_find_free_area :: "usize \<Rightarrow> usize \<Rightarrow> addr_range \<Rightarrow> ('f, 'b) areas \<Rightarrow> usize option" where
  "memset_find_free_area hint sz limit m =
     (let last_end = max hint (rstart limit);
          last_end = (case bt_last_lt last_end m of
                        Some (_, a) \<Rightarrow> max last_end (area_end a)
                      | None \<Rightarrow> last_end)
      in case ffa_loop last_end sz (bt_from last_end m) of
           Inl addr \<Rightarrow> Some addr
         | Inr last_end \<Rightarrow>
             if (case checked_add last_end sz of Some e \<Rightarrow> e \<le> rend limit | None \<Rightarrow> False)
             then Some last_end else None)"

text \<open>\<^verbatim>\<open>retain\<close> with the closure of \<^verbatim>\<open>unmap\<close>: contained areas are unmapped (an error panics) and dropped.\<close>

fun retain_unmap ::
  "('f, 'b, 'pt) mapping_backend \<Rightarrow> addr_range \<Rightarrow> ('f, 'b) areas \<Rightarrow> 'pt
     \<Rightarrow> (mapping_error, ('f, 'b) areas) outcome \<times> 'pt" where
  "retain_unmap be rg [] pt = (Ok [], pt)"
| "retain_unmap be rg ((k, a) # m) pt =
     (if contained_in (ma_range a) rg then
        (case unmap_area be a pt of
           (Ok _, pt) \<Rightarrow> retain_unmap be rg m pt
         | (_, pt) \<Rightarrow> (Panic, pt))
      else sbind (retain_unmap be rg m pt) (\<lambda>m' pt. (Ok ((k, a) # m'), pt)))"

type_synonym ('f, 'b, 'pt) memset_state = "('f, 'b) areas \<times> 'pt"

text \<open>Shrink or split the area that reaches over the left boundary of the unmapped range.\<close>

definition unmap_left ::
  "('f, 'b, 'pt) mapping_backend \<Rightarrow> usize \<Rightarrow> usize \<Rightarrow> ('f, 'b, 'pt) memset_state
     \<Rightarrow> (mapping_error, unit) outcome \<times> ('f, 'b, 'pt) memset_state" where
  "unmap_left be s e = (\<lambda>(m, pt).
     case bt_last_lt s m of
       None \<Rightarrow> (Ok (), (m, pt))
     | Some (before_start, before) \<Rightarrow>
         if area_end before > s then
           if area_end before \<le> e then
             (case shrink_right be (s - before_start) before pt of
                (Ok before', pt) \<Rightarrow> (Ok (), (bt_insert before_start before' m, pt))
              | (Err x, pt) \<Rightarrow> (Err x, (m, pt))
              | (Panic, pt) \<Rightarrow> (Panic, (m, pt)))
           else
             (case split e before of
                Ok (Some (left, right_part)) \<Rightarrow>
                  (case shrink_right be (s - before_start) left pt of
                     (Ok left', pt) \<Rightarrow>
                       if area_start right_part = e
                       then (Ok (), (bt_insert e right_part (bt_insert before_start left' m), pt))
                       else (Panic, (m, pt))
                   | (Err x, pt) \<Rightarrow> (Err x, (bt_insert before_start left m, pt))
                   | (Panic, pt) \<Rightarrow> (Panic, (m, pt)))
              | _ \<Rightarrow> (Panic, (m, pt)))
         else (Ok (), (m, pt)))"

text \<open>Shrink the area that reaches over the right boundary.\<close>

definition unmap_right ::
  "('f, 'b, 'pt) mapping_backend \<Rightarrow> usize \<Rightarrow> usize \<Rightarrow> ('f, 'b, 'pt) memset_state
     \<Rightarrow> (mapping_error, unit) outcome \<times> ('f, 'b, 'pt) memset_state" where
  "unmap_right be s e = (\<lambda>(m, pt).
     case bt_first_ge s m of
       None \<Rightarrow> (Ok (), (m, pt))
     | Some (after_start, after) \<Rightarrow>
         if after_start < e then
           let m' = bt_remove after_start m in
           (case checked_sub (area_end after) e of
              None \<Rightarrow> (Panic, (m', pt))
            | Some new_size \<Rightarrow>
                (case shrink_left be new_size after pt of
                   (Ok new_area, pt) \<Rightarrow>
                     if area_start new_area = e then (Ok (), (bt_insert e new_area m', pt))
                     else (Panic, (m', pt))
                 | (Err x, pt) \<Rightarrow> (Err x, (m', pt))
                 | (Panic, pt) \<Rightarrow> (Panic, (m', pt))))
         else (Ok (), (m, pt)))"

definition memset_unmap ::
  "('f, 'b, 'pt) mapping_backend \<Rightarrow> usize \<Rightarrow> usize \<Rightarrow> ('f, 'b, 'pt) memset_state
     \<Rightarrow> (mapping_error, unit) outcome \<times> ('f, 'b, 'pt) memset_state" where
  "memset_unmap be s sz st =
     (case try_from_start_size s sz of
        None \<Rightarrow> (Err MapInvalidParam, st)
      | Some rg \<Rightarrow>
          if range_is_empty rg then (Ok (), st)
          else case retain_unmap be rg (fst st) (snd st) of
            (Ok m, pt) \<Rightarrow>
              sbind (unmap_left be s (rend rg) (m, pt))
                (\<lambda>_ st. unmap_right be s (rend rg) st)
          | (Err x, pt) \<Rightarrow> (Err x, (fst st, pt))
          | (Panic, pt) \<Rightarrow> (Panic, (fst st, pt)))"

text \<open>The start of \<^verbatim>\<open>map\<close>: existing areas in the way are unmapped or make it fail.\<close>

definition make_room ::
  "('f, 'b, 'pt) mapping_backend \<Rightarrow> ('f, 'b) memory_area \<Rightarrow> bool \<Rightarrow> ('f, 'b, 'pt) memset_state
     \<Rightarrow> (mapping_error, unit) outcome \<times> ('f, 'b, 'pt) memset_state" where
  "make_room be area unmap_overlap st =
     (if memset_overlaps (ma_range area) (fst st) then
        if unmap_overlap then memset_unmap be (area_start area) (area_size area) st
        else (Err MapAlreadyExists, st)
      else (Ok (), st))"

definition memset_map ::
  "('f, 'b, 'pt) mapping_backend \<Rightarrow> ('f, 'b) memory_area \<Rightarrow> bool \<Rightarrow> ('f, 'b, 'pt) memset_state
     \<Rightarrow> (mapping_error, unit) outcome \<times> ('f, 'b, 'pt) memset_state" where
  "memset_map be area unmap_overlap st =
     (if range_is_empty (ma_range area) then (Err MapInvalidParam, st)
      else sbind (make_room be area unmap_overlap st)
        (\<lambda>_ (m, pt).
           case map_area be area pt of
             (Ok _, pt) \<Rightarrow>
               if bt_get (area_start area) m = None
               then (Ok (), (bt_insert (area_start area) area m, pt))
               else (Panic, (m, pt))
           | (Err x, pt) \<Rightarrow> (Err x, (m, pt))
           | (Panic, pt) \<Rightarrow> (Panic, (m, pt))))"

fun unmap_all ::
  "('f, 'b, 'pt) mapping_backend \<Rightarrow> ('f, 'b) areas \<Rightarrow> 'pt \<Rightarrow> (mapping_error, unit) outcome \<times> 'pt" where
  "unmap_all be [] pt = (Ok (), pt)"
| "unmap_all be ((k, a) # m) pt = sbind (unmap_area be a pt) (\<lambda>_ pt. unmap_all be m pt)"

definition memset_clear ::
  "('f, 'b, 'pt) mapping_backend \<Rightarrow> ('f, 'b, 'pt) memset_state
     \<Rightarrow> (mapping_error, unit) outcome \<times> ('f, 'b, 'pt) memset_state" where
  "memset_clear be = (\<lambda>(m, pt).
     case unmap_all be m pt of
       (Ok _, pt) \<Rightarrow> (Ok (), ([], pt))
     | (Err x, pt) \<Rightarrow> (Err x, (m, pt))
     | (Panic, pt) \<Rightarrow> (Panic, (m, pt)))"

text \<open>
  One iteration of the loop of \<^verbatim>\<open>protect\<close> that neither skips nor breaks: the area left in
  place and the entries pushed to \<^verbatim>\<open>to_insert\<close>.
\<close>

definition protect_step ::
  "('f, 'b, 'pt) mapping_backend \<Rightarrow> usize \<Rightarrow> usize \<Rightarrow> usize \<Rightarrow> 'f \<Rightarrow> usize \<times> ('f, 'b) memory_area \<Rightarrow> 'pt
     \<Rightarrow> (mapping_error, ('f, 'b) memory_area \<times> ('f, 'b) areas) outcome \<times> 'pt" where
  "protect_step be s sz e new_flags = (\<lambda>(k, a) pt.
     if k \<ge> s \<and> area_end a \<le> e then
       sbind (protect_area be new_flags a pt) (\<lambda>_ pt. (Ok (set_flags new_flags a, []), pt))
     else if k < s \<and> area_end a > e then
       (case split e a of
          Ok (Some (left, right_part)) \<Rightarrow>
            (case area_new s sz (ma_flags left) (ma_backend left) of
               Ok middle \<Rightarrow>
                 sbind (protect_area be new_flags middle pt)
                   (\<lambda>_ pt. (Ok (set_end s left,
                       [(area_start right_part, right_part),
                        (area_start middle, set_flags new_flags middle)]), pt))
             | _ \<Rightarrow> (Panic, pt))
        | _ \<Rightarrow> (Panic, pt))
     else if area_end a > e then
       (case split e a of
          Ok (Some (left, right_part)) \<Rightarrow>
            sbind (protect_area be new_flags left pt)
              (\<lambda>_ pt. (Ok (set_flags new_flags left, [(area_start right_part, right_part)]), pt))
        | _ \<Rightarrow> (Panic, pt))
     else
       (case split s a of
          Ok (Some (left, right_part)) \<Rightarrow>
            sbind (protect_area be new_flags right_part pt)
              (\<lambda>_ pt. (Ok (left, [(area_start right_part, set_flags new_flags right_part)]), pt))
        | _ \<Rightarrow> (Panic, pt)))"

fun protect_loop ::
  "('f, 'b, 'pt) mapping_backend \<Rightarrow> ('f \<Rightarrow> 'f option) \<Rightarrow> usize \<Rightarrow> usize \<Rightarrow> usize \<Rightarrow> ('f, 'b) areas \<Rightarrow> 'pt
     \<Rightarrow> (mapping_error, ('f, 'b) areas \<times> ('f, 'b) areas) outcome \<times> 'pt" where
  "protect_loop be upd s sz e [] pt = (Ok ([], []), pt)"
| "protect_loop be upd s sz e ((k, a) # m) pt =
     (case upd (ma_flags a) of
        None \<Rightarrow> sbind (protect_loop be upd s sz e m pt) (\<lambda>(m', ins) pt. (Ok ((k, a) # m', ins), pt))
      | Some new_flags \<Rightarrow>
          if k \<ge> e then (Ok ((k, a) # m, []), pt)
          else if area_end a \<le> s then
            sbind (protect_loop be upd s sz e m pt) (\<lambda>(m', ins) pt. (Ok ((k, a) # m', ins), pt))
          else
            (case protect_step be s sz e new_flags (k, a) pt of
               (Ok (a', ins), pt) \<Rightarrow>
                 sbind (protect_loop be upd s sz e m pt)
                   (\<lambda>(m', ins') pt. (Ok ((k, a') # m', ins @ ins'), pt))
             | (Err x, pt) \<Rightarrow> (Err x, pt)
             | (Panic, pt) \<Rightarrow> (Panic, pt)))"

definition memset_protect ::
  "('f, 'b, 'pt) mapping_backend \<Rightarrow> usize \<Rightarrow> usize \<Rightarrow> ('f \<Rightarrow> 'f option) \<Rightarrow> ('f, 'b, 'pt) memset_state
     \<Rightarrow> (mapping_error, unit) outcome \<times> ('f, 'b, 'pt) memset_state" where
  "memset_protect be s sz upd = (\<lambda>(m, pt).
     case checked_add s sz of
       None \<Rightarrow> (Err MapInvalidParam, (m, pt))
     | Some e \<Rightarrow>
         (case protect_loop be upd s sz e m pt of
            (Ok (m', ins), pt) \<Rightarrow> (Ok (), (fold (\<lambda>(k, a) m. bt_insert k a m) ins m', pt))
          | (Err x, pt) \<Rightarrow> (Err x, (m, pt))
          | (Panic, pt) \<Rightarrow> (Panic, (m, pt))))"

section \<open>Well-formed sets and their meaning\<close>

definition areas_wf :: "('f, 'b) areas \<Rightarrow> bool" where
  "areas_wf m \<longleftrightarrow> bt_inv m
     \<and> (\<forall>(k, a) \<in> set m. k = area_start a \<and> area_start a < area_end a)
     \<and> (\<forall>(k, a) \<in> set m. \<forall>(k', a') \<in> set m. k < k' \<longrightarrow> area_end a \<le> k')"

text \<open>The flags and the backend of the area that holds an address.\<close>

definition mapping_of :: "('f, 'b) areas \<Rightarrow> usize \<Rightarrow> ('f \<times> 'b) option" where
  "mapping_of m x =
     (case List.find (\<lambda>(k, a). range_contains (ma_range a) x) m of
        Some (k, a) \<Rightarrow> Some (ma_flags a, ma_backend a)
      | None \<Rightarrow> None)"

definition covers :: "('f, 'b) areas \<Rightarrow> usize \<Rightarrow> ('f \<times> 'b) \<Rightarrow> bool" where
  "covers m x v \<longleftrightarrow>
     (\<exists>k a. (k, a) \<in> set m \<and> area_start a \<le> x \<and> x < area_end a \<and> v = (ma_flags a, ma_backend a))"

lemma range_contains_area:
  "range_contains (ma_range a) x \<longleftrightarrow> area_start a \<le> x \<and> x < area_end a"
  by (simp add: range_contains_def area_start_def area_end_def)

lemma areas_wf_Nil [simp]: "areas_wf []"
  by (simp add: areas_wf_def)

lemma areas_wf_inv: "areas_wf m \<Longrightarrow> bt_inv m"
  by (simp add: areas_wf_def)

lemma areas_wf_entry:
  "areas_wf m \<Longrightarrow> (k, a) \<in> set m \<Longrightarrow> k = area_start a \<and> k < area_end a"
  by (auto simp: areas_wf_def)

lemma areas_wf_order:
  "areas_wf m \<Longrightarrow> (k, a) \<in> set m \<Longrightarrow> (k', a') \<in> set m \<Longrightarrow> k < k' \<Longrightarrow> area_end a \<le> k'"
  unfolding areas_wf_def by blast

lemma areas_wfI:
  assumes "bt_inv m"
    and "\<And>k a. (k, a) \<in> set m \<Longrightarrow> k = area_start a \<and> k < area_end a"
    and "\<And>k a k' a'. (k, a) \<in> set m \<Longrightarrow> (k', a') \<in> set m \<Longrightarrow> k < k' \<Longrightarrow> area_end a \<le> k'"
  shows "areas_wf m"
  unfolding areas_wf_def using assms by blast

lemma areas_wf_filter: "areas_wf m \<Longrightarrow> areas_wf (filter p m)"
  by (rule areas_wfI) (auto simp: bt_inv_filter areas_wf_inv dest: areas_wf_entry intro: areas_wf_order)

lemma areas_wf_remove: "areas_wf m \<Longrightarrow> areas_wf (bt_remove k m)"
  by (simp add: bt_remove_def areas_wf_filter)

lemma areas_wf_insert:
  assumes wf: "areas_wf m" and k: "k = area_start a" "k < area_end a"
    and left: "\<And>k' a'. (k', a') \<in> set m \<Longrightarrow> k' < k \<Longrightarrow> area_end a' \<le> k"
    and right: "\<And>k' a'. (k', a') \<in> set m \<Longrightarrow> k < k' \<Longrightarrow> area_end a \<le> k'"
  shows "areas_wf (bt_insert k a m)"
proof (rule areas_wfI)
  note mem = set_bt_insert [OF areas_wf_inv [OF wf]]
  show "bt_inv (bt_insert k a m)" using wf by (simp add: areas_wf_inv bt_inv_insert)
  show "k' = area_start a' \<and> k' < area_end a'" if "(k', a') \<in> set (bt_insert k a m)" for k' a'
    using that k areas_wf_entry [OF wf] by (auto simp: mem)
  show "area_end a1 \<le> k2"
    if "(k1, a1) \<in> set (bt_insert k a m)" "(k2, a2) \<in> set (bt_insert k a m)" "k1 < k2" for k1 a1 k2 a2
    using that left right areas_wf_order [OF wf] by (auto simp: mem)
qed

lemma areas_wf_unique:
  assumes "areas_wf m" and "(k, a) \<in> set m" and "(k', a') \<in> set m"
    and "area_start a \<le> x" "x < area_end a" "area_start a' \<le> x" "x < area_end a'"
  shows "k = k' \<and> a = a'"
proof -
  have "\<not> k < k'"
    using areas_wf_order [OF assms(1-3)] areas_wf_entry [OF assms(1,3)] assms(5,6) by auto
  moreover have "\<not> k' < k"
    using areas_wf_order [OF assms(1,3,2)] areas_wf_entry [OF assms(1,2)] assms(4,7) by auto
  ultimately have "k = k'" by simp
  with assms(1-3) show ?thesis using bt_inv_uniq areas_wf_inv by metis
qed

lemma covers_uniq: "areas_wf m \<Longrightarrow> covers m x v \<Longrightarrow> covers m x w \<Longrightarrow> v = w"
  unfolding covers_def using areas_wf_unique by metis

lemma mapping_of_Some: "areas_wf m \<Longrightarrow> mapping_of m x = Some v \<longleftrightarrow> covers m x v"
proof
  assume "mapping_of m x = Some v"
  then show "covers m x v"
    by (auto simp: mapping_of_def covers_def range_contains_area
        split: option.splits prod.splits dest!: find_SomeD)
next
  assume wf: "areas_wf m" and c: "covers m x v"
  then have "List.find (\<lambda>(k, a). range_contains (ma_range a) x) m \<noteq> None"
    by (auto simp: find_None covers_def range_contains_area)
  then obtain k a where f: "List.find (\<lambda>(k, a). range_contains (ma_range a) x) m = Some (k, a)"
    by auto
  then have "covers m x (ma_flags a, ma_backend a)"
    by (auto simp: covers_def range_contains_area dest!: find_SomeD)
  with wf c have "v = (ma_flags a, ma_backend a)" using covers_uniq by metis
  with f show "mapping_of m x = Some v" by (simp add: mapping_of_def)
qed

lemma mapping_of_eqI:
  assumes "areas_wf m" and "areas_wf m'" and "\<And>v. covers m' x v \<longleftrightarrow> covers m x v"
  shows "mapping_of m' x = mapping_of m x"
  using assms by (cases "mapping_of m x") (metis mapping_of_Some not_Some_eq)+

lemma mapping_of_NoneI: "areas_wf m \<Longrightarrow> (\<And>v. \<not> covers m x v) \<Longrightarrow> mapping_of m x = None"
  by (metis mapping_of_Some not_Some_eq)

lemma covers_insert:
  "bt_inv m \<Longrightarrow> covers (bt_insert k a m) x v \<longleftrightarrow>
     (area_start a \<le> x \<and> x < area_end a \<and> v = (ma_flags a, ma_backend a)) \<or> covers (bt_remove k m) x v"
  by (auto simp: covers_def set_bt_insert set_bt_remove)

lemma covers_remove:
  assumes wf: "areas_wf m" and ka: "(k, a) \<in> set m"
  shows "covers (bt_remove k m) x v \<longleftrightarrow> covers m x v \<and> \<not> (area_start a \<le> x \<and> x < area_end a)"
proof
  assume "covers (bt_remove k m) x v"
  then show "covers m x v \<and> \<not> (area_start a \<le> x \<and> x < area_end a)"
    using areas_wf_unique [OF wf _ ka] by (auto simp: covers_def set_bt_remove)
next
  assume "covers m x v \<and> \<not> (area_start a \<le> x \<and> x < area_end a)"
  then obtain k' a' where "(k', a') \<in> set m" "area_start a' \<le> x" "x < area_end a'"
      "v = (ma_flags a', ma_backend a')" "a' \<noteq> a"
    by (auto simp: covers_def)
  moreover from this have "k' \<noteq> k" using bt_inv_uniq areas_wf_inv [OF wf] ka by metis
  ultimately show "covers (bt_remove k m) x v"
    by (auto simp: covers_def set_bt_remove)
qed

section \<open>Lookups\<close>

lemma memset_find_correct:
  assumes wf: "areas_wf m"
  shows "memset_find x m = Some a \<longleftrightarrow> (\<exists>k. (k, a) \<in> set m \<and> area_start a \<le> x \<and> x < area_end a)"
proof
  assume "memset_find x m = Some a"
  then obtain k where "bt_last_le x m = Some (k, a)" and "range_contains (ma_range a) x"
    by (auto simp: memset_find_def split: option.splits if_splits)
  then show "\<exists>k. (k, a) \<in> set m \<and> area_start a \<le> x \<and> x < area_end a"
    using bt_last_le_pair(1) [OF areas_wf_inv [OF wf]] by (auto simp: range_contains_area)
next
  assume "\<exists>k. (k, a) \<in> set m \<and> area_start a \<le> x \<and> x < area_end a"
  then obtain k where ka: "(k, a) \<in> set m" and x: "area_start a \<le> x" "x < area_end a" by blast
  from areas_wf_entry [OF wf ka] x have "k \<le> x" by simp
  then obtain k' a' where l: "bt_last_le x m = Some (k', a')" using bt_last_le_ex [OF ka] by blast
  note l' = bt_last_le_pair [OF areas_wf_inv [OF wf] l]
  have "k \<le> k'" using l'(3) [OF ka \<open>k \<le> x\<close>] .
  moreover have "\<not> k < k'"
    using areas_wf_order [OF wf ka l'(1)] x(2) l'(2) by auto
  ultimately have "k' = k" by simp
  with l'(1) ka have "a' = a" using bt_inv_uniq areas_wf_inv [OF wf] by metis
  with l x show "memset_find x m = Some a"
    by (simp add: memset_find_def range_contains_area)
qed

lemma memset_find_mapping_of:
  assumes "areas_wf m"
  shows "mapping_of m x = map_option (\<lambda>a. (ma_flags a, ma_backend a)) (memset_find x m)"
proof (cases "memset_find x m")
  case None
  then have "\<not> covers m x v" for v
    unfolding covers_def using memset_find_correct [OF assms] by (metis option.distinct(1))
  with None show ?thesis using mapping_of_NoneI [OF assms] by simp
next
  case (Some a)
  then have "covers m x (ma_flags a, ma_backend a)"
    using memset_find_correct [OF assms] by (auto simp: covers_def)
  with Some show ?thesis using mapping_of_Some [OF assms] by simp
qed

lemma memset_overlaps_correct:
  assumes wf: "areas_wf m" and ne: "rstart rg < rend rg"
  shows "memset_overlaps rg m \<longleftrightarrow>
    (\<exists>k a. (k, a) \<in> set m \<and> area_start a < rend rg \<and> rstart rg < area_end a)"
proof
  assume "memset_overlaps rg m"
  then obtain k a where "bt_last_lt (rstart rg) m = Some (k, a) \<or> bt_first_ge (rstart rg) m = Some (k, a)"
    and "range_overlaps (ma_range a) rg"
    by (auto simp: memset_overlaps_def split: option.splits)
  moreover from this have "(k, a) \<in> set m"
    using bt_last_lt_pair(1) [OF areas_wf_inv [OF wf]] bt_first_ge_pair(1) [OF areas_wf_inv [OF wf]] by metis
  ultimately show "\<exists>k a. (k, a) \<in> set m \<and> area_start a < rend rg \<and> rstart rg < area_end a"
    by (auto simp: range_overlaps_def area_start_def area_end_def)
next
  assume "\<exists>k a. (k, a) \<in> set m \<and> area_start a < rend rg \<and> rstart rg < area_end a"
  then obtain k a where ka: "(k, a) \<in> set m" and o: "area_start a < rend rg" "rstart rg < area_end a"
    by blast
  have k: "k = area_start a" using areas_wf_entry [OF wf ka] by simp
  show "memset_overlaps rg m"
  proof (cases "k < rstart rg")
    case True
    then obtain k' a' where l: "bt_last_lt (rstart rg) m = Some (k', a')"
      using bt_last_lt_ex [OF ka] by blast
    note l' = bt_last_lt_pair [OF areas_wf_inv [OF wf] l]
    have "\<not> k < k'" using areas_wf_order [OF wf ka l'(1)] o(2) l'(2) by auto
    with l'(3) [OF ka True] have "k' = k" by simp
    with l'(1) ka have "a' = a" using bt_inv_uniq areas_wf_inv [OF wf] by metis
    with l o show ?thesis
      by (simp add: memset_overlaps_def range_overlaps_def area_start_def area_end_def)
  next
    case False
    then obtain k' a' where l: "bt_first_ge (rstart rg) m = Some (k', a')"
      using bt_first_ge_ex [OF ka, of "rstart rg"] by (meson not_le)
    note l' = bt_first_ge_pair [OF areas_wf_inv [OF wf] l]
    have "k' \<le> k" using l'(3) [OF ka] False by simp
    with areas_wf_entry [OF wf l'(1)] l'(2) k o
    have "area_start a' < rend rg" and "rstart rg < area_end a'" by auto
    with l show ?thesis
      by (simp add: memset_overlaps_def range_overlaps_def area_start_def area_end_def)
  qed
qed

section \<open>Shrinking, cutting and splitting\<close>

lemma word_diff_less:
  fixes b s e :: usize
  assumes "b \<le> s" and "s < e"
  shows "s - b < e - b"
  using assms by (simp add: word_less_nat_alt word_le_nat_alt unat_sub)

lemma checked_add_diff: "p \<le> e \<Longrightarrow> checked_add p (e - p) = Some e"
  for p e :: usize
  using unat_less_2p64 [of e]
  by (simp add: checked_add_def word_le_nat_alt unat_sub)

lemma area_start_set_end [simp]: "area_start (set_end e a) = area_start a"
  and area_end_set_end [simp]: "area_end (set_end e a) = e"
  and flags_set_end [simp]: "ma_flags (set_end e a) = ma_flags a"
  and backend_set_end [simp]: "ma_backend (set_end e a) = ma_backend a"
  by (simp_all add: set_end_def area_start_def area_end_def)

lemma area_start_set_flags [simp]: "area_start (set_flags f a) = area_start a"
  and area_end_set_flags [simp]: "area_end (set_flags f a) = area_end a"
  and flags_set_flags [simp]: "ma_flags (set_flags f a) = f"
  and backend_set_flags [simp]: "ma_backend (set_flags f a) = ma_backend a"
  by (simp_all add: set_flags_def area_start_def area_end_def)

definition set_start :: "usize \<Rightarrow> ('f, 'b) memory_area \<Rightarrow> ('f, 'b) memory_area" where
  "set_start s a = a\<lparr>ma_range := (ma_range a)\<lparr>rstart := s\<rparr>\<rparr>"

lemma area_start_set_start [simp]: "area_start (set_start s a) = s"
  and area_end_set_start [simp]: "area_end (set_start s a) = area_end a"
  and flags_set_start [simp]: "ma_flags (set_start s a) = ma_flags a"
  and backend_set_start [simp]: "ma_backend (set_start s a) = ma_backend a"
  by (simp_all add: set_start_def area_start_def area_end_def)

lemma area_size_eq: "area_size a = area_end a - area_start a"
  by (simp add: area_size_def range_size_def area_end_def area_start_def)

lemma shrink_right_Ok:
  "shrink_right be n a pt = (Ok a', pt') \<Longrightarrow> a' = set_end (area_start a + n) a"
  by (auto simp: shrink_right_def set_end_def area_size_eq area_start_def area_end_def Let_def
      sbind_eq_Ok split: if_splits)

lemma shrink_left_Ok:
  "shrink_left be n a pt = (Ok a', pt') \<Longrightarrow> a' = set_start (area_end a - n) a"
  by (auto simp: shrink_left_def set_start_def area_size_eq area_start_def area_end_def Let_def
      sbind_eq_Ok algebra_simps split: if_splits)

lemma area_new_span:
  "p \<le> e \<Longrightarrow> area_new p (e - p) f b = Ok \<lparr>ma_range = \<lparr>rstart = p, rend = e\<rparr>, ma_flags = f, ma_backend = b\<rparr>"
  by (simp add: area_new_def from_start_size_def checked_add_diff)

lemma area_eq_set_start:
  "\<lparr>ma_range = \<lparr>rstart = p, rend = area_end a\<rparr>, ma_flags = ma_flags a, ma_backend = ma_backend a\<rparr> = set_start p a"
  by (cases a, cases "ma_range a") (simp add: set_start_def area_end_def)

lemma split_eq:
  "split pos a = (if area_start a < pos \<and> pos < area_end a
     then Ok (Some (set_end pos a, set_start pos a)) else Ok None)"
  by (auto simp: split_def area_new_span area_eq_set_start)

text \<open>An area is replaced by its part below \<open>p\<close>.\<close>

lemma cut_right_wf:
  assumes wf: "areas_wf m" and ka: "(k, a) \<in> set m" and p: "k < p" "p \<le> area_end a"
  shows "areas_wf (bt_insert k (set_end p a) m)"
proof (rule areas_wf_insert [OF wf])
  show "k = area_start (set_end p a)" "k < area_end (set_end p a)"
    using areas_wf_entry [OF wf ka] p by simp_all
  show "area_end a' \<le> k" if "(k', a') \<in> set m" "k' < k" for k' a'
    using areas_wf_order [OF wf that(1) ka that(2)] .
  show "area_end (set_end p a) \<le> k'" if "(k', a') \<in> set m" "k < k'" for k' a'
    using areas_wf_order [OF wf ka that] p by simp
qed

lemma cut_right_covers:
  assumes wf: "areas_wf m" and ka: "(k, a) \<in> set m" and p: "k < p" "p \<le> area_end a"
  shows "covers (bt_insert k (set_end p a) m) x v \<longleftrightarrow> covers m x v \<and> \<not> (p \<le> x \<and> x < area_end a)"
proof -
  have c: "covers m x (ma_flags a, ma_backend a)" if "area_start a \<le> x" "x < area_end a"
    using ka that by (auto simp: covers_def)
  have "covers (bt_insert k (set_end p a) m) x v \<longleftrightarrow>
      area_start a \<le> x \<and> x < p \<and> v = (ma_flags a, ma_backend a)
      \<or> covers m x v \<and> \<not> (area_start a \<le> x \<and> x < area_end a)"
    by (simp add: covers_insert [OF areas_wf_inv [OF wf]] covers_remove [OF wf ka])
  then show ?thesis
    using c covers_uniq [OF wf, of x v "(ma_flags a, ma_backend a)"] areas_wf_entry [OF wf ka] p by auto
qed

text \<open>A free stretch is filled by an area.\<close>

lemma fill_wf:
  assumes wf: "areas_wf m" and a: "area_start a < area_end a"
    and free: "\<And>x v. area_start a \<le> x \<Longrightarrow> x < area_end a \<Longrightarrow> \<not> covers m x v"
  shows "areas_wf (bt_insert (area_start a) a m)"
proof (rule areas_wf_insert [OF wf])
  have disj: "\<not> (area_start a < area_end a' \<and> k' < area_end a)" if ka: "(k', a') \<in> set m" for k' a'
  proof
    assume h: "area_start a < area_end a' \<and> k' < area_end a"
    have "covers m (max (area_start a) k') (ma_flags a', ma_backend a')"
      using ka areas_wf_entry [OF wf ka] h by (force simp: covers_def max_def)
    then show False using free [of "max (area_start a) k'"] h a by (auto simp: max_def split: if_splits)
  qed
  show "area_end a' \<le> area_start a" if "(k', a') \<in> set m" "k' < area_start a" for k' a'
    using disj [OF that(1)] that(2) a by auto
  show "area_end a \<le> k'" if "(k', a') \<in> set m" "area_start a < k'" for k' a'
    using disj [OF that(1)] that(2) areas_wf_entry [OF wf that(1)] by auto
qed (use a in simp_all)

lemma fill_covers:
  assumes wf: "areas_wf m" and a: "area_start a < area_end a"
    and free: "\<And>x v. area_start a \<le> x \<Longrightarrow> x < area_end a \<Longrightarrow> \<not> covers m x v"
  shows "covers (bt_insert (area_start a) a m) x v \<longleftrightarrow>
    (if area_start a \<le> x \<and> x < area_end a then v = (ma_flags a, ma_backend a) else covers m x v)"
proof -
  have "area_start a \<notin> fst ` set m"
  proof
    assume "area_start a \<in> fst ` set m"
    then obtain b where b: "(area_start a, b) \<in> set m" by auto
    then have "covers m (area_start a) (ma_flags b, ma_backend b)"
      using areas_wf_entry [OF wf b] by (force simp: covers_def)
    with free a show False by blast
  qed
  then have "bt_remove (area_start a) m = m"
    by (force simp: bt_remove_def filter_id_conv)
  with free show ?thesis
    by (auto simp: covers_insert [OF areas_wf_inv [OF wf]])
qed

section \<open>Unmapping\<close>

lemma set_end_set_end [simp]: "set_end p (set_end q a) = set_end p a"
  by (simp add: set_end_def)

lemma retain_unmap_Ok:
  "retain_unmap be rg m pt = (Ok m', pt') \<Longrightarrow> m' = filter (\<lambda>(k, a). \<not> contained_in (ma_range a) rg) m"
  by (induction m arbitrary: pt m' pt')
     (auto simp: sbind_eq_Ok split: if_splits outcome.splits prod.splits)

lemma unmap_left_Ok:
  assumes wf: "areas_wf m" and se: "s < e"
    and ok: "unmap_left be s e (m, pt) = (Ok (), (m', pt'))"
  obtains k a where "(k, a) \<in> set m" "k < s" "s < area_end a" "area_end a \<le> e" "m' = bt_insert k (set_end s a) m"
  | k a where "(k, a) \<in> set m" "k < s" "e < area_end a"
      "m' = bt_insert e (set_start e a) (bt_insert k (set_end s a) m)"
  | "m' = m" "\<And>k a. (k, a) \<in> set m \<Longrightarrow> k < s \<Longrightarrow> area_end a \<le> s"
proof (cases "bt_last_lt s m")
  case None
  then have "m' = m" using ok by (simp add: unmap_left_def)
  with None show thesis by (intro that(3)) (auto simp: bt_last_lt_None)
next
  case (Some ka)
  then obtain k a where l: "bt_last_lt s m = Some (k, a)" by (cases ka) auto
  note l' = bt_last_lt_pair [OF areas_wf_inv [OF wf] l]
  have k: "k = area_start a" using areas_wf_entry [OF wf l'(1)] by simp
  consider "area_end a \<le> s" | "s < area_end a" "area_end a \<le> e" | "e < area_end a" by fastforce
  then show thesis
  proof cases
    case 1
    have "area_end a' \<le> s" if "(k', a') \<in> set m" "k' < s" for k' a'
    proof (cases "k' = k")
      case True
      then show ?thesis using 1 that(1) l'(1) bt_inv_uniq [OF areas_wf_inv [OF wf]] by metis
    next
      case False
      with l'(3) [OF that] have "k' < k" by simp
      with areas_wf_order [OF wf that(1) l'(1)] l'(2) show ?thesis by auto
    qed
    moreover have "m' = m" using ok l leD [OF 1] by (simp add: unmap_left_def)
    ultimately show thesis by (intro that(3))
  next
    case 2
    have "m' = bt_insert k (set_end s a) m"
      using ok l 2 shrink_right_Ok [of be "s - k" a pt] k
      by (auto simp: unmap_left_def split: prod.splits outcome.splits)
    with l' 2 show thesis by (intro that(1))
  next
    case 3
    have "m' = bt_insert e (set_start e a) (bt_insert k (set_end s a) m)"
      using ok l 3 shrink_right_Ok [of be "s - k" "set_end e a" pt] k se l'(2)
      by (auto simp: unmap_left_def split_eq split: prod.splits outcome.splits if_splits)
    with l' 3 show thesis by (intro that(2))
  qed
qed

text \<open>What the left and the right step of \<^verbatim>\<open>unmap\<close> have in common: nothing changes outside \<open>[s, e)\<close>.\<close>

definition same_outside :: "usize \<Rightarrow> usize \<Rightarrow> ('f, 'b) areas \<Rightarrow> ('f, 'b) areas \<Rightarrow> bool" where
  "same_outside s e m m' \<longleftrightarrow> (\<forall>x v. (x < s \<or> e \<le> x) \<longrightarrow> covers m' x v = covers m x v)"

lemma unmap_left_step:
  assumes wf: "areas_wf m" and se: "s < e"
    and ok: "unmap_left be s e (m, pt) = (Ok (), (m', pt'))"
    and none: "\<And>k a. (k, a) \<in> set m \<Longrightarrow> s \<le> k \<Longrightarrow> \<not> area_end a \<le> e"
  shows "areas_wf m' \<and> same_outside s e m m'
    \<and> (\<forall>(k, a) \<in> set m'. (k < s \<longrightarrow> area_end a \<le> s) \<and> (s \<le> k \<longrightarrow> e < area_end a))"
  using unmap_left_Ok [OF wf se ok]
proof cases
  case (1 k a)
  note cut = cut_right_wf [OF wf 1(1,2)] cut_right_covers [OF wf 1(1,2)]
  have "areas_wf m'" and c: "same_outside s e m m'"
    using 1 cut by (auto simp: same_outside_def)
  moreover have "area_end a' \<le> s" if "(k', a') \<in> set m" "k' < s" "k' \<noteq> k" for k' a'
    using areas_wf_order [OF wf that(1) 1(1)] areas_wf_order [OF wf 1(1) that(1)] that 1(2,3) by force
  ultimately show ?thesis
    using 1 none by (force simp: set_bt_insert [OF areas_wf_inv [OF wf]])
next
  case (2 k a)
  let ?n = "bt_insert k (set_end s a) m"
  have s: "s \<le> area_end a" using 2 se by simp
  note wf1 = cut_right_wf [OF wf 2(1,2) s] and c1 = cut_right_covers [OF wf 2(1,2) s]
  have free: "\<not> covers ?n x v" if "e \<le> x" "x < area_end a" for x v
    using that se c1 by auto
  have wf2: "areas_wf m'" and c2: "covers m' x v \<longleftrightarrow>
      (if e \<le> x \<and> x < area_end a then v = (ma_flags a, ma_backend a) else covers ?n x v)" for x v
    using fill_wf [OF wf1, of "set_start e a"] fill_covers [OF wf1, of "set_start e a"] free 2 by simp_all
  have in_a: "covers m x (ma_flags a, ma_backend a)" if "e \<le> x" "x < area_end a" for x
    using that 2 se areas_wf_entry [OF wf 2(1)] by (force simp: covers_def)
  have "covers m x v \<longleftrightarrow> v = (ma_flags a, ma_backend a)" if "e \<le> x" "x < area_end a" for x v
    using in_a [OF that] covers_uniq [OF wf, of x v] by blast
  then have "same_outside s e m m'"
    using se by (auto simp: same_outside_def c2 c1)
  moreover have "area_end a' \<le> s" if "(k', a') \<in> set m" "k' < s" "k' \<noteq> k" for k' a'
    using areas_wf_order [OF wf that(1) 2(1)] areas_wf_order [OF wf 2(1) that(1)] that 2(2,3) se by force
  ultimately show ?thesis
    using wf2 2 none se
    by (force simp: set_bt_insert [OF areas_wf_inv [OF wf]] set_bt_insert [OF areas_wf_inv [OF wf1]])
next
  case 3
  with wf none show ?thesis by (force simp: same_outside_def)
qed


lemma unmap_right_step:
  assumes wf: "areas_wf m" and se: "s < e"
    and ok: "unmap_right be s e (m, pt) = (Ok (), (m', pt'))"
    and left: "\<And>k a. (k, a) \<in> set m \<Longrightarrow> k < s \<Longrightarrow> area_end a \<le> s"
    and right: "\<And>k a. (k, a) \<in> set m \<Longrightarrow> s \<le> k \<Longrightarrow> e < area_end a"
  shows "areas_wf m' \<and> same_outside s e m m' \<and> (\<forall>x v. s \<le> x \<and> x < e \<longrightarrow> \<not> covers m' x v)"
proof (cases "\<exists>k a. bt_first_ge s m = Some (k, a) \<and> k < e")
  case True
  then obtain k a where f: "bt_first_ge s m = Some (k, a)" and k: "k < e" by blast
  note f' = bt_first_ge_pair [OF areas_wf_inv [OF wf] f]
  let ?n = "bt_remove k m"
  have ka: "k = area_start a" using areas_wf_entry [OF wf f'(1)] by simp
  have ea: "e < area_end a" using right [OF f'(1,2)] .
  have m': "m' = bt_insert e (set_start e a) ?n"
    using ok f k ea shrink_left_Ok [of be "area_end a - e" a pt]
    by (auto simp: unmap_right_def checked_sub_def Let_def split: prod.splits outcome.splits if_splits)
  note wf1 = areas_wf_remove [OF wf, of k] and c1 = covers_remove [OF wf f'(1)]
  have free: "\<not> covers ?n x v" if "e \<le> x" "x < area_end a" for x v
    using that k ka [symmetric] by (auto simp: c1)
  have wf2: "areas_wf m'" and c2: "covers m' x v \<longleftrightarrow>
      (if e \<le> x \<and> x < area_end a then v = (ma_flags a, ma_backend a) else covers ?n x v)" for x v
    using fill_wf [OF wf1, of "set_start e a"] fill_covers [OF wf1, of "set_start e a"] free ea m' by simp_all
  have in_a: "covers m x (ma_flags a, ma_backend a)" if "e \<le> x" "x < area_end a" for x
    using that k ka f'(1) by (force simp: covers_def)
  have "covers m x v \<longleftrightarrow> v = (ma_flags a, ma_backend a)" if "e \<le> x" "x < area_end a" for x v
    using in_a [OF that] covers_uniq [OF wf, of x v] by blast
  then have "same_outside s e m m'"
    using se f'(2) ka [symmetric] by (auto simp: same_outside_def c2 c1)
  moreover have "\<not> covers m' x v" if x: "s \<le> x" "x < e" for x v
  proof
    assume "covers m' x v"
    then have "covers ?n x v" using x by (auto simp: c2 split: if_splits)
    then obtain k' a' where a': "(k', a') \<in> set m" "k' \<noteq> k" "area_start a' \<le> x" "x < area_end a'"
      by (auto simp: covers_def set_bt_remove)
    have "s \<le> k'" using left [OF a'(1)] a'(4) x by force
    then have "k < k'" using f'(3) [OF a'(1)] a'(2) by simp
    then show False
      using areas_wf_order [OF wf f'(1) a'(1)] areas_wf_entry [OF wf a'(1)] a'(3) x ea by auto
  qed
  ultimately show ?thesis using wf2 by blast
next
  case False
  then have m': "m' = m"
    using ok by (auto simp: unmap_right_def split: option.splits)
  have "\<not> covers m x v" if x: "s \<le> x" "x < e" for x v
  proof
    assume "covers m x v"
    then obtain k a where a: "(k, a) \<in> set m" "area_start a \<le> x" "x < area_end a"
      by (auto simp: covers_def)
    have "s \<le> k" using left [OF a(1)] a(3) x by force
    then obtain k' a' where f: "bt_first_ge s m = Some (k', a')" using bt_first_ge_ex [OF a(1)] by blast
    have "k' \<le> k" using bt_first_ge_pair(3) [OF areas_wf_inv [OF wf] f a(1) \<open>s \<le> k\<close>] .
    with f False areas_wf_entry [OF wf a(1)] a(2) x show False by auto
  qed
  then show ?thesis using wf m' by (auto simp: same_outside_def)
qed

lemma try_from_start_size_eq:
  "try_from_start_size s sz = map_option (\<lambda>e. \<lparr>rstart = s, rend = e\<rparr>) (checked_add s sz)"
  by (auto simp: try_from_start_size_def split: option.splits)

lemma same_outside_retain:
  "same_outside s e m (filter (\<lambda>(k, a). \<not> contained_in (ma_range a) \<lparr>rstart = s, rend = e\<rparr>) m)"
proof -
  have "\<not> contained_in (ma_range a) \<lparr>rstart = s, rend = e\<rparr>"
    if "x < s \<or> e \<le> x" "area_start a \<le> x" "x < area_end a" for x and a :: "('a, 'b) memory_area"
    using that by (auto simp: contained_in_def contains_range_def area_start_def area_end_def)
  then show ?thesis unfolding same_outside_def covers_def by auto
qed

lemma memset_unmap_stages:
  assumes ok: "memset_unmap be s sz (m, pt) = (Ok (), (m', pt'))"
    and e: "checked_add s sz = Some e" "s < e"
  shows "\<exists>pt1 m2 pt2.
    unmap_left be s e (filter (\<lambda>(k, a). \<not> contained_in (ma_range a) \<lparr>rstart = s, rend = e\<rparr>) m, pt1)
      = (Ok (), (m2, pt2))
    \<and> unmap_right be s e (m2, pt2) = (Ok (), (m', pt'))"
proof -
  let ?r = "\<lparr>rstart = s, rend = e\<rparr>"
  obtain r pt1 where ru: "retain_unmap be ?r m pt = (r, pt1)" by (cases "retain_unmap be ?r m pt")
  then obtain m1 where r: "r = Ok m1"
    using ok e by (cases r) (auto simp: memset_unmap_def try_from_start_size_eq range_is_empty_def split: if_splits)
  show ?thesis
    using ok e ru retain_unmap_Ok [OF ru [unfolded r]] r by (auto simp: memset_unmap_def try_from_start_size_eq range_is_empty_def sbind_eq_Ok split: if_splits)
qed

lemma memset_unmap_Ok:
  assumes wf: "areas_wf m" and ok: "memset_unmap be s sz (m, pt) = (Ok (), (m', pt'))"
  shows "areas_wf m' \<and> unat s + unat sz < 2 ^ 64
    \<and> (\<forall>x v. covers m' x v \<longleftrightarrow> covers m x v \<and> \<not> (s \<le> x \<and> x < s + sz))"
proof -
  obtain e where e: "checked_add s sz = Some e" "e = s + sz" and sz: "unat s + unat sz < 2 ^ 64"
  proof (cases "checked_add s sz")
    case None
    then show ?thesis using ok by (simp add: memset_unmap_def try_from_start_size_eq)
  next
    case (Some c)
    then show ?thesis
      using that [of c] checked_add_SomeD [OF Some] unat_less_2p64 [of c] by auto
  qed
  show ?thesis
  proof (cases "s < e")
    case False
    then have "m' = m" using ok e(1)
      by (auto simp: memset_unmap_def try_from_start_size_eq range_is_empty_def split: if_splits)
    with False wf sz e(2) show ?thesis by auto
  next
    case True
    let ?r = "\<lparr>rstart = s, rend = e\<rparr>"
    let ?n = "filter (\<lambda>(k, a). \<not> contained_in (ma_range a) ?r) m"
    from memset_unmap_stages [OF ok e(1) True] obtain pt1 m2 pt2 where
      2: "unmap_left be s e (?n, pt1) = (Ok (), (m2, pt2))"
      and 3: "unmap_right be s e (m2, pt2) = (Ok (), (m', pt'))"
      by blast
    have out: "\<not> area_end a \<le> e" if "(k, a) \<in> set ?n" "s \<le> k" for k a
      using that areas_wf_entry [OF wf, of k a]
      by (auto simp: contained_in_def contains_range_def area_start_def area_end_def)
    note wf1 = areas_wf_filter [OF wf, of "\<lambda>(k, a). \<not> contained_in (ma_range a) ?r"]
    have same1: "same_outside s e m ?n"
      by (rule same_outside_retain)
    have l0: "areas_wf m2 \<and> same_outside s e ?n m2
        \<and> (\<forall>(k, a) \<in> set m2. (k < s \<longrightarrow> area_end a \<le> s) \<and> (s \<le> k \<longrightarrow> e < area_end a))"
      by (rule unmap_left_step [OF wf1 True 2]) (rule out)
    have l: "areas_wf m2" "same_outside s e ?n m2"
      "\<And>k a. (k, a) \<in> set m2 \<Longrightarrow> k < s \<Longrightarrow> area_end a \<le> s"
      "\<And>k a. (k, a) \<in> set m2 \<Longrightarrow> s \<le> k \<Longrightarrow> e < area_end a"
      using l0 by blast+
    have r0: "areas_wf m' \<and> same_outside s e m2 m' \<and> (\<forall>x v. s \<le> x \<and> x < e \<longrightarrow> \<not> covers m' x v)"
      by (rule unmap_right_step [OF l(1) True 3]) (use l in blast)+
    then have r: "areas_wf m'" "same_outside s e m2 m'" "\<And>x v. s \<le> x \<Longrightarrow> x < e \<Longrightarrow> \<not> covers m' x v"
      by blast+
    have "same_outside s e m m'"
      using same1 l(2) r(2) by (simp add: same_outside_def)
    with r sz show ?thesis unfolding e(2) [symmetric] same_outside_def by (meson not_le)
  qed
qed

section \<open>The contract of a mapping backend\<close>

lemma is_aligned_4k_diff: "is_aligned_4k a \<Longrightarrow> is_aligned_4k b \<Longrightarrow> b \<le> a \<Longrightarrow> is_aligned_4k (a - b)"
  by (simp add: is_aligned_4k_iff word_le_nat_alt unat_sub)

lemma is_aligned_4k_add:
  "is_aligned_4k a \<Longrightarrow> is_aligned_4k b \<Longrightarrow> unat a + unat b < 2 ^ 64 \<Longrightarrow> is_aligned_4k (a + b)"
  by (simp add: is_aligned_4k_iff unat_word_ariths)

lemma unat_span: "a \<le> b \<Longrightarrow> unat a + unat (b - a) < 2 ^ 64" for a b :: usize
  using unat_less_2p64 [of b] by (simp add: word_le_nat_alt unat_sub)

text \<open>
  What \<^verbatim>\<open>MemorySet\<close> relies on: on page-aligned ranges, a safe backend unmaps and changes
  protections without failing or panicking, maps without panicking, and keeps the page-table
  invariant.
\<close>

locale backend_laws =
  fixes be :: "('f, 'b, 'pt) mapping_backend"
    and safe :: "'b \<Rightarrow> bool"
    and pt_ok :: "'pt \<Rightarrow> bool"
  assumes unmap_ok: "safe b \<Longrightarrow> pt_ok pt \<Longrightarrow> is_aligned_4k s \<Longrightarrow> is_aligned_4k sz
      \<Longrightarrow> unat s + unat sz < 2 ^ 64 \<Longrightarrow> \<exists>pt'. be_unmap be b s sz pt = (Ok True, pt') \<and> pt_ok pt'"
    and protect_ok: "safe b \<Longrightarrow> pt_ok pt \<Longrightarrow> is_aligned_4k s \<Longrightarrow> is_aligned_4k sz
      \<Longrightarrow> unat s + unat sz < 2 ^ 64 \<Longrightarrow> \<exists>r pt'. be_protect be b s sz f pt = (Ok r, pt') \<and> pt_ok pt'"
    and map_ok: "safe b \<Longrightarrow> pt_ok pt \<Longrightarrow> is_aligned_4k s \<Longrightarrow> is_aligned_4k sz
      \<Longrightarrow> unat s + unat sz < 2 ^ 64 \<Longrightarrow> \<exists>r pt'. be_map be b s sz f pt = (Ok r, pt') \<and> pt_ok pt'"
begin

definition area_ok :: "('f, 'b) memory_area \<Rightarrow> bool" where
  "area_ok a \<longleftrightarrow> safe (ma_backend a) \<and> is_aligned_4k (area_start a) \<and> is_aligned_4k (area_end a)
     \<and> area_start a < area_end a"

definition set_ok :: "('f, 'b) areas \<Rightarrow> bool" where
  "set_ok m \<longleftrightarrow> (\<forall>e \<in> set m. area_ok (snd e))"

lemma set_okD: "set_ok m \<Longrightarrow> (k, a) \<in> set m \<Longrightarrow> area_ok a"
  by (auto simp: set_ok_def)

lemma set_ok_insert: "set_ok m \<Longrightarrow> area_ok a \<Longrightarrow> set_ok (bt_insert k a m)"
  using set_bt_insert_subset [of k a m] by (auto simp: set_ok_def)

lemma set_ok_filter: "set_ok m \<Longrightarrow> set_ok (filter p m)"
  by (auto simp: set_ok_def)

lemma unmap_area_total:
  assumes "area_ok a" and "pt_ok pt"
  shows "\<exists>pt'. unmap_area be a pt = (Ok (), pt') \<and> pt_ok pt'"
proof -
  have "\<exists>pt'. be_unmap be (ma_backend a) (area_start a) (area_size a) pt = (Ok True, pt') \<and> pt_ok pt'"
    using assms unmap_ok is_aligned_4k_diff unat_span unfolding area_ok_def area_size_eq
    by (simp add: less_imp_le)
  then show ?thesis by (auto simp: unmap_area_def then_ok_def)
qed

lemma shrink_right_total:
  assumes "area_ok a" and "pt_ok pt" and p: "is_aligned_4k p" "area_start a < p" "p < area_end a"
  shows "\<exists>pt'. shrink_right be (p - area_start a) a pt = (Ok (set_end p a), pt') \<and> pt_ok pt'"
proof -
  have "\<exists>pt'. be_unmap be (ma_backend a) p (area_end a - p) pt = (Ok True, pt') \<and> pt_ok pt'"
    using assms unmap_ok is_aligned_4k_diff unat_span unfolding area_ok_def by (simp add: less_imp_le)
  then show ?thesis
    using p word_diff_less [of "area_start a" p "area_end a"]
    by (auto simp: shrink_right_def then_ok_def area_size_eq Let_def set_end_def area_start_def area_end_def
        word_neq_0_conv [symmetric])
qed

lemma shrink_left_total:
  assumes "area_ok a" and "pt_ok pt" and p: "is_aligned_4k p" "area_start a < p" "p < area_end a"
  shows "\<exists>pt'. shrink_left be (area_end a - p) a pt = (Ok (set_start p a), pt') \<and> pt_ok pt'"
proof -
  have "\<exists>pt'. be_unmap be (ma_backend a) (area_start a) (p - area_start a) pt = (Ok True, pt') \<and> pt_ok pt'"
    using assms unmap_ok is_aligned_4k_diff unat_span unfolding area_ok_def by (simp add: less_imp_le)
  moreover have "area_end a - p < area_end a - area_start a" "0 < area_end a - p"
    using p by (simp_all add: word_less_nat_alt unat_sub word_le_nat_alt less_imp_le)
  ultimately show ?thesis
    by (auto simp: shrink_left_def then_ok_def area_size_eq Let_def set_start_def area_start_def area_end_def)
qed

lemma retain_unmap_total:
  assumes "set_ok m" and "pt_ok pt"
  shows "\<exists>pt'. retain_unmap be rg m pt =
    (Ok (filter (\<lambda>(k, a). \<not> contained_in (ma_range a) rg) m), pt') \<and> pt_ok pt'"
  using assms
proof (induction m arbitrary: pt)
  case Nil
  then show ?case by simp
next
  case (Cons e m)
  obtain k a where e: "e = (k, a)" by (cases e)
  have "area_ok a" and m: "set_ok m" using Cons.prems(1) e by (auto simp: set_ok_def)
  then obtain pt1 where "unmap_area be a pt = (Ok (), pt1)" "pt_ok pt1"
    using unmap_area_total Cons.prems(2) by blast
  with Cons.IH [OF m Cons.prems(2)] Cons.IH [OF m] e show ?case
    by fastforce
qed

end

context backend_laws
begin

lemma area_ok_cut:
  assumes "area_ok a" "is_aligned_4k p" "area_start a < p" "p < area_end a"
  shows "area_ok (set_end p a)" and "area_ok (set_start p a)"
  using assms by (simp_all add: area_ok_def)

lemma unmap_left_total:
  assumes wf: "areas_wf m" and m: "set_ok m" and pt: "pt_ok pt"
    and al: "is_aligned_4k s" "is_aligned_4k e" and se: "s < e"
  shows "\<exists>m' pt'. unmap_left be s e (m, pt) = (Ok (), (m', pt')) \<and> set_ok m' \<and> pt_ok pt'"
proof (cases "\<exists>k a. bt_last_lt s m = Some (k, a) \<and> s < area_end a")
  case False
  then have "unmap_left be s e (m, pt) = (Ok (), (m, pt))"
    by (auto simp: unmap_left_def split: option.splits)
  with m pt show ?thesis by blast
next
  case True
  then obtain k a where l: "bt_last_lt s m = Some (k, a)" and a: "s < area_end a" by blast
  note l' = bt_last_lt_pair [OF areas_wf_inv [OF wf] l]
  have k: "k = area_start a" and ok: "area_ok a"
    using areas_wf_entry [OF wf l'(1)] set_okD [OF m l'(1)] by simp_all
  show ?thesis
  proof (cases "area_end a \<le> e")
    case True
    obtain pt1 where "shrink_right be (s - k) a pt = (Ok (set_end s a), pt1)" "pt_ok pt1"
      using shrink_right_total [OF ok pt al(1)] l'(2) a k by blast
    with l a True k m area_ok_cut [OF ok al(1)] l'(2) show ?thesis
      by (auto simp: unmap_left_def intro: set_ok_insert)
  next
    case False
    then have e: "e < area_end a" "area_start a < e" using l'(2) k se by simp_all
    obtain pt1 where "shrink_right be (s - k) (set_end e a) pt = (Ok (set_end s a), pt1)" "pt_ok pt1"
      using shrink_right_total [OF area_ok_cut(1) [OF ok al(2) e(2,1)] pt al(1)] l'(2) se k by auto
    with l a False e k m area_ok_cut [OF ok al(1)] area_ok_cut [OF ok al(2)] l'(2) show ?thesis
      by (auto simp: unmap_left_def split_eq intro!: set_ok_insert)
  qed
qed

lemma unmap_right_total:
  assumes wf: "areas_wf m" and m: "set_ok m" and pt: "pt_ok pt" and al: "is_aligned_4k e"
    and right: "\<And>k a. (k, a) \<in> set m \<Longrightarrow> s \<le> k \<Longrightarrow> e < area_end a"
  shows "\<exists>m' pt'. unmap_right be s e (m, pt) = (Ok (), (m', pt')) \<and> set_ok m' \<and> pt_ok pt'"
proof (cases "\<exists>k a. bt_first_ge s m = Some (k, a) \<and> k < e")
  case False
  then have "unmap_right be s e (m, pt) = (Ok (), (m, pt))"
    by (auto simp: unmap_right_def split: option.splits)
  with m pt show ?thesis by blast
next
  case True
  then obtain k a where f: "bt_first_ge s m = Some (k, a)" and k: "k < e" by blast
  note f' = bt_first_ge_pair [OF areas_wf_inv [OF wf] f]
  have ka: "k = area_start a" and ok: "area_ok a" and e: "e < area_end a"
    using areas_wf_entry [OF wf f'(1)] set_okD [OF m f'(1)] right [OF f'(1,2)] by simp_all
  obtain pt1 where "shrink_left be (area_end a - e) a pt = (Ok (set_start e a), pt1)" "pt_ok pt1"
    using shrink_left_total [OF ok pt al] k ka e by blast
  with f k e ka area_ok_cut [OF ok al] m show ?thesis
    by (auto simp: unmap_right_def checked_sub_def Let_def bt_remove_def intro!: set_ok_insert set_ok_filter)
qed

lemma memset_unmap_total:
  assumes wf: "areas_wf m" and m: "set_ok m" and pt: "pt_ok pt"
    and al: "is_aligned_4k s" "is_aligned_4k sz" and sz: "unat s + unat sz < 2 ^ 64"
  shows "\<exists>m' pt'. memset_unmap be s sz (m, pt) = (Ok (), (m', pt')) \<and> set_ok m' \<and> pt_ok pt'"
proof (cases "s < s + sz")
  case False
  have "checked_add s sz = Some (s + sz)" using sz by (simp add: checked_add_unat)
  with False m pt show ?thesis
    by (auto simp: memset_unmap_def try_from_start_size_eq range_is_empty_def not_less)
next
  case se: True
  let ?e = "s + sz" and ?r = "\<lparr>rstart = s, rend = s + sz\<rparr>"
  let ?n = "filter (\<lambda>(k, a). \<not> contained_in (ma_range a) ?r) m"
  have ca: "checked_add s sz = Some ?e" using sz by (simp add: checked_add_unat)
  have ale: "is_aligned_4k ?e" using is_aligned_4k_add [OF al sz] .
  note wf1 = areas_wf_filter [OF wf, of "\<lambda>(k, a). \<not> contained_in (ma_range a) ?r"]
  obtain pt1 where 1: "retain_unmap be ?r m pt = (Ok ?n, pt1)" "pt_ok pt1"
    using retain_unmap_total [OF m pt] by blast
  obtain m2 pt2 where 2: "unmap_left be s ?e (?n, pt1) = (Ok (), (m2, pt2))" "set_ok m2" "pt_ok pt2"
    using unmap_left_total [OF wf1 set_ok_filter [OF m] 1(2) al(1) ale se] by blast
  have out: "\<not> area_end a \<le> ?e" if "(k, a) \<in> set ?n" "s \<le> k" for k a
    using that areas_wf_entry [OF wf, of k a]
    by (auto simp: contained_in_def contains_range_def area_start_def area_end_def)
  have l: "areas_wf m2 \<and> same_outside s ?e ?n m2
      \<and> (\<forall>(k, a) \<in> set m2. (k < s \<longrightarrow> area_end a \<le> s) \<and> (s \<le> k \<longrightarrow> ?e < area_end a))"
    by (rule unmap_left_step [OF wf1 se 2(1)]) (rule out)
  have "\<exists>m' pt'. unmap_right be s ?e (m2, pt2) = (Ok (), (m', pt')) \<and> set_ok m' \<and> pt_ok pt'"
    by (rule unmap_right_total [OF _ 2(2,3) ale]) (use l in blast)+
  with 1 2 ca se show ?thesis
    by (auto simp: memset_unmap_def try_from_start_size_eq range_is_empty_def not_le)
qed

lemma unmap_all_total:
  "set_ok m \<Longrightarrow> pt_ok pt \<Longrightarrow> \<exists>pt'. unmap_all be m pt = (Ok (), pt') \<and> pt_ok pt'"
proof (induction m arbitrary: pt)
  case (Cons e m)
  obtain k a where e: "e = (k, a)" by (cases e)
  with Cons.prems obtain pt1 where "unmap_area be a pt = (Ok (), pt1)" "pt_ok pt1"
    using unmap_area_total [of a pt] by (auto simp: set_ok_def)
  with Cons.IH [of pt1] Cons.prems e show ?case by (auto simp: set_ok_def)
qed simp

lemma memset_clear_total:
  "set_ok m \<Longrightarrow> pt_ok pt \<Longrightarrow> \<exists>pt'. memset_clear be (m, pt) = (Ok (), ([], pt')) \<and> pt_ok pt'"
  using unmap_all_total [of m pt] by (auto simp: memset_clear_def)

end

section \<open>Mapping\<close>

lemma not_overlaps_free:
  assumes wf: "areas_wf m" and ne: "area_start a < area_end a" and no: "\<not> memset_overlaps (ma_range a) m"
    and x: "area_start a \<le> x" "x < area_end a"
  shows "\<not> covers m x v"
proof
  assume "covers m x v"
  then obtain k b where b: "(k, b) \<in> set m" "area_start b \<le> x" "x < area_end b"
    by (auto simp: covers_def)
  have "memset_overlaps (ma_range a) m \<longleftrightarrow>
      (\<exists>k b. (k, b) \<in> set m \<and> area_start b < area_end a \<and> area_start a < area_end b)"
    using memset_overlaps_correct [OF wf, of "ma_range a"] ne by (simp add: area_start_def area_end_def)
  moreover have "area_start b < area_end a" "area_start a < area_end b" using b x by simp_all
  ultimately show False using b no by blast
qed

lemma covers_key:
  assumes "areas_wf m" and "bt_get k m = Some a"
  shows "covers m k (ma_flags a, ma_backend a)"
proof -
  have "(k, a) \<in> set m" using bt_get_mem [OF assms(2)] .
  moreover from areas_wf_entry [OF assms(1) this] have "area_start a \<le> k \<and> k < area_end a" by auto
  ultimately show ?thesis unfolding covers_def by blast
qed

text \<open>The set right before the new area is mapped: the area's addresses are free and the rest is unchanged.\<close>

lemma make_room_Ok:
  assumes wf: "areas_wf m" and ne: "area_start a < area_end a"
    and st: "make_room be a uo (m, pt) = (Ok (), (m1, pt1))"
  shows "areas_wf m1" and "covers m1 x v \<longleftrightarrow> covers m x v \<and> \<not> (area_start a \<le> x \<and> x < area_end a)"
    and "bt_get (area_start a) m1 = None"
proof -
  have c: "areas_wf m1 \<and> (\<forall>x v. covers m1 x v \<longleftrightarrow> covers m x v \<and> \<not> (area_start a \<le> x \<and> x < area_end a))"
  proof (cases "memset_overlaps (ma_range a) m")
    case True
    with st have "memset_unmap be (area_start a) (area_size a) (m, pt) = (Ok (), (m1, pt1))"
      by (auto simp: make_room_def split: if_splits)
    from memset_unmap_Ok [OF wf this] show ?thesis by (simp add: area_size_eq)
  next
    case False
    with st not_overlaps_free [OF wf ne False] wf show ?thesis by (auto simp: make_room_def)
  qed
  then show "areas_wf m1" and "covers m1 x v \<longleftrightarrow> covers m x v \<and> \<not> (area_start a \<le> x \<and> x < area_end a)"
    by blast+
  show "bt_get (area_start a) m1 = None"
    using c covers_key [of m1 "area_start a"] ne by (cases "bt_get (area_start a) m1") auto
qed

lemma memset_map_Ok:
  assumes wf: "areas_wf m" and ok: "memset_map be a uo (m, pt) = (Ok (), (m', pt'))"
  shows "areas_wf m' \<and> (\<forall>x v. covers m' x v \<longleftrightarrow>
      (if area_start a \<le> x \<and> x < area_end a then v = (ma_flags a, ma_backend a) else covers m x v))
    \<and> (uo \<or> (\<forall>x v. area_start a \<le> x \<and> x < area_end a \<longrightarrow> \<not> covers m x v))"
proof -
  have "\<not> range_is_empty (ma_range a)"
    by (rule ccontr) (use ok in \<open>simp add: memset_map_def\<close>)
  then have ne: "area_start a < area_end a"
    by (simp add: range_is_empty_def area_start_def area_end_def)
  obtain r m1 pt1 where mr: "make_room be a uo (m, pt) = (r, (m1, pt1))"
    by (cases "make_room be a uo (m, pt)") auto
  obtain q pt2 where "map_area be a pt1 = (q, pt2)" by (cases "map_area be a pt1")
  then have st: "make_room be a uo (m, pt) = (Ok (), (m1, pt1))"
    and m': "m' = bt_insert (area_start a) a m1"
    using ok mr by (cases r; cases q; simp add: memset_map_def split: if_splits)+
  note p = make_room_Ok [OF wf ne st]
  have "areas_wf m'" unfolding m' by (rule fill_wf [OF p(1) ne]) (simp add: p(2))
  moreover have "covers m' x v \<longleftrightarrow>
      (if area_start a \<le> x \<and> x < area_end a then v = (ma_flags a, ma_backend a) else covers m x v)" for x v
    unfolding m' using fill_covers [OF p(1) ne, of x v] p(2) by auto
  moreover have "\<not> covers m x v" if "\<not> uo" "area_start a \<le> x" "x < area_end a" for x v
    using not_overlaps_free [OF wf ne _ that(2,3)] st that(1) by (auto simp: make_room_def split: if_splits)
  ultimately show ?thesis by blast
qed

context backend_laws
begin

text \<open>\<^verbatim>\<open>map\<close> never panics; it fails only on a backend failure or on an overlap it may not remove.\<close>

lemma memset_map_total:
  assumes wf: "areas_wf m" and m: "set_ok m" and pt: "pt_ok pt" and a: "area_ok a"
  shows "\<exists>r m' pt'. memset_map be a uo (m, pt) = (r, (m', pt')) \<and> set_ok m' \<and> pt_ok pt'
    \<and> (r = Ok () \<or> r = Err MapBadState \<or> r = Err MapAlreadyExists \<and> \<not> uo \<and> memset_overlaps (ma_range a) m)"
proof -
  have ne: "area_start a < area_end a" using a by (simp add: area_ok_def)
  have ra: "\<not> range_is_empty (ma_range a)"
    using ne by (simp add: range_is_empty_def area_start_def area_end_def)
  have al: "is_aligned_4k (area_size a)" "unat (area_start a) + unat (area_size a) < 2 ^ 64"
    using a is_aligned_4k_diff unat_span ne by (auto simp: area_ok_def area_size_eq)
  have mu: "\<exists>m' pt'. memset_unmap be (area_start a) (area_size a) (m, pt) = (Ok (), (m', pt')) \<and> set_ok m' \<and> pt_ok pt'"
    using memset_unmap_total [OF wf m pt _ al] a by (simp add: area_ok_def)
  show ?thesis
  proof (cases "memset_overlaps (ma_range a) m \<and> \<not> uo")
    case True
    with m pt ra show ?thesis by (auto simp: memset_map_def make_room_def)
  next
    case False
    then have "\<exists>m1 pt1. make_room be a uo (m, pt) = (Ok (), (m1, pt1)) \<and> set_ok m1 \<and> pt_ok pt1"
      using mu m pt by (auto simp: make_room_def)
    then obtain m1 pt1 where st: "make_room be a uo (m, pt) = (Ok (), (m1, pt1))" and 1: "set_ok m1" "pt_ok pt1"
      by blast
    obtain r pt2 where "be_map be (ma_backend a) (area_start a) (area_size a) (ma_flags a) pt1 = (Ok r, pt2)" "pt_ok pt2"
      using map_ok [OF _ 1(2) _ al] a unfolding area_ok_def by blast
    then have "map_area be a pt1 = (if r then Ok () else Err MapBadState, pt2)" and "pt_ok pt2"
      by (simp_all add: map_area_def then_ok_def)
    moreover have "bt_get (area_start a) m1 = None"
      by (rule make_room_Ok(3) [OF wf ne st])
    ultimately show ?thesis
      using st 1 ra set_ok_insert [OF 1(1) a] by (auto simp: memset_map_def)
  qed
qed

end

section \<open>Changing protections\<close>

text \<open>
  The areas an area is cut into by \<^verbatim>\<open>protect\<close>, as a function of the area alone, and the effect of
  \<^verbatim>\<open>protect\<close> on the flags at one address.
\<close>

fun pieces :: "('f \<Rightarrow> 'f option) \<Rightarrow> usize \<Rightarrow> usize \<Rightarrow> usize \<times> ('f, 'b) memory_area \<Rightarrow> ('f, 'b) areas" where
  "pieces upd s e (k, a) =
     (case upd (ma_flags a) of
        None \<Rightarrow> [(k, a)]
      | Some f \<Rightarrow>
          if e \<le> k \<or> area_end a \<le> s then [(k, a)]
          else if s \<le> k \<and> area_end a \<le> e then [(k, set_flags f a)]
          else if k < s \<and> e < area_end a then
            [(k, set_end s a), (e, set_start e a), (s, set_flags f (set_end e (set_start s a)))]
          else if e < area_end a then [(k, set_flags f (set_end e a)), (e, set_start e a)]
          else [(k, set_end s a), (s, set_flags f (set_start s a))])"

definition protected :: "('f \<Rightarrow> 'f option) \<Rightarrow> usize \<Rightarrow> usize \<Rightarrow> usize \<Rightarrow> 'f \<times> 'b \<Rightarrow> 'f \<times> 'b" where
  "protected upd s e x v =
     (if s \<le> x \<and> x < e then (case upd (fst v) of Some f \<Rightarrow> f | None \<Rightarrow> fst v) else fst v, snd v)"

lemma fold_bt_insert:
  assumes "bt_inv m" and "\<And>k v w. (k, v) \<in> set m \<union> set ins \<Longrightarrow> (k, w) \<in> set m \<union> set ins \<Longrightarrow> v = w"
  shows "bt_inv (fold (\<lambda>(k, a) m. bt_insert k a m) ins m)
    \<and> set (fold (\<lambda>(k, a) m. bt_insert k a m) ins m) = set m \<union> set ins"
  using assms
proof (induction ins arbitrary: m)
  case (Cons e ins)
  obtain k a where e: "e = (k, a)" by (cases e)
  have u: "v = w" if "(j, v) \<in> set m \<union> set (e # ins)" "(j, w) \<in> set m \<union> set (e # ins)" for j v w
    using Cons.prems(2) that by blast
  have "{x \<in> set m. fst x \<noteq> k} \<union> {(k, a)} = Set.insert (k, a) (set m)"
    using u e by fastforce
  then have s: "set (bt_insert k a m) = Set.insert (k, a) (set m)"
    using set_bt_insert [OF Cons.prems(1), of k a] by auto
  have "bt_inv (fold (\<lambda>(k, a) m. bt_insert k a m) ins (bt_insert k a m))
    \<and> set (fold (\<lambda>(k, a) m. bt_insert k a m) ins (bt_insert k a m)) = set (bt_insert k a m) \<union> set ins"
  proof (rule Cons.IH)
    show "bt_inv (bt_insert k a m)" using Cons.prems(1) by (rule bt_inv_insert)
    show "v = w" if "(j, v) \<in> set (bt_insert k a m) \<union> set ins" "(j, w) \<in> set (bt_insert k a m) \<union> set ins" for j v w
      using u [of j v w] that by (simp add: s e)
  qed
  then show ?case by (auto simp: e s)
qed simp

lemma pieces_cases:
  assumes "k < area_end a" "s < e"
  obtains (same) "pieces upd s e (k, a) = [(k, a)]" "upd (ma_flags a) = None \<or> e \<le> k \<or> area_end a \<le> s"
  | (all) f where "pieces upd s e (k, a) = [(k, set_flags f a)]" "upd (ma_flags a) = Some f" "s \<le> k" "area_end a \<le> e"
  | (middle) f where "pieces upd s e (k, a) =
        [(k, set_end s a), (e, set_start e a), (s, set_flags f (set_end e (set_start s a)))]"
      "upd (ma_flags a) = Some f" "k < s" "e < area_end a"
  | (left) f where "pieces upd s e (k, a) = [(k, set_flags f (set_end e a)), (e, set_start e a)]"
      "upd (ma_flags a) = Some f" "s \<le> k" "k < e" "e < area_end a"
  | (right) f where "pieces upd s e (k, a) = [(k, set_end s a), (s, set_flags f (set_start s a))]"
      "upd (ma_flags a) = Some f" "k < s" "s < area_end a" "area_end a \<le> e"
proof (cases "upd (ma_flags a)")
  case None
  then show thesis by (intro same) simp_all
next
  case (Some f)
  consider "e \<le> k \<or> area_end a \<le> s" | "k < e" "s < area_end a" "s \<le> k" "area_end a \<le> e"
    | "k < s" "e < area_end a" | "k < e" "s \<le> k" "e < area_end a"
    | "k < s" "s < area_end a" "area_end a \<le> e"
    by fastforce
  then show thesis
  proof cases
    case 1 then show thesis using Some by (intro same) auto
  next
    case 2 then show thesis using Some by (intro all) auto
  next
    case 3 then show thesis using Some assms by (intro middle) auto
  next
    case 4 then show thesis using Some assms by (intro left) auto
  next
    case 5 then show thesis using Some assms by (intro right) auto
  qed
qed

declare pieces.simps [simp del]

lemma pieces_entry:
  assumes "k = area_start a" "k < area_end a" "s < e" "(j, b) \<in> set (pieces upd s e (k, a))"
  shows "j = area_start b \<and> j < area_end b \<and> k \<le> j \<and> area_end b \<le> area_end a"
  using pieces_cases [OF assms(2,3), of upd]
  by cases (use assms in \<open>auto\<close>)

lemma pieces_order:
  assumes "k = area_start a" "k < area_end a" "s < e"
    and "(j, b) \<in> set (pieces upd s e (k, a))" "(j', b') \<in> set (pieces upd s e (k, a))"
  shows "(j < j' \<longrightarrow> area_end b \<le> j') \<and> (j = j' \<longrightarrow> b = b')"
  using pieces_cases [OF assms(2,3), of upd]
  by cases (use assms in \<open>auto\<close>)

lemma covers_Nil [simp]: "\<not> covers [] x v"
  by (simp add: covers_def)

lemma covers_Cons:
  "covers ((k, a) # m) x v \<longleftrightarrow>
     area_start a \<le> x \<and> x < area_end a \<and> v = (ma_flags a, ma_backend a) \<or> covers m x v"
  by (auto simp: covers_def)

lemma pieces_cover:
  assumes "k = area_start a" "k < area_end a" "s < e"
  shows "covers (pieces upd s e (k, a)) x v
    \<longleftrightarrow> area_start a \<le> x \<and> x < area_end a \<and> v = protected upd s e x (ma_flags a, ma_backend a)"
  using pieces_cases [OF assms(2,3), of upd]
proof cases
  case 1
  then show ?thesis unfolding 1(1) using assms by (auto simp: covers_Cons protected_def)
next
  case (2 f)
  then show ?thesis unfolding 2(1) using assms by (auto simp: covers_Cons protected_def)
next
  case (3 f)
  then show ?thesis unfolding 3(1) using assms by (auto simp: covers_Cons protected_def)
next
  case (4 f)
  then show ?thesis unfolding 4(1) using assms by (auto simp: covers_Cons protected_def)
next
  case (5 f)
  then show ?thesis unfolding 5(1) using assms by (auto simp: covers_Cons protected_def)
qed


lemma area_eq_set_start_end:
  "\<lparr>ma_range = \<lparr>rstart = p, rend = q\<rparr>, ma_flags = ma_flags a, ma_backend = ma_backend a\<rparr> = set_end q (set_start p a)"
  by (cases a, cases "ma_range a") (simp add: set_start_def set_end_def)

lemma area_new_checked:
  "checked_add s sz = Some e \<Longrightarrow>
     area_new s sz (ma_flags a) (ma_backend a) = Ok (set_end e (set_start s a))"
  by (simp add: area_new_def from_start_size_def area_eq_set_start_end)

lemma protect_step_Ok:
  assumes k: "k = area_start a" "k < area_end a" and e: "checked_add s sz = Some e" "s < e"
    and "\<not> e \<le> k" "\<not> area_end a \<le> s" and f: "upd (ma_flags a) = Some f"
    and ok: "protect_step be s sz e f (k, a) pt = (Ok (a', ins), pt')"
  shows "(k, a') # ins = pieces upd s e (k, a)"
proof -
  consider "s \<le> k" "area_end a \<le> e" | "k < s" "e < area_end a" | "s \<le> k" "e < area_end a"
    | "k < s" "area_end a \<le> e" by fastforce
  then show ?thesis
  proof cases
    case 1
    then show ?thesis using ok f assms(5,6)
      by (auto simp: protect_step_def pieces.simps sbind_eq_Ok)
  next
    case 2
    then have "area_start a < e" "\<not> s \<le> k" using e k by auto
    with 2 show ?thesis using ok f assms(5,6) e k area_new_checked [OF e(1), of "set_end e a"]
      by (auto simp: protect_step_def pieces.simps split_eq sbind_eq_Ok set_end_def set_start_def set_flags_def area_start_def
          area_end_def)
  next
    case 3
    have "area_start a < e" using assms(5) k by simp
    with 3 show ?thesis using ok f assms(5,6) k
      by (auto simp: protect_step_def pieces.simps sbind_eq_Ok split_eq)
  next
    case 4
    have "s < area_end a" using assms(6) by simp
    with 4 show ?thesis using ok f assms(5,6) k
      by (auto simp: protect_step_def pieces.simps sbind_eq_Ok split_eq)
  qed
qed


lemma pieces_beyond: "e \<le> k \<Longrightarrow> pieces upd s e (k, a) = [(k, a)]"
  by (simp add: pieces.simps split: option.splits)

lemma pieces_before: "area_end a \<le> s \<Longrightarrow> pieces upd s e (k, a) = [(k, a)]"
  by (simp add: pieces.simps split: option.splits)

lemma protect_loop_Ok:
  assumes "protect_loop be upd s sz e m pt = (Ok (m', ins), pt')" and "checked_add s sz = Some e" "s < e"
    and "bt_inv m" and "\<And>k a. (k, a) \<in> set m \<Longrightarrow> k = area_start a \<and> k < area_end a"
  shows "map fst m' = map fst m \<and> set m' \<union> set ins = (\<Union>x \<in> set m. set (pieces upd s e x))"
  using assms
proof (induction m arbitrary: pt m' ins pt')
  case (Cons x m)
  obtain k a where x: "x = (k, a)" by (cases x)
  have ka: "k = area_start a" "k < area_end a" using Cons.prems(5) [of k a] x by auto
  have inv: "bt_inv m" using Cons.prems(4) x by (simp add: bt_inv_Cons)
  have ih: "map fst n = map fst m \<and> set n \<union> set i = (\<Union>x \<in> set m. set (pieces upd s e x))"
    if "protect_loop be upd s sz e m p = (Ok (n, i), p')" for p n i p'
    by (rule Cons.IH [OF that Cons.prems(2,3) inv]) (use Cons.prems(5) in auto)
  show ?case
  proof (cases "upd (ma_flags a) = None \<or> \<not> e \<le> k \<and> area_end a \<le> s")
    case True
    then have "pieces upd s e (k, a) = [(k, a)]"
      using pieces_before [of a s upd e k] by (auto simp: pieces.simps)
    moreover obtain n i where "protect_loop be upd s sz e m pt = (Ok (n, i), pt')" "m' = (k, a) # n" "ins = i"
      using Cons.prems(1) True x by (auto simp: sbind_eq_Ok split: option.splits)
    ultimately show ?thesis using ih x by auto
  next
    case False
    then obtain f where f: "upd (ma_flags a) = Some f" by auto
    show ?thesis
    proof (cases "e \<le> k")
      case True
      then have "m' = x # m" "ins = []" using Cons.prems(1) f x by auto
      moreover have "pieces upd s e y = [y]" if "y \<in> set (x # m)" for y
        using that True Cons.prems(4) x pieces_beyond [of e "fst y" upd s "snd y"] by (force simp: bt_inv_Cons)
      ultimately show ?thesis by auto
    next
      case ke: False
      with False f have as: "\<not> area_end a \<le> s" by simp
      obtain r pt1 where st: "protect_step be s sz e f (k, a) pt = (r, pt1)"
        by (cases "protect_step be s sz e f (k, a) pt")
      then obtain a' i1 where r: "r = Ok (a', i1)"
        using Cons.prems(1) f ke as x by (cases r) auto
      then obtain n i where l: "protect_loop be upd s sz e m pt1 = (Ok (n, i), pt')"
        and m': "m' = (k, a') # n" "ins = i1 @ i"
        using Cons.prems(1) f ke as x st by (auto simp: sbind_eq_Ok)
      have "(k, a') # i1 = pieces upd s e (k, a)"
        by (rule protect_step_Ok [where upd = upd, OF ka Cons.prems(2,3) ke as f st [unfolded r]])
      then have "set (pieces upd s e x) = Set.insert (k, a') (set i1)" by (metis x list.simps(15))
      then show ?thesis using ih [OF l] m' x by auto
    qed
  qed
qed simp


lemma pieces_ordered:
  assumes wf: "areas_wf m" and se: "s < e"
    and j: "\<exists>k a. (k, a) \<in> set m \<and> (j, b) \<in> set (pieces upd s e (k, a))"
    and j': "\<exists>k a. (k, a) \<in> set m \<and> (j', b') \<in> set (pieces upd s e (k, a))"
  shows "(j < j' \<longrightarrow> area_end b \<le> j') \<and> (j = j' \<longrightarrow> b = b')"
proof -
  from j j' obtain k a k' a' where a: "(k, a) \<in> set m" "(j, b) \<in> set (pieces upd s e (k, a))"
    and a': "(k', a') \<in> set m" "(j', b') \<in> set (pieces upd s e (k', a'))" by blast
  have ka: "k = area_start a" "k < area_end a" and ka': "k' = area_start a'" "k' < area_end a'"
    using areas_wf_entry [OF wf a(1)] areas_wf_entry [OF wf a'(1)] by blast+
  note b = pieces_entry [OF ka se a(2)] and b' = pieces_entry [OF ka' se a'(2)]
  consider "k < k'" | "k' < k" | "k = k'" by fastforce
  then show ?thesis
  proof cases
    case 1
    with areas_wf_order [OF wf a(1) a'(1)] b b' show ?thesis by auto
  next
    case 2
    with areas_wf_order [OF wf a'(1) a(1)] b b' show ?thesis by auto
  next
    case 3
    with a a' have "a = a'" using bt_inv_uniq [OF areas_wf_inv [OF wf]] by blast
    with 3 a a' pieces_order [OF ka se] show ?thesis by blast
  qed
qed

lemma covers_Union:
  "(\<exists>k a. (k, a) \<in> (\<Union>x \<in> set m. set (f x)) \<and> P a) \<longleftrightarrow> (\<exists>k a. (k, a) \<in> set m \<and> (\<exists>j b. (j, b) \<in> set (f (k, a)) \<and> P b))"
  by fastforce

text \<open>The flags at an address after \<^verbatim>\<open>protect\<close>, for a range that is not empty.\<close>

lemma memset_protect_Ok:
  assumes wf: "areas_wf m" and sz: "sz \<noteq> 0"
    and ok: "memset_protect be s sz upd (m, pt) = (Ok (), (m', pt'))"
  shows "areas_wf m' \<and> unat s + unat sz < 2 ^ 64
    \<and> (\<forall>x v. covers m' x v \<longleftrightarrow> (\<exists>w. covers m x w \<and> v = protected upd s (s + sz) x w))"
proof -
  obtain e where e: "checked_add s sz = Some e" using ok by (cases "checked_add s sz") (auto simp: memset_protect_def)
  have ez: "e = s + sz" "unat e = unat s + unat sz" using checked_add_SomeD [OF e] by auto
  have se: "s < e" using ez sz by (simp add: word_less_nat_alt unat_gt_0)
  obtain r pt1 where "protect_loop be upd s sz e m pt = (r, pt1)" by (cases "protect_loop be upd s sz e m pt")
  then obtain n ins where l: "protect_loop be upd s sz e m pt = (Ok (n, ins), pt1)"
    and m': "m' = fold (\<lambda>(k, a) m. bt_insert k a m) ins n"
    using ok e by (cases r) (auto simp: memset_protect_def)
  let ?U = "\<Union>x \<in> set m. set (pieces upd s e x)"
  have keys: "map fst n = map fst m" and U: "set n \<union> set ins = ?U"
    using protect_loop_Ok [OF l e se areas_wf_inv [OF wf] areas_wf_entry [OF wf]] by auto
  have inU: "\<exists>k a. (k, a) \<in> set m \<and> (j, b) \<in> set (pieces upd s e (k, a))" if "(j, b) \<in> ?U" for j b
    using that by auto
  have ord: "(j < j' \<longrightarrow> area_end b \<le> j') \<and> (j = j' \<longrightarrow> b = b')"
    if "(j, b) \<in> ?U" "(j', b') \<in> ?U" for j b j' b'
    by (rule pieces_ordered [OF wf se]) (use that inU in blast)+
  have fold: "bt_inv m' \<and> set m' = set n \<union> set ins"
    unfolding m'
  proof (rule fold_bt_insert)
    show "bt_inv n" using keys areas_wf_inv [OF wf] by (simp add: bt_inv_def)
    show "v = w" if "(k, v) \<in> set n \<union> set ins" "(k, w) \<in> set n \<union> set ins" for k v w
      using ord that unfolding U by blast
  qed
  have sm: "set m' = ?U" using fold U by simp
  have "areas_wf m'"
  proof (rule areas_wfI)
    show "bt_inv m'" using fold by (rule conjunct1)
    show "j = area_start b \<and> j < area_end b" if jb: "(j, b) \<in> set m'" for j b
    proof -
      obtain k a where a: "(k, a) \<in> set m" "(j, b) \<in> set (pieces upd s e (k, a))"
        using inU [OF jb [unfolded sm]] by blast
      show ?thesis
        using pieces_entry [OF _ _ se a(2)] areas_wf_entry [OF wf a(1)] by blast
    qed
    show "area_end b \<le> j'" if "(j, b) \<in> set m'" "(j', b') \<in> set m'" "j < j'" for j b j' b'
      using ord [OF that(1,2) [unfolded sm]] that(3) by (rule conjunct1 [THEN mp])
  qed
  moreover have "covers m' x v \<longleftrightarrow> (\<exists>w. covers m x w \<and> v = protected upd s (s + sz) x w)" for x v
  proof -
    have "covers m' x v \<longleftrightarrow> (\<exists>k a. (k, a) \<in> set m \<and> covers (pieces upd s e (k, a)) x v)"
      unfolding covers_def sm by (rule covers_Union)
    also have "\<dots> \<longleftrightarrow> (\<exists>w. covers m x w \<and> v = protected upd s e x w)"
    proof -
      have "covers (pieces upd s e (k, a)) x v \<longleftrightarrow> area_start a \<le> x \<and> x < area_end a
          \<and> v = protected upd s e x (ma_flags a, ma_backend a)" if "(k, a) \<in> set m" for k a
        using pieces_cover [OF _ _ se, of k a] areas_wf_entry [OF wf that] by blast
      then show ?thesis unfolding covers_def [of m] by blast
    qed
    finally show ?thesis by (simp add: ez)
  qed
  ultimately show ?thesis using ez unat_less_2p64 [of e] by simp
qed

section \<open>Looking for a free area\<close>

definition fits :: "usize \<Rightarrow> usize \<Rightarrow> usize \<Rightarrow> bool" where
  "fits p sz bound \<longleftrightarrow> unat p + unat sz \<le> unat bound"

lemma checked_add_fits:
  "(case checked_add p sz of Some e \<Rightarrow> e \<le> bound | None \<Rightarrow> False) \<longleftrightarrow> fits p sz bound"
  using unat_less_2p64 [of bound]
  by (auto simp: checked_add_unat fits_def word_le_nat_alt unat_word_ariths)

text \<open>\<open>[p, p + sz)\<close> meets no area of the set.\<close>

definition free_at :: "('f, 'b) areas \<Rightarrow> usize \<Rightarrow> usize \<Rightarrow> bool" where
  "free_at m p sz \<longleftrightarrow> (\<forall>(k, a) \<in> set m. fits p sz k \<or> area_end a \<le> p)"

lemma fits_mono: "fits p sz k \<Longrightarrow> p' \<le> p \<Longrightarrow> k \<le> k' \<Longrightarrow> fits p' sz k'"
  by (simp add: fits_def word_le_nat_alt)

lemma fits_le: "fits p sz k \<Longrightarrow> p \<le> k"
  by (simp add: fits_def word_le_nat_alt)

lemma free_at_Cons: "free_at ((k, a) # m) p sz \<longleftrightarrow> (fits p sz k \<or> area_end a \<le> p) \<and> free_at m p sz"
  by (simp add: free_at_def)

lemma free_atD: "free_at m p sz \<Longrightarrow> (k, a) \<in> set m \<Longrightarrow> fits p sz k \<or> area_end a \<le> p"
  by (auto simp: free_at_def)

lemma areas_wf_tail:
  assumes "areas_wf ((k, a) # m)"
  shows "areas_wf m" and "\<And>k' a'. (k', a') \<in> set m \<Longrightarrow> k < k' \<and> area_end a \<le> k'"
proof -
  have inv: "bt_inv m" "\<forall>e \<in> set m. k < fst e" using areas_wf_inv [OF assms] by (simp_all add: bt_inv_Cons)
  show "areas_wf m"
    by (rule areas_wfI [OF inv(1)]) (rule areas_wf_entry [OF assms], simp, rule areas_wf_order [OF assms], auto)
  show "k < k' \<and> area_end a \<le> k'" if "(k', a') \<in> set m" for k' a'
    using that inv(2) areas_wf_order [OF assms, of k a k' a'] by auto
qed

text \<open>The loop returns the least position from \<open>p\<close> on where the size fits before the next area.\<close>

lemma ffa_loop_spec:
  assumes "areas_wf m" and "\<forall>e \<in> set m. p \<le> fst e"
  shows "case ffa_loop p sz m of
      Inl q \<Rightarrow> p \<le> q \<and> free_at m q sz \<and> (\<exists>e \<in> set m. fits q sz (fst e)) \<and> (\<forall>p'. p \<le> p' \<and> free_at m p' sz \<longrightarrow> q \<le> p')
    | Inr q \<Rightarrow> p \<le> q \<and> (\<forall>(k, a) \<in> set m. area_end a \<le> q) \<and> (\<forall>p'. p \<le> p' \<and> free_at m p' sz \<longrightarrow> q \<le> p')"
  using assms
proof (induction m arbitrary: p)
  case (Cons x m)
  obtain k a where x: "x = (k, a)" by (cases x)
  note tl = areas_wf_tail [OF Cons.prems(1) [unfolded x]]
  have ka: "p \<le> k" "k < area_end a" using Cons.prems(2) areas_wf_entry [OF Cons.prems(1), of k a] x by auto
  show ?case
  proof (cases "fits p sz k")
    case True
    then have "free_at ((k, a) # m) p sz"
      using tl(2) fits_mono [OF True] by (force simp: free_at_def)
    with True show ?thesis by (simp add: x checked_add_fits)
  next
    case False
    have pa: "p \<le> area_end a" using ka by simp
    have up: "area_end a \<le> p'" if "p \<le> p'" "free_at ((k, a) # m) p' sz" for p'
      using that False fits_mono [of p' sz k p k] by (auto simp: free_at_Cons)
    have ih: "case ffa_loop (area_end a) sz m of
      Inl q \<Rightarrow> area_end a \<le> q \<and> free_at m q sz \<and> (\<exists>e \<in> set m. fits q sz (fst e))
        \<and> (\<forall>p'. area_end a \<le> p' \<and> free_at m p' sz \<longrightarrow> q \<le> p')
    | Inr q \<Rightarrow> area_end a \<le> q \<and> (\<forall>(k, a) \<in> set m. area_end a \<le> q)
        \<and> (\<forall>p'. area_end a \<le> p' \<and> free_at m p' sz \<longrightarrow> q \<le> p')"
      by (rule Cons.IH [OF tl(1)]) (use tl(2) in auto)
    show ?thesis
    proof (cases "ffa_loop (area_end a) sz m")
      case (Inl q)
      with ih pa up False show ?thesis by (auto simp: x checked_add_fits free_at_Cons)
    next
      case (Inr q)
      with ih pa up False show ?thesis by (auto simp: x checked_add_fits free_at_Cons)
    qed
  qed
qed simp

lemma memset_find_free_area_start:
  assumes wf: "areas_wf m" and s: "s = (case bt_last_lt h m of Some (_, a) \<Rightarrow> max h (area_end a) | None \<Rightarrow> h)"
  shows "h \<le> s" and "(k, a) \<in> set m \<Longrightarrow> k < s \<Longrightarrow> area_end a \<le> s" and "free_at m p sz \<Longrightarrow> h \<le> p \<Longrightarrow> s \<le> p"
proof -
  show "h \<le> s" by (auto simp: s split: option.splits)
  show "area_end a \<le> s" if ka: "(k, a) \<in> set m" "k < s"
  proof (cases "bt_last_lt h m")
    case None
    with ka s show ?thesis by (auto simp: bt_last_lt_None)
  next
    case (Some e)
    then obtain k0 a0 where l: "bt_last_lt h m = Some (k0, a0)" by (cases e) auto
    note l' = bt_last_lt_pair [OF areas_wf_inv [OF wf] l]
    have s': "s = max h (area_end a0)" using s l by simp
    consider "k0 < k" | "k = k0" | "k < k0" by fastforce
    then show ?thesis
    proof cases
      case 1
      with l'(3) [OF ka(1)] have "h \<le> k" by fastforce
      with areas_wf_order [OF wf l'(1) ka(1) 1] ka(2) s' show ?thesis by (auto simp: max_def split: if_splits)
    next
      case 2
      with l'(1) ka(1) have "a = a0" using bt_inv_uniq [OF areas_wf_inv [OF wf]] by blast
      then show ?thesis by (simp add: s')
    next
      case 3
      from areas_wf_order [OF wf ka(1) l'(1) 3] l'(2) s' show ?thesis by (auto simp: max_def)
    qed
  qed
  show "s \<le> p" if "free_at m p sz" "h \<le> p"
  proof (cases "bt_last_lt h m")
    case None
    with that s show ?thesis by simp
  next
    case (Some e)
    then obtain k0 a0 where l: "bt_last_lt h m = Some (k0, a0)" by (cases e) auto
    note l' = bt_last_lt_pair [OF areas_wf_inv [OF wf] l]
    have "\<not> fits p sz k0" using fits_le [of p sz k0] l'(2) that(2) by auto
    with free_atD [OF that(1) l'(1)] that(2) l s show ?thesis by simp
  qed
qed


lemma memset_find_free_area_spec:
  assumes wf: "areas_wf m"
  shows "case memset_find_free_area hint sz limit m of
      Some q \<Rightarrow> hint \<le> q \<and> rstart limit \<le> q \<and> free_at m q sz
        \<and> (fits q sz (rend limit) \<or> (\<exists>e \<in> set m. fits q sz (fst e)))
        \<and> (\<forall>p. hint \<le> p \<and> rstart limit \<le> p \<and> free_at m p sz \<longrightarrow> q \<le> p)
    | None \<Rightarrow> \<forall>p. hint \<le> p \<and> rstart limit \<le> p \<and> free_at m p sz \<longrightarrow> \<not> fits p sz (rend limit)"
proof -
  let ?h = "max hint (rstart limit)"
  define s where "s = (case bt_last_lt ?h m of Some (_, a) \<Rightarrow> max ?h (area_end a) | None \<Rightarrow> ?h)"
  note st = memset_find_free_area_start [OF wf s_def]
  let ?n = "bt_from s m"
  have n: "set ?n = {e \<in> set m. s \<le> fst e}" by (rule set_bt_from)
  have wfn: "areas_wf ?n" unfolding bt_from_def by (rule areas_wf_filter [OF wf])
  have keys: "\<forall>e \<in> set ?n. s \<le> fst e" by (simp add: n)
  have lift: "free_at m q sz" if "s \<le> q" "free_at ?n q sz" for q
    unfolding free_at_def
  proof clarify
    fix k a assume ka: "(k, a) \<in> set m" "\<not> area_end a \<le> q"
    then have "s \<le> k" using st(2) [OF ka(1)] that(1) by fastforce
    with ka free_atD [OF that(2), of k a] show "fits q sz k" by (simp add: n)
  qed
  have drop: "free_at ?n p sz" if "free_at m p sz" for p
    using that by (auto simp: free_at_def n)
  have h: "hint \<le> q \<and> rstart limit \<le> q" if "s \<le> q" for q
    using order_trans [OF st(1) that] by simp
  have up: "s \<le> p" if "hint \<le> p" "rstart limit \<le> p" "free_at m p sz" for p
    using st(3) [OF that(3)] that by simp
  have eq: "memset_find_free_area hint sz limit m =
      (case ffa_loop s sz ?n of Inl q \<Rightarrow> Some q
       | Inr q \<Rightarrow> if fits q sz (rend limit) then Some q else None)"
    unfolding memset_find_free_area_def Let_def s_def checked_add_fits by (rule refl)
  show ?thesis
  proof (cases "ffa_loop s sz ?n")
    case (Inl q)
    from ffa_loop_spec [OF wfn keys, of sz] Inl
    have q: "s \<le> q" "free_at ?n q sz" "\<exists>e \<in> set m. fits q sz (fst e)"
      "\<And>p'. s \<le> p' \<Longrightarrow> free_at ?n p' sz \<Longrightarrow> q \<le> p'"
      by (force simp: n)+
    with Inl h lift drop up show ?thesis by (simp add: eq)
  next
    case (Inr q)
    from ffa_loop_spec [OF wfn keys, of sz] Inr
    have q: "s \<le> q" "\<forall>(k, a) \<in> set ?n. area_end a \<le> q" "\<And>p'. s \<le> p' \<Longrightarrow> free_at ?n p' sz \<Longrightarrow> q \<le> p'"
      by auto
    from q(2) have "free_at ?n q sz" by (auto simp: free_at_def)
    with q Inr h lift drop up fits_mono show ?thesis by (auto simp: eq)
  qed
qed

section \<open>Properties\<close>

text \<open>
  C9. \<^verbatim>\<open>MemorySet::find_free_area\<close> is first fit. On a well-formed set, a result lies at or above the
  hint and the start of the limit, \<open>[q, q + size)\<close> meets no area, it ends at or before the end of
  the limit or the start of some area, and no smaller position from the hint on is free. Without a
  result no free position from the hint on fits the limit.
\<close>

theorem find_free_area_first_fit:
  "areas_wf m \<Longrightarrow>
   case memset_find_free_area hint sz limit m of
      Some q \<Rightarrow> hint \<le> q \<and> rstart limit \<le> q \<and> free_at m q sz
        \<and> (fits q sz (rend limit) \<or> (\<exists>e \<in> set m. fits q sz (fst e)))
        \<and> (\<forall>p. hint \<le> p \<and> rstart limit \<le> p \<and> free_at m p sz \<longrightarrow> q \<le> p)
    | None \<Rightarrow> \<forall>p. hint \<le> p \<and> rstart limit \<le> p \<and> free_at m p sz \<longrightarrow> \<not> fits p sz (rend limit)"
  by (rule memset_find_free_area_spec)

definition demo_areas :: "(nat, nat) areas" where
  "demo_areas =
    [(0x1000, \<lparr>ma_range = \<lparr>rstart = 0x1000, rend = 0x3000\<rparr>, ma_flags = 7, ma_backend = 0\<rparr>),
     (0x5000, \<lparr>ma_range = \<lparr>rstart = 0x5000, rend = 0x6000\<rparr>, ma_flags = 3, ma_backend = 1\<rparr>)]"

lemma demo_areas_wf: "areas_wf demo_areas"
  by (simp add: demo_areas_def areas_wf_def bt_inv_def area_start_def area_end_def)

theorem find_free_area_first_fit_witness:
  "memset_find_free_area 0x2000 0x2000 \<lparr>rstart = 0, rend = 0x9000\<rparr> demo_areas = Some 0x3000
   \<and> free_at demo_areas 0x3000 0x2000"
proof -
  have r: "memset_find_free_area 0x2000 0x2000 \<lparr>rstart = 0, rend = 0x9000\<rparr> demo_areas = Some 0x3000"
    by code_simp
  show ?thesis
    using find_free_area_first_fit [OF demo_areas_wf, where hint = "0x2000" and sz = "0x2000"
        and limit = "\<lparr>rstart = 0, rend = 0x9000\<rparr>"] r by simp
qed

end
