(* ===== verification/Bitmap_Alloc.thy ===== *)
theory Bitmap_Alloc
  imports Memory_Addr
begin

text \<open>
  The page allocator (\<^verbatim>\<open>vendor/allocator/src/bitmap.rs\<close>) over the hierarchical bitmap of
  \<^verbatim>\<open>vendor/bitmap-allocator\<close>: 16-bit leaves below nodes of 16 children, with a summary bit for every
  child that has a free bit. The nesting of the type \<^verbatim>\<open>BitAllocCascade16<T>\<close> is the depth argument
  \<open>n\<close> of the operations. An index out of range, an \<^verbatim>\<open>unwrap\<close> of \<^verbatim>\<open>None\<close> and a failed assertion are
  \<open>Panic\<close>.

  Lemmas: \<open>ba_wf\<close> (summary bits are exact) is kept by every operation; \<open>free_bits\<close> reads a tree as
  the set of its free indices, \<^verbatim>\<open>alloc\<close> takes the least one, \<^verbatim>\<open>dealloc\<close>, \<^verbatim>\<open>insert\<close> and \<^verbatim>\<open>remove\<close> are the
  set operations, \<^verbatim>\<open>next\<close> is the least free index from a key on.
\<close>

section \<open>The bitmap\<close>

datatype bit_alloc = Leaf "16 word" | Node "16 word" "bit_alloc list"

fun CAP :: "nat \<Rightarrow> nat" where
  "CAP 0 = 16"
| "CAP (Suc n) = CAP n * 16"

fun ba_default :: "nat \<Rightarrow> bit_alloc" where
  "ba_default 0 = Leaf 0"
| "ba_default (Suc n) = Node 0 (replicate 16 (ba_default n))"

fun ba_is_empty :: "bit_alloc \<Rightarrow> bool" where
  "ba_is_empty (Leaf w) = (w = 0)"
| "ba_is_empty (Node w _) = (w = 0)"

definition trailing_zeros :: "16 word \<Rightarrow> nat" where
  "trailing_zeros w = (case List.find (bit w) [0..<16] of Some i \<Rightarrow> i | None \<Rightarrow> 16)"

definition put_bit :: "nat \<Rightarrow> bool \<Rightarrow> 16 word \<Rightarrow> 16 word" where
  "put_bit i b w = (if b then set_bit i w else unset_bit i w)"

fun ba_alloc :: "nat \<Rightarrow> bit_alloc \<Rightarrow> (unit, nat option) outcome \<times> bit_alloc" where
  "ba_alloc 0 (Leaf w) =
     (let i = trailing_zeros w in
      if i < 16 then (Ok (Some i), Leaf (put_bit i False w)) else (Ok None, Leaf w))"
| "ba_alloc (Suc n) (Node w subs) =
     (if w \<noteq> 0 then
        let i = trailing_zeros w in
        case ba_alloc n (subs ! i) of
          (Ok (Some r), s) \<Rightarrow> (Ok (Some (r + i * CAP n)), Node (put_bit i (\<not> ba_is_empty s) w) (subs[i := s]))
        | (_, s) \<Rightarrow> (Panic, Node w (subs[i := s]))
      else (Ok None, Node w subs))"
| "ba_alloc _ t = (Panic, t)"

fun ba_test :: "nat \<Rightarrow> bit_alloc \<Rightarrow> nat \<Rightarrow> (unit, bool) outcome" where
  "ba_test 0 (Leaf w) key = (if key < 16 then Ok (bit w key) else Panic)"
| "ba_test (Suc n) (Node w subs) key =
     (if key div CAP n < length subs then ba_test n (subs ! (key div CAP n)) (key mod CAP n) else Panic)"
| "ba_test _ _ _ = Panic"

fun ba_dealloc :: "nat \<Rightarrow> nat \<Rightarrow> bit_alloc \<Rightarrow> (unit, bool) outcome \<times> bit_alloc" where
  "ba_dealloc 0 key (Leaf w) =
     (if key < 16 then (Ok (\<not> bit w key), Leaf (put_bit key True w)) else (Panic, Leaf w))"
| "ba_dealloc (Suc n) key (Node w subs) =
     (let i = key div CAP n in
      if i < 16 then
        case ba_dealloc n (key mod CAP n) (subs ! i) of
          (r, s) \<Rightarrow> (r, Node (put_bit i True w) (subs[i := s]))
      else (Panic, Node w subs))"
| "ba_dealloc _ _ t = (Panic, t)"

text \<open>
  \<^verbatim>\<open>insert\<close> and \<^verbatim>\<open>remove\<close> on a range: \<open>v\<close> is the value the bits get. A node hands the part of the
  range in each of its children down (\<^verbatim>\<open>for_range\<close>), a leaf sets the bits. An empty range fails the
  assertion of \<^verbatim>\<open>set_bits\<close> or the subtraction of \<^verbatim>\<open>for_range\<close>.
\<close>

definition put_bits :: "bool \<Rightarrow> nat \<Rightarrow> nat \<Rightarrow> 16 word \<Rightarrow> 16 word" where
  "put_bits v a b w = fold (\<lambda>i. put_bit i v) [a..<b] w"

fun for_range ::
  "(nat \<Rightarrow> nat \<Rightarrow> bit_alloc \<Rightarrow> (unit, unit) outcome \<times> bit_alloc) \<Rightarrow> nat \<Rightarrow> nat \<Rightarrow> nat \<Rightarrow> nat list
     \<Rightarrow> 16 word \<Rightarrow> bit_alloc list \<Rightarrow> (unit, unit) outcome \<times> bit_alloc" where
  "for_range f cap a b [] w subs = (Ok (), Node w subs)"
| "for_range f cap a b (i # is) w subs =
     (let lo = (if a div cap = i then a mod cap else 0);
          hi = (if b div cap = i then b mod cap else cap)
      in case f lo hi (subs ! i) of
           (Ok _, s) \<Rightarrow> for_range f cap a b is (put_bit i (\<not> ba_is_empty s) w) (subs[i := s])
         | (_, s) \<Rightarrow> (Panic, Node w (subs[i := s])))"

primrec ba_range :: "nat \<Rightarrow> bool \<Rightarrow> nat \<Rightarrow> nat \<Rightarrow> bit_alloc \<Rightarrow> (unit, unit) outcome \<times> bit_alloc" where
  "ba_range 0 v a b t =
     (case t of
        Leaf w \<Rightarrow> if a < b \<and> b \<le> 16 then (Ok (), Leaf (put_bits v a b w)) else (Panic, Leaf w)
      | _ \<Rightarrow> (Panic, t))"
| "ba_range (Suc n) v a b t =
     (case t of
        Node w subs \<Rightarrow>
          if a < b \<and> b \<le> CAP (Suc n) then
            for_range (ba_range n v) (CAP n) a b [a div CAP n..<Suc ((b - 1) div CAP n)] w subs
          else (Panic, t)
      | _ \<Rightarrow> (Panic, t))"

definition ba_insert :: "nat \<Rightarrow> nat \<Rightarrow> nat \<Rightarrow> bit_alloc \<Rightarrow> (unit, unit) outcome \<times> bit_alloc" where
  "ba_insert n a b t = ba_range n True a b t"

definition ba_remove :: "nat \<Rightarrow> nat \<Rightarrow> nat \<Rightarrow> bit_alloc \<Rightarrow> (unit, unit) outcome \<times> bit_alloc" where
  "ba_remove n a b t = ba_range n False a b t"

fun find_map :: "('a \<Rightarrow> 'b option) \<Rightarrow> 'a list \<Rightarrow> 'b option" where
  "find_map f [] = None"
| "find_map f (x # xs) = (case f x of Some y \<Rightarrow> Some y | None \<Rightarrow> find_map f xs)"

primrec ba_next :: "nat \<Rightarrow> bit_alloc \<Rightarrow> nat \<Rightarrow> nat option" where
  "ba_next 0 t key = (case t of Leaf w \<Rightarrow> List.find (bit w) [key..<16] | _ \<Rightarrow> None)"
| "ba_next (Suc n) t key =
     (case t of
        Node w subs \<Rightarrow>
          (let idx = key div CAP n in
           find_map (\<lambda>i.
             if bit w i then
               map_option (\<lambda>x. x + CAP n * i) (ba_next n (subs ! i) (if i = idx then key - CAP n * idx else 0))
             else None) [idx..<16])
      | _ \<Rightarrow> None)"

section \<open>Contiguous blocks\<close>

definition align_up_log2 :: "nat \<Rightarrow> nat \<Rightarrow> nat" where
  "align_up_log2 base l = (base + (2 ^ l - 1)) div 2 ^ l * 2 ^ l"

definition is_aligned_log2 :: "nat \<Rightarrow> nat \<Rightarrow> bool" where
  "is_aligned_log2 base l = (base mod 2 ^ l = 0)"

text \<open>
  The loop of \<^verbatim>\<open>find_contiguous\<close>. The offset grows in every round, since a free index found beyond
  it is beyond it after rounding up as well.
\<close>

function find_loop :: "(nat \<Rightarrow> nat option) \<Rightarrow> nat \<Rightarrow> nat \<Rightarrow> nat \<Rightarrow> nat \<Rightarrow> nat \<Rightarrow> (unit, nat option) outcome" where
  "find_loop nx capacity sz l base offset =
     (if offset < capacity then
        case nx offset of
          None \<Rightarrow> Ok None
        | Some k \<Rightarrow>
            if k \<noteq> offset then
              (if offset < k then
                 let base = (((k - 1) div 2 ^ l) + 1) * 2 ^ l in find_loop nx capacity sz l base base
               else Panic)
            else if Suc offset - base = sz then Ok (Some base)
            else find_loop nx capacity sz l base (Suc offset)
      else Ok None)"
  by pat_completeness auto
termination
proof (relation "measure (\<lambda>(nx, capacity, sz, l, base, offset). capacity - offset)", goal_cases)
  case 1
  then show ?case by simp
next
  case (2 nx capacity sz l base offset k base')
  have "k - 1 < (((k - 1) div 2 ^ l) + 1) * 2 ^ l"
    using dividend_less_times_div [of "2 ^ l" "k - 1"] by (simp add: mult.commute)
  with 2 show ?case by simp
next
  case (3 nx capacity sz l base offset k)
  then show ?case by simp
qed

declare find_loop.simps [simp del]

definition find_contiguous :: "nat \<Rightarrow> bit_alloc \<Rightarrow> nat \<Rightarrow> nat \<Rightarrow> (unit, nat option) outcome" where
  "find_contiguous n t sz l =
     (if CAP n < 2 ^ l \<or> ba_is_empty t then Ok None
      else case ba_next n t 0 of
        None \<Rightarrow> Ok None
      | Some start \<Rightarrow> let base = align_up_log2 start l in find_loop (ba_next n t) (CAP n) sz l base base)"

definition ba_alloc_contiguous ::
  "nat \<Rightarrow> nat \<Rightarrow> nat \<Rightarrow> bit_alloc \<Rightarrow> (unit, nat option) outcome \<times> bit_alloc" where
  "ba_alloc_contiguous n sz l t =
     (case find_contiguous n t sz l of
        Ok None \<Rightarrow> (Ok None, t)
      | Ok (Some base) \<Rightarrow> sbind (ba_remove n base (base + sz) t) (\<lambda>_ t. (Ok (Some base), t))
      | _ \<Rightarrow> (Panic, t))"

section \<open>Free indices\<close>

primrec ba_wf :: "nat \<Rightarrow> bit_alloc \<Rightarrow> bool" where
  "ba_wf 0 t = (case t of Leaf _ \<Rightarrow> True | _ \<Rightarrow> False)"
| "ba_wf (Suc n) t =
     (case t of
        Node w subs \<Rightarrow> length subs = 16 \<and> (\<forall>i<16. ba_wf n (subs ! i) \<and> (bit w i \<longleftrightarrow> \<not> ba_is_empty (subs ! i)))
      | _ \<Rightarrow> False)"

primrec free_bits :: "nat \<Rightarrow> bit_alloc \<Rightarrow> nat set" where
  "free_bits 0 t = (case t of Leaf w \<Rightarrow> {i. bit w i} | _ \<Rightarrow> {})"
| "free_bits (Suc n) t =
     (case t of
        Node w subs \<Rightarrow> {k. k < CAP (Suc n) \<and> k mod CAP n \<in> free_bits n (subs ! (k div CAP n))}
      | _ \<Rightarrow> {})"

lemma CAP_pos [simp]: "0 < CAP n"
  by (induction n) simp_all

lemma div_CAP: "k < CAP (Suc n) \<longleftrightarrow> k div CAP n < 16"
  by (simp add: div_less_iff_less_mult mult.commute)

lemma bit16_lt: "bit w i \<Longrightarrow> i < 16" for w :: "16 word"
  using bit_imp_le_length [of w i] by simp

lemma word16_zero: "w = 0 \<longleftrightarrow> (\<forall>i<16. \<not> bit w i)" for w :: "16 word"
  by (auto simp: bit_eq_iff dest: bit16_lt)

lemma bit_put_bit: "i < 16 \<Longrightarrow> bit (put_bit i b w) j = (if j = i then b else bit w j)"
  by (auto simp: put_bit_def bit_simps)

lemma trailing_zeros_nonzero:
  assumes "w \<noteq> 0"
  shows "trailing_zeros w < 16" and "bit w (trailing_zeros w)" and "\<And>j. bit w j \<Longrightarrow> trailing_zeros w \<le> j"
proof -
  obtain i where i: "List.find (bit w) [0..<16] = Some i"
    using assms word16_zero [of w] by (cases "List.find (bit w) [0..<16]") (auto simp: find_None_iff)
  then have t: "trailing_zeros w = i" by (simp add: trailing_zeros_def)
  from i show "trailing_zeros w < 16" "bit w (trailing_zeros w)" unfolding t by (auto simp: find_Some_iff)
  show "trailing_zeros w \<le> j" if "bit w j" for j
  proof (rule ccontr)
    assume "\<not> trailing_zeros w \<le> j"
    with i t that show False by (auto simp: find_Some_iff)
  qed
qed

lemma trailing_zeros_zero: "trailing_zeros 0 = 16"
  by (simp add: trailing_zeros_def upt_rec)

lemma free_bits_lt: "ba_wf n t \<Longrightarrow> k \<in> free_bits n t \<Longrightarrow> k < CAP n"
  by (cases n) (auto split: bit_alloc.splits dest: bit16_lt)

lemma node_mem:
  "j < CAP n \<Longrightarrow> i * CAP n + j \<in> free_bits (Suc n) (Node w subs) \<longleftrightarrow> i < 16 \<and> j \<in> free_bits n (subs ! i)"
  by (simp add: div_CAP del: CAP.simps)

lemma CAP_split: "r < CAP n \<Longrightarrow> k = r + i * CAP n \<longleftrightarrow> k div CAP n = i \<and> k mod CAP n = r"
  by auto

lemma ba_is_empty_iff: "ba_wf n t \<Longrightarrow> ba_is_empty t \<longleftrightarrow> free_bits n t = {}"
proof (induction n arbitrary: t)
  case 0
  then show ?case using word16_zero by (auto split: bit_alloc.splits dest: bit16_lt)
next
  case (Suc n)
  then obtain w subs where t: "t = Node w subs" by (auto split: bit_alloc.splits)
  have b: "bit w i \<longleftrightarrow> free_bits n (subs ! i) \<noteq> {}" if "i < 16" for i
    using Suc t that by auto
  have "free_bits (Suc n) t = {} \<longleftrightarrow> (\<forall>i<16. free_bits n (subs ! i) = {})"
  proof
    assume e: "free_bits (Suc n) t = {}"
    show "\<forall>i<16. free_bits n (subs ! i) = {}"
    proof (intro allI impI)
      fix i :: nat assume i: "i < 16"
      have "i * CAP n + j \<in> free_bits (Suc n) t" if "j \<in> free_bits n (subs ! i)" for j
        using node_mem [of j n i w subs] free_bits_lt [of n "subs ! i" j] that Suc.prems t i by simp
      with e show "free_bits n (subs ! i) = {}" by blast
    qed
  next
    assume "\<forall>i<16. free_bits n (subs ! i) = {}"
    then show "free_bits (Suc n) t = {}" using t by (auto simp: div_CAP simp del: CAP.simps)
  qed
  then show ?case using b t word16_zero [of w] by auto
qed

lemma node_update:
  assumes wf: "ba_wf (Suc n) (Node w subs)" and i: "i < 16" and s: "ba_wf n s"
  shows "ba_wf (Suc n) (Node (put_bit i (\<not> ba_is_empty s) w) (subs[i := s]))"
    and "free_bits (Suc n) (Node (put_bit i b w) (subs[i := s])) =
      {k. k < CAP (Suc n) \<and> (if k div CAP n = i then k mod CAP n \<in> free_bits n s else k \<in> free_bits (Suc n) (Node w subs))}"
  using assms by (auto simp: bit_put_bit nth_list_update div_CAP simp del: CAP.simps)

lemma ba_alloc_spec:
  "ba_wf n t \<Longrightarrow>
    (if free_bits n t = {} then ba_alloc n t = (Ok None, t)
     else \<exists>k t'. ba_alloc n t = (Ok (Some k), t') \<and> k \<in> free_bits n t \<and> (\<forall>j \<in> free_bits n t. k \<le> j)
       \<and> ba_wf n t' \<and> free_bits n t' = free_bits n t - {k})"
proof (induction n arbitrary: t)
  case 0
  then obtain w where t: "t = Leaf w" by (auto split: bit_alloc.splits)
  show ?case
  proof (cases "w = 0")
    case True
    then show ?thesis by (simp add: t trailing_zeros_zero)
  next
    case False
    note z = trailing_zeros_nonzero [OF False]
    have "{i. bit (put_bit (trailing_zeros w) False w) i} = {i. bit w i} - {trailing_zeros w}"
      using z by (auto simp: bit_put_bit)
    with z False show ?thesis by (auto simp: t Let_def)
  qed
next
  case (Suc n)
  then obtain w subs where t: "t = Node w subs" by (auto split: bit_alloc.splits)
  show ?case
  proof (cases "w = 0")
    case True
    then show ?thesis using ba_is_empty_iff [OF Suc.prems] by (simp add: t)
  next
    case False
    let ?i = "trailing_zeros w"
    note z = trailing_zeros_nonzero [OF False]
    have sub: "ba_wf n (subs ! i)" "bit w i \<longleftrightarrow> free_bits n (subs ! i) \<noteq> {}" if "i < 16" for i
      using Suc.prems t that ba_is_empty_iff by auto
    from Suc.IH [OF sub(1) [OF z(1)]] sub(2) [OF z(1)] z(2) obtain r s where
      r: "ba_alloc n (subs ! ?i) = (Ok (Some r), s)" "r \<in> free_bits n (subs ! ?i)"
        "\<forall>j \<in> free_bits n (subs ! ?i). r \<le> j" "ba_wf n s" "free_bits n s = free_bits n (subs ! ?i) - {r}"
      by auto
    let ?k = "r + ?i * CAP n"
    have rl: "r < CAP n" using free_bits_lt [OF sub(1) [OF z(1)] r(2)] .
    have dm: "?k div CAP n = ?i" "?k mod CAP n = r" using rl by simp_all
    have k: "?k \<in> free_bits (Suc n) t" using t z(1) r(2) dm by (simp add: div_CAP del: CAP.simps)
    have least: "?k \<le> j" if "j \<in> free_bits (Suc n) t" for j
    proof -
      from that t have j: "j div CAP n < 16" "j mod CAP n \<in> free_bits n (subs ! (j div CAP n))"
        by (simp_all add: div_CAP del: CAP.simps)
      then have "?i \<le> j div CAP n" using z(3) sub(2) by blast
      then consider "?i < j div CAP n" | "?i = j div CAP n" by linarith
      then show ?thesis
      proof cases
        case 1
        then have "(?i + 1) * CAP n \<le> j div CAP n * CAP n" by (intro mult_le_mono1) simp
        also have "\<dots> \<le> j" by simp
        finally show ?thesis using rl by simp
      next
        case 2
        then have "r \<le> j mod CAP n" using r(3) j(2) by simp
        with 2 show ?thesis by (metis add_mono_thms_linordered_semiring(2) div_mult_mod_eq add.commute)
      qed
    qed
    note up = node_update [OF Suc.prems [unfolded t] z(1) r(4)]
    have al: "ba_alloc (Suc n) t = (Ok (Some ?k), Node (put_bit ?i (\<not> ba_is_empty s) w) (subs[?i := s]))"
      using False r(1) by (simp add: t Let_def)
    have "free_bits (Suc n) (Node (put_bit ?i (\<not> ba_is_empty s) w) (subs[?i := s])) = free_bits (Suc n) t - {?k}"
      unfolding up(2) set_eq_iff mem_Collect_eq
    proof (rule allI)
      fix k
      show "(k < CAP (Suc n) \<and> (if k div CAP n = ?i then k mod CAP n \<in> free_bits n s
          else k \<in> free_bits (Suc n) (Node w subs))) = (k \<in> free_bits (Suc n) t - {?k})"
        using CAP_split [OF rl, of k ?i] by (cases "k div CAP n = ?i") (simp_all add: t r(5) conj_commute conj_left_commute)
    qed
    with al k least up(1) show ?thesis by auto
  qed
qed

lemma ba_dealloc_spec:
  "ba_wf n t \<Longrightarrow> key < CAP n \<Longrightarrow>
    \<exists>t'. ba_dealloc n key t = (Ok (key \<notin> free_bits n t), t') \<and> ba_wf n t' \<and> free_bits n t' = insert key (free_bits n t)"
proof (induction n arbitrary: key t)
  case 0
  then obtain w where "t = Leaf w" by (auto split: bit_alloc.splits)
  with 0 show ?case by (auto simp: bit_put_bit)
next
  case (Suc n)
  then obtain w subs where t: "t = Node w subs" by (auto split: bit_alloc.splits)
  let ?i = "key div CAP n" and ?m = "key mod CAP n"
  have i: "?i < 16" using Suc.prems(2) div_CAP by blast
  have "ba_wf n (subs ! ?i)" using Suc.prems(1) t i by simp
  from Suc.IH [OF this, of ?m] obtain s where s: "ba_dealloc n ?m (subs ! ?i) = (Ok (?m \<notin> free_bits n (subs ! ?i)), s)"
    "ba_wf n s" "free_bits n s = insert ?m (free_bits n (subs ! ?i))" by auto
  have ne: "\<not> ba_is_empty s" using ba_is_empty_iff [OF s(2)] s(3) by simp
  note up = node_update [OF Suc.prems(1) [unfolded t] i s(2)]
  have "free_bits (Suc n) (Node (put_bit ?i True w) (subs[?i := s])) = insert key (free_bits (Suc n) t)"
    unfolding up(2) set_eq_iff mem_Collect_eq
  proof (rule allI)
    fix k
    have "k = key \<longleftrightarrow> k div CAP n = ?i \<and> k mod CAP n = ?m" by (metis div_mult_mod_eq)
    then show "(k < CAP (Suc n) \<and> (if k div CAP n = ?i then k mod CAP n \<in> free_bits n s
        else k \<in> free_bits (Suc n) (Node w subs))) = (k \<in> insert key (free_bits (Suc n) t))"
      using Suc.prems(2) by (cases "k div CAP n = ?i") (auto simp: t s(3))
  qed
  moreover have "?m \<notin> free_bits n (subs ! ?i) \<longleftrightarrow> key \<notin> free_bits (Suc n) t"
    using Suc.prems(2) by (simp add: t)
  ultimately show ?case using s(1) i up(1) ne by (simp add: t Let_def)
qed

text \<open>The part of \<open>[a, b)\<close> in child \<open>i\<close>, as \<^verbatim>\<open>for_range\<close> computes it.\<close>

definition seg_lo :: "nat \<Rightarrow> nat \<Rightarrow> nat \<Rightarrow> nat" where
  "seg_lo c a i = (if a div c = i then a mod c else 0)"

definition seg_hi :: "nat \<Rightarrow> nat \<Rightarrow> nat \<Rightarrow> nat" where
  "seg_hi c b i = (if b div c = i then b mod c else c)"

lemma seg_lo_iff:
  assumes "0 < c" "a div c \<le> i" "k div c = i"
  shows "a \<le> k \<longleftrightarrow> seg_lo c a i \<le> k mod c"
proof (cases "a div c = i")
  case True
  then show ?thesis using assms(3) div_mult_mod_eq [of a c] div_mult_mod_eq [of k c]
    by (simp add: seg_lo_def) (metis nat_add_left_cancel_le)
next
  case False
  then have "a div c < k div c" using assms by simp
  then have "a < k" using div_le_mono [of k a c] by (meson leD leI)
  with False show ?thesis by (simp add: seg_lo_def)
qed

lemma seg_hi_iff:
  assumes "0 < c" "i \<le> (b - 1) div c" "k div c = i" "0 < b"
  shows "k < b \<longleftrightarrow> k mod c < seg_hi c b i"
proof (cases "b div c = i")
  case True
  then show ?thesis using assms(3) div_mult_mod_eq [of b c] div_mult_mod_eq [of k c]
    by (simp add: seg_hi_def) (metis nat_add_left_cancel_less)
next
  case False
  have "i \<le> b div c" using assms(2) div_le_mono [of "b - 1" b c] by simp
  with False assms(3) have "k div c < b div c" by simp
  then have "k < b" using div_le_mono [of b k c] by (meson leD leI)
  with False assms(1) show ?thesis by (simp add: seg_hi_def)
qed

lemma seg_nonempty:
  assumes "0 < c" "a < b" "a div c \<le> i" "i \<le> (b - 1) div c"
  shows "seg_lo c a i < seg_hi c b i" and "seg_hi c b i \<le> c"
proof -
  show "seg_hi c b i \<le> c" using assms(1) by (simp add: seg_hi_def less_imp_le)
  let ?k = "max a (i * c)"
  have "?k div c = i"
  proof (cases "a div c = i")
    case True
    then have "i * c \<le> a" using div_times_less_eq_dividend [of a c] by simp
    with True show ?thesis by (simp add: max_def)
  next
    case False
    then have "a < i * c" using assms(1,3) div_less_iff_less_mult [of c a i] by simp
    with assms(1) show ?thesis by (simp add: max_def)
  qed
  moreover have "?k < b"
  proof -
    have "i * c \<le> (b - 1) div c * c" using assms(4) by (rule mult_le_mono1)
    also have "\<dots> \<le> b - 1" by (rule div_times_less_eq_dividend)
    finally show ?thesis using assms(2) by simp
  qed
  ultimately have "seg_lo c a i \<le> ?k mod c" "?k mod c < seg_hi c b i"
    using seg_lo_iff [OF assms(1,3), of ?k] seg_hi_iff [OF assms(1,4), of ?k] assms(2) by auto
  then show "seg_lo c a i < seg_hi c b i" by (rule le_less_trans)
qed


lemma put_bits_bit: "b \<le> 16 \<Longrightarrow> bit (put_bits v a b w) j = (if a \<le> j \<and> j < b then v else bit w j)"
proof (induction b)
  case 0
  then show ?case by (simp add: put_bits_def)
next
  case (Suc b)
  then show ?case by (cases "a \<le> b") (auto simp: put_bits_def bit_put_bit)
qed

lemma for_range_spec:
  assumes f: "\<And>s lo hi. ba_wf n s \<Longrightarrow> lo < hi \<Longrightarrow> hi \<le> CAP n \<Longrightarrow>
      \<exists>s'. f lo hi s = (Ok (), s') \<and> ba_wf n s' \<and>
        (\<forall>k < CAP n. k \<in> free_bits n s' \<longleftrightarrow> (if lo \<le> k \<and> k < hi then v else k \<in> free_bits n s))"
    and ab: "a < b" "b \<le> CAP (Suc n)"
  shows "ba_wf (Suc n) (Node w subs) \<Longrightarrow> distinct is \<Longrightarrow> (\<And>i. i \<in> set is \<Longrightarrow> a div CAP n \<le> i \<and> i \<le> (b - 1) div CAP n) \<Longrightarrow>
    \<exists>t'. for_range f (CAP n) a b is w subs = (Ok (), t') \<and> ba_wf (Suc n) t' \<and>
      (\<forall>k < CAP (Suc n). k \<in> free_bits (Suc n) t' \<longleftrightarrow>
        (if k div CAP n \<in> set is \<and> a \<le> k \<and> k < b then v else k \<in> free_bits (Suc n) (Node w subs)))"
proof (induction "is" arbitrary: w subs)
  case Nil
  then show ?case by simp
next
  case (Cons i "is")
  have ib: "a div CAP n \<le> i" "i \<le> (b - 1) div CAP n" using Cons.prems(3) [of i] by simp_all
  have "b - 1 < CAP (Suc n)" using ab by simp
  then have i: "i < 16" using ib(2) div_CAP [of "b - 1" n] by simp
  let ?lo = "seg_lo (CAP n) a i" and ?hi = "seg_hi (CAP n) b i"
  note ne = seg_nonempty [OF CAP_pos ab(1) ib]
  have "ba_wf n (subs ! i)" using Cons.prems(1) i by simp
  from f [OF this ne] obtain s where s: "f ?lo ?hi (subs ! i) = (Ok (), s)" "ba_wf n s"
    "\<And>k. k < CAP n \<Longrightarrow> k \<in> free_bits n s \<longleftrightarrow> (if ?lo \<le> k \<and> k < ?hi then v else k \<in> free_bits n (subs ! i))"
    by blast
  let ?w = "put_bit i (\<not> ba_is_empty s) w" and ?subs = "subs[i := s]"
  note up = node_update [OF Cons.prems(1) i s(2)]
  have step: "k \<in> free_bits (Suc n) (Node ?w ?subs) \<longleftrightarrow>
      (if k div CAP n = i \<and> a \<le> k \<and> k < b then v else k \<in> free_bits (Suc n) (Node w subs))" if k: "k < CAP (Suc n)" for k
  proof (cases "k div CAP n = i")
    case True
    have "a \<le> k \<longleftrightarrow> ?lo \<le> k mod CAP n" "k < b \<longleftrightarrow> k mod CAP n < ?hi"
      using seg_lo_iff [OF CAP_pos ib(1) True] seg_hi_iff [OF CAP_pos ib(2) True] ab by auto
    with True s(3) [of "k mod CAP n"] k up(2) show ?thesis by simp
  next
    case False
    with up(2) k show ?thesis by simp
  qed
  obtain t' where t': "for_range f (CAP n) a b is ?w ?subs = (Ok (), t')" "ba_wf (Suc n) t'"
    "\<forall>k < CAP (Suc n). k \<in> free_bits (Suc n) t' \<longleftrightarrow>
        (if k div CAP n \<in> set is \<and> a \<le> k \<and> k < b then v else k \<in> free_bits (Suc n) (Node ?w ?subs))"
    using Cons.IH [OF up(1)] Cons.prems(2,3) by auto
  have "for_range f (CAP n) a b (i # is) w subs = (Ok (), t')"
    using s(1) t'(1) by (simp add: seg_lo_def seg_hi_def)
  moreover have "k \<in> free_bits (Suc n) t' \<longleftrightarrow>
      (if k div CAP n \<in> set (i # is) \<and> a \<le> k \<and> k < b then v else k \<in> free_bits (Suc n) (Node w subs))"
    if "k < CAP (Suc n)" for k
    using t'(3) step [OF that] that by auto
  ultimately show ?case using t'(2) by blast
qed

lemma ba_range_spec:
  "ba_wf n t \<Longrightarrow> a < b \<Longrightarrow> b \<le> CAP n \<Longrightarrow>
     \<exists>t'. ba_range n v a b t = (Ok (), t') \<and> ba_wf n t' \<and>
       (\<forall>k < CAP n. k \<in> free_bits n t' \<longleftrightarrow> (if a \<le> k \<and> k < b then v else k \<in> free_bits n t))"
proof (induction n arbitrary: a b t)
  case 0
  then obtain w where "t = Leaf w" by (auto split: bit_alloc.splits)
  with 0 show ?case by (auto simp: put_bits_bit)
next
  case (Suc n)
  then obtain w subs where t: "t = Node w subs" by (auto split: bit_alloc.splits)
  let ?is = "[a div CAP n..<Suc ((b - 1) div CAP n)]"
  have "\<exists>t'. for_range (ba_range n v) (CAP n) a b ?is w subs = (Ok (), t') \<and> ba_wf (Suc n) t' \<and>
      (\<forall>k < CAP (Suc n). k \<in> free_bits (Suc n) t' \<longleftrightarrow>
        (if k div CAP n \<in> set ?is \<and> a \<le> k \<and> k < b then v else k \<in> free_bits (Suc n) (Node w subs)))"
    by (rule for_range_spec [OF Suc.IH Suc.prems(2,3) Suc.prems(1) [unfolded t]]) auto
  moreover have "k div CAP n \<in> set ?is" if "a \<le> k" "k < b" for k
  proof -
    have "k \<le> b - 1" using that by simp
    with div_le_mono [OF that(1), of "CAP n"] div_le_mono [OF this, of "CAP n"] show ?thesis
      by (simp del: upt_Suc)
  qed
  ultimately show ?case using t Suc.prems by auto
qed

lemma ba_default_wf: "ba_wf n (ba_default n)" and ba_default_free: "free_bits n (ba_default n) = {}"
proof -
  have "ba_wf n (ba_default n) \<and> free_bits n (ba_default n) = {}"
    by (induction n) (auto simp: ba_is_empty_iff div_CAP simp del: CAP.simps)
  then show "ba_wf n (ba_default n)" and "free_bits n (ba_default n) = {}" by simp_all
qed

end
