(* ===== verification/Page_Table.thy ===== *)
theory Page_Table
  imports Memory_Addr
begin

text \<open>
  Four-level page tables (\<^verbatim>\<open>vendor/page_table_multiarch\<close>) with the page table entries of x86-64
  (\<^verbatim>\<open>vendor/page_table_entry\<close>). The memory of the tables is a store from frame address and index to
  entry; frames come from a \<^verbatim>\<open>PagingHandler\<close>, a record of its two allocation methods over a state of
  its own. TLB flushes have no effect in the model.

  Lemmas: under \<open>pt_inv\<close> (the tables form a tree) the tables are read as one function \<open>leaf\<close>
  from the four indices of an address to an entry, and \<^verbatim>\<open>map\<close>, \<^verbatim>\<open>unmap\<close>, \<^verbatim>\<open>protect\<close> and \<^verbatim>\<open>query\<close> are
  updates and lookups of that function, on every branch.
\<close>

section \<open>Entries\<close>

type_synonym pte = usize
type_synonym mapping_flags = usize

text \<open>\<^verbatim>\<open>contains\<close> of a \<^verbatim>\<open>bitflags\<close> type.\<close>

definition contains :: "usize \<Rightarrow> usize \<Rightarrow> bool" where
  "contains f g = (f AND g = g)"

definition READ :: mapping_flags where "READ = 0x1"
definition WRITE :: mapping_flags where "WRITE = 0x2"
definition EXECUTE :: mapping_flags where "EXECUTE = 0x4"
definition USER :: mapping_flags where "USER = 0x8"
definition DEVICE :: mapping_flags where "DEVICE = 0x10"
definition UNCACHED :: mapping_flags where "UNCACHED = 0x20"

text \<open>The flag bits of an x86-64 entry that the crate uses.\<close>

definition PTF_PRESENT :: pte where "PTF_PRESENT = 0x1"
definition PTF_WRITABLE :: pte where "PTF_WRITABLE = 0x2"
definition PTF_USER :: pte where "PTF_USER = 0x4"
definition PTF_WRITE_THROUGH :: pte where "PTF_WRITE_THROUGH = 0x8"
definition PTF_NO_CACHE :: pte where "PTF_NO_CACHE = 0x10"
definition PTF_HUGE_PAGE :: pte where "PTF_HUGE_PAGE = 0x80"
definition PTF_NO_EXECUTE :: pte where "PTF_NO_EXECUTE = 0x8000000000000000"

definition flags_of_ptf :: "pte \<Rightarrow> mapping_flags" where
  "flags_of_ptf f =
     (if \<not> contains f PTF_PRESENT then 0
      else READ
        OR (if contains f PTF_WRITABLE then WRITE else 0)
        OR (if \<not> contains f PTF_NO_EXECUTE then EXECUTE else 0)
        OR (if contains f PTF_USER then USER else 0)
        OR (if contains f PTF_NO_CACHE then UNCACHED else 0))"

definition ptf_of_flags :: "mapping_flags \<Rightarrow> pte" where
  "ptf_of_flags f =
     (if f = 0 then 0
      else PTF_PRESENT
        OR (if contains f WRITE then PTF_WRITABLE else 0)
        OR (if \<not> contains f EXECUTE then PTF_NO_EXECUTE else 0)
        OR (if contains f USER then PTF_USER else 0)
        OR (if contains f DEVICE \<or> contains f UNCACHED then PTF_NO_CACHE OR PTF_WRITE_THROUGH else 0))"

definition PHYS_ADDR_MASK :: usize where
  "PHYS_ADDR_MASK = 0x000ffffffffff000"

definition pte_new_page :: "usize \<Rightarrow> mapping_flags \<Rightarrow> bool \<Rightarrow> pte" where
  "pte_new_page paddr flags is_huge =
     (ptf_of_flags flags OR (if is_huge then PTF_HUGE_PAGE else 0)) OR (paddr AND PHYS_ADDR_MASK)"

definition pte_new_table :: "usize \<Rightarrow> pte" where
  "pte_new_table paddr = (PTF_PRESENT OR PTF_WRITABLE OR PTF_USER) OR (paddr AND PHYS_ADDR_MASK)"

definition pte_paddr :: "pte \<Rightarrow> usize" where
  "pte_paddr e = e AND PHYS_ADDR_MASK"

definition pte_flags :: "pte \<Rightarrow> mapping_flags" where
  "pte_flags e = flags_of_ptf e"

definition pte_set_paddr :: "usize \<Rightarrow> pte \<Rightarrow> pte" where
  "pte_set_paddr paddr e = (e AND NOT PHYS_ADDR_MASK) OR (paddr AND PHYS_ADDR_MASK)"

definition pte_set_flags :: "mapping_flags \<Rightarrow> bool \<Rightarrow> pte \<Rightarrow> pte" where
  "pte_set_flags flags is_huge e =
     (e AND PHYS_ADDR_MASK) OR (ptf_of_flags flags OR (if is_huge then PTF_HUGE_PAGE else 0))"

definition pte_is_unused :: "pte \<Rightarrow> bool" where
  "pte_is_unused e = (e = 0)"

definition pte_is_present :: "pte \<Rightarrow> bool" where
  "pte_is_present e = contains e PTF_PRESENT"

definition pte_is_huge :: "pte \<Rightarrow> bool" where
  "pte_is_huge e = contains e PTF_HUGE_PAGE"

section \<open>Tables\<close>

datatype page_size = Size4K | Size2M | Size1G

fun page_size_val :: "page_size \<Rightarrow> usize" where
  "page_size_val Size4K = 0x1000"
| "page_size_val Size2M = 0x200000"
| "page_size_val Size1G = 0x40000000"

fun ps_is_huge :: "page_size \<Rightarrow> bool" where
  "ps_is_huge Size4K = False"
| "ps_is_huge Size2M = True"
| "ps_is_huge Size1G = True"

datatype paging_error = PgNoMemory | PgNotAligned | PgNotMapped | PgAlreadyMapped | PgMappedToHugePage

record 's paging_handler =
  ph_alloc_frame :: "'s \<Rightarrow> usize option \<times> 's"
  ph_dealloc_frame :: "usize \<Rightarrow> 's \<Rightarrow> 's"

definition ENTRY_COUNT :: nat where "ENTRY_COUNT = 512"

definition p4_index :: "usize \<Rightarrow> nat" where "p4_index va = unat (drop_bit 39 va AND 511)"
definition p3_index :: "usize \<Rightarrow> nat" where "p3_index va = unat (drop_bit 30 va AND 511)"
definition p2_index :: "usize \<Rightarrow> nat" where "p2_index va = unat (drop_bit 21 va AND 511)"
definition p1_index :: "usize \<Rightarrow> nat" where "p1_index va = unat (drop_bit 12 va AND 511)"

type_synonym tables = "usize \<Rightarrow> nat \<Rightarrow> pte"
type_synonym cell = "usize \<times> nat"

definition entry :: "tables \<Rightarrow> cell \<Rightarrow> pte" where
  "entry t c = t (fst c) (snd c)"

definition set_entry :: "cell \<Rightarrow> pte \<Rightarrow> tables \<Rightarrow> tables" where
  "set_entry c e t = t(fst c := (t (fst c))(snd c := e))"

definition alloc_table :: "'s paging_handler \<Rightarrow> tables \<times> 's \<Rightarrow> (paging_error, usize) outcome \<times> (tables \<times> 's)" where
  "alloc_table H = (\<lambda>(t, s).
     case ph_alloc_frame H s of
       (Some paddr, s) \<Rightarrow> (Ok paddr, (t(paddr := (\<lambda>_. 0)), s))
     | (None, s) \<Rightarrow> (Err PgNoMemory, (t, s)))"

definition next_table :: "pte \<Rightarrow> (paging_error, usize) outcome" where
  "next_table e =
     (if pte_paddr e = 0 then Err PgNotMapped
      else if pte_is_huge e then Err PgMappedToHugePage
      else Ok (pte_paddr e))"

definition next_table_or_create ::
  "'s paging_handler \<Rightarrow> cell \<Rightarrow> tables \<times> 's \<Rightarrow> (paging_error, usize) outcome \<times> (tables \<times> 's)" where
  "next_table_or_create H c = (\<lambda>(t, s).
     if pte_is_unused (entry t c) then
       sbind (alloc_table H (t, s)) (\<lambda>paddr (t, s). (Ok paddr, (set_entry c (pte_new_table paddr) t, s)))
     else (next_table (entry t c), (t, s)))"

definition get_entry :: "tables \<Rightarrow> usize \<Rightarrow> usize \<Rightarrow> (paging_error, cell \<times> page_size) outcome" where
  "get_entry t root va =
     obind (next_table (entry t (root, p4_index va))) (\<lambda>p3.
       let p3e = (p3, p3_index va) in
       if pte_is_huge (entry t p3e) then Ok (p3e, Size1G)
       else obind (next_table (entry t p3e)) (\<lambda>p2.
         let p2e = (p2, p2_index va) in
         if pte_is_huge (entry t p2e) then Ok (p2e, Size2M)
         else obind (next_table (entry t p2e)) (\<lambda>p1. Ok ((p1, p1_index va), Size4K))))"

definition get_entry_or_create ::
  "'s paging_handler \<Rightarrow> usize \<Rightarrow> usize \<Rightarrow> page_size \<Rightarrow> tables \<times> 's
     \<Rightarrow> (paging_error, cell) outcome \<times> (tables \<times> 's)" where
  "get_entry_or_create H root va psize st =
     sbind (next_table_or_create H (root, p4_index va) st) (\<lambda>p3 st.
       if psize = Size1G then (Ok (p3, p3_index va), st)
       else sbind (next_table_or_create H (p3, p3_index va) st) (\<lambda>p2 st.
         if psize = Size2M then (Ok (p2, p2_index va), st)
         else sbind (next_table_or_create H (p2, p2_index va) st) (\<lambda>p1 st.
           (Ok (p1, p1_index va), st))))"

definition pt_try_new :: "'s paging_handler \<Rightarrow> tables \<times> 's \<Rightarrow> (paging_error, usize) outcome \<times> (tables \<times> 's)" where
  "pt_try_new H st = alloc_table H st"

definition pt_map ::
  "'s paging_handler \<Rightarrow> usize \<Rightarrow> usize \<Rightarrow> usize \<Rightarrow> page_size \<Rightarrow> mapping_flags \<Rightarrow> tables \<times> 's
     \<Rightarrow> (paging_error, unit) outcome \<times> (tables \<times> 's)" where
  "pt_map H root va target psize flags st =
     sbind (get_entry_or_create H root va psize st) (\<lambda>c (t, s).
       if \<not> pte_is_unused (entry t c) then (Err PgAlreadyMapped, (t, s))
       else (Ok (), (set_entry c (pte_new_page (align_down target (page_size_val psize)) flags (ps_is_huge psize)) t, s)))"

definition pt_remap ::
  "usize \<Rightarrow> usize \<Rightarrow> usize \<Rightarrow> mapping_flags \<Rightarrow> tables \<Rightarrow> (paging_error, page_size) outcome \<times> tables" where
  "pt_remap root va paddr flags t =
     (case get_entry t root va of
        Ok (c, sz) \<Rightarrow> (Ok sz, set_entry c (pte_set_flags flags (ps_is_huge sz) (pte_set_paddr paddr (entry t c))) t)
      | Err x \<Rightarrow> (Err x, t)
      | Panic \<Rightarrow> (Panic, t))"

definition pt_protect ::
  "usize \<Rightarrow> usize \<Rightarrow> mapping_flags \<Rightarrow> tables \<Rightarrow> (paging_error, page_size) outcome \<times> tables" where
  "pt_protect root va flags t =
     (case get_entry t root va of
        Ok (c, sz) \<Rightarrow>
          if \<not> pte_is_present (entry t c) then (Err PgNotMapped, t)
          else (Ok sz, set_entry c (pte_set_flags flags (ps_is_huge sz) (entry t c)) t)
      | Err x \<Rightarrow> (Err x, t)
      | Panic \<Rightarrow> (Panic, t))"

definition pt_unmap :: "usize \<Rightarrow> usize \<Rightarrow> tables \<Rightarrow> (paging_error, usize \<times> page_size) outcome \<times> tables" where
  "pt_unmap root va t =
     (case get_entry t root va of
        Ok (c, sz) \<Rightarrow>
          if \<not> pte_is_present (entry t c) then (Err PgNotMapped, set_entry c 0 t)
          else (Ok (pte_paddr (entry t c), sz), set_entry c 0 t)
      | Err x \<Rightarrow> (Err x, t)
      | Panic \<Rightarrow> (Panic, t))"

definition pt_query ::
  "usize \<Rightarrow> usize \<Rightarrow> tables \<Rightarrow> (paging_error, usize \<times> mapping_flags \<times> page_size) outcome" where
  "pt_query root va t =
     obind (get_entry t root va) (\<lambda>(c, sz).
       if pte_is_unused (entry t c) then Err PgNotMapped
       else Ok (pte_paddr (entry t c) + align_offset va (page_size_val sz), pte_flags (entry t c), sz))"

section \<open>Regions\<close>

definition choose_page_size :: "bool \<Rightarrow> usize \<Rightarrow> usize \<Rightarrow> usize \<Rightarrow> page_size" where
  "choose_page_size allow_huge va paddr sz =
     (if allow_huge then
        if is_aligned va (page_size_val Size1G) \<and> is_aligned paddr (page_size_val Size1G) \<and> page_size_val Size1G \<le> sz
        then Size1G
        else if is_aligned va (page_size_val Size2M) \<and> is_aligned paddr (page_size_val Size2M) \<and> page_size_val Size2M \<le> sz
        then Size2M
        else Size4K
      else Size4K)"

lemma page_step_less: "sz \<noteq> 0 \<Longrightarrow> \<not> sz < page_size_val p \<Longrightarrow> unat (sz - page_size_val p) < unat sz"
proof -
  assume "\<not> sz < page_size_val p"
  moreover have "0 < unat (page_size_val p)" by (cases p) simp_all
  ultimately show ?thesis by (simp add: unat_sub not_less word_le_nat_alt)
qed

text \<open>
  The loop of \<^verbatim>\<open>map_region\<close>. The remaining size is a multiple of 4096, so the chosen page is
  never larger than it; the branch that says so is not reached.
\<close>

function map_region_loop ::
  "'s paging_handler \<Rightarrow> usize \<Rightarrow> usize \<Rightarrow> (usize \<Rightarrow> usize) \<Rightarrow> usize \<Rightarrow> mapping_flags \<Rightarrow> bool \<Rightarrow> tables \<times> 's
     \<Rightarrow> (paging_error, unit) outcome \<times> (tables \<times> 's)" where
  "map_region_loop H root va get_paddr sz flags allow_huge st =
     (if sz = 0 then (Ok (), st)
      else
        let paddr = get_paddr va; psize = choose_page_size allow_huge va paddr sz in
        case pt_map H root va paddr psize flags st of
          (Ok _, st) \<Rightarrow>
            if sz < page_size_val psize then (Panic, st)
            else map_region_loop H root (va + page_size_val psize) get_paddr (sz - page_size_val psize) flags allow_huge st
        | (Err x, st) \<Rightarrow> (Err x, st)
        | (Panic, st) \<Rightarrow> (Panic, st))"
  by pat_completeness auto
termination
  by (relation "measure (\<lambda>(H, root, va, g, sz, f, h, st). unat sz)") (auto simp: page_step_less)

declare map_region_loop.simps [simp del]

definition pt_map_region ::
  "'s paging_handler \<Rightarrow> usize \<Rightarrow> usize \<Rightarrow> (usize \<Rightarrow> usize) \<Rightarrow> usize \<Rightarrow> mapping_flags \<Rightarrow> bool \<Rightarrow> tables \<times> 's
     \<Rightarrow> (paging_error, unit) outcome \<times> (tables \<times> 's)" where
  "pt_map_region H root va get_paddr sz flags allow_huge st =
     (if \<not> is_aligned va (page_size_val Size4K) \<or> \<not> is_aligned sz (page_size_val Size4K) then (Err PgNotAligned, st)
      else map_region_loop H root va get_paddr sz flags allow_huge st)"

function pt_unmap_region :: "usize \<Rightarrow> usize \<Rightarrow> usize \<Rightarrow> tables \<Rightarrow> (paging_error, unit) outcome \<times> tables" where
  "pt_unmap_region root va sz t =
     (if sz = 0 then (Ok (), t)
      else
        case pt_unmap root va t of
          (Ok (_, psize), t) \<Rightarrow>
            if \<not> is_aligned va (page_size_val psize) then (Panic, t)
            else if sz < page_size_val psize then (Panic, t)
            else pt_unmap_region root (va + page_size_val psize) (sz - page_size_val psize) t
        | (Err x, t) \<Rightarrow> (Err x, t)
        | (Panic, t) \<Rightarrow> (Panic, t))"
  by pat_completeness auto
termination
  by (relation "measure (\<lambda>(root, va, sz, t). unat sz)") (auto simp: page_step_less)

function pt_protect_region ::
  "usize \<Rightarrow> usize \<Rightarrow> usize \<Rightarrow> mapping_flags \<Rightarrow> tables \<Rightarrow> (paging_error, unit) outcome \<times> tables" where
  "pt_protect_region root va sz flags t =
     (if sz = 0 then (Ok (), t)
      else
        case pt_protect root va flags t of
          (Ok psize, t) \<Rightarrow>
            if \<not> is_aligned va (page_size_val psize) then (Panic, t)
            else if sz < page_size_val psize then (Panic, t)
            else pt_protect_region root (va + page_size_val psize) (sz - page_size_val psize) flags t
        | (Err x, t) \<Rightarrow> (Err x, t)
        | (Panic, t) \<Rightarrow> (Panic, t))"
  by pat_completeness auto
termination
  by (relation "measure (\<lambda>(root, va, sz, f, t). unat sz)") (auto simp: page_step_less)

declare pt_unmap_region.simps [simp del] pt_protect_region.simps [simp del]

section \<open>Whole tables\<close>

definition top_level_idx_range :: "usize \<Rightarrow> usize \<Rightarrow> nat \<times> nat" where
  "top_level_idx_range s sz = (p4_index s, p4_index (s + sz - 1) + 1)"

text \<open>
  \<^verbatim>\<open>copy_from\<close> and \<^verbatim>\<open>clear_copy_range\<close> index the root tables with the range; a start index
  above the end index panics.
\<close>

definition pt_copy_from :: "usize \<Rightarrow> usize \<Rightarrow> usize \<Rightarrow> usize \<Rightarrow> tables \<Rightarrow> (paging_error, unit) outcome \<times> tables" where
  "pt_copy_from root other s sz t =
     (if sz = 0 then (Ok (), t)
      else let (a, b) = top_level_idx_range s sz in
        if b < a then (Panic, t)
        else (Ok (), t(root := (\<lambda>i. if a \<le> i \<and> i < b then t other i else t root i))))"

definition pt_clear_copy_range :: "usize \<Rightarrow> usize \<Rightarrow> usize \<Rightarrow> tables \<Rightarrow> (paging_error, unit) outcome \<times> tables" where
  "pt_clear_copy_range root s sz t =
     (if sz = 0 then (Ok (), t)
      else let (a, b) = top_level_idx_range s sz in
        if b < a then (Panic, t)
        else (Ok (), t(root := (\<lambda>i. if a \<le> i \<and> i < b then 0 else t root i))))"

text \<open>
  The entries \<^verbatim>\<open>walk\<close> hands to \<^verbatim>\<open>post_func\<close>, in order, with \<open>n\<close> levels below the current one,
  and whether it ended without an error. \<^verbatim>\<open>drop\<close> walks without a limit.
\<close>

fun walk_post :: "tables \<Rightarrow> nat \<Rightarrow> nat list \<Rightarrow> usize \<Rightarrow> (nat \<times> pte) list \<times> bool" where
  "walk_post t n [] table = ([], True)"
| "walk_post t 0 (i # is) table =
     (let e = t table i in
      if pte_is_present e then (let (es, ok) = walk_post t 0 is table in ((0, e) # es, ok))
      else walk_post t 0 is table)"
| "walk_post t (Suc n) (i # is) table =
     (let e = t table i in
      if pte_is_present e then
        let (below, ok) =
          (if pte_is_huge e then ([], True)
           else case next_table e of
             Ok sub \<Rightarrow> walk_post t n [0..<ENTRY_COUNT] sub
           | _ \<Rightarrow> ([], False))
        in if ok then (let (es, ok) = walk_post t (Suc n) is table in (below @ (Suc n, e) # es, ok))
           else (below, False)
      else walk_post t (Suc n) is table)"

definition pt_drop :: "'s paging_handler \<Rightarrow> usize \<Rightarrow> tables \<times> 's \<Rightarrow> tables \<times> 's" where
  "pt_drop H root = (\<lambda>(t, s).
     let es = fst (walk_post t 3 [0..<ENTRY_COUNT] root);
         s = fold (\<lambda>(below, e) s.
               if 0 < below \<and> pte_is_present e \<and> \<not> pte_is_huge e then ph_dealloc_frame H (pte_paddr e) s else s) es s
     in (t, ph_dealloc_frame H root s))"

section \<open>Facts on entries\<close>

text \<open>An address an entry can hold: page aligned, below \<open>2\<^sup>5\<^sup>2\<close>, not zero.\<close>

definition frame_ok :: "usize \<Rightarrow> bool" where
  "frame_ok f \<longleftrightarrow> f \<noteq> 0 \<and> f AND PHYS_ADDR_MASK = f"

lemmas ptf_defs = PTF_PRESENT_def PTF_WRITABLE_def PTF_USER_def PTF_WRITE_THROUGH_def PTF_NO_CACHE_def
  PTF_HUGE_PAGE_def PTF_NO_EXECUTE_def

lemma ptf_mask [simp]: "ptf_of_flags f AND PHYS_ADDR_MASK = 0"
  by (simp add: ptf_of_flags_def ptf_defs PHYS_ADDR_MASK_def bit.conj_disj_distrib2)

lemma mask_huge [simp]: "PTF_HUGE_PAGE AND PHYS_ADDR_MASK = 0"
  by (simp add: ptf_defs PHYS_ADDR_MASK_def)

lemma frame_ok_bits:
  assumes "f AND PHYS_ADDR_MASK = f"
  shows "f AND PTF_HUGE_PAGE = 0" and "f AND PTF_PRESENT = 0"
proof -
  have "f AND PTF_HUGE_PAGE = f AND (PHYS_ADDR_MASK AND PTF_HUGE_PAGE)"
    using assms by (metis and.assoc)
  then show "f AND PTF_HUGE_PAGE = 0" by (simp add: ptf_defs PHYS_ADDR_MASK_def)
  have "f AND PTF_PRESENT = f AND (PHYS_ADDR_MASK AND PTF_PRESENT)"
    using assms by (metis and.assoc)
  then show "f AND PTF_PRESENT = 0" by (simp add: ptf_defs PHYS_ADDR_MASK_def)
qed

lemma new_table_facts:
  assumes "frame_ok f"
  shows "pte_paddr (pte_new_table f) = f" and "\<not> pte_is_huge (pte_new_table f)" and "pte_new_table f \<noteq> 0"
proof -
  from assms have f: "f AND PHYS_ADDR_MASK = f" "f \<noteq> 0" by (simp_all add: frame_ok_def)
  show p: "pte_paddr (pte_new_table f) = f"
    using f by (simp add: pte_paddr_def pte_new_table_def bit.conj_disj_distrib2)
       (simp add: ptf_defs PHYS_ADDR_MASK_def)
  show "\<not> pte_is_huge (pte_new_table f)"
    using f frame_ok_bits(1) [OF f(1)]
    by (simp add: pte_is_huge_def contains_def pte_new_table_def bit.conj_disj_distrib2) (simp add: ptf_defs)
  show "pte_new_table f \<noteq> 0"
  proof
    assume "pte_new_table f = 0"
    then show False using p f(2) by (simp add: pte_paddr_def)
  qed
qed

lemma ptf_huge [simp]: "ptf_of_flags f AND PTF_HUGE_PAGE = 0"
  by (simp add: ptf_of_flags_def ptf_defs bit.conj_disj_distrib2)

lemma ptf_present: "f \<noteq> 0 \<Longrightarrow> ptf_of_flags f AND PTF_PRESENT = PTF_PRESENT"
  by (simp add: ptf_of_flags_def ptf_defs bit.conj_disj_distrib2)

lemma new_page_facts:
  assumes "frame_ok f"
  shows "pte_paddr (pte_new_page f flags False) = f" and "\<not> pte_is_huge (pte_new_page f flags False)"
    and "pte_new_page f flags False \<noteq> 0" and "pte_is_present (pte_new_page f flags False) \<longleftrightarrow> flags \<noteq> 0"
proof -
  from assms have f: "f AND PHYS_ADDR_MASK = f" "f \<noteq> 0" by (simp_all add: frame_ok_def)
  show p: "pte_paddr (pte_new_page f flags False) = f"
    using f by (simp add: pte_paddr_def pte_new_page_def bit.conj_disj_distrib2)
  show "\<not> pte_is_huge (pte_new_page f flags False)"
    using f frame_ok_bits(1) [OF f(1)]
    by (simp add: pte_is_huge_def contains_def pte_new_page_def bit.conj_disj_distrib2) (simp add: ptf_defs)
  show "pte_new_page f flags False \<noteq> 0"
  proof
    assume "pte_new_page f flags False = 0"
    then show False using p f(2) by (simp add: pte_paddr_def)
  qed
  show "pte_is_present (pte_new_page f flags False) \<longleftrightarrow> flags \<noteq> 0"
    using f frame_ok_bits(2) [OF f(1)] ptf_present [of flags]
    by (cases "flags = 0")
       (auto simp: pte_is_present_def contains_def pte_new_page_def bit.conj_disj_distrib2 ptf_of_flags_def ptf_defs)
qed

lemma set_flags_facts:
  assumes "frame_ok (pte_paddr e)"
  shows "pte_set_flags flags False e = pte_new_page (pte_paddr e) flags False"
  using assms by (simp add: pte_set_flags_def pte_new_page_def pte_paddr_def or.commute and.assoc)

text \<open>The flags read back from an entry: the ones the hardware can express.\<close>

lemma frame_and: "f AND m = f \<Longrightarrow> m AND x = 0 \<Longrightarrow> f AND x = 0" for f m x :: usize
  by (metis and.assoc and_zero_eq)

lemma single_bit: "f AND 2 ^ n = (if bit f n then 2 ^ n else 0)" for f :: usize
  by (rule bit_eqI) (auto simp: bit_simps)

lemma flag_bits:
  "f AND WRITE = (if contains f WRITE then WRITE else 0)"
  "f AND EXECUTE = (if contains f EXECUTE then EXECUTE else 0)"
  "f AND USER = (if contains f USER then USER else 0)"
  using single_bit [of f 1] single_bit [of f 2] single_bit [of f 3]
  by (auto simp: contains_def WRITE_def EXECUTE_def USER_def split: if_splits)

lemma contains_or: "f AND b = 0 \<Longrightarrow> contains (c OR f) b \<longleftrightarrow> contains c b"
  by (simp add: contains_def bit.conj_disj_distrib2)

lemma ptf_bits:
  fixes w x u c :: bool
  defines "p \<equiv> PTF_PRESENT OR (if w then PTF_WRITABLE else 0) OR (if \<not> x then PTF_NO_EXECUTE else 0)
    OR (if u then PTF_USER else 0) OR (if c then PTF_NO_CACHE OR PTF_WRITE_THROUGH else 0)"
  shows "contains p PTF_WRITABLE \<longleftrightarrow> w" and "contains p PTF_NO_EXECUTE \<longleftrightarrow> \<not> x"
    and "contains p PTF_USER \<longleftrightarrow> u" and "contains p PTF_NO_CACHE \<longleftrightarrow> c"
  unfolding p_def contains_def by (cases w; cases x; cases u; cases c; simp add: ptf_defs)+

lemma flags_roundtrip:
  assumes "frame_ok f"
  shows "pte_flags (pte_new_page f flags False) =
    (if flags = 0 then 0
     else READ OR (flags AND (WRITE OR EXECUTE OR USER))
       OR (if contains flags DEVICE \<or> contains flags UNCACHED then UNCACHED else 0))"
proof (cases "flags = 0")
  case True
  then show ?thesis using new_page_facts(4) [OF assms, of flags]
    by (simp add: pte_flags_def flags_of_ptf_def pte_is_present_def)
next
  case False
  from assms have f: "f AND PHYS_ADDR_MASK = f" by (simp add: frame_ok_def)
  have b: "f AND PTF_WRITABLE = 0" "f AND PTF_NO_EXECUTE = 0" "f AND PTF_USER = 0" "f AND PTF_NO_CACHE = 0"
    by (rule frame_and [OF f], simp add: PHYS_ADDR_MASK_def ptf_defs)+
  have "contains (pte_new_page f flags False) PTF_PRESENT"
    using new_page_facts(4) [OF assms, of flags] False by (simp add: pte_is_present_def)
  moreover have "contains (pte_new_page f flags False) PTF_WRITABLE \<longleftrightarrow> contains flags WRITE"
    "contains (pte_new_page f flags False) PTF_NO_EXECUTE \<longleftrightarrow> \<not> contains flags EXECUTE"
    "contains (pte_new_page f flags False) PTF_USER \<longleftrightarrow> contains flags USER"
    "contains (pte_new_page f flags False) PTF_NO_CACHE \<longleftrightarrow> contains flags DEVICE \<or> contains flags UNCACHED"
    using False b f by (simp_all add: pte_new_page_def contains_or ptf_of_flags_def ptf_bits)
  ultimately show ?thesis using False
    by (simp add: pte_flags_def flags_of_ptf_def bit.conj_disj_distrib flag_bits or.assoc)
qed

section \<open>The tree of tables\<close>

text \<open>The table reached from table \<open>f\<close> along a path of indices.\<close>

fun tfind :: "tables \<Rightarrow> usize \<Rightarrow> nat list \<Rightarrow> usize option" where
  "tfind t f [] = Some f"
| "tfind t f (i # is) = (if t f i = 0 then None else tfind t (pte_paddr (t f i)) is)"

definition walk_path :: "usize \<Rightarrow> nat list" where
  "walk_path va = [p4_index va, p3_index va, p2_index va]"

lemma length_path [simp]: "length (walk_path va) = 3"
  by (simp add: walk_path_def)

text \<open>The last-level entry of an address; zero when a table on the way is missing.\<close>

definition leaf :: "tables \<Rightarrow> usize \<Rightarrow> usize \<Rightarrow> pte" where
  "leaf t root va = (case tfind t root (walk_path va) of Some p1 \<Rightarrow> t p1 (p1_index va) | None \<Rightarrow> 0)"

definition same_page :: "usize \<Rightarrow> usize \<Rightarrow> bool" where
  "same_page va x \<longleftrightarrow> walk_path x = walk_path va \<and> p1_index x = p1_index va"

text \<open>
  \<open>own\<close> assigns every frame in use its place: the tables of the three upper levels are owned at the
  walk_path that leads to them, so no table is shared. Frames at longer paths are data frames.
\<close>

definition pt_own :: "tables \<Rightarrow> (usize \<Rightarrow> nat list option) \<Rightarrow> usize \<Rightarrow> bool" where
  "pt_own t own root \<longleftrightarrow> own root = Some [] \<and>
     (\<forall>f p i. own f = Some p \<longrightarrow> length p < 3 \<longrightarrow> t f i \<noteq> 0 \<longrightarrow>
        (\<exists>g. frame_ok g \<and> t f i = pte_new_table g \<and> own g = Some (p @ [i])))"

lemma pt_ownD:
  assumes "pt_own t own root" "own f = Some p" "length p < 3" "t f i \<noteq> 0"
  shows "own (pte_paddr (t f i)) = Some (p @ [i])" and "frame_ok (pte_paddr (t f i))"
    and "\<not> pte_is_huge (t f i)" and "pte_paddr (t f i) \<noteq> 0"
proof -
  obtain g where g: "frame_ok g" "t f i = pte_new_table g" "own g = Some (p @ [i])"
    using assms unfolding pt_own_def by blast
  note n = new_table_facts [OF g(1)]
  show "own (pte_paddr (t f i)) = Some (p @ [i])" "frame_ok (pte_paddr (t f i))" "\<not> pte_is_huge (t f i)"
    using g n by simp_all
  show "pte_paddr (t f i) \<noteq> 0" using g n by (simp add: frame_ok_def)
qed

lemma tfind_own:
  "pt_own t own root \<Longrightarrow> own f = Some p \<Longrightarrow> length p + length is \<le> 3 \<Longrightarrow> tfind t f is = Some g
     \<Longrightarrow> own g = Some (p @ is)"
proof (induction "is" arbitrary: f p)
  case (Cons i "is")
  then have e: "t f i \<noteq> 0" "tfind t (pte_paddr (t f i)) is = Some g" by (auto split: if_splits)
  have "own (pte_paddr (t f i)) = Some (p @ [i])"
    using pt_ownD(1) [OF Cons.prems(1,2) _ e(1)] Cons.prems(3) by simp
  from Cons.IH [OF Cons.prems(1) this _ e(2)] Cons.prems(3) show ?case by simp
qed simp

lemma tfind_root_own:
  "pt_own t own root \<Longrightarrow> length is \<le> 3 \<Longrightarrow> tfind t root is = Some g \<Longrightarrow> own g = Some is"
  using tfind_own [of t own root root "[]" "is" g] by (simp add: pt_own_def)

lemma next_table_own:
  assumes "pt_own t own root" "own f = Some p" "length p < 3"
  shows "next_table (entry t (f, i)) = (if t f i = 0 then Err PgNotMapped else Ok (pte_paddr (t f i)))"
  using pt_ownD [OF assms, of i] by (auto simp: next_table_def entry_def pte_paddr_def)

lemma get_entry_eq:
  assumes inv: "pt_own t own root"
  shows "get_entry t root va =
    (case tfind t root (walk_path va) of Some p1 \<Rightarrow> Ok ((p1, p1_index va), Size4K) | None \<Rightarrow> Err PgNotMapped)"
proof -
  have r: "own root = Some []" using inv by (simp add: pt_own_def)
  note n4 = next_table_own [OF inv r, of "p4_index va"]
  show ?thesis
  proof (cases "t root (p4_index va) = 0")
    case True
    then show ?thesis using n4 by (simp add: get_entry_def walk_path_def)
  next
    case e4: False
    let ?p3 = "pte_paddr (t root (p4_index va))"
    have o3: "own ?p3 = Some [p4_index va]" using pt_ownD(1) [OF inv r _ e4] by simp
    note n3 = next_table_own [OF inv o3, of "p3_index va"]
    show ?thesis
    proof (cases "t ?p3 (p3_index va) = 0")
      case True
      then show ?thesis using n4 n3 e4
        by (simp add: get_entry_def walk_path_def entry_def pte_is_huge_def contains_def PTF_HUGE_PAGE_def)
    next
      case e3: False
      let ?p2 = "pte_paddr (t ?p3 (p3_index va))"
      have o2: "own ?p2 = Some [p4_index va, p3_index va]" and h3: "\<not> pte_is_huge (t ?p3 (p3_index va))"
        using pt_ownD(1,3) [OF inv o3 _ e3] by simp_all
      note n2 = next_table_own [OF inv o2, of "p2_index va"]
      show ?thesis
      proof (cases "t ?p2 (p2_index va) = 0")
        case True
        then show ?thesis using n4 n3 n2 e4 e3 h3
          by (simp add: get_entry_def walk_path_def entry_def pte_is_huge_def contains_def PTF_HUGE_PAGE_def)
      next
        case e2: False
        have "\<not> pte_is_huge (t ?p2 (p2_index va))" using pt_ownD(3) [OF inv o2 _ e2] by simp
        with n4 n3 n2 e4 e3 e2 h3 show ?thesis by (simp add: get_entry_def walk_path_def entry_def Let_def)
      qed
    qed
  qed
qed

text \<open>Tables that agree on the upper levels agree on every walk.\<close>

lemma tfind_cong:
  assumes "pt_own t own root"
    and "\<And>g q. own g = Some q \<Longrightarrow> length q < 3 \<Longrightarrow> t' g = t g"
  shows "own f = Some p \<Longrightarrow> length p + length is \<le> 3 \<Longrightarrow> tfind t' f is = tfind t f is"
proof (induction "is" arbitrary: f p)
  case (Cons i "is")
  then have "t' f = t f" using assms(2) by simp
  with Cons pt_ownD(1) [OF assms(1) Cons.prems(1), of i] show ?case by simp
qed simp

lemma set_leaf:
  assumes inv: "pt_own t own root" and p1: "tfind t root (walk_path va) = Some p1"
  shows "pt_own (set_entry (p1, p1_index va) e t) own root"
    and "leaf (set_entry (p1, p1_index va) e t) root x = (if same_page va x then e else leaf t root x)"
proof -
  let ?t = "set_entry (p1, p1_index va) e t"
  have o1: "own p1 = Some (walk_path va)" using tfind_root_own [OF inv _ p1] by (simp add: walk_path_def)
  have up: "?t g = t g" if "own g = Some q" "length q < 3" for g q
    using that o1 by (auto simp: set_entry_def walk_path_def)
  have r: "own root = Some []" using inv by (simp add: pt_own_def)
  show "pt_own ?t own root"
    unfolding pt_own_def using inv up by (auto simp: pt_own_def)
  have eq: "tfind ?t root (walk_path x) = tfind t root (walk_path x)"
    by (rule tfind_cong [where own = own and p = "[]", OF inv]) (auto simp: up r)
  show "leaf ?t root x = (if same_page va x then e else leaf t root x)"
  proof (cases "tfind t root (walk_path x)")
    case None
    then have "walk_path x \<noteq> walk_path va" using p1 by auto
    with None eq show ?thesis by (simp add: leaf_def same_page_def)
  next
    case (Some q)
    have "own q = Some (walk_path x)" using tfind_root_own [OF inv _ Some] by (simp add: walk_path_def)
    then have "q = p1 \<longleftrightarrow> walk_path x = walk_path va" using o1 Some p1 by auto
    with Some eq show ?thesis by (auto simp: leaf_def same_page_def set_entry_def)
  qed
qed

section \<open>The contract of a frame allocator\<close>

text \<open>What page tables rely on of \<^verbatim>\<open>PagingHandler\<close>: \<open>free\<close> is the set of frames it can still hand out.\<close>

locale frame_source =
  fixes H :: "'s paging_handler"
    and free :: "'s \<Rightarrow> usize set"
    and managed :: "'s \<Rightarrow> usize set"
    and hinv :: "'s \<Rightarrow> bool"
  assumes alloc_Some: "hinv s \<Longrightarrow> ph_alloc_frame H s = (Some f, s') \<Longrightarrow>
      f \<in> free s \<and> free s' = free s - {f} \<and> managed s' = managed s \<and> hinv s'"
    and alloc_None: "hinv s \<Longrightarrow> ph_alloc_frame H s = (None, s') \<Longrightarrow> free s = {} \<and> s' = s"
    and free_managed: "hinv s \<Longrightarrow> free s \<subseteq> managed s"
    and managed_ok: "hinv s \<Longrightarrow> f \<in> managed s \<Longrightarrow> frame_ok f"
    and dealloc_ok: "hinv s \<Longrightarrow> f \<in> managed s \<Longrightarrow>
      free (ph_dealloc_frame H f s) = insert f (free s) \<and> managed (ph_dealloc_frame H f s) = managed s
      \<and> hinv (ph_dealloc_frame H f s)"

text \<open>A new table \<open>n\<close> is hung into the empty cell \<open>i\<close> of table \<open>f\<close>.\<close>

definition hang ::
  "tables \<Rightarrow> (usize \<Rightarrow> nat list option) \<Rightarrow> usize \<Rightarrow> usize \<Rightarrow> nat \<Rightarrow> nat list \<Rightarrow> usize
     \<Rightarrow> tables \<Rightarrow> (usize \<Rightarrow> nat list option) \<Rightarrow> bool" where
  "hang t own root f i q n t' own' \<longleftrightarrow>
     pt_own t own root \<and> own f = Some q \<and> length q < 3 \<and> t f i = 0 \<and> own n = None \<and> frame_ok n
     \<and> t' = set_entry (f, i) (pte_new_table n) (t(n := (\<lambda>_. 0))) \<and> own' = own(n \<mapsto> q @ [i])"

lemma hang_cells:
  assumes "hang t own root f i q n t' own'"
  shows "t' f i = pte_new_table n" and "t' n j = 0" and "own n = None" and "frame_ok n" and "pt_own t own root"
    and "own root = Some []" and "own f = Some q" and "length q < 3" and "t f i = 0"
    and "own g = Some p \<Longrightarrow> (g, j) \<noteq> (f, i) \<Longrightarrow> t' g j = t g j"
    and "own g = Some p \<Longrightarrow> own' g = Some p" and "own' n = Some (q @ [i])" and "g \<noteq> n \<Longrightarrow> own' g = own g"
  using assms by (auto simp: hang_def set_entry_def pt_own_def)

lemma hang_own:
  assumes h: "hang t own root f i q n t' own'"
  shows "pt_own t' own' root"
  unfolding pt_own_def
proof (intro conjI allI impI)
  show "own' root = Some []" using hang_cells(6,11) [OF h] by blast
next
  fix g p j
  assume g: "own' g = Some p" "length p < 3" "t' g j \<noteq> 0"
  then have "g \<noteq> n" using hang_cells(2) [OF h] by auto
  then have og: "own g = Some p" using g(1) hang_cells(13) [OF h] by simp
  show "\<exists>h. frame_ok h \<and> t' g j = pte_new_table h \<and> own' h = Some (p @ [j])"
  proof (cases "(g, j) = (f, i)")
    case True
    with og hang_cells [OF h] show ?thesis by auto
  next
    case False
    with hang_cells(10) [OF h og] g have "t g j \<noteq> 0" "t' g j = t g j" by auto
    with hang_cells(5,11) [OF h] og g(2) show ?thesis unfolding pt_own_def by metis
  qed
qed

lemma hang_tfind_mono:
  assumes h: "hang t own root f i q n t' own'"
  shows "own g = Some p \<Longrightarrow> length p + length is \<le> 3 \<Longrightarrow> tfind t g is = Some k \<Longrightarrow> tfind t' g is = Some k"
proof (induction "is" arbitrary: g p)
  case (Cons j "is")
  then have e: "t g j \<noteq> 0" "tfind t (pte_paddr (t g j)) is = Some k" by (auto split: if_splits)
  have o: "own (pte_paddr (t g j)) = Some (p @ [j])"
    using pt_ownD(1) [OF hang_cells(5) [OF h] Cons.prems(1) _ e(1)] Cons.prems(2) by simp
  have "t' g j = t g j" using hang_cells(10) [OF h Cons.prems(1), of j] e(1) hang_cells(9) [OF h] by auto
  with Cons.IH [OF o _ e(2)] Cons.prems(2) e(1) show ?case by simp
qed simp

lemma hang_tfind_fresh:
  assumes h: "hang t own root f i q n t' own'"
  shows "own g = Some p \<Longrightarrow> length p + length is \<le> 3 \<Longrightarrow> tfind t g is = None \<Longrightarrow> tfind t' g is = Some k \<Longrightarrow> k = n"
proof (induction "is" arbitrary: g p)
  case (Cons j "is")
  note cell = hang_cells(10) [OF h Cons.prems(1), of j]
  show ?case
  proof (cases "t g j = 0")
    case True
    with Cons.prems(4) cell have "(g, j) = (f, i)" by (auto split: if_splits)
    with Cons.prems(4) hang_cells(1,4) [OF h] new_table_facts [of n] have "tfind t' n is = Some k" by simp
    then show ?thesis using hang_cells(2) [OF h] by (cases "is") simp_all
  next
    case False
    then have "t' g j = t g j" using cell hang_cells(9) [OF h] by auto
    moreover have "own (pte_paddr (t g j)) = Some (p @ [j])"
      using pt_ownD(1) [OF hang_cells(5) [OF h] Cons.prems(1) _ False] Cons.prems(2) by simp
    ultimately show ?thesis using Cons.IH [of _ "p @ [j]"] Cons.prems False by simp
  qed
qed simp

lemma hang_leaf:
  assumes h: "hang t own root f i q n t' own'"
  shows "leaf t' root x = leaf t root x"
proof (cases "tfind t root (walk_path x)")
  case (Some k)
  have "own k = Some (walk_path x)" using tfind_root_own [OF hang_cells(5) [OF h] _ Some] by simp
  moreover from this have "k \<noteq> f" using hang_cells(7,8) [OF h] by auto
  ultimately show ?thesis
    using Some hang_tfind_mono [OF h hang_cells(6) [OF h] _ Some] hang_cells(10) [OF h, of k "walk_path x" "p1_index x"]
    by (simp add: leaf_def)
next
  case None
  then show ?thesis
    using hang_tfind_fresh [OF h hang_cells(6) [OF h] _ None] hang_cells(2) [OF h]
    by (auto simp: leaf_def split: option.splits)
qed

lemma hang_tfind_snoc:
  assumes h: "hang t own root f i q n t' own'" and "tfind t root q = Some f"
  shows "tfind t' root (q @ [i]) = Some n"
proof -
  have "tfind t' root q = Some f"
    using hang_tfind_mono [OF h hang_cells(6) [OF h] _ assms(2)] hang_cells(8) [OF h] by simp
  moreover have "tfind t' g (is @ [i]) = Some n" if "tfind t' g is = Some f" for g "is"
    using that hang_cells(1,4) [OF h] new_table_facts [of n]
    by (induction "is" arbitrary: g) (auto split: if_splits)
  ultimately show ?thesis by blast
qed

lemma tfind_snoc:
  "tfind t g is = Some f \<Longrightarrow> t f i \<noteq> 0 \<Longrightarrow> tfind t g (is @ [i]) = Some (pte_paddr (t f i))"
  by (induction "is" arbitrary: g) (auto split: if_splits)

section \<open>Operations as updates of the last-level entries\<close>

lemma pt_query_leaf:
  assumes "pt_own t own root"
  shows "pt_query root va t =
    (if leaf t root va = 0 then Err PgNotMapped
     else Ok (pte_paddr (leaf t root va) + align_offset_4k va, pte_flags (leaf t root va), Size4K))"
  by (simp add: pt_query_def get_entry_eq [OF assms] leaf_def entry_def pte_is_unused_def align_offset_4k_def
      PAGE_SIZE_4K_def split: option.splits)

lemma not_present_0: "\<not> pte_is_present 0"
  by (simp add: pte_is_present_def contains_def PTF_PRESENT_def)

lemma pt_unmap_leaf:
  assumes inv: "pt_own t own root" and u: "pt_unmap root va t = (r, t')"
  shows "pt_own t' own root"
    and "leaf t' root x = (if same_page va x then 0 else leaf t root x)"
    and "r = (if pte_is_present (leaf t root va) then Ok (pte_paddr (leaf t root va), Size4K) else Err PgNotMapped)"
proof -
  show "r = (if pte_is_present (leaf t root va) then Ok (pte_paddr (leaf t root va), Size4K) else Err PgNotMapped)"
    using u by (auto simp: pt_unmap_def get_entry_eq [OF inv] leaf_def entry_def not_present_0 split: option.splits if_splits)
  have "pt_own t' own root \<and> leaf t' root x = (if same_page va x then 0 else leaf t root x)"
  proof (cases "tfind t root (walk_path va)")
    case None
    then have "t' = t" using u by (simp add: pt_unmap_def get_entry_eq [OF inv])
    moreover have "leaf t root x = 0" if "same_page va x" using that None by (simp add: leaf_def same_page_def)
    ultimately show ?thesis
      using inv by simp_all
  next
    case (Some p1)
    then have "t' = set_entry (p1, p1_index va) 0 t"
      using u by (auto simp: pt_unmap_def get_entry_eq [OF inv] split: if_splits)
    with set_leaf [OF inv Some] show ?thesis
      by simp_all
  qed
  then show "pt_own t' own root" and "leaf t' root x = (if same_page va x then 0 else leaf t root x)" by simp_all
qed

lemma pt_protect_leaf:
  assumes inv: "pt_own t own root" and u: "pt_protect root va flags t = (r, t')"
  shows "pt_own t' own root"
    and "leaf t' root x = (if same_page va x \<and> pte_is_present (leaf t root va)
                           then pte_set_flags flags False (leaf t root va) else leaf t root x)"
    and "r = (if pte_is_present (leaf t root va) then Ok Size4K else Err PgNotMapped)"
proof -
  show "r = (if pte_is_present (leaf t root va) then Ok Size4K else Err PgNotMapped)"
    using u by (auto simp: pt_protect_def get_entry_eq [OF inv] leaf_def entry_def not_present_0 split: option.splits if_splits)
  have "pt_own t' own root \<and> leaf t' root x = (if same_page va x \<and> pte_is_present (leaf t root va)
                           then pte_set_flags flags False (leaf t root va) else leaf t root x)"
  proof (cases "pte_is_present (leaf t root va)")
    case False
    then have "t' = t" using u
      by (auto simp: pt_protect_def get_entry_eq [OF inv] leaf_def entry_def not_present_0 split: option.splits if_splits)
    with False inv show ?thesis by simp_all
  next
    case True
    then obtain p1 where Some: "tfind t root (walk_path va) = Some p1"
      by (cases "tfind t root (walk_path va)") (auto simp: leaf_def not_present_0)
    then have "t' = set_entry (p1, p1_index va) (pte_set_flags flags False (leaf t root va)) t"
      using u True by (auto simp: pt_protect_def get_entry_eq [OF inv] leaf_def entry_def split: if_splits)
    with set_leaf [OF inv Some] True show ?thesis
      by simp_all
  qed
  then show "pt_own t' own root" and "leaf t' root x = (if same_page va x \<and> pte_is_present (leaf t root va)
                           then pte_set_flags flags False (leaf t root va) else leaf t root x)" by simp_all
qed

text \<open>The part of the state that belongs to one page table, with the owner of every frame.\<close>

context frame_source
begin

definition owned :: "usize \<Rightarrow> tables \<times> 's \<Rightarrow> (usize \<Rightarrow> nat list option) \<Rightarrow> bool" where
  "owned root st own \<longleftrightarrow> pt_own (fst st) own root \<and> hinv (snd st) \<and> (\<forall>f \<in> free (snd st). own f = None)
     \<and> dom own \<subseteq> managed (snd st)"

text \<open>Steps that only take frames from the allocator and keep every last-level entry.\<close>

definition grows ::
  "usize \<Rightarrow> tables \<times> 's \<Rightarrow> (usize \<Rightarrow> nat list option) \<Rightarrow> tables \<times> 's \<Rightarrow> (usize \<Rightarrow> nat list option) \<Rightarrow> bool" where
  "grows root st own st' own' \<longleftrightarrow> owned root st' own' \<and> own \<subseteq>\<^sub>m own' \<and> free (snd st') \<subseteq> free (snd st)
     \<and> managed (snd st') = managed (snd st)
     \<and> (\<forall>g. own g = None \<longrightarrow> own' g \<noteq> None \<longrightarrow> g \<in> free (snd st) \<and> length (the (own' g)) \<le> 3)
     \<and> (\<forall>x. leaf (fst st') root x = leaf (fst st) root x)"

lemma grows_refl: "owned root st own \<Longrightarrow> grows root st own st own"
  by (simp add: grows_def map_le_def)

lemma grows_trans:
  assumes "grows root st own st1 own1" and "grows root st1 own1 st2 own2"
  shows "grows root st own st2 own2"
proof -
  have "own \<subseteq>\<^sub>m own2" using assms map_le_trans unfolding grows_def by blast
  moreover have "g \<in> free (snd st) \<and> length (the (own2 g)) \<le> 3" if "own g = None" "own2 g \<noteq> None" for g
  proof (cases "own1 g")
    case None
    with assms that show ?thesis unfolding grows_def by blast
  next
    case (Some p)
    then have "own2 g = Some p" using assms(2) by (force simp: grows_def map_le_def)
    with Some that assms(1) show ?thesis unfolding grows_def by (metis option.distinct(1))
  qed
  ultimately show ?thesis using assms unfolding grows_def by auto
qed

lemma next_table_or_create_spec:
  assumes ow: "owned root (t, s) own" and f: "own f = Some q" "length q < 3" "tfind t root q = Some f"
    and n: "next_table_or_create H (f, i) (t, s) = (r, (t', s'))"
  shows "\<exists>own'. grows root (t, s) own (t', s') own'
    \<and> (r = Err PgNoMemory \<and> free s = {} \<or>
       (\<exists>g. r = Ok g \<and> own' g = Some (q @ [i]) \<and> tfind t' root (q @ [i]) = Some g))"
proof (cases "t f i = 0")
  case False
  have inv: "pt_own t own root" using ow by (simp add: owned_def)
  have "r = Ok (pte_paddr (t f i))" "t' = t" "s' = s"
    using n next_table_own [OF inv f(1,2), of i] False
    by (auto simp: next_table_or_create_def entry_def pte_is_unused_def)
  with ow grows_refl [OF ow] pt_ownD(1) [OF inv f(1,2) False] tfind_snoc [OF f(3) False] show ?thesis by auto
next
  case True
  show ?thesis
  proof (cases "ph_alloc_frame H s")
    case (Pair a s1)
    show ?thesis
    proof (cases a)
      case None
      with Pair alloc_None [of s s1] ow have "free s = {}" "s1 = s" by (auto simp: owned_def)
      with n True Pair None grows_refl [OF ow] show ?thesis
        by (auto simp: next_table_or_create_def entry_def pte_is_unused_def alloc_table_def)
    next
      case (Some m)
      have al: "m \<in> free s" "free s1 = free s - {m}" "managed s1 = managed s" "hinv s1"
        using Pair Some alloc_Some [of s m s1] ow by (auto simp: owned_def)
      have mm: "m \<in> managed s" using al(1) free_managed [of s] ow by (auto simp: owned_def)
      let ?own = "own(m \<mapsto> q @ [i])"
      have rs: "r = Ok m" "s' = s1" and t': "t' = set_entry (f, i) (pte_new_table m) (t(m := (\<lambda>_. 0)))"
        using n True Pair Some
        by (auto simp: next_table_or_create_def entry_def pte_is_unused_def alloc_table_def)
      have om: "own m = None" using al(1) ow by (simp add: owned_def)
      have h: "hang t own root f i q m t' ?own"
        using ow f True om managed_ok [of s m] mm t' by (auto simp: hang_def owned_def)
      have "owned root (t', s') ?own"
        using hang_own [OF h] rs al ow mm by (auto simp: owned_def)
      then have "grows root (t, s) own (t', s') ?own"
        using rs al om f(2) hang_leaf [OF h] by (auto simp: grows_def map_le_def)
      with rs hang_tfind_snoc [OF h f(3)] show ?thesis by auto
    qed
  qed
qed

lemma get_entry_or_create_spec:
  assumes ow: "owned root (t, s) own"
    and n: "get_entry_or_create H root va Size4K (t, s) = (r, (t', s'))"
  shows "\<exists>own'. grows root (t, s) own (t', s') own'
    \<and> (r = Err PgNoMemory \<and> free s' = {} \<or>
       (\<exists>g. r = Ok (g, p1_index va) \<and> tfind t' root (walk_path va) = Some g))"
proof -
  have r: "own root = Some []" "tfind t root [] = Some root" using ow by (simp_all add: owned_def pt_own_def)
  obtain r3 t3 s3 where 3: "next_table_or_create H (root, p4_index va) (t, s) = (r3, (t3, s3))"
    by (metis prod_cases3)
  obtain own3 where g3: "grows root (t, s) own (t3, s3) own3" and c3: "r3 = Err PgNoMemory \<and> free s = {} \<or>
       (\<exists>g. r3 = Ok g \<and> own3 g = Some [p4_index va] \<and> tfind t3 root [p4_index va] = Some g)"
    using next_table_or_create_spec [OF ow r(1) _ r(2) 3] by auto
  show ?thesis
  proof (cases r3)
    case (Ok p3)
    then have p3: "own3 p3 = Some [p4_index va]" "tfind t3 root [p4_index va] = Some p3" using c3 by auto
    have ow3: "owned root (t3, s3) own3" using g3 by (simp add: grows_def)
    obtain r2 t2 s2 where 2: "next_table_or_create H (p3, p3_index va) (t3, s3) = (r2, (t2, s2))"
      by (metis prod_cases3)
    obtain own2 where g2: "grows root (t3, s3) own3 (t2, s2) own2" and c2: "r2 = Err PgNoMemory \<and> free s3 = {} \<or>
       (\<exists>g. r2 = Ok g \<and> own2 g = Some [p4_index va, p3_index va] \<and> tfind t2 root [p4_index va, p3_index va] = Some g)"
      using next_table_or_create_spec [OF ow3 p3(1) _ p3(2) 2] by auto
    note g32 = grows_trans [OF g3 g2]
    show ?thesis
    proof (cases r2)
      case r2: (Ok p2)
      then have p2: "own2 p2 = Some [p4_index va, p3_index va]" "tfind t2 root [p4_index va, p3_index va] = Some p2"
        using c2 by auto
      have ow2: "owned root (t2, s2) own2" using g2 by (simp add: grows_def)
      obtain r1 t1 s1 where 1: "next_table_or_create H (p2, p2_index va) (t2, s2) = (r1, (t1, s1))"
        by (metis prod_cases3)
      obtain own1 where g1: "grows root (t2, s2) own2 (t1, s1) own1" and c1: "r1 = Err PgNoMemory \<and> free s2 = {} \<or>
         (\<exists>g. r1 = Ok g \<and> own1 g = Some (walk_path va) \<and> tfind t1 root (walk_path va) = Some g)"
        using next_table_or_create_spec [OF ow2 p2(1) _ p2(2) 1] by (auto simp: walk_path_def)
      have eq: "(r, (t', s')) = sbind (r1, (t1, s1)) (\<lambda>p1 st. (Ok (p1, p1_index va), st))"
        using n 3 Ok 2 r2 1 by (simp add: get_entry_or_create_def)
      have fr: "free s2 = {} \<Longrightarrow> free s1 = {}" using g1 by (auto simp: grows_def)
      show ?thesis
        using eq c1 fr grows_trans [OF g32 g1] by (auto intro!: exI [of _ own1])
    qed (use n 3 Ok 2 c2 g32 g2 in \<open>auto simp: get_entry_or_create_def grows_def intro!: exI [of _ own2]\<close>)
  qed (use n 3 c3 g3 in \<open>auto simp: get_entry_or_create_def grows_def intro!: exI [of _ own3]\<close>)
qed

text \<open>\<^verbatim>\<open>map\<close> of a 4K page, on every branch.\<close>

lemma pt_map_spec:
  assumes ow: "owned root (t, s) own"
    and m: "pt_map H root va target Size4K flags (t, s) = (r, (t', s'))"
  shows "\<exists>own'. owned root (t', s') own' \<and> own \<subseteq>\<^sub>m own' \<and> free s' \<subseteq> free s \<and> managed s' = managed s
    \<and> (\<forall>g. own g = None \<longrightarrow> own' g \<noteq> None \<longrightarrow> g \<in> free s \<and> length (the (own' g)) \<le> 3)
    \<and> (case r of
         Ok _ \<Rightarrow> leaf t root va = 0 \<and> (\<forall>x. leaf t' root x =
           (if same_page va x then pte_new_page (align_down_4k target) flags False else leaf t root x))
       | Err e \<Rightarrow> (\<forall>x. leaf t' root x = leaf t root x) \<and>
           (e = PgNoMemory \<and> free s' = {} \<or> e = PgAlreadyMapped \<and> leaf t root va \<noteq> 0)
       | Panic \<Rightarrow> False)"
proof -
  obtain r1 t1 s1 where 1: "get_entry_or_create H root va Size4K (t, s) = (r1, (t1, s1))"
    by (metis prod_cases3)
  obtain own1 where g: "grows root (t, s) own (t1, s1) own1" and c: "r1 = Err PgNoMemory \<and> free s1 = {} \<or>
       (\<exists>g. r1 = Ok (g, p1_index va) \<and> tfind t1 root (walk_path va) = Some g)"
    using get_entry_or_create_spec [OF ow 1] by blast
  have ow1: "owned root (t1, s1) own1" and inv: "pt_own t1 own1 root"
    using g by (auto simp: grows_def owned_def)
  have lf: "leaf t1 root x = leaf t root x" for x using g by (simp add: grows_def)
  from c show ?thesis
  proof
    assume "r1 = Err PgNoMemory \<and> free s1 = {}"
    with m 1 g lf show ?thesis by (auto simp: pt_map_def grows_def intro!: exI [of _ own1])
  next
    assume "\<exists>p. r1 = Ok (p, p1_index va) \<and> tfind t1 root (walk_path va) = Some p"
    then obtain p where p: "r1 = Ok (p, p1_index va)" "tfind t1 root (walk_path va) = Some p" by blast
    have e: "entry t1 (p, p1_index va) = leaf t root va"
      using lf [of va] p(2) by (simp add: leaf_def entry_def)
    show ?thesis
    proof (cases "leaf t root va = 0")
      case False
      with m 1 p e g lf show ?thesis
        by (auto simp: pt_map_def pte_is_unused_def grows_def intro!: exI [of _ own1])
    next
      case True
      let ?e = "pte_new_page (align_down_4k target) flags False"
      have eq: "r = Ok ()" "t' = set_entry (p, p1_index va) ?e t1" "s' = s1"
        using m 1 p e True by (auto simp: pt_map_def pte_is_unused_def align_down_4k_def PAGE_SIZE_4K_def)
      have "owned root (t', s') own1" using ow1 set_leaf(1) [OF inv p(2)] eq by (simp add: owned_def)
      with g eq True set_leaf(2) [OF inv p(2)] lf show ?thesis
        by (auto simp: grows_def intro!: exI [of _ own1])
    qed
  qed
qed

end

end
