(* ===== verification/Page_Alloc.thy ===== *)
theory Page_Alloc
  imports Bitmap_Alloc Page_Table
begin

text \<open>
  The page allocator (\<^verbatim>\<open>BitmapPageAllocator\<close>) on top of the bitmap, and the frame allocation of the
  kernel (\<^verbatim>\<open>axhal::paging::PagingHandlerImpl\<close>, \<^verbatim>\<open>axmm::backend::alloc\<close>) on top of it. Addresses are
  those of the \<^verbatim>\<open>x86_64\<close> platform configuration. The interpretation \<open>fs\<close> discharges the frame
  allocator laws that page tables rely on.
\<close>

section \<open>Blocks of bits\<close>

text \<open>
  \<^verbatim>\<open>dealloc_contiguous\<close>. A node stops handing the range down after the first child that refuses it
  (\<^verbatim>\<open>success && ...\<close>), but refreshes every summary bit.
\<close>

fun dealloc_range ::
  "(nat \<Rightarrow> nat \<Rightarrow> bit_alloc \<Rightarrow> (unit, bool) outcome \<times> bit_alloc) \<Rightarrow> nat \<Rightarrow> nat \<Rightarrow> nat \<Rightarrow> nat list \<Rightarrow> bool
     \<Rightarrow> 16 word \<Rightarrow> bit_alloc list \<Rightarrow> (unit, bool) outcome \<times> bit_alloc" where
  "dealloc_range f cap a b [] success w subs = (Ok success, Node w subs)"
| "dealloc_range f cap a b (i # is) success w subs =
     (let lo = (if a div cap = i then a mod cap else 0);
          hi = (if b div cap = i then b mod cap else cap)
      in case (if success then f lo (hi - lo) (subs ! i) else (Ok False, subs ! i)) of
           (Ok ok, s) \<Rightarrow> dealloc_range f cap a b is ok (put_bit i (\<not> ba_is_empty s) w) (subs[i := s])
         | (_, s) \<Rightarrow> (Panic, Node w (subs[i := s])))"

primrec ba_dealloc_contiguous :: "nat \<Rightarrow> nat \<Rightarrow> nat \<Rightarrow> bit_alloc \<Rightarrow> (unit, bool) outcome \<times> bit_alloc" where
  "ba_dealloc_contiguous 0 base sz t =
     (case t of
        Leaf w \<Rightarrow>
          if \<not> (0 < sz \<and> base + sz \<le> 16) then (Panic, t)
          else if \<forall>i \<in> set [base..<base + sz]. \<not> bit w i then (Ok True, Leaf (put_bits True base (base + sz) w))
          else (Ok False, t)
      | _ \<Rightarrow> (Panic, t))"
| "ba_dealloc_contiguous (Suc n) base sz t =
     (case t of
        Node w subs \<Rightarrow>
          if CAP (Suc n) < base + sz then (Ok False, t)
          else if base + sz = 0 then (Panic, t)
          else dealloc_range (ba_dealloc_contiguous n) (CAP n) base (base + sz)
                 [base div CAP n..<Suc ((base + sz - 1) div CAP n)] True w subs
      | _ \<Rightarrow> (Panic, t))"

section \<open>The page allocator\<close>

datatype alloc_error = AllocInvalidParam | AllocMemoryOverlap | AllocNoMemory | AllocNotAllocated

text \<open>The bitmap of the default feature \<^verbatim>\<open>page-alloc-256m\<close> is \<^verbatim>\<open>BitAlloc64K\<close>.\<close>

definition BITMAP_DEPTH :: nat where "BITMAP_DEPTH = 3"

definition MAX_ALIGN_1GB :: usize where "MAX_ALIGN_1GB = 0x40000000"

record page_allocator =
  pa_base :: usize
  pa_total :: usize
  pa_used :: usize
  pa_inner :: bit_alloc

definition palloc_new :: page_allocator where
  "palloc_new = \<lparr>pa_base = 0, pa_total = 0, pa_used = 0, pa_inner = ba_default BITMAP_DEPTH\<rparr>"

definition palloc_init :: "usize \<Rightarrow> usize \<Rightarrow> page_allocator \<Rightarrow> (alloc_error, unit) outcome \<times> page_allocator" where
  "palloc_init start sz a =
     (let e = align_down (start + sz) PAGE_SIZE_4K;
          start = align_up start PAGE_SIZE_4K;
          total = (e - start) div PAGE_SIZE_4K;
          base = align_down start MAX_ALIGN_1GB;
          start_idx = (start - base) div PAGE_SIZE_4K
      in case ba_insert BITMAP_DEPTH (unat start_idx) (unat (start_idx + total)) (pa_inner a) of
           (Ok _, t) \<Rightarrow> (Ok (), a\<lparr>pa_total := total, pa_base := base, pa_inner := t\<rparr>)
         | (_, t) \<Rightarrow> (Panic, a\<lparr>pa_total := total, pa_base := base, pa_inner := t\<rparr>))"

definition is_power_of_two :: "usize \<Rightarrow> bool" where
  "is_power_of_two w = (w \<noteq> 0 \<and> w AND (w - 1) = 0)"

definition ctz64 :: "usize \<Rightarrow> nat" where
  "ctz64 w = (case List.find (bit w) [0..<64] of Some i \<Rightarrow> i | None \<Rightarrow> 64)"

definition palloc_alloc_pages ::
  "usize \<Rightarrow> usize \<Rightarrow> page_allocator \<Rightarrow> (alloc_error, usize) outcome \<times> page_allocator" where
  "palloc_alloc_pages num_pages align_pow2 a =
     (if align_pow2 > MAX_ALIGN_1GB \<or> \<not> is_aligned align_pow2 PAGE_SIZE_4K then (Err AllocInvalidParam, a)
      else if \<not> is_power_of_two (align_pow2 div PAGE_SIZE_4K) then (Err AllocInvalidParam, a)
      else if num_pages = 0 then (Err AllocInvalidParam, a)
      else case (if num_pages = 1 then ba_alloc BITMAP_DEPTH (pa_inner a)
                 else ba_alloc_contiguous BITMAP_DEPTH (unat num_pages) (ctz64 (align_pow2 div PAGE_SIZE_4K)) (pa_inner a)) of
        (Ok (Some idx), t) \<Rightarrow>
          (Ok (of_nat idx * PAGE_SIZE_4K + pa_base a), a\<lparr>pa_inner := t, pa_used := pa_used a + num_pages\<rparr>)
      | (Ok None, t) \<Rightarrow> (Err AllocNoMemory, a\<lparr>pa_inner := t\<rparr>)
      | (_, t) \<Rightarrow> (Panic, a\<lparr>pa_inner := t\<rparr>))"

definition palloc_dealloc_pages :: "usize \<Rightarrow> usize \<Rightarrow> page_allocator \<Rightarrow> (alloc_error, unit) outcome \<times> page_allocator" where
  "palloc_dealloc_pages pos num_pages a =
     (if \<not> is_aligned pos PAGE_SIZE_4K then (Panic, a)
      else
        let idx = unat ((pos - pa_base a) div PAGE_SIZE_4K) in
        case (if num_pages = 1 then ba_dealloc BITMAP_DEPTH idx (pa_inner a)
              else if num_pages = 0 then (Ok False, pa_inner a)
              else ba_dealloc_contiguous BITMAP_DEPTH idx (unat num_pages) (pa_inner a)) of
          (Ok ok, t) \<Rightarrow> (Ok (), a\<lparr>pa_inner := t, pa_used := (if ok then pa_used a - num_pages else pa_used a)\<rparr>)
        | (_, t) \<Rightarrow> (Panic, a\<lparr>pa_inner := t\<rparr>))"

definition palloc_available_pages :: "page_allocator \<Rightarrow> usize" where
  "palloc_available_pages a = pa_total a - pa_used a"

section \<open>Frames\<close>

definition PHYS_VIRT_OFFSET :: usize where "PHYS_VIRT_OFFSET = 0xffff800000000000"

definition virt_to_phys :: "usize \<Rightarrow> usize" where "virt_to_phys va = va - PHYS_VIRT_OFFSET"
definition phys_to_virt :: "usize \<Rightarrow> usize" where "phys_to_virt pa = pa + PHYS_VIRT_OFFSET"

text \<open>\<^verbatim>\<open>PagingHandlerImpl\<close>. The allocator does not panic on the frames it manages.\<close>

definition handler_alloc_frame :: "page_allocator \<Rightarrow> usize option \<times> page_allocator" where
  "handler_alloc_frame a =
     (case palloc_alloc_pages 1 PAGE_SIZE_4K a of
        (Ok va, a) \<Rightarrow> (Some (virt_to_phys va), a)
      | (_, a) \<Rightarrow> (None, a))"

definition handler_dealloc_frame :: "usize \<Rightarrow> page_allocator \<Rightarrow> page_allocator" where
  "handler_dealloc_frame paddr a = snd (palloc_dealloc_pages (phys_to_virt paddr) 1 a)"

definition paging_handler_impl :: "page_allocator paging_handler" where
  "paging_handler_impl = \<lparr>ph_alloc_frame = handler_alloc_frame, ph_dealloc_frame = handler_dealloc_frame\<rparr>"

section \<open>The allocator meets the frame contract\<close>

lemma CAP_depth: "CAP BITMAP_DEPTH = 65536"
  by (simp add: BITMAP_DEPTH_def numeral_3_eq_3)

definition frame_of :: "page_allocator \<Rightarrow> nat \<Rightarrow> usize" where
  "frame_of a idx = virt_to_phys (of_nat idx * PAGE_SIZE_4K + pa_base a)"

definition pa_free :: "page_allocator \<Rightarrow> usize set" where
  "pa_free a = frame_of a ` free_bits BITMAP_DEPTH (pa_inner a)"

definition pa_managed :: "page_allocator \<Rightarrow> usize set" where
  "pa_managed a = frame_of a ` {idx. idx < CAP BITMAP_DEPTH \<and> frame_ok (frame_of a idx)}"

definition pa_inv :: "page_allocator \<Rightarrow> bool" where
  "pa_inv a \<longleftrightarrow> ba_wf BITMAP_DEPTH (pa_inner a) \<and> is_aligned_4k (pa_base a)
     \<and> (\<forall>idx \<in> free_bits BITMAP_DEPTH (pa_inner a). frame_ok (frame_of a idx))"

lemma pa_free_idx: "pa_inv a \<Longrightarrow> idx \<in> free_bits BITMAP_DEPTH (pa_inner a) \<Longrightarrow> idx < 65536"
  using free_bits_lt [of BITMAP_DEPTH "pa_inner a" idx] by (simp add: pa_inv_def CAP_depth)

lemma unat_idx: "idx < 65536 \<Longrightarrow> unat (of_nat idx * PAGE_SIZE_4K) = idx * 4096"
  by (simp add: PAGE_SIZE_4K_def unat_word_ariths unat_of_nat)

lemma is_aligned_4k_plus: "is_aligned_4k a \<Longrightarrow> is_aligned_4k b \<Longrightarrow> is_aligned_4k (a + b)"
  unfolding is_aligned_4k_iff unat_word_ariths by (rule dvd_mod) simp_all

lemma phys_virt [simp]: "phys_to_virt (virt_to_phys va) = va"
  by (simp add: phys_to_virt_def virt_to_phys_def)

lemma frame_of_inj: 
  assumes "i < 65536" "j < 65536" "frame_of a i = frame_of a j"
  shows "i = j"
proof -
  have "(of_nat i * PAGE_SIZE_4K :: usize) = of_nat j * PAGE_SIZE_4K"
    using assms(3) unfolding frame_of_def virt_to_phys_def by simp
  then have "unat (of_nat i * PAGE_SIZE_4K :: usize) = unat (of_nat j * PAGE_SIZE_4K :: usize)"
    by (rule arg_cong)
  then have "i * 4096 = j * 4096" unfolding unat_idx [OF assms(1)] unat_idx [OF assms(2)] .
  then show ?thesis by simp
qed

lemma frame_idx:
  assumes "idx < 65536"
  shows "unat ((phys_to_virt (frame_of a idx) - pa_base a) div PAGE_SIZE_4K) = idx"
proof -
  have "unat ((phys_to_virt (frame_of a idx) - pa_base a) div PAGE_SIZE_4K) = unat (of_nat idx * PAGE_SIZE_4K :: usize) div 4096"
    by (simp add: frame_of_def unat_div) (simp add: PAGE_SIZE_4K_def)
  then show ?thesis using unat_idx [OF assms] by simp
qed

lemma frame_aligned:
  assumes "is_aligned_4k (pa_base a)" "idx < 65536"
  shows "is_aligned (phys_to_virt (frame_of a idx)) PAGE_SIZE_4K"
proof -
  have "is_aligned_4k (of_nat idx * PAGE_SIZE_4K)" using unat_idx [OF assms(2)] by (simp add: is_aligned_4k_iff)
  from is_aligned_4k_plus [OF this assms(1)] show ?thesis by (simp add: frame_of_def is_aligned_4k_def)
qed

lemma alloc_one_page:
  "palloc_alloc_pages 1 PAGE_SIZE_4K a =
     (case ba_alloc BITMAP_DEPTH (pa_inner a) of
        (Ok (Some idx), t) \<Rightarrow> (Ok (of_nat idx * PAGE_SIZE_4K + pa_base a), a\<lparr>pa_inner := t, pa_used := pa_used a + 1\<rparr>)
      | (Ok None, t) \<Rightarrow> (Err AllocNoMemory, a\<lparr>pa_inner := t\<rparr>)
      | (_, t) \<Rightarrow> (Panic, a\<lparr>pa_inner := t\<rparr>))"
  by (simp add: palloc_alloc_pages_def MAX_ALIGN_1GB_def PAGE_SIZE_4K_def is_aligned_def align_offset_def
      is_power_of_two_def)

lemma handler_alloc_frame_spec:
  assumes inv: "pa_inv a"
  shows "if pa_free a = {} then handler_alloc_frame a = (None, a)
    else \<exists>f a'. handler_alloc_frame a = (Some f, a') \<and> f \<in> pa_free a \<and> pa_free a' = pa_free a - {f}
      \<and> pa_managed a' = pa_managed a \<and> pa_inv a'"
proof (cases "free_bits BITMAP_DEPTH (pa_inner a) = {}")
  case True
  with ba_alloc_spec [of BITMAP_DEPTH "pa_inner a"] inv show ?thesis
    by (simp add: pa_free_def handler_alloc_frame_def alloc_one_page pa_inv_def)
next
  case False
  with ba_alloc_spec [of BITMAP_DEPTH "pa_inner a"] inv obtain k t where
    k: "ba_alloc BITMAP_DEPTH (pa_inner a) = (Ok (Some k), t)" "k \<in> free_bits BITMAP_DEPTH (pa_inner a)"
      "ba_wf BITMAP_DEPTH t" "free_bits BITMAP_DEPTH t = free_bits BITMAP_DEPTH (pa_inner a) - {k}"
    by (auto simp: pa_inv_def)
  let ?a = "a\<lparr>pa_inner := t, pa_used := pa_used a + 1\<rparr>"
  have fo: "frame_of ?a = frame_of a" by (simp add: frame_of_def fun_eq_iff)
  have h: "handler_alloc_frame a = (Some (frame_of a k), ?a)"
    by (simp add: handler_alloc_frame_def alloc_one_page k(1) frame_of_def)
  have "frame_of a ` (free_bits BITMAP_DEPTH (pa_inner a) - {k}) = frame_of a ` free_bits BITMAP_DEPTH (pa_inner a) - {frame_of a k}"
    using frame_of_inj pa_free_idx [OF inv] k(2) by blast
  then have "pa_free ?a = pa_free a - {frame_of a k}" by (simp add: pa_free_def fo k(4))
  moreover have "pa_managed ?a = pa_managed a" by (simp add: pa_managed_def fo)
  moreover have "pa_inv ?a" using inv k(3,4) by (simp add: pa_inv_def fo)
  moreover have "frame_of a k \<in> pa_free a" "pa_free a \<noteq> {}" using k(2) by (auto simp: pa_free_def)
  ultimately show ?thesis using h by auto
qed

lemma handler_dealloc_frame_spec:
  assumes inv: "pa_inv a" and f: "f \<in> pa_managed a"
  shows "\<exists>u. palloc_dealloc_pages (phys_to_virt f) 1 a = (Ok (), u) \<and> pa_free u = insert f (pa_free a)
    \<and> pa_managed u = pa_managed a \<and> pa_inv u"
proof -
  from f obtain k where k: "k < 65536" "frame_ok (frame_of a k)" "f = frame_of a k"
    unfolding pa_managed_def CAP_depth by blast
  obtain t where t: "ba_dealloc BITMAP_DEPTH k (pa_inner a) = (Ok (k \<notin> free_bits BITMAP_DEPTH (pa_inner a)), t)"
      "ba_wf BITMAP_DEPTH t" "free_bits BITMAP_DEPTH t = insert k (free_bits BITMAP_DEPTH (pa_inner a))"
    using ba_dealloc_spec [of BITMAP_DEPTH "pa_inner a" k] inv k(1) by (auto simp: pa_inv_def CAP_depth)
  have al: "is_aligned (phys_to_virt f) PAGE_SIZE_4K" using frame_aligned [of a k] inv k by (simp add: pa_inv_def)
  obtain n where u: "palloc_dealloc_pages (phys_to_virt f) 1 a = (Ok (), a\<lparr>pa_inner := t, pa_used := n\<rparr>)"
    using al t(1) frame_idx [OF k(1), of a] k(3) by (simp add: palloc_dealloc_pages_def Let_def)
  let ?u = "a\<lparr>pa_inner := t, pa_used := n\<rparr>"
  have fo: "frame_of ?u = frame_of a" by (simp add: frame_of_def fun_eq_iff)
  have "pa_free ?u = insert f (pa_free a)" "pa_managed ?u = pa_managed a"
    by (simp_all add: pa_free_def pa_managed_def fo t(3) k(3))
  moreover have "pa_inv ?u" using inv t(2) k(2) by (simp add: pa_inv_def fo t(3))
  ultimately show ?thesis by (intro exI [of _ ?u] conjI u)
qed

lemma handler_alloc_Some:
  assumes "pa_inv s" "handler_alloc_frame s = (Some f, s')"
  shows "f \<in> pa_free s \<and> pa_free s' = pa_free s - {f} \<and> pa_managed s' = pa_managed s \<and> pa_inv s'"
proof (cases "pa_free s = {}")
  case True
  then show ?thesis using handler_alloc_frame_spec [OF assms(1)] assms(2) by simp
next
  case False
  then obtain g u where "handler_alloc_frame s = (Some g, u)" "g \<in> pa_free s" "pa_free u = pa_free s - {g}"
    "pa_managed u = pa_managed s" "pa_inv u"
    using handler_alloc_frame_spec [OF assms(1)] by (simp only: if_False) blast
  with assms(2) show ?thesis by simp
qed

lemma handler_alloc_None:
  assumes "pa_inv s" "handler_alloc_frame s = (None, s')"
  shows "pa_free s = {} \<and> s' = s"
proof (cases "pa_free s = {}")
  case True
  then show ?thesis using handler_alloc_frame_spec [OF assms(1)] assms(2) by simp
next
  case False
  then obtain g u where "handler_alloc_frame s = (Some g, u)"
    using handler_alloc_frame_spec [OF assms(1)] by (simp only: if_False) blast
  with assms(2) show ?thesis by simp
qed

lemma handler_dealloc_managed:
  assumes "pa_inv s" "f \<in> pa_managed s"
  shows "pa_free (handler_dealloc_frame f s) = insert f (pa_free s)
      \<and> pa_managed (handler_dealloc_frame f s) = pa_managed s \<and> pa_inv (handler_dealloc_frame f s)"
proof -
  obtain u where "palloc_dealloc_pages (phys_to_virt f) 1 s = (Ok (), u)" "pa_free u = insert f (pa_free s)"
    "pa_managed u = pa_managed s" "pa_inv u"
    using handler_dealloc_frame_spec [OF assms] by blast
  then show ?thesis by (simp add: handler_dealloc_frame_def)
qed

lemma pa_free_managed: "pa_inv s \<Longrightarrow> pa_free s \<subseteq> pa_managed s"
  using pa_free_idx unfolding pa_free_def pa_managed_def CAP_depth pa_inv_def by blast

lemma pa_managed_ok: "f \<in> pa_managed s \<Longrightarrow> frame_ok f"
  unfolding pa_managed_def by blast

interpretation fs: frame_source paging_handler_impl pa_free pa_managed pa_inv
  by unfold_locales
    (simp_all only: paging_handler_impl_def paging_handler.simps handler_alloc_Some handler_alloc_None
      handler_dealloc_managed pa_free_managed pa_managed_ok)

end
