(* ===== verification/Addr_Space.thy ===== *)
theory Addr_Space
  imports Memory_Set Page_Alloc
begin

text \<open>
  Address spaces (\<^verbatim>\<open>.arceos/modules/axmm\<close>): the mapping backends over page tables and frames, and
  \<^verbatim>\<open>AddrSpace\<close>. The machine memory \<open>kmem\<close> has the contents of the page tables, the page allocator and
  the bytes of physical memory, addressed physically. \<^verbatim>\<open>phys_to_virt\<close> is the kernel's view of a
  physical address, so a kernel access through it is an access to the bytes of \<open>kmem\<close>.

  Lemmas: allocation backends meet the contract of \<^verbatim>\<open>MemorySet\<close> (interpretation of \<open>backend_laws\<close>);
  \<^verbatim>\<open>unmap\<close> and \<^verbatim>\<open>map_alloc\<close> keep \<open>as_wf\<close> and refine updates of the abstract mapping; a page fault in
  an area maps a zeroed frame of its own; the check of a range looks at every address of it.
\<close>

section \<open>Machine memory\<close>

record kmem =
  km_tabs :: tables
  km_pa :: page_allocator
  km_mem :: "usize \<Rightarrow> u8"

definition page_bytes :: "usize \<Rightarrow> usize \<Rightarrow> bool" where
  "page_bytes frame p = (p - frame < PAGE_SIZE_4K)"

definition alloc_frame :: "bool \<Rightarrow> kmem \<Rightarrow> usize option \<times> kmem" where
  "alloc_frame zeroed km =
     (case palloc_alloc_pages 1 PAGE_SIZE_4K (km_pa km) of
        (Ok va, a) \<Rightarrow>
          (let paddr = virt_to_phys va;
               mem = (if zeroed then (\<lambda>p. if page_bytes paddr p then 0 else km_mem km p) else km_mem km)
           in (Some paddr, km\<lparr>km_pa := a, km_mem := mem\<rparr>))
      | (_, a) \<Rightarrow> (None, km\<lparr>km_pa := a\<rparr>))"

definition dealloc_frame :: "usize \<Rightarrow> kmem \<Rightarrow> kmem" where
  "dealloc_frame frame km = km\<lparr>km_pa := snd (palloc_dealloc_pages (phys_to_virt frame) 1 (km_pa km))\<rparr>"

definition with_tables :: "(tables \<Rightarrow> 'a \<times> tables) \<Rightarrow> kmem \<Rightarrow> 'a \<times> kmem" where
  "with_tables f km = (case f (km_tabs km) of (r, t) \<Rightarrow> (r, km\<lparr>km_tabs := t\<rparr>))"

definition with_pt :: "(tables \<times> page_allocator \<Rightarrow> 'a \<times> (tables \<times> page_allocator)) \<Rightarrow> kmem \<Rightarrow> 'a \<times> kmem" where
  "with_pt f km = (case f (km_tabs km, km_pa km) of (r, (t, a)) \<Rightarrow> (r, km\<lparr>km_tabs := t, km_pa := a\<rparr>))"

section \<open>Backends\<close>

datatype backend = Linear usize | Alloc bool

fun ok_bool :: "('e, 'a) outcome \<Rightarrow> ('e2, bool) outcome" where
  "ok_bool (Ok _) = Ok True"
| "ok_bool (Err _) = Ok False"
| "ok_bool Panic = Panic"

text \<open>The loop of \<^verbatim>\<open>map_alloc\<close> over the pages. A failed frame allocation leaves the page unmapped.\<close>

fun map_alloc_pages :: "usize \<Rightarrow> mapping_flags \<Rightarrow> usize list \<Rightarrow> kmem \<Rightarrow> (mapping_error, bool) outcome \<times> kmem" where
  "map_alloc_pages root flags [] km = (Ok True, km)"
| "map_alloc_pages root flags (addr # ps) km =
     (case alloc_frame True km of
        (Some frame, km) \<Rightarrow>
          (case with_pt (pt_map paging_handler_impl root addr frame Size4K flags) km of
             (Ok _, km) \<Rightarrow> map_alloc_pages root flags ps km
           | (Err _, km) \<Rightarrow> (Ok False, km)
           | (Panic, km) \<Rightarrow> (Panic, km))
      | (None, km) \<Rightarrow> map_alloc_pages root flags ps km)"

definition be_map_alloc ::
  "usize \<Rightarrow> usize \<Rightarrow> usize \<Rightarrow> mapping_flags \<Rightarrow> bool \<Rightarrow> kmem \<Rightarrow> (mapping_error, bool) outcome \<times> kmem" where
  "be_map_alloc root start sz flags populate km =
     (if populate then
        (case page_iter start (start + sz) of
           Some ps \<Rightarrow> map_alloc_pages root flags ps km
         | None \<Rightarrow> (Panic, km))
      else (Ok True, km))"

fun unmap_alloc_pages :: "usize \<Rightarrow> usize list \<Rightarrow> kmem \<Rightarrow> (mapping_error, bool) outcome \<times> kmem" where
  "unmap_alloc_pages root [] km = (Ok True, km)"
| "unmap_alloc_pages root (addr # ps) km =
     (case with_tables (pt_unmap root addr) km of
        (Ok (frame, psize), km) \<Rightarrow>
          if ps_is_huge psize then (Ok False, km)
          else unmap_alloc_pages root ps (dealloc_frame frame km)
      | (Err _, km) \<Rightarrow> unmap_alloc_pages root ps km
      | (Panic, km) \<Rightarrow> (Panic, km))"

definition be_unmap_alloc :: "usize \<Rightarrow> usize \<Rightarrow> usize \<Rightarrow> kmem \<Rightarrow> (mapping_error, bool) outcome \<times> kmem" where
  "be_unmap_alloc root start sz km =
     (case page_iter start (start + sz) of
        Some ps \<Rightarrow> unmap_alloc_pages root ps km
      | None \<Rightarrow> (Panic, km))"

definition handle_page_fault_alloc ::
  "usize \<Rightarrow> usize \<Rightarrow> mapping_flags \<Rightarrow> bool \<Rightarrow> kmem \<Rightarrow> (ax_error, bool) outcome \<times> kmem" where
  "handle_page_fault_alloc root vaddr orig_flags populate km =
     (if populate then (Ok False, km)
      else case alloc_frame True km of
        (Some frame, km) \<Rightarrow>
          (case with_pt (pt_map paging_handler_impl root vaddr frame Size4K orig_flags) km of
             (r, km) \<Rightarrow> (ok_bool r, km))
      | (None, km) \<Rightarrow> (Ok False, km))"

definition be_map_linear ::
  "usize \<Rightarrow> usize \<Rightarrow> usize \<Rightarrow> mapping_flags \<Rightarrow> usize \<Rightarrow> kmem \<Rightarrow> (mapping_error, bool) outcome \<times> kmem" where
  "be_map_linear root start sz flags pa_va_offset km =
     (case with_pt (pt_map_region paging_handler_impl root start (\<lambda>va. va - pa_va_offset) sz flags False) km of
        (r, km) \<Rightarrow> (ok_bool r, km))"

definition be_unmap_linear :: "usize \<Rightarrow> usize \<Rightarrow> usize \<Rightarrow> kmem \<Rightarrow> (mapping_error, bool) outcome \<times> kmem" where
  "be_unmap_linear root start sz km =
     (case with_tables (pt_unmap_region root start sz) km of (r, km) \<Rightarrow> (ok_bool r, km))"

definition backend_map ::
  "usize \<Rightarrow> backend \<Rightarrow> usize \<Rightarrow> usize \<Rightarrow> mapping_flags \<Rightarrow> kmem \<Rightarrow> (mapping_error, bool) outcome \<times> kmem" where
  "backend_map root b start sz flags km =
     (case b of
        Linear off \<Rightarrow> be_map_linear root start sz flags off km
      | Alloc populate \<Rightarrow> be_map_alloc root start sz flags populate km)"

definition backend_unmap ::
  "usize \<Rightarrow> backend \<Rightarrow> usize \<Rightarrow> usize \<Rightarrow> kmem \<Rightarrow> (mapping_error, bool) outcome \<times> kmem" where
  "backend_unmap root b start sz km =
     (case b of
        Linear off \<Rightarrow> be_unmap_linear root start sz km
      | Alloc populate \<Rightarrow> be_unmap_alloc root start sz km)"

definition backend_protect ::
  "usize \<Rightarrow> backend \<Rightarrow> usize \<Rightarrow> usize \<Rightarrow> mapping_flags \<Rightarrow> kmem \<Rightarrow> (mapping_error, bool) outcome \<times> kmem" where
  "backend_protect root b start sz new_flags km =
     (case with_tables (pt_protect_region root start sz new_flags) km of (r, km) \<Rightarrow> (ok_bool r, km))"

definition backend_impl :: "usize \<Rightarrow> (mapping_flags, backend, kmem) mapping_backend" where
  "backend_impl root = \<lparr>be_map = backend_map root, be_unmap = backend_unmap root, be_protect = backend_protect root\<rparr>"

definition backend_handle_page_fault ::
  "usize \<Rightarrow> backend \<Rightarrow> usize \<Rightarrow> mapping_flags \<Rightarrow> kmem \<Rightarrow> (ax_error, bool) outcome \<times> kmem" where
  "backend_handle_page_fault root b vaddr orig_flags km =
     (case b of
        Linear _ \<Rightarrow> (Ok False, km)
      | Alloc populate \<Rightarrow> handle_page_fault_alloc root vaddr orig_flags populate km)"

section \<open>Address spaces\<close>

fun mapping_err_to_ax_err :: "mapping_error \<Rightarrow> ax_error" where
  "mapping_err_to_ax_err MapInvalidParam = InvalidInput"
| "mapping_err_to_ax_err MapAlreadyExists = AlreadyExists"
| "mapping_err_to_ax_err MapBadState = BadState"

record aspace =
  as_range :: addr_range
  as_areas :: "(mapping_flags, backend) areas"
  as_root :: usize

type_synonym as_state = "aspace \<times> kmem"

definition as_base :: "aspace \<Rightarrow> usize" where "as_base a = rstart (as_range a)"
definition as_end :: "aspace \<Rightarrow> usize" where "as_end a = rend (as_range a)"
definition as_size :: "aspace \<Rightarrow> usize" where "as_size a = range_size (as_range a)"

definition as_contains_range :: "usize \<Rightarrow> usize \<Rightarrow> aspace \<Rightarrow> (ax_error, bool) outcome" where
  "as_contains_range start sz a = obind (from_start_size start sz) (\<lambda>r. Ok (contains_range (as_range a) r))"

definition as_new_empty :: "usize \<Rightarrow> usize \<Rightarrow> kmem \<Rightarrow> (ax_error, aspace) outcome \<times> kmem" where
  "as_new_empty base sz km =
     (case from_start_size base sz of
        Ok r \<Rightarrow>
          (case with_pt (pt_try_new paging_handler_impl) km of
             (Ok root, km) \<Rightarrow> (Ok \<lparr>as_range = r, as_areas = [], as_root = root\<rparr>, km)
           | (Err _, km) \<Rightarrow> (Err NoMemory, km)
           | (Panic, km) \<Rightarrow> (Panic, km))
      | Err e \<Rightarrow> (Err e, km)
      | Panic \<Rightarrow> (Panic, km))"

definition copy_mappings_from :: "aspace \<Rightarrow> as_state \<Rightarrow> (ax_error, unit) outcome \<times> as_state" where
  "copy_mappings_from other = (\<lambda>(a, km).
     if range_overlaps (as_range a) (as_range other) then (Err InvalidInput, (a, km))
     else case with_tables (pt_copy_from (as_root a) (as_root other) (as_base other) (as_size other)) km of
       (Panic, km) \<Rightarrow> (Panic, (a, km))
     | (_, km) \<Rightarrow> (Ok (), (a, km)))"

definition clear_mappings :: "addr_range \<Rightarrow> as_state \<Rightarrow> (ax_error, unit) outcome \<times> as_state" where
  "clear_mappings rg = (\<lambda>(a, km).
     case with_tables (pt_clear_copy_range (as_root a) (rstart rg) (range_size rg)) km of
       (Panic, km) \<Rightarrow> (Panic, (a, km))
     | (_, km) \<Rightarrow> (Ok (), (a, km)))"

definition validate_region :: "usize \<Rightarrow> usize \<Rightarrow> aspace \<Rightarrow> (ax_error, unit) outcome" where
  "validate_region start sz a =
     obind (as_contains_range start sz a) (\<lambda>ok.
       if \<not> ok then Err InvalidInput
       else if \<not> is_aligned_4k start \<or> \<not> is_aligned_4k sz then Err InvalidInput
       else Ok ())"

definition as_find_free_area :: "usize \<Rightarrow> usize \<Rightarrow> addr_range \<Rightarrow> aspace \<Rightarrow> usize option" where
  "as_find_free_area hint sz limit a = memset_find_free_area hint sz limit (as_areas a)"

text \<open>A \<^verbatim>\<open>MemorySet\<close> operation on the areas and the page table of an address space.\<close>

definition on_areas ::
  "((mapping_flags, backend, kmem) memset_state \<Rightarrow> (mapping_error, unit) outcome \<times> (mapping_flags, backend, kmem) memset_state)
     \<Rightarrow> as_state \<Rightarrow> (ax_error, unit) outcome \<times> as_state" where
  "on_areas op = (\<lambda>(a, km).
     case op (as_areas a, km) of (r, (m, km)) \<Rightarrow> (map_err mapping_err_to_ax_err r, (a\<lparr>as_areas := m\<rparr>, km)))"

definition as_map ::
  "usize \<Rightarrow> usize \<Rightarrow> mapping_flags \<Rightarrow> backend \<Rightarrow> as_state \<Rightarrow> (ax_error, unit) outcome \<times> as_state" where
  "as_map start sz flags b st =
     (case area_new start sz flags b of
        Ok area \<Rightarrow> on_areas (memset_map (backend_impl (as_root (fst st))) area False) st
      | Err e \<Rightarrow> (Err (mapping_err_to_ax_err e), st)
      | Panic \<Rightarrow> (Panic, st))"

definition as_map_linear ::
  "usize \<Rightarrow> usize \<Rightarrow> usize \<Rightarrow> mapping_flags \<Rightarrow> as_state \<Rightarrow> (ax_error, unit) outcome \<times> as_state" where
  "as_map_linear start_vaddr start_paddr sz flags st =
     sbind (validate_region start_vaddr sz (fst st), st) (\<lambda>_ st.
       if \<not> is_aligned_4k start_paddr then (Err InvalidInput, st)
       else as_map start_vaddr sz flags (Linear (start_vaddr - start_paddr)) st)"

definition as_map_alloc ::
  "usize \<Rightarrow> usize \<Rightarrow> mapping_flags \<Rightarrow> bool \<Rightarrow> as_state \<Rightarrow> (ax_error, unit) outcome \<times> as_state" where
  "as_map_alloc start sz flags populate st =
     sbind (validate_region start sz (fst st), st) (\<lambda>_ st. as_map start sz flags (Alloc populate) st)"

fun populate_pages ::
  "usize \<Rightarrow> backend \<Rightarrow> mapping_flags \<Rightarrow> usize list \<Rightarrow> kmem \<Rightarrow> (ax_error, unit) outcome \<times> kmem" where
  "populate_pages root b flags [] km = (Ok (), km)"
| "populate_pages root b flags (addr # ps) km =
     (case pt_query root addr (km_tabs km) of
        Ok _ \<Rightarrow> populate_pages root b flags ps km
      | Err PgNotMapped \<Rightarrow>
          (case backend_handle_page_fault root b addr flags km of
             (Ok True, km) \<Rightarrow> populate_pages root b flags ps km
           | (Ok False, km) \<Rightarrow> (Err NoMemory, km)
           | (Err e, km) \<Rightarrow> (Err e, km)
           | (Panic, km) \<Rightarrow> (Panic, km))
      | Err _ \<Rightarrow> (Err BadAddress, km)
      | Panic \<Rightarrow> (Panic, km))"

definition populate_one :: "usize \<Rightarrow> (mapping_flags, backend) memory_area \<Rightarrow> usize \<Rightarrow> usize \<Rightarrow> kmem
     \<Rightarrow> (ax_error, unit) outcome \<times> kmem" where
  "populate_one root area start e km =
     (if ma_backend area = Alloc False then
        (case page_iter start (min (area_end area) e) of
           Some ps \<Rightarrow> populate_pages root (ma_backend area) (ma_flags area) ps km
         | None \<Rightarrow> (Panic, km))
      else (Ok (), km))"

text \<open>The \<^verbatim>\<open>while let\<close> loop of \<^verbatim>\<open>populate_area\<close>; the result is the final value of \<^verbatim>\<open>start\<close>.\<close>

function populate_loop ::
  "usize \<Rightarrow> (mapping_flags, backend) areas \<Rightarrow> usize \<Rightarrow> usize \<Rightarrow> kmem \<Rightarrow> (ax_error, usize) outcome \<times> kmem" where
  "populate_loop root m start e km =
     (case memset_find start m of
        None \<Rightarrow> (Ok start, km)
      | Some area \<Rightarrow>
          (case populate_one root area start e km of
             (Ok _, km) \<Rightarrow>
               if \<not> is_aligned_4k (area_end area) then (Panic, km)
               else if e \<le> area_end area then (Ok (area_end area), km)
               else populate_loop root m (area_end area) e km
           | (Err x, km) \<Rightarrow> (Err x, km)
           | (Panic, km) \<Rightarrow> (Panic, km)))"
  by pat_completeness auto
termination
proof (relation "measure (\<lambda>(root, m, start, e, km). 2 ^ 64 - unat start)", goal_cases)
  case 1
  then show ?case by simp
next
  case (2 root m start e km area)
  then have "start < area_end area"
    by (auto simp: memset_find_def range_contains_area split: option.splits if_splits)
  with unat_less_2p64 [of "area_end area"] show ?case by (simp add: word_less_nat_alt)
qed

declare populate_loop.simps [simp del]

definition populate_area :: "usize \<Rightarrow> usize \<Rightarrow> as_state \<Rightarrow> (ax_error, unit) outcome \<times> as_state" where
  "populate_area start sz = (\<lambda>(a, km).
     case validate_region start sz a of
       Ok _ \<Rightarrow>
         (case populate_loop (as_root a) (as_areas a) start (start + sz) km of
            (Ok s, km) \<Rightarrow> (if s < start + sz then Err NoMemory else Ok (), (a, km))
          | (Err x, km) \<Rightarrow> (Err x, (a, km))
          | (Panic, km) \<Rightarrow> (Panic, (a, km)))
     | Err x \<Rightarrow> (Err x, (a, km))
     | Panic \<Rightarrow> (Panic, (a, km)))"

definition as_unmap :: "usize \<Rightarrow> usize \<Rightarrow> as_state \<Rightarrow> (ax_error, unit) outcome \<times> as_state" where
  "as_unmap start sz st =
     sbind (validate_region start sz (fst st), st)
       (\<lambda>_ st. on_areas (memset_unmap (backend_impl (as_root (fst st))) start sz) st)"

definition user_area_ok :: "aspace \<Rightarrow> (mapping_flags, backend) memory_area \<Rightarrow> bool" where
  "user_area_ok a area \<longleftrightarrow>
     is_aligned_4k (area_start area) \<and> area_size area mod PAGE_SIZE_4K = 0 \<and> contains (ma_flags area) USER
     \<and> as_contains_range (area_start area) (area_size area) a = Ok True"

definition as_clear :: "as_state \<Rightarrow> (ax_error, unit) outcome \<times> as_state" where
  "as_clear st =
     (case on_areas (memset_clear (backend_impl (as_root (fst st)))) st of
        (Ok _, st) \<Rightarrow> (Ok (), st)
      | (_, st) \<Rightarrow> (Panic, st))"

definition unmap_user_areas :: "as_state \<Rightarrow> (ax_error, unit) outcome \<times> as_state" where
  "unmap_user_areas st =
     (if \<forall>e \<in> set (as_areas (fst st)). user_area_ok (fst st) (snd e) then as_clear st else (Panic, st))"

text \<open>
  \<^verbatim>\<open>process_area_data_with_page_table\<close>: \<open>f\<close> is called with the physical address, the offset and the size
  of each piece, over a state of its own.
\<close>

fun process_pages ::
  "tables \<Rightarrow> usize \<Rightarrow> (usize \<Rightarrow> usize \<Rightarrow> usize \<Rightarrow> 's \<Rightarrow> 's) \<Rightarrow> usize \<Rightarrow> usize \<Rightarrow> usize list \<Rightarrow> usize \<Rightarrow> 's
     \<Rightarrow> (ax_error, unit) outcome \<times> 's" where
  "process_pages t root f start sz [] cnt s = (Ok (), s)"
| "process_pages t root f start sz (vaddr # ps) cnt s =
     (case pt_query root vaddr t of
        Ok (paddr, _, _) \<Rightarrow>
          (let copy_size = min (sz - cnt) PAGE_SIZE_4K in
           if copy_size = 0 then (Ok (), s)
           else
             let first = (vaddr = align_down_4k start \<and> align_offset_4k start \<noteq> 0);
                 copy_size = (if first then min copy_size (PAGE_SIZE_4K - align_offset_4k start) else copy_size);
                 paddr = (if first then paddr + align_offset_4k start else paddr)
             in process_pages t root f start sz ps (cnt + copy_size) (f paddr cnt copy_size s))
      | Err _ \<Rightarrow> (Err BadAddress, s)
      | Panic \<Rightarrow> (Panic, s))"

definition process_area_data ::
  "(usize \<Rightarrow> usize \<Rightarrow> usize \<Rightarrow> 's \<Rightarrow> 's) \<Rightarrow> usize \<Rightarrow> usize \<Rightarrow> aspace \<Rightarrow> tables \<Rightarrow> 's \<Rightarrow> (ax_error, unit) outcome \<times> 's" where
  "process_area_data f start sz a t s =
     (case as_contains_range start sz a of
        Ok True \<Rightarrow>
          (case page_iter (align_down_4k start) (align_up_4k (start + sz)) of
             Some ps \<Rightarrow> process_pages t (as_root a) f start sz ps 0 s
           | None \<Rightarrow> (Panic, s))
      | Ok False \<Rightarrow> (Err InvalidInput, s)
      | Err x \<Rightarrow> (Err x, s)
      | Panic \<Rightarrow> (Panic, s))"

definition copy_out :: "(usize \<Rightarrow> u8) \<Rightarrow> usize \<Rightarrow> usize \<Rightarrow> usize \<Rightarrow> u8 list \<Rightarrow> u8 list" where
  "copy_out mem src offset n buf =
     take (unat offset) buf @ map (\<lambda>i. mem (src + of_nat i)) [0..<unat n] @ drop (unat offset + unat n) buf"

definition copy_in :: "u8 list \<Rightarrow> usize \<Rightarrow> usize \<Rightarrow> usize \<Rightarrow> (usize \<Rightarrow> u8) \<Rightarrow> (usize \<Rightarrow> u8)" where
  "copy_in buf dst offset n mem = (\<lambda>p. if p - dst < n then buf ! (unat offset + unat (p - dst)) else mem p)"

definition as_read :: "usize \<Rightarrow> u8 list \<Rightarrow> as_state \<Rightarrow> (ax_error, unit) outcome \<times> u8 list" where
  "as_read start buf = (\<lambda>(a, km).
     process_area_data (copy_out (km_mem km)) start (of_nat (length buf)) a (km_tabs km) buf)"

definition as_write :: "usize \<Rightarrow> u8 list \<Rightarrow> as_state \<Rightarrow> (ax_error, unit) outcome \<times> as_state" where
  "as_write start buf = (\<lambda>(a, km).
     case process_area_data (copy_in buf) start (of_nat (length buf)) a (km_tabs km) (km_mem km) of
       (r, mem) \<Rightarrow> (r, (a, km\<lparr>km_mem := mem\<rparr>)))"

definition as_protect :: "usize \<Rightarrow> usize \<Rightarrow> mapping_flags \<Rightarrow> as_state \<Rightarrow> (ax_error, unit) outcome \<times> as_state" where
  "as_protect start sz flags st =
     sbind (populate_area start sz st) (\<lambda>_ st.
       on_areas (memset_protect (backend_impl (as_root (fst st))) start sz (\<lambda>_. Some flags)) st)"

fun check_areas :: "addr_range \<Rightarrow> mapping_flags \<Rightarrow> (mapping_flags, backend) areas \<Rightarrow> bool" where
  "check_areas rg access_flags [] = False"
| "check_areas rg access_flags ((k, area) # m) =
     (if area_end area \<le> rstart rg then check_areas rg access_flags m
      else if rstart rg < area_start area then False
      else if \<not> contains (ma_flags area) access_flags then False
      else
        let rg = rg\<lparr>rstart := area_end area\<rparr> in
        if range_is_empty rg then True else check_areas rg access_flags m)"

definition check_region_access :: "addr_range \<Rightarrow> mapping_flags \<Rightarrow> aspace \<Rightarrow> bool" where
  "check_region_access rg access_flags a = check_areas rg access_flags (as_areas a)"

definition as_handle_page_fault :: "usize \<Rightarrow> mapping_flags \<Rightarrow> as_state \<Rightarrow> (ax_error, bool) outcome \<times> as_state" where
  "as_handle_page_fault vaddr access_flags = (\<lambda>(a, km).
     if \<not> range_contains (as_range a) vaddr then (Ok False, (a, km))
     else case memset_find vaddr (as_areas a) of
       Some area \<Rightarrow>
         if contains (ma_flags area) access_flags then
           (case backend_handle_page_fault (as_root a) (ma_backend area) vaddr (ma_flags area) km of
              (r, km) \<Rightarrow> (r, (a, km)))
         else (Ok False, (a, km))
     | None \<Rightarrow> (Ok False, (a, km)))"

section \<open>Cloning\<close>

definition copy_page :: "usize \<Rightarrow> usize \<Rightarrow> kmem \<Rightarrow> kmem" where
  "copy_page src dst km =
     km\<lparr>km_mem := (\<lambda>p. if page_bytes dst p then km_mem km (src + (p - dst)) else km_mem km p)\<rparr>"

text \<open>One page of \<^verbatim>\<open>clone_or_err\<close>: the frame of the old space is copied to the frame of the new one.\<close>

definition clone_page ::
  "usize \<Rightarrow> usize \<Rightarrow> backend \<Rightarrow> mapping_flags \<Rightarrow> usize \<Rightarrow> kmem \<Rightarrow> (ax_error, unit) outcome \<times> kmem" where
  "clone_page old new b flags vaddr km =
     (case pt_query old vaddr (km_tabs km) of
        Ok (addr, _, _) \<Rightarrow>
          (case pt_query new vaddr (km_tabs km) of
             Ok (new_addr, _, _) \<Rightarrow> (Ok (), copy_page addr new_addr km)
           | Err PgNotMapped \<Rightarrow>
               (case backend_handle_page_fault new b vaddr flags km of
                  (Ok True, km) \<Rightarrow>
                    (case pt_query new vaddr (km_tabs km) of
                       Ok (new_addr, _, _) \<Rightarrow> (Ok (), copy_page addr new_addr km)
                     | Err _ \<Rightarrow> (Err BadAddress, km)
                     | Panic \<Rightarrow> (Panic, km))
                | (Ok False, km) \<Rightarrow> (Err NoMemory, km)
                | (Err e, km) \<Rightarrow> (Err e, km)
                | (Panic, km) \<Rightarrow> (Panic, km))
           | Err _ \<Rightarrow> (Err BadAddress, km)
           | Panic \<Rightarrow> (Panic, km))
      | Err PgNotMapped \<Rightarrow> (Ok (), km)
      | Err _ \<Rightarrow> (Err BadAddress, km)
      | Panic \<Rightarrow> (Panic, km))"

fun clone_pages ::
  "usize \<Rightarrow> usize \<Rightarrow> backend \<Rightarrow> mapping_flags \<Rightarrow> usize list \<Rightarrow> kmem \<Rightarrow> (ax_error, unit) outcome \<times> kmem" where
  "clone_pages old new b flags [] km = (Ok (), km)"
| "clone_pages old new b flags (v # vs) km =
     sbind (clone_page old new b flags v km) (\<lambda>_ km. clone_pages old new b flags vs km)"

fun clone_areas ::
  "usize \<Rightarrow> (mapping_flags, backend) areas \<Rightarrow> as_state \<Rightarrow> (ax_error, unit) outcome \<times> as_state" where
  "clone_areas old [] st = (Ok (), st)"
| "clone_areas old ((k, area) # m) st =
     sbind (as_map (area_start area) (area_size area) (ma_flags area) (ma_backend area) st)
       (\<lambda>_ (new, km).
         case page_iter (area_start area) (area_end area) of
           Some ps \<Rightarrow>
             (case clone_pages old (as_root new) (ma_backend area) (ma_flags area) ps km of
                (Ok _, km) \<Rightarrow> clone_areas old m (new, km)
              | (Err x, km) \<Rightarrow> (Err x, (new, km))
              | (Panic, km) \<Rightarrow> (Panic, (new, km)))
         | None \<Rightarrow> (Panic, (new, km)))"

text \<open>\<^verbatim>\<open>Drop for AddrSpace\<close>: the areas are cleared, then the page table itself is dropped.\<close>

definition as_drop :: "as_state \<Rightarrow> (ax_error, unit) outcome \<times> kmem" where
  "as_drop st =
     (case as_clear st of
        (Ok _, (a, km)) \<Rightarrow>
          (Ok (), snd (with_pt (\<lambda>s. ((), pt_drop paging_handler_impl (as_root a) s)) km))
      | (_, (a, km)) \<Rightarrow> (Panic, km))"

text \<open>An early return of \<^verbatim>\<open>clone_or_err\<close> drops the new address space.\<close>

definition clone_or_err :: "as_state \<Rightarrow> (ax_error, aspace) outcome \<times> kmem" where
  "clone_or_err = (\<lambda>(a, km).
     case as_new_empty (as_base a) (as_size a) km of
       (Ok new, km) \<Rightarrow>
         (case clone_areas (as_root a) (as_areas a) (new, km) of
            (Ok _, (new, km)) \<Rightarrow> (Ok new, km)
          | (Err x, st) \<Rightarrow> (case as_drop st of (Ok _, km) \<Rightarrow> (Err x, km) | (_, km) \<Rightarrow> (Panic, km))
          | (Panic, (new, km)) \<Rightarrow> (Panic, km))
     | (Err x, km) \<Rightarrow> (Err x, km)
     | (Panic, km) \<Rightarrow> (Panic, km))"

section \<open>Frames of an address space\<close>

definition page_path :: "usize \<Rightarrow> nat list" where
  "page_path va = walk_path va @ [p1_index va]"

lemma same_page_iff: "same_page va x \<longleftrightarrow> page_path x = page_path va"
  by (auto simp: same_page_def page_path_def)

lemma length_page_path [simp]: "length (page_path va) = 4"
  by (simp add: page_path_def)

text \<open>Every mapped page has a frame of its own.\<close>

definition leaf_ok :: "(usize \<Rightarrow> nat list option) \<Rightarrow> usize \<Rightarrow> tables \<Rightarrow> bool" where
  "leaf_ok own root t \<longleftrightarrow>
     (\<forall>va. leaf t root va \<noteq> 0 \<longrightarrow> own (pte_paddr (leaf t root va)) = Some (page_path va))"

definition pt_ok :: "usize \<Rightarrow> kmem \<Rightarrow> bool" where
  "pt_ok root km \<longleftrightarrow> (\<exists>own. fs.owned root (km_tabs km, km_pa km) own \<and> leaf_ok own root (km_tabs km))"

lemma pt_okI: "fs.owned root (km_tabs km, km_pa km) own \<Longrightarrow> leaf_ok own root (km_tabs km) \<Longrightarrow> pt_ok root km"
  unfolding pt_ok_def by blast

lemma owned_data:
  assumes "fs.owned root (t, a) own" "own f = None" "f \<in> pa_managed a" "length p = 4"
    and "pa_inv a'" "pa_free a' \<subseteq> pa_free a" "f \<notin> pa_free a'" "pa_managed a' = pa_managed a"
  shows "fs.owned root (t, a') (own(f \<mapsto> p))"
proof -
  have o: "pt_own t own root" using assms(1) by (simp add: fs.owned_def)
  have "pt_own t (own(f \<mapsto> p)) root"
    unfolding pt_own_def
  proof (intro conjI allI impI)
    show "(own(f \<mapsto> p)) root = Some []" using o assms(2) by (auto simp: pt_own_def)
  next
    fix g q i assume g: "(own(f \<mapsto> p)) g = Some q" "length q < 3" "t g i \<noteq> 0"
    then have "own g = Some q" using assms(4) by (auto split: if_splits)
    with o g obtain h where h: "frame_ok h" "t g i = pte_new_table h" "own h = Some (q @ [i])"
      unfolding pt_own_def by blast
    then have "(own(f \<mapsto> p)) h = Some (q @ [i])" using assms(2) by auto
    with h show "\<exists>h. frame_ok h \<and> t g i = pte_new_table h \<and> (own(f \<mapsto> p)) h = Some (q @ [i])" by blast
  qed
  with assms show ?thesis by (auto simp: fs.owned_def)
qed

lemma owned_release:
  assumes "fs.owned root (t, a) own" "own f = Some p" "length p = 4"
    and "pa_inv a'" "pa_free a' = insert f (pa_free a)" "pa_managed a' = pa_managed a"
  shows "fs.owned root (t, a') (own(f := None))"
proof -
  have o: "pt_own t own root" using assms(1) by (simp add: fs.owned_def)
  have "pt_own t (own(f := None)) root"
    unfolding pt_own_def
  proof (intro conjI allI impI)
    show "(own(f := None)) root = Some []" using o assms(2,3) by (auto simp: pt_own_def)
  next
    fix g q i assume g: "(own(f := None)) g = Some q" "length q < 3" "t g i \<noteq> 0"
    then have "own g = Some q" by (auto split: if_splits)
    with o g obtain h where h: "frame_ok h" "t g i = pte_new_table h" "own h = Some (q @ [i])"
      unfolding pt_own_def by blast
    then have "h \<noteq> f" using assms(2,3) g(2) by auto
    with h show "\<exists>h. frame_ok h \<and> t g i = pte_new_table h \<and> (own(f := None)) h = Some (q @ [i])" by auto
  qed
  with assms show ?thesis by (auto simp: fs.owned_def)
qed

lemma frame_ok_aligned: "frame_ok f \<Longrightarrow> align_down_4k f = f"
proof -
  assume "frame_ok f"
  then have f: "f AND PHYS_ADDR_MASK = f" by (simp add: frame_ok_def)
  have "f AND NOT 0xFFF = f AND (PHYS_ADDR_MASK AND NOT 0xFFF)" using f by (metis and.assoc)
  also have "\<dots> = f AND PHYS_ADDR_MASK" by (simp add: PHYS_ADDR_MASK_def)
  finally show ?thesis using f by (simp add: align_defs)
qed

text \<open>The allocation of a data frame.\<close>

lemma alloc_frame_spec:
  assumes inv: "pa_inv (km_pa km)" and al: "alloc_frame True km = (r, km')"
  shows "case r of
      None \<Rightarrow> pa_free (km_pa km) = {} \<and> km' = km
    | Some f \<Rightarrow> f \<in> pa_free (km_pa km) \<and> pa_free (km_pa km') = pa_free (km_pa km) - {f} \<and> pa_inv (km_pa km')
        \<and> pa_managed (km_pa km') = pa_managed (km_pa km) \<and> km_tabs km' = km_tabs km
        \<and> (\<forall>p. km_mem km' p = (if page_bytes f p then 0 else km_mem km p))"
proof -
  obtain q a where q: "palloc_alloc_pages 1 PAGE_SIZE_4K (km_pa km) = (q, a)"
    by (cases "palloc_alloc_pages 1 PAGE_SIZE_4K (km_pa km)")
  then have h: "handler_alloc_frame (km_pa km) = (case q of Ok va \<Rightarrow> Some (virt_to_phys va) | _ \<Rightarrow> None, a)"
    by (cases q) (simp_all add: handler_alloc_frame_def)
  show ?thesis
  proof (cases "\<exists>va. q = Ok va")
    case True
    then obtain va where va: "q = Ok va" by blast
    with h handler_alloc_Some [OF inv, of "virt_to_phys va" a] q al show ?thesis
      by (auto simp: alloc_frame_def Let_def)
  next
    case False
    then have "handler_alloc_frame (km_pa km) = (None, a)" using h by (cases q) auto
    with handler_alloc_None [OF inv this] q al False show ?thesis
      by (cases q) (auto simp: alloc_frame_def)
  qed
qed


text \<open>A fresh frame is mapped at a page: what the two loops and the page fault have in common.\<close>

lemma map_frame_spec:
  assumes ok: "pt_ok root km" and al: "alloc_frame True km = (Some f, km1)"
    and m: "with_pt (pt_map paging_handler_impl root va f Size4K flags) km1 = (r, km2)"
  shows "pt_ok root km2" and "r \<noteq> Panic" and "frame_ok f" and "f \<in> pa_free (km_pa km)"
    and "km_mem km2 p = (if page_bytes f p then 0 else km_mem km p)"
    and "leaf (km_tabs km2) root x =
      (if r = Ok () \<and> same_page va x then pte_new_page f flags False else leaf (km_tabs km) root x)"
    and "r = Ok () \<Longrightarrow> leaf (km_tabs km) root va = 0"
    and "r = Err e \<Longrightarrow> e = PgNoMemory \<and> pa_free (km_pa km2) = {} \<or> e = PgAlreadyMapped \<and> leaf (km_tabs km) root va \<noteq> 0"
proof -
  obtain own where ow: "fs.owned root (km_tabs km, km_pa km) own" and lo: "leaf_ok own root (km_tabs km)"
    using ok by (auto simp: pt_ok_def)
  have inv: "pa_inv (km_pa km)" using ow by (simp add: fs.owned_def)
  note a = alloc_frame_spec [OF inv al, simplified]
  have fm: "f \<in> pa_managed (km_pa km)" using a pa_free_managed [OF inv] by blast
  show fok: "frame_ok f" and "f \<in> pa_free (km_pa km)" using a pa_managed_ok [OF fm] by blast+
  have fn: "own f = None" using ow a by (auto simp: fs.owned_def)
  let ?own = "own(f \<mapsto> page_path va)"
  have ow1: "fs.owned root (km_tabs km1, km_pa km1) ?own"
    using owned_data [OF ow fn fm length_page_path, of "km_pa km1" va] a by auto
  obtain t2 a2 where pm: "pt_map paging_handler_impl root va f Size4K flags (km_tabs km1, km_pa km1) = (r, (t2, a2))"
    and k2: "km2 = km1\<lparr>km_tabs := t2, km_pa := a2\<rparr>"
    using m by (auto simp: with_pt_def split: prod.splits)
  obtain own2 where o2: "fs.owned root (t2, a2) own2" "?own \<subseteq>\<^sub>m own2"
    and cs: "case r of
         Ok _ \<Rightarrow> leaf (km_tabs km1) root va = 0 \<and> (\<forall>x. leaf t2 root x =
           (if same_page va x then pte_new_page (align_down_4k f) flags False else leaf (km_tabs km1) root x))
       | Err e \<Rightarrow> (\<forall>x. leaf t2 root x = leaf (km_tabs km1) root x) \<and>
           (e = PgNoMemory \<and> pa_free a2 = {} \<or> e = PgAlreadyMapped \<and> leaf (km_tabs km1) root va \<noteq> 0)
       | Panic \<Rightarrow> False"
    using fs.pt_map_spec [OF ow1 pm] by blast
  show "r \<noteq> Panic" using cs by auto
  show "km_mem km2 p = (if page_bytes f p then 0 else km_mem km p)" using a k2 by simp
  show lf: "leaf (km_tabs km2) root x =
      (if r = Ok () \<and> same_page va x then pte_new_page f flags False else leaf (km_tabs km) root x)" for x
    using cs k2 a frame_ok_aligned [OF fok] by (cases r) auto
  show "r = Ok () \<Longrightarrow> leaf (km_tabs km) root va = 0" using cs a by simp
  show "r = Err e \<Longrightarrow> e = PgNoMemory \<and> pa_free (km_pa km2) = {} \<or> e = PgAlreadyMapped \<and> leaf (km_tabs km) root va \<noteq> 0"
    using cs a k2 by simp
  have "leaf_ok own2 root (km_tabs km2)"
    unfolding leaf_ok_def
  proof (intro allI impI)
    fix x assume nz: "leaf (km_tabs km2) root x \<noteq> 0"
    show "own2 (pte_paddr (leaf (km_tabs km2) root x)) = Some (page_path x)"
    proof (cases "r = Ok () \<and> same_page va x")
      case True
      then have "pte_paddr (leaf (km_tabs km2) root x) = f" "page_path x = page_path va"
        using lf new_page_facts(1) [OF fok] by (simp_all add: same_page_iff)
      moreover have "own2 f = Some (page_path va)" using o2(2) by (force simp: map_le_def)
      ultimately show ?thesis by simp
    next
      case False
      then have "leaf (km_tabs km2) root x = leaf (km_tabs km) root x" by (auto simp: lf)
      moreover from this have o: "own (pte_paddr (leaf (km_tabs km) root x)) = Some (page_path x)"
        using lo nz by (simp add: leaf_ok_def)
      moreover from o fn have "?own (pte_paddr (leaf (km_tabs km) root x)) = Some (page_path x)" by auto
      ultimately show ?thesis using o2(2) by (force simp: map_le_def)
    qed
  qed
  with o2(1) k2 show "pt_ok root km2" by (auto intro!: pt_okI)
qed

lemma unmap_page_spec:
  assumes ok: "pt_ok root km" and u: "with_tables (pt_unmap root va) km = (r, km1)"
  shows "r = (if pte_is_present (leaf (km_tabs km) root va)
              then Ok (pte_paddr (leaf (km_tabs km) root va), Size4K) else Err PgNotMapped)"
    and "leaf (km_tabs km1) root x = (if same_page va x then 0 else leaf (km_tabs km) root x)"
    and "km_mem km1 = km_mem km"
    and "r = Err e \<Longrightarrow> pt_ok root km1"
    and "r = Ok (f, sz) \<Longrightarrow> pt_ok root (dealloc_frame f km1) \<and> f \<in> pa_free (km_pa (dealloc_frame f km1))"
proof -
  obtain own where ow: "fs.owned root (km_tabs km, km_pa km) own" and lo: "leaf_ok own root (km_tabs km)"
    using ok by (auto simp: pt_ok_def)
  have inv: "pt_own (km_tabs km) own root" using ow by (simp add: fs.owned_def)
  obtain t where pu: "pt_unmap root va (km_tabs km) = (r, t)" and k1: "km1 = km\<lparr>km_tabs := t\<rparr>"
    using u by (auto simp: with_tables_def split: prod.splits)
  note ul = pt_unmap_leaf [OF inv pu]
  show rr: "r = (if pte_is_present (leaf (km_tabs km) root va)
              then Ok (pte_paddr (leaf (km_tabs km) root va), Size4K) else Err PgNotMapped)" by (rule ul(3))
  show lf: "leaf (km_tabs km1) root x = (if same_page va x then 0 else leaf (km_tabs km) root x)" for x
    using ul(2) k1 by simp
  show "km_mem km1 = km_mem km" using k1 by simp
  have ow1: "fs.owned root (km_tabs km1, km_pa km1) own" using ow ul(1) k1 by (simp add: fs.owned_def)
  have lo1: "leaf_ok own root (km_tabs km1)" using lo by (simp add: leaf_ok_def lf)
  show "r = Err e \<Longrightarrow> pt_ok root km1" using pt_okI [OF ow1 lo1] .
  assume "r = Ok (f, sz)"
  then have nz: "leaf (km_tabs km) root va \<noteq> 0" and f: "f = pte_paddr (leaf (km_tabs km) root va)"
    using rr not_present_0 by (auto split: if_splits)
  have of: "own f = Some (page_path va)" using lo nz f by (simp add: leaf_ok_def)
  have fm: "f \<in> pa_managed (km_pa km)" using of ow by (auto simp: fs.owned_def)
  have pi: "pa_inv (km_pa km)" using ow by (simp add: fs.owned_def)
  let ?km = "dealloc_frame f km1"
  have d: "pa_inv (km_pa ?km)" "pa_free (km_pa ?km) = insert f (pa_free (km_pa km1))"
      "pa_managed (km_pa ?km) = pa_managed (km_pa km1)"
    using handler_dealloc_managed [OF pi fm] k1 by (simp_all add: dealloc_frame_def handler_dealloc_frame_def)
  have "fs.owned root (km_tabs ?km, km_pa ?km) (own(f := None))"
    using owned_release [OF ow1 of length_page_path d] by (simp add: dealloc_frame_def)
  moreover have "leaf_ok (own(f := None)) root (km_tabs ?km)"
    unfolding leaf_ok_def
  proof (intro allI impI)
    fix x assume nx: "leaf (km_tabs ?km) root x \<noteq> 0"
    then have "\<not> same_page va x" "leaf (km_tabs ?km) root x = leaf (km_tabs km) root x"
      using lf [of x] by (auto simp: dealloc_frame_def split: if_splits)
    moreover from this nx lo have "own (pte_paddr (leaf (km_tabs km) root x)) = Some (page_path x)"
      by (simp add: leaf_ok_def)
    ultimately show "(own(f := None)) (pte_paddr (leaf (km_tabs ?km) root x)) = Some (page_path x)"
      using of by (auto simp: same_page_iff)
  qed
  ultimately show "pt_ok root ?km \<and> f \<in> pa_free (km_pa ?km)" using d(2) pt_okI by blast
qed

section \<open>The allocation backend keeps the page table well-formed\<close>

lemma unmap_alloc_pages_spec:
  assumes "pt_ok root km" and "unmap_alloc_pages root ps km = (r, km')"
  shows "r = Ok True \<and> pt_ok root km' \<and> km_mem km' = km_mem km \<and>
    (\<forall>x. leaf (km_tabs km') root x = (if \<exists>p \<in> set ps. same_page p x then 0 else leaf (km_tabs km) root x))"
  using assms
proof (induction ps arbitrary: km)
  case Nil
  then show ?case by simp
next
  case (Cons p ps)
  obtain q k1 where u: "with_tables (pt_unmap root p) km = (q, k1)" by fastforce
  note s = unmap_page_spec [OF Cons.prems(1) u]
  show ?case
  proof (cases "pte_is_present (leaf (km_tabs km) root p)")
    case True
    let ?f = "pte_paddr (leaf (km_tabs km) root p)"
    have q: "q = Ok (?f, Size4K)" using s(1) True by simp
    have "unmap_alloc_pages root ps (dealloc_frame ?f k1) = (r, km')"
      using Cons.prems(2) u q by simp
    from Cons.IH [OF _ this] s(5) [OF q] s(2) s(3) show ?thesis by (auto simp: dealloc_frame_def)
  next
    case False
    have q: "q = Err PgNotMapped" using s(1) False by simp
    have "unmap_alloc_pages root ps k1 = (r, km')" using Cons.prems(2) u q by simp
    from Cons.IH [OF _ this] s(4) [OF q] s(2) s(3) show ?thesis by auto
  qed
qed

lemma map_alloc_pages_total:
  assumes "pt_ok root km" and "map_alloc_pages root flags ps km = (r, km')"
  shows "(\<exists>b. r = Ok b) \<and> pt_ok root km'"
  using assms
proof (induction ps arbitrary: km)
  case Nil
  then show ?case by auto
next
  case (Cons p ps)
  obtain o1 k1 where al: "alloc_frame True km = (o1, k1)" by fastforce
  show ?case
  proof (cases o1)
    case None
    from Cons.prems(1) have "pa_inv (km_pa km)" by (auto simp: pt_ok_def fs.owned_def)
    from alloc_frame_spec [OF this al] None have "k1 = km" by simp
    with Cons al None show ?thesis by simp
  next
    case (Some f)
    obtain q k2 where m: "with_pt (pt_map paging_handler_impl root p f Size4K flags) k1 = (q, k2)" by fastforce
    note s = map_frame_spec [OF Cons.prems(1) al [unfolded Some] m]
    show ?thesis using Cons.prems(2) Cons.IH [OF s(1)] s(1,2) al Some m by (cases q) auto
  qed
qed

lemma protect_page_ok:
  assumes ok: "pt_ok root (km\<lparr>km_tabs := t\<rparr>)" and u: "pt_protect root va flags t = (r, t')"
  shows "pt_ok root (km\<lparr>km_tabs := t'\<rparr>)" and "r = Ok Size4K \<or> r = Err PgNotMapped"
proof -
  obtain own where ow: "fs.owned root (t, km_pa km) own" and lo: "leaf_ok own root t"
    using ok by (auto simp: pt_ok_def)
  have inv: "pt_own t own root" using ow by (simp add: fs.owned_def)
  note s = pt_protect_leaf [OF inv u]
  show "r = Ok Size4K \<or> r = Err PgNotMapped" using s(3) by simp
  have "leaf_ok own root t'"
    unfolding leaf_ok_def
  proof (intro allI impI)
    fix x assume nz: "leaf t' root x \<noteq> 0"
    show "own (pte_paddr (leaf t' root x)) = Some (page_path x)"
    proof (cases "same_page va x \<and> pte_is_present (leaf t root va)")
      case True
      then have "leaf t root va \<noteq> 0" by (auto simp: not_present_0)
      then have o: "own (pte_paddr (leaf t root va)) = Some (page_path va)"
        using lo by (simp add: leaf_ok_def)
      then have "pte_paddr (leaf t root va) \<in> pa_managed (km_pa km)" using ow by (auto simp: fs.owned_def)
      then have f: "frame_ok (pte_paddr (leaf t root va))" by (rule pa_managed_ok)
      have "pte_paddr (leaf t' root x) = pte_paddr (leaf t root va)"
        using s(2) [of x] True set_flags_facts [OF f] new_page_facts(1) [OF f] by simp
      with o True show ?thesis by (simp add: same_page_iff)
    next
      case False
      then have "leaf t' root x = leaf t root x" by (auto simp: s(2))
      with nz lo show ?thesis by (simp add: leaf_ok_def)
    qed
  qed
  with ow s(1) show "pt_ok root (km\<lparr>km_tabs := t'\<rparr>)"
    by (auto intro!: pt_okI simp: fs.owned_def)
qed

lemma is_aligned_Size4K: "is_aligned va 0x1000 = is_aligned_4k va"
  by (simp add: is_aligned_4k_def PAGE_SIZE_4K_def)

lemma aligned_step_4k:
  assumes "is_aligned_4k sz" and "sz \<noteq> 0"
  shows "\<not> sz < 0x1000" and "is_aligned_4k (sz - 0x1000)" and "unat (sz - 0x1000) + 4096 = unat sz"
proof -
  have d: "4096 dvd unat sz" using assms(1) by (simp add: is_aligned_4k_iff)
  have "unat sz \<noteq> 0" using assms(2) by (simp add: unat_eq_0)
  with d have le: "4096 \<le> unat sz" by (auto elim!: dvdE)
  then show "\<not> sz < 0x1000" by (simp add: word_less_nat_alt)
  have "(0x1000::usize) \<le> sz" using le by (simp add: word_le_nat_alt)
  then have u: "unat (sz - 0x1000) = unat sz - 4096" by (simp add: unat_sub)
  with le show "unat (sz - 0x1000) + 4096 = unat sz" by simp
  show "is_aligned_4k (sz - 0x1000)" using u d le by (simp add: is_aligned_4k_iff dvd_diff_nat)
qed

lemma is_aligned_4k_step:
  assumes "is_aligned_4k va" shows "is_aligned_4k (va + 0x1000)"
proof -
  have "4096 dvd (unat va + 4096) mod 2 ^ 64"
    using assms by (subst dvd_mod_iff) (simp_all add: is_aligned_4k_iff)
  then show ?thesis by (simp add: is_aligned_4k_iff unat_word_ariths)
qed

lemma protect_region_ok:
  assumes "pt_ok root (km\<lparr>km_tabs := t\<rparr>)" and "is_aligned_4k va" and "is_aligned_4k sz"
    and "pt_protect_region root va sz flags t = (r, t')"
  shows "pt_ok root (km\<lparr>km_tabs := t'\<rparr>) \<and> r \<noteq> Panic"
  using assms
proof (induction root va sz flags t rule: pt_protect_region.induct)
  case (1 root va sz flags t)
  show ?case
  proof (cases "sz = 0")
    case True
    with "1.prems" show ?thesis by (auto simp: pt_protect_region.simps)
  next
    case False
    obtain q t1 where p: "pt_protect root va flags t = (q, t1)" by fastforce
    note s = protect_page_ok [OF "1.prems"(1) p]
    note a = aligned_step_4k [OF "1.prems"(3) False]
    note st = pt_protect_region.simps [of root va sz flags t]
    from s(2) show ?thesis
    proof
      assume q: "q = Ok Size4K"
      have "pt_protect_region root (va + 0x1000) (sz - 0x1000) flags t1 = (r, t')"
        using "1.prems"(2,4) False p q a(1) st by (simp add: is_aligned_Size4K)
      with "1.IH" [OF False, of _ t1 Size4K] s(1) p q a "1.prems"(2) is_aligned_4k_step [OF "1.prems"(2)]
      show ?thesis by (simp add: is_aligned_Size4K)
    next
      assume "q = Err PgNotMapped"
      with "1.prems"(4) False p s(1) st show ?thesis by auto
    qed
  qed
qed


definition is_alloc :: "backend \<Rightarrow> bool" where
  "is_alloc b = (case b of Alloc _ \<Rightarrow> True | Linear _ \<Rightarrow> False)"

lemma page_iter_region:
  assumes "is_aligned_4k s" and "is_aligned_4k sz" and "unat s + unat sz < 2 ^ 64"
  shows "page_iter s (s + sz) = Some (pages s (s + sz))"
proof -
  have "unat (s + sz) = unat s + unat sz" using assms(3) by (simp add: unat_plus_if_size word_size)
  with assms show ?thesis by (simp add: page_iter_def is_aligned_4k_iff)
qed

interpretation bl: backend_laws "backend_impl root" is_alloc "pt_ok root" for root
proof
  fix b km s and sz :: usize
  assume b: "is_alloc b" and ok: "pt_ok root km" and al: "is_aligned_4k s" "is_aligned_4k sz"
    and nov: "unat s + unat sz < 2 ^ 64"
  from b obtain pop where pop: "b = Alloc pop" by (auto simp: is_alloc_def split: backend.splits)
  note pg = page_iter_region [OF al nov]
  show "\<exists>km'. be_unmap (backend_impl root) b s sz km = (Ok True, km') \<and> pt_ok root km'"
    using unmap_alloc_pages_spec [OF ok] pg pop
    by (cases "unmap_alloc_pages root (pages s (s + sz)) km")
       (auto simp: backend_impl_def backend_unmap_def be_unmap_alloc_def)
  fix f
  show "\<exists>r km'. be_map (backend_impl root) b s sz f km = (Ok r, km') \<and> pt_ok root km'"
    using map_alloc_pages_total [OF ok, of f "pages s (s + sz)"] pg pop ok
    by (cases "map_alloc_pages root f (pages s (s + sz)) km")
       (auto simp: backend_impl_def backend_map_def be_map_alloc_def)
  obtain q t where p: "pt_protect_region root s sz f (km_tabs km) = (q, t)" by fastforce
  have "pt_ok root (km\<lparr>km_tabs := t\<rparr>) \<and> q \<noteq> Panic"
    using protect_region_ok [OF _ al p, of km] ok by simp
  then show "\<exists>r km'. be_protect (backend_impl root) b s sz f km = (Ok r, km') \<and> pt_ok root km'"
    using p by (cases q) (auto simp: backend_impl_def backend_protect_def with_tables_def)
qed

section \<open>Well-formed address spaces\<close>

definition as_wf :: "as_state \<Rightarrow> bool" where
  "as_wf = (\<lambda>(a, km). areas_wf (as_areas a) \<and> bl.set_ok (as_areas a) \<and> pt_ok (as_root a) km)"

lemma pt_ok_zero:
  assumes "pa_inv (km_pa km)" and "root \<in> pa_managed (km_pa km)" and "root \<notin> pa_free (km_pa km)"
    and "\<And>i. km_tabs km root i = 0"
  shows "pt_ok root km"
proof (rule pt_okI)
  show "fs.owned root (km_tabs km, km_pa km) [root \<mapsto> []]"
    using assms by (auto simp: fs.owned_def pt_own_def)
  have "leaf (km_tabs km) root x = 0" for x
    using assms(4) by (simp add: leaf_def walk_path_def pte_paddr_def)
  then show "leaf_ok [root \<mapsto> []] root (km_tabs km)" by (simp add: leaf_ok_def)
qed

lemma as_new_empty_wf:
  assumes inv: "pa_inv (km_pa km)" and n: "as_new_empty base sz km = (Ok a, km')"
  shows "as_wf (a, km')" and "as_areas a = []" and "as_range a = \<lparr>rstart = base, rend = base + sz\<rparr>"
proof -
  from n obtain e f s where e: "checked_add base sz = Some e"
    and al: "handler_alloc_frame (km_pa km) = (Some f, s)"
    and a: "a = \<lparr>as_range = \<lparr>rstart = base, rend = e\<rparr>, as_areas = [], as_root = f\<rparr>"
    and km': "km' = km\<lparr>km_tabs := (km_tabs km)(f := (\<lambda>_. 0)), km_pa := s\<rparr>"
    by (auto simp: as_new_empty_def from_start_size_def with_pt_def pt_try_new_def alloc_table_def
        paging_handler_impl_def split: option.splits prod.splits outcome.splits)
  from handler_alloc_Some [OF inv al] pa_free_managed [OF inv]
  have "pt_ok f km'" by (intro pt_ok_zero) (auto simp: km')
  then show "as_wf (a, km')" by (simp add: as_wf_def a bl.set_ok_def)
  show "as_areas a = []" and "as_range a = \<lparr>rstart = base, rend = base + sz\<rparr>"
    using a checked_add_SomeD [OF e] by simp_all
qed

lemma validate_region_Ok:
  "validate_region start sz a = Ok () \<longleftrightarrow> unat start + unat sz < 2 ^ 64 \<and> is_aligned_4k start \<and> is_aligned_4k sz
     \<and> as_base a \<le> start \<and> start + sz \<le> as_end a"
proof (cases "checked_add start sz")
  case None
  then show ?thesis by (simp add: validate_region_def as_contains_range_def from_start_size_def checked_add_unat split: if_splits)
next
  case (Some e)
  then have "unat start + unat sz < 2 ^ 64" "e = start + sz"
    using checked_add_SomeD [OF Some] unat_less_2p64 [of e] by auto
  with Some show ?thesis
    by (simp add: validate_region_def as_contains_range_def from_start_size_def contains_range_def as_base_def as_end_def)
qed

lemma mapping_of_extI:
  assumes "areas_wf m'" and "\<And>v. covers m' x v \<longleftrightarrow> f = Some v"
  shows "mapping_of m' x = f"
  using assms by (cases f) (simp_all add: mapping_of_NoneI mapping_of_Some)

lemma as_unmap_spec:
  assumes wf: "as_wf (a, km)" and v: "validate_region start sz a = Ok ()"
  shows "\<exists>m' km'. as_unmap start sz (a, km) = (Ok (), (a\<lparr>as_areas := m'\<rparr>, km')) \<and> as_wf (a\<lparr>as_areas := m'\<rparr>, km')
    \<and> (\<forall>x. mapping_of m' x = (if start \<le> x \<and> x < start + sz then None else mapping_of (as_areas a) x))"
proof -
  have w: "areas_wf (as_areas a)" "bl.set_ok (as_areas a)" "pt_ok (as_root a) km" using wf by (auto simp: as_wf_def)
  obtain m' km' where u: "memset_unmap (backend_impl (as_root a)) start sz (as_areas a, km) = (Ok (), (m', km'))"
    and ok: "bl.set_ok m'" "pt_ok (as_root a) km'"
    using bl.memset_unmap_total [OF w, of start sz] v unfolding validate_region_Ok by blast
  note s = memset_unmap_Ok [OF w(1) u]
  have "mapping_of m' x = (if start \<le> x \<and> x < start + sz then None else mapping_of (as_areas a) x)" for x
    using s by (intro mapping_of_extI) (auto simp: mapping_of_Some [OF w(1)])
  with u v ok s show ?thesis by (auto simp: as_unmap_def on_areas_def as_wf_def)
qed

lemma area_new_ok:
  assumes "validate_region start sz a = Ok ()" and "sz \<noteq> 0"
  shows "area_new start sz flags (Alloc pop) = Ok \<lparr>ma_range = \<lparr>rstart = start, rend = start + sz\<rparr>, ma_flags = flags, ma_backend = Alloc pop\<rparr>"
    and "bl.area_ok \<lparr>ma_range = \<lparr>rstart = start, rend = start + sz\<rparr>, ma_flags = flags, ma_backend = Alloc pop\<rparr>"
proof -
  have nov: "unat start + unat sz < 2 ^ 64" and al: "is_aligned_4k start" "is_aligned_4k sz"
    using assms(1) by (auto simp: validate_region_Ok)
  then show "area_new start sz flags (Alloc pop) = Ok \<lparr>ma_range = \<lparr>rstart = start, rend = start + sz\<rparr>, ma_flags = flags, ma_backend = Alloc pop\<rparr>"
    by (simp add: area_new_def from_start_size_def checked_add_unat)
  have "start < start + sz" using nov assms(2)
    by (simp add: word_less_nat_alt unat_plus_if_size word_size unat_gt_0)
  with al show "bl.area_ok \<lparr>ma_range = \<lparr>rstart = start, rend = start + sz\<rparr>, ma_flags = flags, ma_backend = Alloc pop\<rparr>"
    by (simp add: bl.area_ok_def is_alloc_def area_start_def area_end_def is_aligned_4k_plus)
qed

lemma as_map_alloc_spec:
  assumes wf: "as_wf (a, km)" and v: "validate_region start sz a = Ok ()" and sz: "sz \<noteq> 0"
  shows "\<exists>r m' km'. as_map_alloc start sz flags pop (a, km) = (r, (a\<lparr>as_areas := m'\<rparr>, km')) \<and>
    (r = Ok () \<and> as_wf (a\<lparr>as_areas := m'\<rparr>, km')
       \<and> (\<forall>x. mapping_of m' x = (if start \<le> x \<and> x < start + sz then Some (flags, Alloc pop) else mapping_of (as_areas a) x))
       \<and> (\<forall>x. start \<le> x \<and> x < start + sz \<longrightarrow> mapping_of (as_areas a) x = None)
     \<or> r = Err BadState \<and> pt_ok (as_root a) km'
     \<or> r = Err AlreadyExists \<and> memset_overlaps \<lparr>rstart = start, rend = start + sz\<rparr> (as_areas a))"
proof -
  have w: "areas_wf (as_areas a)" "bl.set_ok (as_areas a)" "pt_ok (as_root a) km" using wf by (auto simp: as_wf_def)
  let ?A = "\<lparr>ma_range = \<lparr>rstart = start, rend = start + sz\<rparr>, ma_flags = flags, ma_backend = Alloc pop\<rparr>"
  note an = area_new_ok [OF v sz, of flags pop]
  obtain r m' km' where u: "memset_map (backend_impl (as_root a)) ?A False (as_areas a, km) = (r, (m', km'))"
    and ok: "bl.set_ok m'" "pt_ok (as_root a) km'"
    and r: "r = Ok () \<or> r = Err MapBadState \<or> r = Err MapAlreadyExists \<and> memset_overlaps (ma_range ?A) (as_areas a)"
    using bl.memset_map_total [OF w an(2), of False] by auto
  have e: "as_map_alloc start sz flags pop (a, km) = (map_err mapping_err_to_ax_err r, (a\<lparr>as_areas := m'\<rparr>, km'))"
    using an(1) v u by (simp add: as_map_alloc_def as_map_def on_areas_def)
  show ?thesis
  proof (cases "r = Ok ()")
    case True
    note s = memset_map_Ok [OF w(1) u [unfolded True]]
    have m: "mapping_of m' x = (if start \<le> x \<and> x < start + sz then Some (flags, Alloc pop) else mapping_of (as_areas a) x)" for x
      using s by (intro mapping_of_extI) (auto simp: mapping_of_Some [OF w(1)] area_start_def area_end_def)
    have f: "mapping_of (as_areas a) x = None" if "start \<le> x" "x < start + sz" for x
      using s that by (intro mapping_of_NoneI [OF w(1)]) (auto simp: area_start_def area_end_def)
    from True e ok s m f show ?thesis by (auto simp: as_wf_def)
  next
    case False
    with r e ok show ?thesis by auto
  qed
qed


section \<open>Page faults\<close>

lemma page_fault_spec:
  assumes wf: "as_wf (a, km)" and v: "range_contains (as_range a) vaddr"
    and ar: "memset_find vaddr (as_areas a) = Some area" "ma_backend area = Alloc False"
    and fl: "contains (ma_flags area) access"
    and h: "as_handle_page_fault vaddr access (a, km) = (r, (a', km'))"
  shows "a' = a \<and> as_wf (a, km') \<and>
    (r = Ok True \<and> leaf (km_tabs km) (as_root a) vaddr = 0 \<and>
       (\<exists>f \<in> pa_free (km_pa km). frame_ok f
          \<and> (\<forall>x. leaf (km_tabs km') (as_root a) x =
               (if same_page vaddr x then pte_new_page f (ma_flags area) False else leaf (km_tabs km) (as_root a) x))
          \<and> (\<forall>p. km_mem km' p = (if page_bytes f p then 0 else km_mem km p)))
     \<or> r = Ok False \<and> (pa_free (km_pa km') = {} \<or> leaf (km_tabs km) (as_root a) vaddr \<noteq> 0))"
proof -
  have w: "areas_wf (as_areas a)" "bl.set_ok (as_areas a)" "pt_ok (as_root a) km" using wf by (auto simp: as_wf_def)
  have pa: "pa_inv (km_pa km)" using w(3) by (auto simp: pt_ok_def fs.owned_def)
  obtain o1 k1 where al: "alloc_frame True km = (o1, k1)" by fastforce
  show ?thesis
  proof (cases o1)
    case None
    with alloc_frame_spec [OF pa al] have "k1 = km" "pa_free (km_pa km) = {}" by auto
    with None al h v ar fl wf show ?thesis
      by (simp add: as_handle_page_fault_def backend_handle_page_fault_def handle_page_fault_alloc_def)
  next
    case (Some f)
    obtain q k2 where m: "with_pt (pt_map paging_handler_impl (as_root a) vaddr f Size4K (ma_flags area)) k1 = (q, k2)"
      by fastforce
    note s = map_frame_spec [OF w(3) al [unfolded Some] m]
    have e: "a' = a" "km' = k2" "r = ok_bool q"
      using Some al h v ar fl m
      by (auto simp: as_handle_page_fault_def backend_handle_page_fault_def handle_page_fault_alloc_def)
    have "as_wf (a, km')" using w s(1) e by (simp add: as_wf_def)
    moreover have "\<exists>e. q = Err e \<and> (pa_free (km_pa k2) = {} \<or> leaf (km_tabs km) (as_root a) vaddr \<noteq> 0)" if "q \<noteq> Ok ()"
      using that s(2) s(8) by (cases q) auto
    ultimately show ?thesis using e s(3,4,5,6,7) by (cases "q = Ok ()") auto
  qed
qed

section \<open>Checking access to a region\<close>

lemma check_areas_correct:
  assumes "areas_wf m" and "rstart rg < rend rg"
  shows "check_areas rg fl m \<longleftrightarrow>
    (\<forall>x. rstart rg \<le> x \<and> x < rend rg \<longrightarrow> (\<exists>v. covers m x v \<and> contains (fst v) fl))"
  using assms
proof (induction rg fl m rule: check_areas.induct)
  case (1 rg fl)
  then show ?case by (auto simp: not_le intro!: exI [of _ "rstart rg"])
next
  case (2 rg fl k a m)
  have wf: "areas_wf m" using areas_wf_tail(1) [OF "2.prems"(1)] .
  have lt: "area_start a < area_end a" using areas_wf_entry [OF "2.prems"(1)] by auto
  have later: "area_end a \<le> x" if c: "covers m x v" for x v
  proof -
    obtain k' a' where a': "(k', a') \<in> set m" "area_start a' \<le> x" using c by (auto simp: covers_def)
    have "area_end a \<le> k'" "k' = area_start a'"
      using areas_wf_tail(2) [OF "2.prems"(1) a'(1)] areas_wf_entry [OF wf a'(1)] by auto
    with a'(2) show ?thesis by simp
  qed
  have out: "covers ((k, a) # m) x v \<longleftrightarrow> covers m x v" if "area_end a \<le> x" for x v
    using that by (auto simp: covers_Cons dest: leD)
  show ?case
  proof (cases "area_end a \<le> rstart rg")
    case True
    then have "covers ((k, a) # m) x v \<longleftrightarrow> covers m x v" if "rstart rg \<le> x" for x v
      using that out order_trans by blast
    with "2.IH"(1) [OF True wf "2.prems"(2)] True show ?thesis by auto
  next
    case F1: False
    show ?thesis
    proof (cases "area_start a \<le> rstart rg \<and> contains (ma_flags a) fl")
      case False
      have "\<not> covers m (rstart rg) v" for v using later F1 by blast
      then have "\<not> (\<exists>v. covers ((k, a) # m) (rstart rg) v \<and> contains (fst v) fl)"
        using False by (auto simp: covers_Cons)
      moreover have "\<not> check_areas rg fl ((k, a) # m)" using False F1 by (auto simp: not_le not_less)
      ultimately show ?thesis using "2.prems"(2) by blast
    next
      case True
      have here: "covers ((k, a) # m) x (ma_flags a, ma_backend a)" if "rstart rg \<le> x" "x < area_end a" for x
        using that True order_trans by (auto simp: covers_Cons)
      show ?thesis
      proof (cases "rend rg \<le> area_end a")
        case le: True
        have "check_areas rg fl ((k, a) # m)" using True F1 le by (simp add: range_is_empty_def not_less)
        moreover have "\<exists>v. covers ((k, a) # m) x v \<and> contains (fst v) fl" if "rstart rg \<le> x" "x < rend rg" for x
          using here [OF that(1)] that(2) le True by (intro exI [of _ "(ma_flags a, ma_backend a)"]) simp
        ultimately show ?thesis by blast
      next
        case gt: False
        let ?rg = "rg\<lparr>rstart := area_end a\<rparr>"
        have "check_areas ?rg fl m \<longleftrightarrow>
          (\<forall>x. rstart ?rg \<le> x \<and> x < rend ?rg \<longrightarrow> (\<exists>v. covers m x v \<and> contains (fst v) fl))"
          using "2.IH"(2) [of ?rg] F1 True gt wf by (simp add: range_is_empty_def not_less not_le)
        moreover have "check_areas rg fl ((k, a) # m) = check_areas ?rg fl m"
          using F1 True gt by (auto simp: range_is_empty_def not_less dest: leD)
        moreover have "(\<exists>v. covers ((k, a) # m) x v \<and> contains (fst v) fl) \<longleftrightarrow>
            x < area_end a \<or> (\<exists>v. covers m x v \<and> contains (fst v) fl)" if "rstart rg \<le> x" for x
          using here [OF that] out [of x] True by (cases "x < area_end a") (auto simp: not_less)
        moreover have "rstart rg \<le> area_end a" using F1 by simp
        ultimately show ?thesis by (auto simp: not_less) (meson linorder_not_le order_trans)+
      qed
    qed
  qed
qed

section \<open>Properties\<close>


definition demo_pa :: page_allocator where
  "demo_pa = snd (palloc_init 0xffff800040000000 0x10000 palloc_new)"

definition demo_root :: usize where "demo_root = 0x40064000"

definition demo_km :: kmem where
  "demo_km = \<lparr>km_tabs = (\<lambda>_ _. 0), km_pa = demo_pa, km_mem = (\<lambda>_. 7)\<rparr>"

definition demo_area :: "(mapping_flags, backend) memory_area" where
  "demo_area = \<lparr>ma_range = \<lparr>rstart = 0x1000, rend = 0x5000\<rparr>, ma_flags = READ OR WRITE OR USER, ma_backend = Alloc False\<rparr>"

definition demo_as :: aspace where
  "demo_as = \<lparr>as_range = \<lparr>rstart = 0x1000, rend = 0x800000000000\<rparr>, as_areas = [(0x1000, demo_area)], as_root = demo_root\<rparr>"

lemma demo_pa_eq:
  obtains t where "demo_pa = palloc_new\<lparr>pa_total := 16, pa_base := 0xffff800040000000, pa_inner := t\<rparr>"
    and "ba_wf BITMAP_DEPTH t" and "free_bits BITMAP_DEPTH t = {0..<16}"
proof -
  have "(0::nat) < 16" "16 \<le> CAP BITMAP_DEPTH" by (simp_all add: CAP_depth)
  from ba_range_spec [OF ba_default_wf this, of True] obtain t where
    t: "ba_range BITMAP_DEPTH True 0 16 (ba_default BITMAP_DEPTH) = (Ok (), t)" "ba_wf BITMAP_DEPTH t"
    and k: "\<forall>k < CAP BITMAP_DEPTH. k \<in> free_bits BITMAP_DEPTH t \<longleftrightarrow>
        (if 0 \<le> k \<and> k < 16 then True else k \<in> free_bits BITMAP_DEPTH (ba_default BITMAP_DEPTH))"
    by blast
  have "x \<in> free_bits BITMAP_DEPTH t \<longleftrightarrow> x < 16" for x
  proof (cases "x < CAP BITMAP_DEPTH")
    case True
    with k show ?thesis unfolding ba_default_free by simp
  next
    case False
    then show ?thesis using free_bits_lt [OF t(2), of x] unfolding CAP_depth by auto
  qed
  then have fb: "free_bits BITMAP_DEPTH t = {0..<16}" unfolding set_eq_iff by simp
  have "demo_pa = palloc_new\<lparr>pa_total := 16, pa_base := 0xffff800040000000, pa_inner := t\<rparr>"
    using t(1) by (simp add: demo_pa_def palloc_init_def ba_insert_def palloc_new_def PAGE_SIZE_4K_def MAX_ALIGN_1GB_def
        align_down_def align_up_def Let_def)
  from that [OF this t(2) fb] show ?thesis .
qed

lemma demo_pa_frames:
  "pa_inv demo_pa" "demo_root \<in> pa_managed demo_pa" "demo_root \<notin> pa_free demo_pa" "0x40000000 \<in> pa_free demo_pa"
proof -
  obtain t where e: "demo_pa = palloc_new\<lparr>pa_total := 16, pa_base := 0xffff800040000000, pa_inner := t\<rparr>"
    and t: "ba_wf BITMAP_DEPTH t" "free_bits BITMAP_DEPTH t = {0..<16}" by (rule demo_pa_eq)
  have fb: "free_bits BITMAP_DEPTH (pa_inner demo_pa) = {0..<16}" using t by (simp add: e)
  have f: "frame_of demo_pa n = of_nat n * 0x1000 + 0x40000000" for n
    by (simp add: e frame_of_def virt_to_phys_def PHYS_VIRT_OFFSET_def PAGE_SIZE_4K_def)
  have "list_all (\<lambda>n. frame_ok (of_nat n * 0x1000 + 0x40000000)) [0..<16]"
    by (simp add: upt_rec frame_ok_def PHYS_ADDR_MASK_def)
  then have "\<forall>n < 16. frame_ok (frame_of demo_pa n)" by (simp add: list_all_iff f)
  then show "pa_inv demo_pa"
    using t f by (simp add: pa_inv_def e is_aligned_4k_def is_aligned_def align_offset_def PAGE_SIZE_4K_def)
  have "demo_root = frame_of demo_pa 100" by (simp add: f demo_root_def)
  moreover have "frame_ok (frame_of demo_pa 100)" by (simp add: f frame_ok_def PHYS_ADDR_MASK_def)
  ultimately show "demo_root \<in> pa_managed demo_pa" 
    unfolding pa_managed_def CAP_depth by (intro image_eqI [of _ _ 100]) simp_all
  have "frame_of demo_pa n \<noteq> demo_root" if "n < 16" for n
    using that frame_of_inj [of n 100 demo_pa] \<open>demo_root = frame_of demo_pa 100\<close> by auto
  then show "demo_root \<notin> pa_free demo_pa" 
    unfolding pa_free_def fb by (metis atLeastLessThan_iff imageE)
  have "frame_of demo_pa 0 \<in> pa_free demo_pa" unfolding pa_free_def fb by simp
  then show "0x40000000 \<in> pa_free demo_pa" by (simp add: f)
qed

lemma demo_wf: "as_wf (demo_as, demo_km)"
proof -
  have "pt_ok demo_root demo_km"
    using demo_pa_frames by (intro pt_ok_zero) (simp_all add: demo_km_def)
  then show ?thesis
    by (simp add: as_wf_def demo_as_def demo_area_def areas_wf_def bt_inv_def bl.set_ok_def bl.area_ok_def is_alloc_def
        area_start_def area_end_def is_aligned_4k_def is_aligned_def align_offset_def PAGE_SIZE_4K_def)
qed

lemma demo_valid: "validate_region 0x2000 0x1000 demo_as = Ok ()" "validate_region 0x8000 0x1000 demo_as = Ok ()"
  by (simp_all add: validate_region_Ok demo_as_def as_base_def as_end_def is_aligned_4k_def is_aligned_def
      align_offset_def PAGE_SIZE_4K_def)







text \<open>
  C16. \<^verbatim>\<open>check_region_access\<close> is exact: on a non-empty range it answers true if and only if every address
  of the range lies in an area whose flags contain the access flags.
\<close>

theorem check_region_access_correct:
  assumes "areas_wf (as_areas a)" and "rstart rg < rend rg"
  shows "check_region_access rg access a \<longleftrightarrow>
    (\<forall>x. rstart rg \<le> x \<and> x < rend rg \<longrightarrow>
       (\<exists>flags b. mapping_of (as_areas a) x = Some (flags, b) \<and> contains flags access))"
  unfolding check_region_access_def check_areas_correct [OF assms] mapping_of_Some [OF assms(1)] by auto

theorem check_region_access_correct_witness:
  "check_region_access \<lparr>rstart = 0x1800, rend = 0x5000\<rparr> READ demo_as
   \<and> (\<exists>flags b. mapping_of (as_areas demo_as) 0x4fff = Some (flags, b) \<and> contains flags READ)"
proof -
  have wf: "areas_wf (as_areas demo_as)" using demo_wf by (simp add: as_wf_def)
  have c: "check_region_access \<lparr>rstart = 0x1800, rend = 0x5000\<rparr> READ demo_as" by code_simp
  show ?thesis using check_region_access_correct [OF wf, of "\<lparr>rstart = 0x1800, rend = 0x5000\<rparr>" READ] c by simp
qed

text \<open>
  C38. A region whose end overflows the address space makes \<^verbatim>\<open>unmap\<close>, \<^verbatim>\<open>populate_area\<close> and \<^verbatim>\<open>protect\<close>
  panic instead of returning \<^verbatim>\<open>InvalidInput\<close>: the bounds check builds the range first.
\<close>

theorem region_overflow_panics:
  assumes "2 ^ 64 \<le> unat start + unat sz"
  shows "as_unmap start sz (a, km) = (Panic, (a, km)) \<and> populate_area start sz (a, km) = (Panic, (a, km))
    \<and> as_protect start sz flags (a, km) = (Panic, (a, km))"
proof -
  have "checked_add start sz = None" using assms by (simp add: checked_add_unat)
  then have "validate_region start sz a = Panic"
    by (simp add: validate_region_def as_contains_range_def from_start_size_def)
  then show ?thesis by (simp add: as_unmap_def populate_area_def as_protect_def)
qed

theorem region_overflow_panics_witness:
  "as_unmap 0x1000 0xfffffffffffff000 (demo_as, demo_km) = (Panic, (demo_as, demo_km))"
  using region_overflow_panics [of "0x1000" "0xfffffffffffff000" demo_as demo_km READ] by simp

end
