(* ===== verification/User_Memory.thy ===== *)
theory User_Memory
  imports Addr_Space
begin

unbundle bit_operations_syntax

text \<open>
  Access to user memory: the page-fault trap (\<^verbatim>\<open>axhal/src/arch/x86_64/trap.rs\<close>, \<^verbatim>\<open>src/mm.rs\<close>) and the
  checked user pointers of \<^verbatim>\<open>api/src/ptr.rs\<close>. A dereference of a user pointer in the kernel goes
  through the page table (\<open>mmu\<close>); when the translation fails, the trap runs the page-fault handler
  and the access is tried again. An operation that does not return to its caller because the task
  exits has the outcome \<open>Err (Exits code)\<close>.
\<close>

section \<open>The page-fault trap\<close>

datatype stop = Errno linux_error | Exits i32

definition SIGSEGV_CODE :: i32 where "SIGSEGV_CODE = 11"

text \<open>The bits of \<^verbatim>\<open>PageFaultErrorCode\<close>.\<close>

definition PF_PROTECTION_VIOLATION :: u64 where "PF_PROTECTION_VIOLATION = 0x1"
definition PF_CAUSED_BY_WRITE :: u64 where "PF_CAUSED_BY_WRITE = 0x2"
definition PF_USER_MODE :: u64 where "PF_USER_MODE = 0x4"
definition PF_INSTRUCTION_FETCH :: u64 where "PF_INSTRUCTION_FETCH = 0x10"
definition PF_ALL :: u64 where "PF_ALL = 0x8000807f"

lemmas pf_defs = PF_PROTECTION_VIOLATION_def PF_CAUSED_BY_WRITE_def PF_USER_MODE_def
  PF_INSTRUCTION_FETCH_def PF_ALL_def

definition err_code_to_flags :: "u64 \<Rightarrow> (u64, mapping_flags) outcome" where
  "err_code_to_flags err_code =
     (let code = err_code AND PF_ALL;
          reserved = PF_ALL AND NOT (PF_CAUSED_BY_WRITE OR PF_USER_MODE OR PF_INSTRUCTION_FETCH)
      in if code AND reserved \<noteq> 0 then Err err_code
         else Ok ((if contains code PF_CAUSED_BY_WRITE then WRITE else READ)
                  OR (if contains code PF_USER_MODE then USER else 0)
                  OR (if contains code PF_INSTRUCTION_FETCH then EXECUTE else 0)))"

text \<open>The kernel's handler (\<^verbatim>\<open>src/mm.rs\<close>); \<open>accessing\<close> is \<^verbatim>\<open>is_accessing_user_memory()\<close>.\<close>

definition handle_page_fault ::
  "usize \<Rightarrow> mapping_flags \<Rightarrow> bool \<Rightarrow> bool \<Rightarrow> as_state \<Rightarrow> (stop, bool) outcome \<times> as_state" where
  "handle_page_fault vaddr access_flags is_user accessing st =
     (if \<not> is_user \<and> \<not> accessing then (Ok False, st)
      else case as_handle_page_fault vaddr access_flags st of
        (Ok True, st) \<Rightarrow> (Ok True, st)
      | (Ok False, st) \<Rightarrow> (Err (Exits SIGSEGV_CODE), st)
      | (Err _, st) \<Rightarrow> (Panic, st)
      | (Panic, st) \<Rightarrow> (Panic, st))"

definition page_fault_trap ::
  "u64 \<Rightarrow> usize \<Rightarrow> bool \<Rightarrow> bool \<Rightarrow> as_state \<Rightarrow> (stop, unit) outcome \<times> as_state" where
  "page_fault_trap err_code vaddr is_user accessing st =
     (case err_code_to_flags err_code of
        Ok access_flags \<Rightarrow>
          (case handle_page_fault vaddr access_flags is_user accessing st of
             (Ok True, st) \<Rightarrow> (Ok (), st)
           | (Ok False, st) \<Rightarrow> (Panic, st)
           | (Err x, st) \<Rightarrow> (Err x, st)
           | (Panic, st) \<Rightarrow> (Panic, st))
      | _ \<Rightarrow> (Panic, st))"

section \<open>Dereferencing a user address in the kernel\<close>

definition mmu :: "mapping_flags \<Rightarrow> usize \<Rightarrow> as_state \<Rightarrow> usize option" where
  "mmu access va = (\<lambda>(a, km).
     case pt_query (as_root a) va (km_tabs km) of
       Ok (pa, flags, _) \<Rightarrow> if flags \<noteq> 0 \<and> contains flags access then Some pa else None
     | _ \<Rightarrow> None)"

definition mmu_present :: "usize \<Rightarrow> as_state \<Rightarrow> bool" where
  "mmu_present va = (\<lambda>(a, km). case pt_query (as_root a) va (km_tabs km) of Ok (_, flags, _) \<Rightarrow> flags \<noteq> 0 | _ \<Rightarrow> False)"

text \<open>The error code of a failed access in kernel mode.\<close>

definition kernel_fault_code :: "mapping_flags \<Rightarrow> usize \<Rightarrow> as_state \<Rightarrow> u64" where
  "kernel_fault_code access va st =
     (if mmu_present va st then PF_PROTECTION_VIOLATION else 0) OR (if contains access WRITE then PF_CAUSED_BY_WRITE else 0)"

definition user_translate ::
  "bool \<Rightarrow> mapping_flags \<Rightarrow> usize \<Rightarrow> as_state \<Rightarrow> (stop, usize) outcome \<times> as_state" where
  "user_translate accessing access va st =
     (case mmu access va st of
        Some pa \<Rightarrow> (Ok pa, st)
      | None \<Rightarrow>
          sbind (page_fault_trap (kernel_fault_code access va st) va False accessing st) (\<lambda>_ st.
            case mmu access va st of
              Some pa \<Rightarrow> (Ok pa, st)
            | None \<Rightarrow> sbind (page_fault_trap (kernel_fault_code access va st) va False accessing st) (\<lambda>_ st. (Panic, st))))"

definition user_read_byte :: "bool \<Rightarrow> usize \<Rightarrow> as_state \<Rightarrow> (stop, u8) outcome \<times> as_state" where
  "user_read_byte accessing va st =
     sbind (user_translate accessing READ va st) (\<lambda>pa (a, km). (Ok (km_mem km pa), (a, km)))"

definition user_write_byte :: "bool \<Rightarrow> usize \<Rightarrow> u8 \<Rightarrow> as_state \<Rightarrow> (stop, unit) outcome \<times> as_state" where
  "user_write_byte accessing va b st =
     sbind (user_translate accessing WRITE va st)
       (\<lambda>pa (a, km). (Ok (), (a, km\<lparr>km_mem := (km_mem km)(pa := b)\<rparr>)))"

fun user_read_bytes :: "bool \<Rightarrow> nat \<Rightarrow> usize \<Rightarrow> as_state \<Rightarrow> (stop, u8 list) outcome \<times> as_state" where
  "user_read_bytes accessing 0 va st = (Ok [], st)"
| "user_read_bytes accessing (Suc n) va st =
     sbind (user_read_byte accessing va st) (\<lambda>b st.
       sbind (user_read_bytes accessing n (va + 1) st) (\<lambda>bs st. (Ok (b # bs), st)))"

fun user_write_bytes :: "bool \<Rightarrow> usize \<Rightarrow> u8 list \<Rightarrow> as_state \<Rightarrow> (stop, unit) outcome \<times> as_state" where
  "user_write_bytes accessing va [] st = (Ok (), st)"
| "user_write_bytes accessing va (b # bs) st =
     sbind (user_write_byte accessing va b st) (\<lambda>_ st. user_write_bytes accessing (va + 1) bs st)"

text \<open>Little-endian images of the integers of a \<^verbatim>\<open>repr(C)\<close> structure.\<close>

definition le_bytes :: "nat \<Rightarrow> ('n::len) word \<Rightarrow> u8 list" where
  "le_bytes n w = map (\<lambda>i. ucast (drop_bit (8 * i) w)) [0..<n]"

fun le_word :: "u8 list \<Rightarrow> ('n::len) word" where
  "le_word [] = 0"
| "le_word (b # bs) = ucast b OR push_bit 8 (le_word bs)"

section \<open>Checked pointers\<close>

definition USER_PTR_ACCESS :: mapping_flags where "USER_PTR_ACCESS = READ OR WRITE"
definition USER_CONST_PTR_ACCESS :: mapping_flags where "USER_CONST_PTR_ACCESS = READ"

definition check_region ::
  "usize \<Rightarrow> usize \<Rightarrow> usize \<Rightarrow> mapping_flags \<Rightarrow> as_state \<Rightarrow> (linux_error, unit) outcome \<times> as_state" where
  "check_region start sz align access_flags st =
     (if start AND (align - 1) \<noteq> 0 then (Err EFAULT, st)
      else case from_start_size start sz of
        Ok rg \<Rightarrow>
          if \<not> check_region_access rg access_flags (fst st) then (Err EFAULT, st)
          else
            let page_start = align_down_4k start;
                page_end = align_up_4k (start + sz)
            in (case populate_area page_start (page_end - page_start) st of
                  (r, st) \<Rightarrow> (map_err linux_of_ax r, st))
      | Err e \<Rightarrow> (Err e, st)
      | Panic \<Rightarrow> (Panic, st))"

text \<open>\<^verbatim>\<open>Layout::from_size_align\<close> and \<^verbatim>\<open>Layout::array\<close>: a size above \<^verbatim>\<open>isize::MAX\<close> is an error.\<close>

definition layout_size_ok :: "usize \<Rightarrow> usize \<Rightarrow> bool" where
  "layout_size_ok sz align = (sz \<le> 0x8000000000000000 - align)"

definition layout_array :: "usize \<Rightarrow> usize \<Rightarrow> usize \<Rightarrow> usize option" where
  "layout_array esz ealign n =
     (if esz \<noteq> 0 \<and> (0x8000000000000000 - ealign) div esz < n then None else Some (esz * n))"

definition ptr_get_as ::
  "mapping_flags \<Rightarrow> usize \<Rightarrow> usize \<Rightarrow> usize \<Rightarrow> as_state \<Rightarrow> (linux_error, usize) outcome \<times> as_state" where
  "ptr_get_as access_flags p sz align st =
     sbind (check_region p sz align access_flags st) (\<lambda>_ st. (Ok p, st))"

definition get_as_bytes ::
  "mapping_flags \<Rightarrow> usize \<Rightarrow> usize \<Rightarrow> as_state \<Rightarrow> (linux_error, usize) outcome \<times> as_state" where
  "get_as_bytes access_flags p sz st =
     (if \<not> layout_size_ok sz 1 then (Panic, st)
      else sbind (check_region p sz 1 access_flags st) (\<lambda>_ st. (Ok p, st)))"

definition get_as_array ::
  "mapping_flags \<Rightarrow> usize \<Rightarrow> usize \<Rightarrow> usize \<Rightarrow> usize \<Rightarrow> as_state \<Rightarrow> (linux_error, usize) outcome \<times> as_state" where
  "get_as_array access_flags p esz ealign len st =
     (case layout_array esz ealign len of
        None \<Rightarrow> (Panic, st)
      | Some sz \<Rightarrow> sbind (check_region p sz ealign access_flags st) (\<lambda>_ st. (Ok p, st)))"

definition nullable ::
  "(usize \<Rightarrow> 's \<Rightarrow> ('e, 'r) outcome \<times> 's) \<Rightarrow> usize \<Rightarrow> 's \<Rightarrow> ('e, 'r option) outcome \<times> 's" where
  "nullable f p s = (if p = 0 then (Ok None, s) else sbind (f p s) (\<lambda>r s. (Ok (Some r), s)))"

section \<open>Null-terminated arrays\<close>

text \<open>The inner \<^verbatim>\<open>while\<close> loop of \<^verbatim>\<open>check_null_terminated\<close>: the pages up to the pointer are checked.\<close>

function check_pages :: "mapping_flags \<Rightarrow> usize \<Rightarrow> usize \<Rightarrow> aspace \<Rightarrow> (linux_error, usize) outcome" where
  "check_pages access_flags ptr page a =
     (if page \<le> ptr then
        (case from_start_size page PAGE_SIZE_4K of
           Ok rg \<Rightarrow>
             if \<not> check_region_access rg access_flags a then Err EFAULT
             else check_pages access_flags ptr (page + PAGE_SIZE_4K) a
         | Err e \<Rightarrow> Err e
         | Panic \<Rightarrow> Panic)
      else Ok page)"
  by pat_completeness auto
termination
proof (relation "measure (\<lambda>(f, ptr, page, a). Suc (unat ptr) - unat page)", goal_cases)
  case (2 f ptr page a rg)
  then obtain e where "checked_add page PAGE_SIZE_4K = Some e" by (auto simp: from_start_size_def split: option.splits)
  from checked_add_SomeD [OF this] have "unat (page + PAGE_SIZE_4K) = unat page + 4096" by (auto simp: PAGE_SIZE_4K_def)
  with 2 show ?case by (simp add: word_le_nat_alt)
qed simp

declare check_pages.simps [simp del]

text \<open>The outer loop over elements of \<open>esz\<close> bytes; \<open>None\<close> when it runs forever.\<close>

partial_function (option) null_terminated_loop ::
  "nat \<Rightarrow> mapping_flags \<Rightarrow> usize \<Rightarrow> usize \<Rightarrow> usize \<Rightarrow> as_state \<Rightarrow> ((stop, usize) outcome \<times> as_state) option" where
  "null_terminated_loop esz access_flags start len page st =
     (let ptr = start + len * of_nat esz in
      case check_pages access_flags ptr page (fst st) of
        Ok page \<Rightarrow>
          (case user_read_bytes True esz ptr st of
             (Ok bs, st) \<Rightarrow>
               if list_all (\<lambda>b. b = 0) bs then Some (Ok len, st)
               else null_terminated_loop esz access_flags start (len + 1) page st
           | (Err x, st) \<Rightarrow> Some (Err x, st)
           | (Panic, st) \<Rightarrow> Some (Panic, st))
      | Err e \<Rightarrow> Some (Err (Errno e), st)
      | Panic \<Rightarrow> Some (Panic, st))"

definition check_null_terminated ::
  "nat \<Rightarrow> usize \<Rightarrow> mapping_flags \<Rightarrow> usize \<Rightarrow> as_state \<Rightarrow> ((stop, usize) outcome \<times> as_state) option" where
  "check_null_terminated esz align access_flags start st =
     (if start AND (align - 1) \<noteq> 0 then Some (Err (Errno EFAULT), st)
      else null_terminated_loop esz access_flags start 0 (align_down_4k start) st)"

text \<open>\<^verbatim>\<open>str::from_utf8\<close>: the well-formed byte sequences of UTF-8.\<close>

definition utf8_cont :: "u8 \<Rightarrow> bool" where "utf8_cont b = (0x80 \<le> b \<and> b \<le> 0xbf)"

fun utf8_valid :: "u8 list \<Rightarrow> bool" where
  "utf8_valid [] = True"
| "utf8_valid (a # bs) =
     (if a < 0x80 then utf8_valid bs
      else case bs of
        [] \<Rightarrow> False
      | b # bs \<Rightarrow>
          if 0xc2 \<le> a \<and> a \<le> 0xdf then utf8_cont b \<and> utf8_valid bs
          else (case bs of
            [] \<Rightarrow> False
          | c # bs \<Rightarrow>
              if 0xe0 \<le> a \<and> a \<le> 0xef then
                utf8_cont b \<and> (a = 0xe0 \<longrightarrow> 0xa0 \<le> b) \<and> (a = 0xed \<longrightarrow> b \<le> 0x9f) \<and> utf8_cont c \<and> utf8_valid bs
              else (case bs of
                [] \<Rightarrow> False
              | d # bs \<Rightarrow>
                  0xf0 \<le> a \<and> a \<le> 0xf4 \<and> utf8_cont b \<and> (a = 0xf0 \<longrightarrow> 0x90 \<le> b) \<and> (a = 0xf4 \<longrightarrow> b \<le> 0x8f)
                  \<and> utf8_cont c \<and> utf8_cont d \<and> utf8_valid bs)))"

definition string_of_bytes :: "u8 list \<Rightarrow> string" where
  "string_of_bytes bs = map (\<lambda>b. char_of (unat b)) bs"

text \<open>The slice of \<^verbatim>\<open>get_as_null_terminated\<close> for \<^verbatim>\<open>c_char\<close>, read when it is used, and \<^verbatim>\<open>get_as_str\<close>.\<close>

definition get_as_str :: "usize \<Rightarrow> as_state \<Rightarrow> ((stop, string) outcome \<times> as_state) option" where
  "get_as_str p st =
     (case check_null_terminated 1 1 USER_CONST_PTR_ACCESS p st of
        None \<Rightarrow> None
      | Some m \<Rightarrow> Some (sbind m (\<lambda>len st.
          sbind (user_read_bytes False (unat len) p st) (\<lambda>bs st.
            if utf8_valid bs then (Ok (string_of_bytes bs), st) else (Err (Errno EILSEQ), st)))))"

section \<open>The loop over a null-terminated array ends\<close>

lemma check_pages_Ok:
  assumes "check_pages f ptr page a = Ok page'" and "4096 dvd unat page"
  shows "ptr < page' \<and> 4096 dvd unat page'"
  using assms
proof (induction f ptr page a rule: check_pages.induct)
  case (1 f ptr page a)
  show ?case
  proof (cases "page \<le> ptr")
    case False
    with 1(2,3) show ?thesis by (simp add: check_pages.simps)
  next
    case True
    then obtain rg where rg: "from_start_size page PAGE_SIZE_4K = (Ok rg :: (linux_error, addr_range) outcome)" "\<not> \<not> check_region_access rg f a"
      "check_pages f ptr (page + PAGE_SIZE_4K) a = Ok page'"
      using 1(2) check_pages.simps [of f ptr page a] 
      by (cases "from_start_size page PAGE_SIZE_4K :: (linux_error, addr_range) outcome") (simp_all split: if_splits)
    then obtain e where "checked_add page PAGE_SIZE_4K = Some e" by (auto simp: from_start_size_def split: option.splits)
    from checked_add_SomeD [OF this] have "unat (page + PAGE_SIZE_4K) = unat page + 4096" by (auto simp: PAGE_SIZE_4K_def)
    with 1(3) have "4096 dvd unat (page + PAGE_SIZE_4K)" by simp
    from 1(1) [OF True rg(1,2,3) this] show ?thesis .
  qed
qed

lemma next_element:
  assumes "ptr < page" and "4096 dvd unat (page :: usize)" and "0 < n" and "n \<le> 4096"
  shows "unat (ptr + of_nat n) = unat ptr + n"
proof -
  have "unat page < 2 ^ 64" using unsigned_less [of page] by simp
  moreover obtain k where "unat page = 4096 * k" using assms(2) by blast
  ultimately have "unat page \<le> 2 ^ 64 - 4096" by simp
  moreover have "unat ptr < unat page" using assms(1) by (simp add: word_less_nat_alt)
  ultimately have "unat ptr + n < 2 ^ 64" using assms(4) by simp
  then show ?thesis by (simp add: unat_word_ariths unat_of_nat)
qed

lemma null_terminated_loop_returns:
  assumes "0 < esz" and "esz \<le> 4096"
  shows "4096 dvd unat page \<Longrightarrow> \<exists>r. null_terminated_loop esz f start len page st = Some r"
proof (induction "2 ^ 64 - unat (start + len * of_nat esz)" arbitrary: len page st rule: less_induct)
  case less
  let ?ptr = "start + len * of_nat esz"
  show ?case
  proof (cases "check_pages f ?ptr page (fst st)")
    case (Ok page')
    note p = check_pages_Ok [OF Ok less.prems]
    have e: "start + (len + 1) * of_nat esz = ?ptr + of_nat esz" by (simp add: algebra_simps)
    have "unat (?ptr + of_nat esz) = unat ?ptr + esz" using next_element [of ?ptr page' esz] p assms by blast
    moreover have "unat ?ptr < 2 ^ 64" using unsigned_less [of ?ptr] by simp
    ultimately have "2 ^ 64 - unat (start + (len + 1) * of_nat esz) < 2 ^ 64 - unat ?ptr"
      using assms(1) unfolding e by simp
    from less.hyps [OF this] p have rec: "\<exists>r. null_terminated_loop esz f start (len + 1) page' st' = Some r" for st' by blast
    then show ?thesis using Ok
      by (subst null_terminated_loop.simps) (auto simp: Let_def split: prod.splits outcome.splits)
  qed (subst null_terminated_loop.simps, simp add: Let_def)+
qed

text \<open>
  C34. The check of a null-terminated array in user memory always returns: for elements of at most a page, the loop over the elements ends with the terminator, an error
  or a panic.
\<close>

theorem check_null_terminated_returns:
  assumes "0 < esz" and "esz \<le> 4096"
  shows "\<exists>r. check_null_terminated esz align f start st = Some r"
proof -
  have "4096 dvd unat (align_down_4k start)"
    by (simp add: unat_align_down_4k)
  from null_terminated_loop_returns [OF assms this] show ?thesis by (simp add: check_null_terminated_def)
qed

theorem check_null_terminated_returns_witness:
  "\<exists>r. check_null_terminated 8 8 USER_CONST_PTR_ACCESS 0x2000 (demo_as, demo_km) = Some r"
  by (rule check_null_terminated_returns) simp_all

end
