(* ===== verification/Clock_Time.thy ===== *)
theory Clock_Time
  imports User_Memory
begin

unbundle bit_operations_syntax

text \<open>
  Clocks and time: the hardware clock of \<^verbatim>\<open>axhal\<close> (\<^verbatim>\<open>time.rs\<close>, \<^verbatim>\<open>platform/x86_pc/time.rs\<close>), the
  conversions and system calls of \<^verbatim>\<open>arceos_posix_api/src/imp/time.rs\<close>, \<^verbatim>\<open>resources.rs\<close> and \<^verbatim>\<open>sys.rs\<close>, their
  wrappers in \<^verbatim>\<open>api/src/imp/utils/time.rs\<close>, \<^verbatim>\<open>task/schedule.rs\<close> and \<^verbatim>\<open>signal.rs\<close>, and the time statistics of a
  task (\<^verbatim>\<open>core/src/time.rs\<close>). The time stamp counter is an input. A function that writes through a raw
  pointer returns the value it writes; the wrappers that own the pointer store its bytes.

  Lemmas: conversions between durations and \<^verbatim>\<open>timespec\<close> or \<^verbatim>\<open>timeval\<close> are inverse to each other on
  normal values; what \<^verbatim>\<open>nanosleep\<close> answers; what the statistics count.
\<close>

section \<open>The hardware clock\<close>

record clock =
  ck_tsc :: u64
  ck_init_tick :: u64
  ck_freq_mhz :: u64
  ck_rtc_offset :: u64

definition NANOS_PER_SEC :: u64 where "NANOS_PER_SEC = 1000000000"
definition NANOS_PER_MICROS :: u64 where "NANOS_PER_MICROS = 1000"

definition current_ticks :: "clock \<Rightarrow> u64" where
  "current_ticks c = ck_tsc c - ck_init_tick c"

definition ticks_to_nanos :: "clock \<Rightarrow> u64 \<Rightarrow> u64" where
  "ticks_to_nanos c ticks = ticks * 1000 div ck_freq_mhz c"

definition nanos_to_ticks :: "clock \<Rightarrow> u64 \<Rightarrow> u64" where
  "nanos_to_ticks c nanos = nanos * ck_freq_mhz c div 1000"

definition epochoffset_nanos :: "clock \<Rightarrow> u64" where
  "epochoffset_nanos c = ck_rtc_offset c"

definition monotonic_time_nanos :: "clock \<Rightarrow> u64" where
  "monotonic_time_nanos c = ticks_to_nanos c (current_ticks c)"

definition wall_time_nanos :: "clock \<Rightarrow> u64" where
  "wall_time_nanos c = monotonic_time_nanos c + epochoffset_nanos c"

section \<open>Durations\<close>

record duration =
  dur_secs :: u64
  dur_nanos :: u32

definition duration_new :: "u64 \<Rightarrow> u32 \<Rightarrow> ('e, duration) outcome" where
  "duration_new secs nanos =
     (if nanos < 1000000000 then Ok \<lparr>dur_secs = secs, dur_nanos = nanos\<rparr>
      else case checked_add secs (ucast (nanos div 1000000000)) of
        Some s \<Rightarrow> Ok \<lparr>dur_secs = s, dur_nanos = nanos mod 1000000000\<rparr>
      | None \<Rightarrow> Panic)"

definition duration_from_nanos :: "u64 \<Rightarrow> duration" where
  "duration_from_nanos n = \<lparr>dur_secs = n div NANOS_PER_SEC, dur_nanos = ucast (n mod NANOS_PER_SEC)\<rparr>"

definition duration_le :: "duration \<Rightarrow> duration \<Rightarrow> bool" where
  "duration_le a b \<longleftrightarrow> dur_secs a < dur_secs b \<or> dur_secs a = dur_secs b \<and> dur_nanos a \<le> dur_nanos b"

definition duration_checked_sub :: "duration \<Rightarrow> duration \<Rightarrow> duration option" where
  "duration_checked_sub a b =
     (case checked_sub (dur_secs a) (dur_secs b) of
        None \<Rightarrow> None
      | Some s \<Rightarrow>
          if dur_nanos b \<le> dur_nanos a then Some \<lparr>dur_secs = s, dur_nanos = dur_nanos a - dur_nanos b\<rparr>
          else (case checked_sub s 1 of
            None \<Rightarrow> None
          | Some s \<Rightarrow> Some \<lparr>dur_secs = s, dur_nanos = dur_nanos a + 1000000000 - dur_nanos b\<rparr>))"

definition duration_checked_add :: "duration \<Rightarrow> duration \<Rightarrow> duration option" where
  "duration_checked_add a b =
     (case checked_add (dur_secs a) (dur_secs b) of
        None \<Rightarrow> None
      | Some s \<Rightarrow>
          let n = dur_nanos a + dur_nanos b in
          if n < 1000000000 then Some \<lparr>dur_secs = s, dur_nanos = n\<rparr>
          else (case checked_add s 1 of
            None \<Rightarrow> None
          | Some s \<Rightarrow> Some \<lparr>dur_secs = s, dur_nanos = n - 1000000000\<rparr>))"

definition monotonic_time :: "clock \<Rightarrow> duration" where
  "monotonic_time c = duration_from_nanos (monotonic_time_nanos c)"

definition wall_time :: "clock \<Rightarrow> duration" where
  "wall_time c = duration_from_nanos (monotonic_time_nanos c + epochoffset_nanos c)"

section \<open>C time structures\<close>

record timespec =
  ts_sec :: i64
  ts_nsec :: i64

record timeval =
  tv_sec :: i64
  tv_usec :: i64

definition duration_of_timespec :: "timespec \<Rightarrow> ('e, duration) outcome" where
  "duration_of_timespec ts = duration_new (ts_sec ts) (ucast (ts_nsec ts))"

definition duration_of_timeval :: "timeval \<Rightarrow> ('e, duration) outcome" where
  "duration_of_timeval tv = duration_new (tv_sec tv) (ucast (tv_usec tv) * 1000)"

definition timespec_of_duration :: "duration \<Rightarrow> timespec" where
  "timespec_of_duration d = \<lparr>ts_sec = dur_secs d, ts_nsec = ucast (dur_nanos d)\<rparr>"

definition timeval_of_duration :: "duration \<Rightarrow> timeval" where
  "timeval_of_duration d = \<lparr>tv_sec = dur_secs d, tv_usec = ucast (dur_nanos d div 1000)\<rparr>"

definition timespec_bytes :: "timespec \<Rightarrow> u8 list" where
  "timespec_bytes ts = le_bytes 8 (ts_sec ts) @ le_bytes 8 (ts_nsec ts)"

definition timeval_bytes :: "timeval \<Rightarrow> u8 list" where
  "timeval_bytes tv = le_bytes 8 (tv_sec tv) @ le_bytes 8 (tv_usec tv)"

definition timespec_of_bytes :: "u8 list \<Rightarrow> timespec" where
  "timespec_of_bytes bs = \<lparr>ts_sec = le_word (take 8 bs), ts_nsec = le_word (take 8 (drop 8 bs))\<rparr>"

section \<open>Time system calls\<close>

text \<open>\<^verbatim>\<open>syscall_body!\<close>: the error code is returned negated.\<close>

definition syscall_body :: "(linux_error, ('n::len) word) outcome \<Rightarrow> ('e, 'n word) outcome" where
  "syscall_body r = (case r of Ok v \<Rightarrow> Ok v | Err e \<Rightarrow> Ok (neg_code e) | Panic \<Rightarrow> Panic)"

definition posix_clock_gettime :: "i32 \<Rightarrow> usize \<Rightarrow> clock \<Rightarrow> (stop, i32) outcome \<times> timespec option" where
  "posix_clock_gettime clk ts c =
     (if ts = 0 then (syscall_body (Err EFAULT), None)
      else if clk = 0 then (syscall_body (Ok 0), Some (timespec_of_duration (wall_time c)))
      else if clk = 1 then (syscall_body (Ok 0), Some (timespec_of_duration (monotonic_time c)))
      else (syscall_body (Err EINVAL), None))"

text \<open>
  \<^verbatim>\<open>sys_nanosleep\<close>: \<open>c\<close> is the clock before the sleep and \<open>c'\<close> the clock when the task runs again. The
  sleep itself computes the deadline \<^verbatim>\<open>wall_time() + dur\<close>, which panics on overflow.
\<close>

definition posix_nanosleep ::
  "timespec option \<Rightarrow> usize \<Rightarrow> clock \<Rightarrow> clock \<Rightarrow> (stop, i32) outcome \<times> timespec option" where
  "posix_nanosleep req rem c c' =
     (case req of
        None \<Rightarrow> (syscall_body (Err EINVAL), None)
      | Some ts \<Rightarrow>
          if ts_nsec ts <s 0 \<or> 999999999 <s ts_nsec ts then (syscall_body (Err EINVAL), None)
          else case duration_of_timespec ts of
            Ok dur \<Rightarrow>
              (case duration_checked_add (wall_time c) dur of
                 None \<Rightarrow> (Panic, None)
               | Some _ \<Rightarrow>
                   (case duration_checked_sub (monotonic_time c') (monotonic_time c) of
                      None \<Rightarrow> (Panic, None)
                    | Some actual \<Rightarrow>
                        (case duration_checked_sub dur actual of
                           Some diff \<Rightarrow>
                             (syscall_body (Err EINTR), if rem \<noteq> 0 then Some (timespec_of_duration diff) else None)
                         | None \<Rightarrow> (syscall_body (Ok 0), None))))
          | Err x \<Rightarrow> (Err x, None)
          | Panic \<Rightarrow> (Panic, None))"

definition posix_get_time_of_day :: "clock \<Rightarrow> (stop, i32) outcome \<times> timeval" where
  "posix_get_time_of_day c =
     (let current_us = monotonic_time_nanos c div 1000 in
      (syscall_body (Ok 0), \<lparr>tv_sec = current_us div 1000000, tv_usec = current_us mod 1000000\<rparr>))"

text \<open>The wrappers: the user pointer is checked, the value is stored through it.\<close>

definition errno :: "(linux_error, 'a) outcome \<times> 's \<Rightarrow> (stop, 'a) outcome \<times> 's" where
  "errno m = (map_err Errno (fst m), snd m)"

definition store_opt ::
  "usize \<Rightarrow> u8 list option \<Rightarrow> (stop, i32) outcome \<Rightarrow> as_state \<Rightarrow> (stop, isize) outcome \<times> as_state" where
  "store_opt p bs r st =
     sbind (case bs of Some bs \<Rightarrow> user_write_bytes False p bs st | None \<Rightarrow> (Ok (), st)) (\<lambda>_ st.
       (case r of Ok v \<Rightarrow> Ok (scast v) | Err x \<Rightarrow> Err x | Panic \<Rightarrow> Panic, st))"

definition sys_clock_gettime :: "i32 \<Rightarrow> usize \<Rightarrow> clock \<Rightarrow> as_state \<Rightarrow> (stop, isize) outcome \<times> as_state" where
  "sys_clock_gettime clock_id tp c st =
     sbind (errno (ptr_get_as USER_PTR_ACCESS tp 16 8 st)) (\<lambda>p st.
       case posix_clock_gettime clock_id p c of (r, ts) \<Rightarrow> store_opt p (map_option timespec_bytes ts) r st)"

definition sys_get_time_of_day :: "usize \<Rightarrow> clock \<Rightarrow> as_state \<Rightarrow> (stop, isize) outcome \<times> as_state" where
  "sys_get_time_of_day ts c st =
     sbind (errno (ptr_get_as USER_PTR_ACCESS ts 16 8 st)) (\<lambda>p st.
       case posix_get_time_of_day c of (r, tv) \<Rightarrow> store_opt p (Some (timeval_bytes tv)) r st)"

definition sys_nanosleep :: "usize \<Rightarrow> usize \<Rightarrow> clock \<Rightarrow> clock \<Rightarrow> as_state \<Rightarrow> (stop, isize) outcome \<times> as_state" where
  "sys_nanosleep req rem c c' st =
     sbind (errno (ptr_get_as USER_CONST_PTR_ACCESS req 16 8 st)) (\<lambda>q st.
     sbind (errno (ptr_get_as USER_PTR_ACCESS rem 16 8 st)) (\<lambda>p st.
     sbind (if q = 0 then (Ok None, st)
            else sbind (user_read_bytes False 16 q st) (\<lambda>bs st. (Ok (Some (timespec_of_bytes bs)), st))) (\<lambda>ts st.
       case posix_nanosleep ts p c c' of (r, d) \<Rightarrow> store_opt p (map_option timespec_bytes d) r st)))"

section \<open>Resource limits and system configuration\<close>

definition TASK_STACK_SIZE :: u64 where "TASK_STACK_SIZE = 0x40000"
definition AX_FILE_LIMIT :: u64 where "AX_FILE_LIMIT = 1024"
definition RLIMIT_DATA :: i32 where "RLIMIT_DATA = 2"
definition RLIMIT_STACK :: i32 where "RLIMIT_STACK = 3"
definition RLIMIT_NOFILE :: i32 where "RLIMIT_NOFILE = 7"

text \<open>\<^verbatim>\<open>sys_getrlimit\<close> writes both limits of the stack and of the files, nothing for the data segment.\<close>

definition posix_getrlimit :: "i32 \<Rightarrow> usize \<Rightarrow> (stop, i32) outcome \<times> (u64 \<times> u64) option" where
  "posix_getrlimit resource rlimits =
     (if resource \<notin> {RLIMIT_DATA, RLIMIT_STACK, RLIMIT_NOFILE} then (syscall_body (Err EINVAL), None)
      else if rlimits = 0 then (syscall_body (Ok 0), None)
      else (syscall_body (Ok 0),
            if resource = RLIMIT_STACK then Some (TASK_STACK_SIZE, TASK_STACK_SIZE)
            else if resource = RLIMIT_NOFILE then Some (AX_FILE_LIMIT, AX_FILE_LIMIT)
            else None))"

definition posix_setrlimit :: "i32 \<Rightarrow> usize \<Rightarrow> (stop, i32) outcome" where
  "posix_setrlimit resource rlimits =
     (if resource \<notin> {RLIMIT_DATA, RLIMIT_STACK, RLIMIT_NOFILE} then syscall_body (Err EINVAL) else syscall_body (Ok 0))"

definition sys_rt_getrlimit :: "i32 \<Rightarrow> usize \<Rightarrow> as_state \<Rightarrow> (stop, isize) outcome \<times> as_state" where
  "sys_rt_getrlimit resource rlimits st =
     sbind (errno (ptr_get_as USER_PTR_ACCESS rlimits 16 8 st)) (\<lambda>p st.
       case posix_getrlimit resource p of
         (r, l) \<Rightarrow> store_opt p (map_option (\<lambda>(cur, max). le_bytes 8 cur @ le_bytes 8 max) l) r st)"

definition sys_rt_setrlimit :: "i32 \<Rightarrow> usize \<Rightarrow> as_state \<Rightarrow> (stop, isize) outcome \<times> as_state" where
  "sys_rt_setrlimit resource rlimits st =
     sbind (errno (ptr_get_as USER_PTR_ACCESS rlimits 16 8 st)) (\<lambda>p st.
       store_opt p None (posix_setrlimit resource p) st)"

definition SMP :: u64 where "SMP = 1"

text \<open>\<^verbatim>\<open>sys_sysconf\<close>, over the page counts of the page allocator.\<close>

definition posix_sysconf :: "i32 \<Rightarrow> page_allocator \<Rightarrow> i64" where
  "posix_sysconf name a =
     (let avail_pages = palloc_available_pages a; phys_pages = pa_used a + avail_pages in
      if name = 30 then PAGE_SIZE_4K
      else if name = 84 then SMP
      else if name = 85 then phys_pages
      else if name = 86 then avail_pages
      else if name = 4 then AX_FILE_LIMIT
      else 0)"

section \<open>Time statistics of a task\<close>

datatype timer_type = TIMER_NONE | TIMER_REAL | TIMER_VIRTUAL | TIMER_PROF

definition timer_type_of :: "usize \<Rightarrow> timer_type" where
  "timer_type_of num =
     (let n = (ucast num :: i32) in
      if n = 0 then TIMER_REAL else if n = 1 then TIMER_VIRTUAL else if n = 2 then TIMER_PROF else TIMER_NONE)"

record time_stat =
  utime_ns :: usize
  stime_ns :: usize
  user_timestamp :: usize
  kernel_timestamp :: usize
  ts_timer_type :: timer_type
  timer_interval_ns :: usize
  timer_remained_ns :: usize

definition time_stat_new :: time_stat where
  "time_stat_new = \<lparr>utime_ns = 0, stime_ns = 0, user_timestamp = 0, kernel_timestamp = 0,
     ts_timer_type = TIMER_NONE, timer_interval_ns = 0, timer_remained_ns = 0\<rparr>"

definition time_stat_out :: "time_stat \<Rightarrow> usize \<times> usize" where
  "time_stat_out s = (utime_ns s, stime_ns s)"

definition time_stat_reset :: "usize \<Rightarrow> time_stat \<Rightarrow> time_stat" where
  "time_stat_reset now s = s\<lparr>utime_ns := 0, stime_ns := 0, user_timestamp := 0, kernel_timestamp := now\<rparr>"

definition update_timer :: "usize \<Rightarrow> time_stat \<Rightarrow> time_stat" where
  "update_timer delta s =
     (if timer_remained_ns s = 0 then s
      else if delta < timer_remained_ns s then s\<lparr>timer_remained_ns := timer_remained_ns s - delta\<rparr>
      else s)"

definition switch_into_kernel_mode :: "usize \<Rightarrow> time_stat \<Rightarrow> time_stat" where
  "switch_into_kernel_mode now s =
     (let delta = now - kernel_timestamp s;
          s = s\<lparr>utime_ns := utime_ns s + delta, kernel_timestamp := now\<rparr>
      in if ts_timer_type s \<noteq> TIMER_NONE then update_timer delta s else s)"

definition switch_into_user_mode :: "usize \<Rightarrow> time_stat \<Rightarrow> time_stat" where
  "switch_into_user_mode now s =
     (let delta = now - kernel_timestamp s;
          s = s\<lparr>stime_ns := stime_ns s + delta, user_timestamp := now\<rparr>
      in if ts_timer_type s = TIMER_REAL \<or> ts_timer_type s = TIMER_PROF then update_timer delta s else s)"

definition switch_from_old_task :: "usize \<Rightarrow> time_stat \<Rightarrow> time_stat" where
  "switch_from_old_task now s =
     (let delta = now - kernel_timestamp s;
          s = s\<lparr>stime_ns := stime_ns s + delta, kernel_timestamp := now\<rparr>
      in if ts_timer_type s = TIMER_REAL \<or> ts_timer_type s = TIMER_PROF then update_timer delta s else s)"

definition switch_to_new_task :: "usize \<Rightarrow> time_stat \<Rightarrow> time_stat" where
  "switch_to_new_task now s =
     (let delta = now - kernel_timestamp s;
          s = s\<lparr>kernel_timestamp := now\<rparr>
      in if ts_timer_type s = TIMER_REAL then update_timer delta s else s)"

definition set_timer :: "usize \<Rightarrow> usize \<Rightarrow> usize \<Rightarrow> time_stat \<Rightarrow> bool \<times> time_stat" where
  "set_timer interval_ns remained_ns ttype s =
     (let s = s\<lparr>ts_timer_type := timer_type_of ttype, timer_interval_ns := interval_ns, timer_remained_ns := remained_ns\<rparr>
      in (ts_timer_type s \<noteq> TIMER_NONE, s))"

definition time_stat_output :: "time_stat \<Rightarrow> usize \<times> usize \<times> usize \<times> usize" where
  "time_stat_output s =
     (case time_stat_out s of
        (u, k) \<Rightarrow> (u div NANOS_PER_SEC, u div NANOS_PER_MICROS, k div NANOS_PER_SEC, k div NANOS_PER_MICROS))"

definition time_stat_from_user_to_kernel :: "clock \<Rightarrow> time_stat \<Rightarrow> time_stat" where
  "time_stat_from_user_to_kernel c s = switch_into_kernel_mode (monotonic_time_nanos c) s"

definition time_stat_from_kernel_to_user :: "clock \<Rightarrow> time_stat \<Rightarrow> time_stat" where
  "time_stat_from_kernel_to_user c s = switch_into_user_mode (monotonic_time_nanos c) s"

definition sys_times :: "usize \<Rightarrow> time_stat \<Rightarrow> clock \<Rightarrow> as_state \<Rightarrow> (stop, isize) outcome \<times> as_state" where
  "sys_times tms s c st =
     (case time_stat_output s of
        (_, utime_us, _, stime_us) \<Rightarrow>
          sbind (errno (ptr_get_as USER_PTR_ACCESS tms 32 8 st)) (\<lambda>p st.
          sbind (user_write_bytes False p
              (le_bytes 8 utime_us @ le_bytes 8 stime_us @ le_bytes 8 utime_us @ le_bytes 8 stime_us) st) (\<lambda>_ st.
            (Ok (nanos_to_ticks c (monotonic_time_nanos c)), st))))"

section \<open>Durations as numbers of nanoseconds\<close>

definition duration_ok :: "duration \<Rightarrow> bool" where
  "duration_ok d \<longleftrightarrow> dur_nanos d < 1000000000"

definition nanos_of :: "duration \<Rightarrow> nat" where
  "nanos_of d = unat (dur_secs d) * 1000000000 + unat (dur_nanos d)"

lemma duration_ok_unat: "duration_ok d \<longleftrightarrow> unat (dur_nanos d) < 1000000000"
  by (simp add: duration_ok_def word_less_nat_alt)

lemma nanos_of_from_nanos: "nanos_of (duration_from_nanos n) = unat n" and
  duration_ok_from_nanos: "duration_ok (duration_from_nanos n)"
proof -
  have m: "unat (n mod NANOS_PER_SEC) = unat n mod 1000000000" by (simp add: NANOS_PER_SEC_def unat_mod)
  moreover have "unat n mod 1000000000 < 1000000000" by simp
  ultimately have u: "unat (ucast (n mod NANOS_PER_SEC) :: u32) = unat n mod 1000000000"
    by (simp add: unat_ucast)
  then show "nanos_of (duration_from_nanos n) = unat n"
    by (simp add: nanos_of_def duration_from_nanos_def unat_div) (simp add: NANOS_PER_SEC_def)
  show "duration_ok (duration_from_nanos n)" using u by (simp add: duration_ok_unat duration_from_nanos_def)
qed

lemma nanos_of_inj: "duration_ok a \<Longrightarrow> duration_ok b \<Longrightarrow> nanos_of a = nanos_of b \<Longrightarrow> a = b"
proof -
  assume ok: "duration_ok a" "duration_ok b" and e: "nanos_of a = nanos_of b"
  have "unat (dur_secs a) = nanos_of a div 1000000000" "unat (dur_nanos a) = nanos_of a mod 1000000000"
    "unat (dur_secs b) = nanos_of b div 1000000000" "unat (dur_nanos b) = nanos_of b mod 1000000000"
    using ok by (simp_all add: nanos_of_def duration_ok_unat)
  with e have "dur_secs a = dur_secs b" "dur_nanos a = dur_nanos b" by (simp_all add: word_unat_eq_iff)
  then show "a = b" by (cases a, cases b) simp
qed

lemma checked_sub_unat: "checked_sub a b = (if unat b \<le> unat a then Some (a - b) else None)"
  by (simp add: checked_sub_def word_le_nat_alt)

lemma duration_checked_sub_spec:
  assumes ok: "duration_ok a" "duration_ok b"
  shows "case duration_checked_sub a b of
      None \<Rightarrow> nanos_of a < nanos_of b
    | Some d \<Rightarrow> nanos_of b \<le> nanos_of a \<and> duration_ok d \<and> nanos_of d = nanos_of a - nanos_of b"
proof (cases "unat (dur_secs b) \<le> unat (dur_secs a)")
  case False
  then have "nanos_of a < nanos_of b" using ok by (auto simp: nanos_of_def duration_ok_unat)
  with False show ?thesis by (simp add: duration_checked_sub_def checked_sub_unat)
next
  case le: True
  then have s: "unat (dur_secs a - dur_secs b) = unat (dur_secs a) - unat (dur_secs b)"
    by (simp add: unat_sub word_le_nat_alt)
  show ?thesis
  proof (cases "dur_nanos b \<le> dur_nanos a")
    case True
    have "unat (dur_nanos a - dur_nanos b) = unat (dur_nanos a) - unat (dur_nanos b)"
      using True by (simp add: unat_sub)
    with True le s ok show ?thesis
      by (auto simp: duration_checked_sub_def checked_sub_unat nanos_of_def duration_ok_unat word_le_nat_alt
          diff_mult_distrib)
  next
    case False
    then have lt: "unat (dur_nanos a) < unat (dur_nanos b)" by (simp add: word_le_nat_alt)
    have n: "unat (dur_nanos a + 1000000000 - dur_nanos b) = unat (dur_nanos a) + 1000000000 - unat (dur_nanos b)"
      using ok by (subst unat_sub) (auto simp: duration_ok_unat unat_plus_if_size word_size word_le_nat_alt)
    show ?thesis
    proof (cases "dur_secs a = dur_secs b")
      case True
      with lt le s ok show ?thesis
        by (simp add: duration_checked_sub_def checked_sub_unat nanos_of_def False)
    next
      case ne: False
      with le have lt2: "unat (dur_secs b) < unat (dur_secs a)" by (simp add: word_unat_eq_iff)
      have "unat (dur_secs a - dur_secs b - 1) = unat (dur_secs a) - unat (dur_secs b) - 1"
        using lt2 s by (subst unat_sub) (auto simp: word_le_nat_alt)
      with lt lt2 le s n ok False show ?thesis
        by (auto simp: duration_checked_sub_def checked_sub_unat nanos_of_def duration_ok_unat diff_mult_distrib)
    qed
  qed
qed

section \<open>Round trips of the C structures\<close>

lemma duration_of_timespec_of_duration:
  "duration_ok d \<Longrightarrow> duration_of_timespec (timespec_of_duration d) = Ok d"
  by (simp add: duration_of_timespec_def timespec_of_duration_def duration_new_def duration_ok_def)

lemma timespec_of_duration_of_timespec:
  assumes "unat (ts_nsec ts) < 1000000000"
  shows "map_err f (duration_of_timespec ts) = Ok d \<Longrightarrow> timespec_of_duration d = ts"
proof -
  have u: "unat (ucast (ts_nsec ts) :: u32) = unat (ts_nsec ts)" using assms by (simp add: unat_ucast)
  moreover have "ucast (ucast (ts_nsec ts) :: u32) = ts_nsec ts"
    using assms u by (simp add: word_unat_eq_iff unat_ucast)
  ultimately show "map_err f (duration_of_timespec ts) = Ok d \<Longrightarrow> timespec_of_duration d = ts"
    using assms by (auto simp: duration_of_timespec_def timespec_of_duration_def duration_new_def word_less_nat_alt)
qed


lemma update_timer_keeps [simp]:
  "utime_ns (update_timer d s) = utime_ns s" "stime_ns (update_timer d s) = stime_ns s"
  "kernel_timestamp (update_timer d s) = kernel_timestamp s"
  by (simp_all add: update_timer_def)

lemma switch_into_kernel_mode_time [simp]:
  "utime_ns (switch_into_kernel_mode now s) = utime_ns s + (now - kernel_timestamp s)"
  "stime_ns (switch_into_kernel_mode now s) = stime_ns s" "kernel_timestamp (switch_into_kernel_mode now s) = now"
  by (simp_all add: switch_into_kernel_mode_def Let_def)

lemma switch_into_user_mode_time [simp]:
  "utime_ns (switch_into_user_mode now s) = utime_ns s" "kernel_timestamp (switch_into_user_mode now s) = kernel_timestamp s"
  "stime_ns (switch_into_user_mode now s) = stime_ns s + (now - kernel_timestamp s)"
  by (simp_all add: switch_into_user_mode_def Let_def)

section \<open>Properties\<close>

lemma nsec_valid:
  assumes "\<not> (ts_nsec ts <s 0 \<or> 999999999 <s ts_nsec ts)"
  shows "unat (ts_nsec ts) < 1000000000"
proof -
  have "0 \<le> sint (ts_nsec ts)" "sint (ts_nsec ts) \<le> 999999999"
    using assms by (simp_all add: word_sless_alt)
  then have "uint (ts_nsec ts) = sint (ts_nsec ts)"
    by (simp add: uint_sint take_bit_int_eq_self)
  then show ?thesis using \<open>sint (ts_nsec ts) \<le> 999999999\<close> by (simp add: unat_eq_nat_uint)
qed

lemma duration_of_valid_timespec:
  assumes "unat (ts_nsec ts) < 1000000000"
  shows "duration_of_timespec ts = Ok \<lparr>dur_secs = ts_sec ts, dur_nanos = ucast (ts_nsec ts)\<rparr>"
    and "duration_ok \<lparr>dur_secs = ts_sec ts, dur_nanos = ucast (ts_nsec ts)\<rparr>"
    and "nanos_of \<lparr>dur_secs = ts_sec ts, dur_nanos = ucast (ts_nsec ts)\<rparr> = unat (ts_sec ts) * 1000000000 + unat (ts_nsec ts)"
proof -
  have "unat (ucast (ts_nsec ts) :: u32) = unat (ts_nsec ts)" using assms by (simp add: unat_ucast)
  then show "duration_of_timespec ts = Ok \<lparr>dur_secs = ts_sec ts, dur_nanos = ucast (ts_nsec ts)\<rparr>"
    "duration_ok \<lparr>dur_secs = ts_sec ts, dur_nanos = ucast (ts_nsec ts)\<rparr>"
    "nanos_of \<lparr>dur_secs = ts_sec ts, dur_nanos = ucast (ts_nsec ts)\<rparr> = unat (ts_sec ts) * 1000000000 + unat (ts_nsec ts)"
    using assms by (simp_all add: duration_of_timespec_def duration_new_def duration_ok_def nanos_of_def word_less_nat_alt)
qed

text \<open>
  C37. \<^verbatim>\<open>nanosleep\<close> with a valid request whose deadline does not overflow: when the task slept for more
  nanoseconds than requested it returns 0; otherwise it returns \<^verbatim>\<open>-EINTR\<close> and, through a non-null
  pointer, exactly the nanoseconds that remain.
\<close>

theorem nanosleep_remaining:
  assumes v: "\<not> (ts_nsec ts <s 0 \<or> 999999999 <s ts_nsec ts)"
    and d: "(duration_of_timespec ts :: (stop, duration) outcome) = Ok dur" "duration_checked_add (wall_time c) dur = Some dl"
    and mono: "unat (monotonic_time_nanos c) \<le> unat (monotonic_time_nanos c')"
  shows "\<exists>diff. posix_nanosleep (Some ts) rem c c' =
      (let slept = unat (monotonic_time_nanos c') - unat (monotonic_time_nanos c) in
       if nanos_of dur < slept then (Ok 0, None)
       else (Ok (neg_code EINTR), if rem \<noteq> 0 then Some (timespec_of_duration diff) else None))
    \<and> duration_ok diff \<and> nanos_of diff = nanos_of dur - (unat (monotonic_time_nanos c') - unat (monotonic_time_nanos c))"
proof -
  let ?m = "unat (monotonic_time_nanos c)" and ?m' = "unat (monotonic_time_nanos c')"
  have dur: "duration_ok dur"
    using duration_of_valid_timespec(2) [OF nsec_valid [OF v]]
      d(1) [unfolded duration_of_valid_timespec(1) [OF nsec_valid [OF v]]] by auto
  obtain act where act: "duration_checked_sub (monotonic_time c') (monotonic_time c) = Some act"
    "duration_ok act" "nanos_of act = ?m' - ?m"
    using duration_checked_sub_spec [of "monotonic_time c'" "monotonic_time c"] mono
    by (auto simp: monotonic_time_def duration_ok_from_nanos nanos_of_from_nanos split: option.splits)
  have st: "posix_nanosleep (Some ts) rem c c' =
      (case duration_checked_sub dur act of
         Some diff \<Rightarrow> (Ok (neg_code EINTR), if rem \<noteq> 0 then Some (timespec_of_duration diff) else None)
       | None \<Rightarrow> (Ok 0, None))"
    using v d act(1) by (simp add: posix_nanosleep_def syscall_body_def split: option.splits)
  show ?thesis
  proof (cases "duration_checked_sub dur act")
    case None
    then have "nanos_of dur < ?m' - ?m"
      using duration_checked_sub_spec [OF dur act(2)] act(3) by simp
    then show ?thesis using st None by (intro exI [of _ "\<lparr>dur_secs = 0, dur_nanos = 0\<rparr>"])
      (simp add: duration_ok_def nanos_of_def)
  next
    case (Some diff)
    then show ?thesis
      using duration_checked_sub_spec [OF dur act(2)] act(3) st by (intro exI [of _ diff]) simp
  qed
qed

definition demo_clock :: "u64 \<Rightarrow> clock" where
  "demo_clock t = \<lparr>ck_tsc = t, ck_init_tick = 0, ck_freq_mhz = 4000, ck_rtc_offset = 0\<rparr>"

theorem nanosleep_remaining_witness:
  "\<exists>diff. posix_nanosleep (Some \<lparr>ts_sec = 2, ts_nsec = 5\<rparr>) 8 (demo_clock 0) (demo_clock 4000000000)
     = (Ok (neg_code EINTR), Some (timespec_of_duration diff)) \<and> nanos_of diff = 1000000005"
proof -
  let ?ts = "\<lparr>ts_sec = 2, ts_nsec = 5\<rparr>"
  have v: "\<not> (ts_nsec ?ts <s 0 \<or> 999999999 <s ts_nsec ?ts)" by (simp add: word_sless_alt)
  have d: "(duration_of_timespec ?ts :: (stop, duration) outcome) = Ok \<lparr>dur_secs = 2, dur_nanos = 5\<rparr>" by code_simp
  have a: "duration_checked_add (wall_time (demo_clock 0)) \<lparr>dur_secs = 2, dur_nanos = 5\<rparr>
    = Some \<lparr>dur_secs = 2, dur_nanos = 5\<rparr>" by code_simp
  have n: "monotonic_time_nanos (demo_clock 0) = 0" "monotonic_time_nanos (demo_clock 4000000000) = 1000000000"
    by code_simp+
  show ?thesis
    using nanosleep_remaining [OF v d a, of "demo_clock 4000000000" 8] n by (auto simp: nanos_of_def)
qed

text \<open>
  \<^verbatim>\<open>nanosleep\<close> with a request that passes the validity check but whose seconds, read as unsigned,
  overflow the deadline (every negative number of seconds once the wall clock is past its first second)
  panics the kernel instead of returning an error.
\<close>

lemma nanosleep_overflow_panics:
  assumes "\<not> (ts_nsec ts <s 0 \<or> 999999999 <s ts_nsec ts)"
    and "2 ^ 64 \<le> unat (dur_secs (wall_time c)) + unat (ts_sec ts)"
  shows "posix_nanosleep (Some ts) rem c c' = (Panic, None)"
proof -
  have "checked_add (dur_secs (wall_time c)) (ts_sec ts) = None" using assms(2) by (simp add: checked_add_unat)
  then show ?thesis
    using assms(1) by (simp add: posix_nanosleep_def duration_checked_add_def
        duration_of_valid_timespec(1) [OF nsec_valid [OF assms(1)]])
qed

text \<open>
  Time accounting over one system call: a task enters the kernel at \<open>t1\<close>, returns to user mode at \<open>t2\<close>
  and enters the kernel again at \<open>t3\<close>. The user time grows by \<open>t3 - t1\<close>, so the kernel time \<open>t2 - t1\<close>,
  which the system time also counts, is counted twice.
\<close>

lemma kernel_time_counted_twice:
  "let s1 = switch_into_kernel_mode t1 s;
       s3 = switch_into_kernel_mode t3 (switch_into_user_mode t2 s1)
   in utime_ns s3 = utime_ns s1 + (t3 - t1) \<and> stime_ns s3 = stime_ns s1 + (t2 - t1)"
  by (simp add: Let_def)

text \<open>
  An armed interval timer never expires: no switch of a task brings the remaining time to zero,
  whatever the elapsed time, so the expiry the timer is for never becomes visible.
\<close>

lemma armed_timer_never_expires:
  assumes "timer_remained_ns s \<noteq> 0"
  shows "timer_remained_ns (switch_into_kernel_mode now s) \<noteq> 0 \<and> timer_remained_ns (switch_into_user_mode now s) \<noteq> 0
    \<and> timer_remained_ns (switch_from_old_task now s) \<noteq> 0 \<and> timer_remained_ns (switch_to_new_task now s) \<noteq> 0"
proof -
  have "timer_remained_ns (update_timer delta s') \<noteq> 0" if "timer_remained_ns s' \<noteq> 0" for delta s'
    using that by (auto simp: update_timer_def)
  with assms show ?thesis
    by (simp add: switch_into_kernel_mode_def switch_into_user_mode_def switch_from_old_task_def
        switch_to_new_task_def Let_def)
qed

end
