(* ===== verification/Scheduler.thy ===== *)
theory Scheduler
  imports Clock_Time
begin

text \<open>
  Tasks and scheduling (\<^verbatim>\<open>.arceos/modules/axtask\<close>) in the configuration the kernel is built with: one
  CPU (\<^verbatim>\<open>SMP = 1\<close>), the FIFO scheduler, timer interrupts and no kernel preemption. The state has the
  tasks, the ready queue, the current task, every wait queue, the timer list and the exited tasks.
  An operation that switches away from the current task ends at the switch; what the task does when
  it runs again is an operation of its own (\<open>cancel_events\<close>). The failing assertions of the source are
  \<open>Panic\<close>, the end of the init task is \<open>Err Terminated\<close>. Reference counts are not modelled: which exited
  tasks the collector finds unreferenced is an argument.

  Lemmas: the step relation \<open>sched_step\<close> keeps \<open>sched_inv\<close> (one running task, the ready queue has exactly
  the ready tasks and has them once, a task waits in at most one queue); no assertion fails in a
  reachable state; every blocked task has a queue entry or a valid timer that wakes it; the FIFO order
  is fair.
\<close>

section \<open>Tasks\<close>

type_synonym tid = u64

datatype tstate = Running | Ready | Blocked | Exited

record task =
  tk_state :: tstate
  tk_idle :: bool
  tk_init :: bool
  tk_in_wq :: bool
  tk_ticket :: u64
  tk_exit_code :: i32

text \<open>\<^verbatim>\<open>From<u8> for TaskState\<close>; any other byte is \<^verbatim>\<open>unreachable!\<close>.\<close>

definition task_state_of :: "u8 \<Rightarrow> ('e, tstate) outcome" where
  "task_state_of b =
     (if b = 1 then Ok Running else if b = 2 then Ok Ready else if b = 3 then Ok Blocked
      else if b = 4 then Ok Exited else Panic)"

definition task_new_common :: task where
  "task_new_common = \<lparr>tk_state = Ready, tk_idle = False, tk_init = False, tk_in_wq = False, tk_ticket = 0, tk_exit_code = 0\<rparr>"

definition task_new :: "string \<Rightarrow> task" where
  "task_new name = task_new_common\<lparr>tk_idle := (name = ''idle'')\<rparr>"

definition task_new_init :: "string \<Rightarrow> task" where
  "task_new_init name = task_new_common\<lparr>tk_init := True, tk_idle := (name = ''idle'')\<rparr>"

text \<open>The wait queues: the one of the joiners of a task, the one of the collector, and any other.\<close>

datatype wait_queue = ExitOf tid | WaitForExit | Queue nat

datatype timer_event = TimerEvent duration u64 tid

fun ev_deadline :: "timer_event \<Rightarrow> duration" where "ev_deadline (TimerEvent d n t) = d"
fun ev_task :: "timer_event \<Rightarrow> tid" where "ev_task (TimerEvent d n t) = t"
fun ev_ticket :: "timer_event \<Rightarrow> u64" where "ev_ticket (TimerEvent d n t) = n"

record sched =
  sd_task :: "tid \<Rightarrow> task"
  sd_ids :: "tid list"
  sd_next_id :: tid
  sd_current :: tid
  sd_idle :: tid
  sd_ready :: "tid list"
  sd_wq :: "wait_queue \<Rightarrow> tid list"
  sd_timers :: "timer_event list"
  sd_next_ticket :: u64
  sd_exited :: "tid list"

datatype machine_end = Terminated

definition upd_task :: "tid \<Rightarrow> (task \<Rightarrow> task) \<Rightarrow> sched \<Rightarrow> sched" where
  "upd_task t f s = s\<lparr>sd_task := (sd_task s)(t := f (sd_task s t))\<rparr>"

definition task_state :: "tid \<Rightarrow> sched \<Rightarrow> tstate" where
  "task_state t s = tk_state (sd_task s t)"

definition set_state :: "tstate \<Rightarrow> tid \<Rightarrow> sched \<Rightarrow> sched" where
  "set_state st t s = upd_task t (tk_state_update (\<lambda>_. st)) s"

definition set_in_wait_queue :: "bool \<Rightarrow> tid \<Rightarrow> sched \<Rightarrow> sched" where
  "set_in_wait_queue b t s = upd_task t (tk_in_wq_update (\<lambda>_. b)) s"

definition transition_state :: "tstate \<Rightarrow> tstate \<Rightarrow> tid \<Rightarrow> sched \<Rightarrow> bool \<times> sched" where
  "transition_state cur new t s = (if task_state t s = cur then (True, set_state new t s) else (False, s))"

section \<open>The run queue\<close>

text \<open>The FIFO scheduler: \<^verbatim>\<open>add_task\<close> and \<^verbatim>\<open>put_prev_task\<close> push to the back, \<^verbatim>\<open>pick_next_task\<close> pops the front.\<close>

definition sched_push :: "tid \<Rightarrow> sched \<Rightarrow> sched" where
  "sched_push t s = s\<lparr>sd_ready := sd_ready s @ [t]\<rparr>"

definition pick_next_task :: "sched \<Rightarrow> tid option \<times> sched" where
  "pick_next_task s = (case sd_ready s of [] \<Rightarrow> (None, s) | t # q \<Rightarrow> (Some t, s\<lparr>sd_ready := q\<rparr>))"

definition put_task_with_state :: "tid \<Rightarrow> tstate \<Rightarrow> sched \<Rightarrow> bool \<times> sched" where
  "put_task_with_state t current_state s =
     (case transition_state current_state Ready t s of
        (True, s) \<Rightarrow> if tk_idle (sd_task s t) then (False, s) else (True, sched_push t s)
      | (False, s) \<Rightarrow> (False, s))"

definition switch_to :: "tid \<Rightarrow> sched \<Rightarrow> sched" where
  "switch_to next s = (set_state Running next s)\<lparr>sd_current := next\<rparr>"

definition resched :: "sched \<Rightarrow> (machine_end, unit) outcome \<times> sched" where
  "resched s =
     (case pick_next_task s of
        (n, s) \<Rightarrow>
          let next = (case n of Some t \<Rightarrow> t | None \<Rightarrow> sd_idle s) in
          if task_state next s \<noteq> Ready then (Panic, s) else (Ok (), switch_to next s))"

definition add_task :: "tid \<Rightarrow> sched \<Rightarrow> (machine_end, unit) outcome \<times> sched" where
  "add_task t s = (if task_state t s \<noteq> Ready then (Panic, s) else (Ok (), sched_push t s))"

definition unblock_task :: "tid \<Rightarrow> sched \<Rightarrow> sched" where
  "unblock_task t s = snd (put_task_with_state t Blocked s)"

definition yield_current :: "sched \<Rightarrow> (machine_end, unit) outcome \<times> sched" where
  "yield_current s =
     (if task_state (sd_current s) s \<noteq> Running then (Panic, s)
      else resched (snd (put_task_with_state (sd_current s) Running s)))"

definition blocked_resched :: "wait_queue \<Rightarrow> sched \<Rightarrow> (machine_end, unit) outcome \<times> sched" where
  "blocked_resched q s =
     (let curr = sd_current s in
      if task_state curr s \<noteq> Running \<or> tk_idle (sd_task s curr) then (Panic, s)
      else
        let s = set_in_wait_queue True curr (set_state Blocked curr s);
            s = s\<lparr>sd_wq := (sd_wq s)(q := sd_wq s q @ [curr])\<rparr>
        in resched s)"

section \<open>Wait queues\<close>

definition unblock_one_task :: "tid \<Rightarrow> sched \<Rightarrow> sched" where
  "unblock_one_task t s = unblock_task t (set_in_wait_queue False t s)"

definition notify_one :: "wait_queue \<Rightarrow> sched \<Rightarrow> bool \<times> sched" where
  "notify_one q s =
     (case sd_wq s q of
        [] \<Rightarrow> (False, s)
      | t # ts \<Rightarrow> (True, unblock_one_task t (s\<lparr>sd_wq := (sd_wq s)(q := ts)\<rparr>)))"

lemma upd_task_simps [simp]:
  "sd_ids (upd_task t f s) = sd_ids s" "sd_next_id (upd_task t f s) = sd_next_id s"
  "sd_current (upd_task t f s) = sd_current s" "sd_idle (upd_task t f s) = sd_idle s"
  "sd_ready (upd_task t f s) = sd_ready s" "sd_wq (upd_task t f s) = sd_wq s"
  "sd_timers (upd_task t f s) = sd_timers s" "sd_next_ticket (upd_task t f s) = sd_next_ticket s"
  "sd_exited (upd_task t f s) = sd_exited s"
  "sd_task (upd_task t f s) = (sd_task s)(t := f (sd_task s t))"
  by (simp_all add: upd_task_def)

lemmas state_ops = set_state_def set_in_wait_queue_def transition_state_def task_state_def

lemma unblock_one_task_wq [simp]: "sd_wq (unblock_one_task t s) = sd_wq s"
  by (simp add: unblock_one_task_def unblock_task_def put_task_with_state_def state_ops sched_push_def)

function notify_all :: "wait_queue \<Rightarrow> sched \<Rightarrow> sched" where
  "notify_all q s = (case notify_one q s of (True, s) \<Rightarrow> notify_all q s | (False, s) \<Rightarrow> s)"
  by pat_completeness auto
termination
  by (relation "measure (\<lambda>(q, s). length (sd_wq s q))") (auto simp: notify_one_def split: list.splits)

declare notify_all.simps [simp del]

definition notify_task :: "wait_queue \<Rightarrow> tid \<Rightarrow> sched \<Rightarrow> bool \<times> sched" where
  "notify_task q t s =
     (case position (\<lambda>x. x = t) (sd_wq s q) of
        Some i \<Rightarrow>
          (True, unblock_one_task (sd_wq s q ! i)
             (s\<lparr>sd_wq := (sd_wq s)(q := take i (sd_wq s q) @ drop (Suc i) (sd_wq s q))\<rparr>))
      | None \<Rightarrow> (False, s))"

text \<open>What a task does when it runs again after \<^verbatim>\<open>wait\<close>, \<^verbatim>\<open>wait_until\<close> or \<^verbatim>\<open>wait_timeout\<close>.\<close>

definition cancel_events :: "wait_queue \<Rightarrow> bool \<Rightarrow> sched \<Rightarrow> sched" where
  "cancel_events q from_timer_list s =
     (let curr = sd_current s;
          s = (if tk_in_wq (sd_task s curr)
               then set_in_wait_queue False curr (s\<lparr>sd_wq := (sd_wq s)(q := filter (\<lambda>t. t \<noteq> curr) (sd_wq s q))\<rparr>)
               else s)
      in if from_timer_list then upd_task curr (tk_ticket_update (\<lambda>_. 0)) s else s)"

section \<open>Timers\<close>

text \<open>
  The timer list is a binary heap ordered by deadline. The model keeps the events sorted; among equal
  deadlines the first one set comes first.
\<close>

fun timer_insert :: "timer_event \<Rightarrow> timer_event list \<Rightarrow> timer_event list" where
  "timer_insert e [] = [e]"
| "timer_insert e (x # xs) =
     (if duration_le (ev_deadline x) (ev_deadline e) then x # timer_insert e xs else e # x # xs)"

definition set_alarm_wakeup :: "duration \<Rightarrow> tid \<Rightarrow> sched \<Rightarrow> (machine_end, unit) outcome \<times> sched" where
  "set_alarm_wakeup deadline t s =
     (let ticket_id = sd_next_ticket s; s = s\<lparr>sd_next_ticket := ticket_id + 1\<rparr> in
      if ticket_id = 0 then (Panic, s)
      else
        let s = upd_task t (tk_ticket_update (\<lambda>_. ticket_id)) s
        in (Ok (), s\<lparr>sd_timers := timer_insert (TimerEvent deadline ticket_id t) (sd_timers s)\<rparr>))"

definition timer_callback :: "timer_event \<Rightarrow> sched \<Rightarrow> sched" where
  "timer_callback e s =
     (case e of TimerEvent _ ticket_id t \<Rightarrow>
        if tk_ticket (sd_task s t) \<noteq> ticket_id then s else unblock_task t s)"

definition expire_one :: "duration \<Rightarrow> sched \<Rightarrow> timer_event option \<times> sched" where
  "expire_one now s =
     (case sd_timers s of
        [] \<Rightarrow> (None, s)
      | e # es \<Rightarrow> if duration_le (ev_deadline e) now then (Some e, s\<lparr>sd_timers := es\<rparr>) else (None, s))"

lemma timer_callback_timers [simp]: "sd_timers (timer_callback e s) = sd_timers s"
  by (cases e) (simp add: timer_callback_def unblock_task_def put_task_with_state_def state_ops sched_push_def)

text \<open>The loop of \<^verbatim>\<open>check_events\<close>; \<open>clk i\<close> is the wall time its round \<open>i\<close> reads.\<close>

function check_events :: "(nat \<Rightarrow> duration) \<Rightarrow> nat \<Rightarrow> sched \<Rightarrow> sched" where
  "check_events clk i s =
     (case expire_one (clk i) s of
        (Some e, s) \<Rightarrow> check_events clk (Suc i) (timer_callback e s)
      | (None, s) \<Rightarrow> s)"
  by pat_completeness auto
termination
  by (relation "measure (\<lambda>(clk, i, s). length (sd_timers s))") (auto simp: expire_one_def split: list.splits if_splits)

declare check_events.simps [simp del]

text \<open>\<^verbatim>\<open>on_timer_tick\<close>: the FIFO scheduler never asks for a reschedule in \<^verbatim>\<open>scheduler_timer_tick\<close>.\<close>

definition on_timer_tick :: "(nat \<Rightarrow> duration) \<Rightarrow> sched \<Rightarrow> sched" where
  "on_timer_tick clk s = check_events clk 0 s"

section \<open>Blocking operations of the current task, up to the switch\<close>

definition sleep_until :: "duration \<Rightarrow> duration \<Rightarrow> sched \<Rightarrow> (machine_end, unit) outcome \<times> sched" where
  "sleep_until deadline now s =
     (let curr = sd_current s in
      if task_state curr s \<noteq> Running \<or> tk_idle (sd_task s curr) then (Panic, s)
      else if \<not> duration_le deadline now then
        sbind (set_alarm_wakeup deadline curr s) (\<lambda>_ s. resched (set_state Blocked curr s))
      else (Ok (), s))"

definition wait :: "wait_queue \<Rightarrow> sched \<Rightarrow> (machine_end, unit) outcome \<times> sched" where
  "wait q s = blocked_resched q s"

text \<open>One round of the loop of \<^verbatim>\<open>wait_until\<close>: \<open>True\<close> when the condition holds and the loop ends.\<close>

definition wait_until :: "wait_queue \<Rightarrow> (sched \<Rightarrow> bool) \<Rightarrow> sched \<Rightarrow> (machine_end, bool) outcome \<times> sched" where
  "wait_until q cond s =
     (if cond s then (Ok True, cancel_events q False s)
      else sbind (blocked_resched q s) (\<lambda>_ s. (Ok False, s)))"

definition wait_timeout :: "wait_queue \<Rightarrow> duration \<Rightarrow> sched \<Rightarrow> (machine_end, unit) outcome \<times> sched" where
  "wait_timeout q deadline s =
     sbind (set_alarm_wakeup deadline (sd_current s) s) (\<lambda>_ s. blocked_resched q s)"

definition join_ready :: "tid \<Rightarrow> sched \<Rightarrow> bool" where
  "join_ready t s = (task_state t s = Exited)"

definition notify_exit :: "i32 \<Rightarrow> tid \<Rightarrow> sched \<Rightarrow> sched" where
  "notify_exit code t s = notify_all (ExitOf t) (upd_task t (tk_exit_code_update (\<lambda>_. code)) s)"

definition exit_current :: "i32 \<Rightarrow> sched \<Rightarrow> (machine_end, unit) outcome \<times> sched" where
  "exit_current code s =
     (let curr = sd_current s in
      if task_state curr s \<noteq> Running \<or> tk_idle (sd_task s curr) then (Panic, s)
      else if tk_init (sd_task s curr) then (Err Terminated, s\<lparr>sd_exited := []\<rparr>)
      else
        let s = notify_exit code curr (set_state Exited curr s);
            s = s\<lparr>sd_exited := sd_exited s @ [curr]\<rparr>
        in resched (snd (notify_one WaitForExit s)))"

section \<open>Creating and collecting tasks\<close>

definition spawn_task :: "string \<Rightarrow> sched \<Rightarrow> (machine_end, tid) outcome \<times> sched" where
  "spawn_task name s =
     (let t = sd_next_id s;
          s = s\<lparr>sd_next_id := t + 1, sd_ids := t # sd_ids s, sd_task := (sd_task s)(t := task_new name)\<rparr>
      in sbind (add_task t s) (\<lambda>_ s. (Ok t, s)))"

text \<open>One pass of \<^verbatim>\<open>gc_entry\<close> over the \<open>n\<close> exited tasks; \<open>held\<close> are the tasks something else still refers to.\<close>

fun gc_pass :: "(tid \<Rightarrow> bool) \<Rightarrow> nat \<Rightarrow> sched \<Rightarrow> sched" where
  "gc_pass held 0 s = s"
| "gc_pass held (Suc n) s =
     (case sd_exited s of
        [] \<Rightarrow> gc_pass held n s
      | t # ts \<Rightarrow> gc_pass held n (s\<lparr>sd_exited := (if held t then ts @ [t] else ts)\<rparr>))"

definition gc_round :: "(tid \<Rightarrow> bool) \<Rightarrow> sched \<Rightarrow> (machine_end, unit) outcome \<times> sched" where
  "gc_round held s = wait WaitForExit (gc_pass held (length (sd_exited s)) s)"

text \<open>\<^verbatim>\<open>run_queue::init\<close>: the idle task, the main task as the current one, and the collector in the queue.\<close>

definition sched_init :: sched where
  "sched_init =
     \<lparr>sd_task = (\<lambda>_. task_new_common\<lparr>tk_state := Exited\<rparr>)
        (1 := task_new ''idle'', 2 := (task_new_init ''main'')\<lparr>tk_state := Running\<rparr>, 3 := task_new ''gc''),
      sd_ids = [3, 2, 1], sd_next_id = 4, sd_current = 2, sd_idle = 1, sd_ready = [3],
      sd_wq = (\<lambda>_. []), sd_timers = [], sd_next_ticket = 1, sd_exited = []\<rparr>"

section \<open>The invariant\<close>

text \<open>
  \<open>pc t\<close> is what task \<open>t\<close> has to do first when it runs again: \<open>Some (q, timed)\<close> after a wait on queue \<open>q\<close>,
  with or without a timeout, \<open>None\<close> otherwise.
\<close>

type_synonym pcs = "tid \<Rightarrow> (wait_queue \<times> bool) option"

definition armed :: "sched \<Rightarrow> tid \<Rightarrow> bool" where
  "armed s t \<longleftrightarrow> (\<exists>e \<in> set (sd_timers s). ev_task e = t \<and> ev_ticket e = tk_ticket (sd_task s t))"

definition queued :: "sched \<Rightarrow> tid \<Rightarrow> bool" where
  "queued s t \<longleftrightarrow> (\<exists>q. t \<in> set (sd_wq s q))"

definition ready_ok :: "sched \<Rightarrow> bool" where
  "ready_ok s \<longleftrightarrow> distinct (sd_ready s)
     \<and> (\<forall>t. t \<in> set (sd_ready s) \<longleftrightarrow> t \<in> set (sd_ids s) \<and> task_state t s = Ready \<and> t \<noteq> sd_idle s)"

definition idle_ok :: "sched \<Rightarrow> bool" where
  "idle_ok s \<longleftrightarrow> sd_idle s \<in> set (sd_ids s) \<and> (\<forall>t \<in> set (sd_ids s). tk_idle (sd_task s t) \<longleftrightarrow> t = sd_idle s)
     \<and> (task_state (sd_idle s) s = Running \<or> task_state (sd_idle s) s = Ready)"

definition wq_ok :: "sched \<Rightarrow> pcs \<Rightarrow> bool" where
  "wq_ok s pc \<longleftrightarrow> (\<forall>q. distinct (sd_wq s q))
     \<and> (\<forall>q t. t \<in> set (sd_wq s q) \<longrightarrow> t \<in> set (sd_ids s) \<and> (\<exists>b. pc t = Some (q, b)))
     \<and> (\<forall>t \<in> set (sd_ids s). tk_in_wq (sd_task s t) \<longleftrightarrow> queued s t)
     \<and> (\<forall>t q. pc t = Some (q, False) \<longrightarrow> task_state t s \<noteq> Blocked \<longrightarrow> t \<notin> set (sd_wq s q))
     \<and> (\<forall>t. pc t \<noteq> None \<longrightarrow> t \<in> set (sd_ids s) \<and> t \<noteq> sd_idle s \<and> task_state t s \<noteq> Exited)"

definition timer_ok :: "sched \<Rightarrow> pcs \<Rightarrow> bool" where
  "timer_ok s pc \<longleftrightarrow> distinct (map ev_ticket (sd_timers s))
     \<and> (\<forall>e \<in> set (sd_timers s). ev_ticket e \<noteq> 0 \<and> ev_ticket e < sd_next_ticket s \<and> ev_task e \<in> set (sd_ids s))
     \<and> (\<forall>t. armed s t \<longrightarrow> pc t = None \<and> task_state t s = Blocked \<or> (\<exists>q. pc t = Some (q, True)))
     \<and> (\<forall>t \<in> set (sd_ids s). task_state t s = Blocked \<longrightarrow> queued s t \<or> armed s t)"

definition base_inv :: "sched \<Rightarrow> pcs \<Rightarrow> bool" where
  "base_inv s pc \<longleftrightarrow> ready_ok s \<and> idle_ok s \<and> wq_ok s pc \<and> timer_ok s pc
     \<and> (\<forall>t \<in> set (sd_exited s). task_state t s = Exited \<and> t \<in> set (sd_ids s)) \<and> sd_next_ticket s \<noteq> 0"

definition runs :: "sched \<Rightarrow> tid set" where
  "runs s = {t \<in> set (sd_ids s). task_state t s = Running}"

definition sched_inv :: "sched \<times> pcs \<Rightarrow> bool" where
  "sched_inv = (\<lambda>(s, pc). base_inv s pc \<and> runs s = {sd_current s})"

lemmas inv_defs = base_inv_def ready_ok_def idle_ok_def wq_ok_def timer_ok_def

lemma sched_init_inv: "sched_inv (sched_init, \<lambda>_. None)"
  by (auto simp: sched_inv_def inv_defs sched_init_def task_state_def queued_def armed_def runs_def task_new_def
      task_new_init_def task_new_common_def)

lemma ready_iff:
  "ready_ok s \<Longrightarrow> t \<in> set (sd_ready s) \<longleftrightarrow> t \<in> set (sd_ids s) \<and> task_state t s = Ready \<and> t \<noteq> sd_idle s"
  by (simp add: ready_ok_def)

section \<open>Changes of states only\<close>

text \<open>\<open>s'\<close> differs from \<open>s\<close> in the states of tasks, the ready queue and the current task only.\<close>

definition only_states :: "sched \<Rightarrow> sched \<Rightarrow> bool" where
  "only_states s s' \<longleftrightarrow> sd_ids s' = sd_ids s \<and> sd_idle s' = sd_idle s \<and> sd_wq s' = sd_wq s \<and> sd_timers s' = sd_timers s
     \<and> sd_next_ticket s' = sd_next_ticket s \<and> sd_exited s' = sd_exited s
     \<and> (\<forall>t. tk_idle (sd_task s' t) = tk_idle (sd_task s t) \<and> tk_in_wq (sd_task s' t) = tk_in_wq (sd_task s t)
          \<and> tk_ticket (sd_task s' t) = tk_ticket (sd_task s t))"

lemma only_states_same:
  assumes "only_states s s'"
  shows "sd_ids s' = sd_ids s" "sd_idle s' = sd_idle s" "sd_wq s' = sd_wq s" "sd_timers s' = sd_timers s"
    "sd_next_ticket s' = sd_next_ticket s" "sd_exited s' = sd_exited s" "tk_idle (sd_task s' t) = tk_idle (sd_task s t)"
    "tk_in_wq (sd_task s' t) = tk_in_wq (sd_task s t)" "tk_ticket (sd_task s' t) = tk_ticket (sd_task s t)"
    "queued s' t = queued s t" "armed s' t = armed s t"
  using assms by (simp_all add: only_states_def queued_def armed_def)

lemma base_inv_states:
  assumes inv: "base_inv s pc" and o: "only_states s s'" and r: "ready_ok s'"
    and i: "task_state (sd_idle s) s' = Running \<or> task_state (sd_idle s) s' = Ready"
    and x: "\<And>t. task_state t s' = Exited \<longleftrightarrow> task_state t s = Exited"
    and b: "\<And>t. task_state t s' = Blocked \<Longrightarrow> task_state t s = Blocked"
    and u: "\<And>t. task_state t s = Blocked \<Longrightarrow> task_state t s' \<noteq> Blocked \<Longrightarrow>
        (pc t = None \<longrightarrow> \<not> armed s t) \<and> (\<forall>q. pc t = Some (q, False) \<longrightarrow> t \<notin> set (sd_wq s q))"
  shows "base_inv s' pc"
proof -
  note f = only_states_same [OF o]
  have w: "wq_ok s pc" and t: "timer_ok s pc" and d: "idle_ok s" using inv by (simp_all add: base_inv_def)
  have "idle_ok s'" using d i by (simp add: idle_ok_def f)
  moreover have "wq_ok s' pc"
    using w u unfolding wq_ok_def f x by blast
  moreover have "timer_ok s' pc"
    using t u b unfolding timer_ok_def f by blast
  ultimately show ?thesis using inv r x by (simp add: base_inv_def f)
qed

section \<open>The ready queue\<close>

lemma resched_inv:
  assumes inv: "base_inv s pc" and nr: "runs s = {}"
  shows "\<exists>s'. resched s = (Ok (), s') \<and> sched_inv (s', pc) \<and> sd_current s' = (case sd_ready s of [] \<Rightarrow> sd_idle s | t # _ \<Rightarrow> t)
    \<and> sd_ready s' = tl (sd_ready s) \<and> only_states s s'"
proof -
  define nx where "nx = (case sd_ready s of [] \<Rightarrow> sd_idle s | t # _ \<Rightarrow> t)"
  have r: "ready_ok s" and i: "idle_ok s" using inv by (simp_all add: base_inv_def)
  have id: "sd_idle s \<in> set (sd_ids s)" "task_state (sd_idle s) s = Ready"
    using i nr by (auto simp: idle_ok_def runs_def)
  have "nx \<in> set (sd_ids s) \<and> task_state nx s = Ready"
    using id ready_iff [OF r, of nx] by (cases "sd_ready s") (simp_all add: nx_def)
  then have nx: "nx \<in> set (sd_ids s)" "task_state nx s = Ready" by simp_all
  define s' where "s' = (set_state Running nx (s\<lparr>sd_ready := tl (sd_ready s)\<rparr>))\<lparr>sd_current := nx\<rparr>"
  have "pick_next_task s = (case sd_ready s of [] \<Rightarrow> None | t # _ \<Rightarrow> Some t, s\<lparr>sd_ready := tl (sd_ready s)\<rparr>)"
    by (cases "sd_ready s") (simp_all add: pick_next_task_def)
  then have e: "resched s = (Ok (), s')"
    using nx by (cases "sd_ready s") (simp_all add: resched_def s'_def switch_to_def nx_def task_state_def Let_def)
  have st: "task_state t s' = (if t = nx then Running else task_state t s)" for t
    by (simp add: s'_def state_ops)
  have o: "only_states s s'" by (simp add: only_states_def s'_def state_ops)
  have "ready_ok s'"
  proof (cases "sd_ready s")
    case Nil
    then have "nx = sd_idle s" "sd_ready s' = []" "sd_ids s' = sd_ids s" "sd_idle s' = sd_idle s"
      by (simp_all add: nx_def s'_def set_state_def)
    then show ?thesis using ready_iff [OF r] Nil by (simp add: ready_ok_def st)
  next
    case (Cons a q)
    then have "nx = a" by (simp add: nx_def)
    have "sd_ready s' = q" "sd_ids s' = sd_ids s" "sd_idle s' = sd_idle s" using Cons by (simp_all add: s'_def set_state_def)
    moreover have "distinct (a # q)" using r Cons by (simp add: ready_ok_def)
    moreover have "t = a \<or> t \<in> set q \<longleftrightarrow> t \<in> set (sd_ids s) \<and> task_state t s = Ready \<and> t \<noteq> sd_idle s" for t
      using ready_iff [OF r, of t] Cons by simp
    ultimately show ?thesis unfolding ready_ok_def st \<open>nx = a\<close> by auto
  qed
  then have "base_inv s' pc" using nx id by (intro base_inv_states [OF inv o]) (auto simp: st split: if_splits)
  moreover have "runs s' = {nx}" using nx nr only_states_same(1) [OF o] by (auto simp: runs_def st split: if_splits)
  moreover have "sd_current s' = nx" "sd_ready s' = tl (sd_ready s)" by (simp_all add: s'_def set_state_def)
  ultimately show ?thesis using e o by (auto simp: sched_inv_def nx_def)
qed

lemma unblock_task_inv:
  assumes inv: "base_inv s pc" and t: "t \<in> set (sd_ids s)"
    and a: "pc t = None \<Longrightarrow> \<not> armed s t" and w: "\<And>q. pc t = Some (q, False) \<Longrightarrow> t \<notin> set (sd_wq s q)"
  shows "base_inv (unblock_task t s) pc \<and> runs (unblock_task t s) = runs s \<and> sd_current (unblock_task t s) = sd_current s
    \<and> only_states s (unblock_task t s)"
proof (cases "task_state t s = Blocked")
  case False
  then show ?thesis using inv by (simp add: unblock_task_def put_task_with_state_def transition_state_def only_states_def)
next
  case True
  have r: "ready_ok s" and i: "idle_ok s" using inv by (simp_all add: base_inv_def)
  have ni: "t \<noteq> sd_idle s" "\<not> tk_idle (sd_task s t)" using i t True by (auto simp: idle_ok_def)
  define s' where "s' = (set_state Ready t s)\<lparr>sd_ready := sd_ready s @ [t]\<rparr>"
  have u: "unblock_task t s = s'"
    using True ni by (simp add: unblock_task_def put_task_with_state_def transition_state_def s'_def sched_push_def
        set_state_def)
  have st: "task_state x s' = (if x = t then Ready else task_state x s)" for x
    by (simp add: s'_def state_ops)
  have o: "only_states s s'" by (simp add: only_states_def s'_def state_ops)
  have f: "sd_ready s' = sd_ready s @ [t]" "sd_current s' = sd_current s" by (simp_all add: s'_def set_state_def)
  have "distinct (sd_ready s)" "t \<notin> set (sd_ready s)" using r ready_iff [OF r, of t] True by (simp_all add: ready_ok_def)
  then have "ready_ok s'" unfolding ready_ok_def f only_states_same [OF o] st using ready_iff [OF r] t ni by auto
  then have "base_inv s' pc" using i True ni a w
    by (intro base_inv_states [OF inv o]) (auto simp: st idle_ok_def split: if_splits)
  moreover have "runs s' = runs s" using True by (auto simp: runs_def st only_states_same [OF o])
  ultimately show ?thesis using u o f by simp
qed

section \<open>Switching away from the current task\<close>

lemma sched_invD:
  assumes "sched_inv (s, pc)"
  shows "base_inv s pc" "runs s = {sd_current s}" "sd_current s \<in> set (sd_ids s)" "task_state (sd_current s) s = Running"
    "\<And>t. t \<in> set (sd_ids s) \<Longrightarrow> task_state t s = Running \<Longrightarrow> t = sd_current s"
proof -
  show b: "base_inv s pc" and r: "runs s = {sd_current s}" using assms by (simp_all add: sched_inv_def)
  have "sd_current s \<in> runs s" using r by simp
  then show "sd_current s \<in> set (sd_ids s)" "task_state (sd_current s) s = Running" by (simp_all add: runs_def)
  show "t = sd_current s" if "t \<in> set (sd_ids s)" "task_state t s = Running" for t
  proof -
    have "t \<in> runs s" using that by (simp add: runs_def)
    with r show ?thesis by simp
  qed
qed

lemma base_invD:
  assumes "base_inv s pc"
  shows "ready_ok s" "idle_ok s" "wq_ok s pc" "timer_ok s pc"
    "\<And>t. t \<in> set (sd_exited s) \<Longrightarrow> task_state t s = Exited \<and> t \<in> set (sd_ids s)" "sd_next_ticket s \<noteq> 0"
  using assms by (simp_all add: base_inv_def)

lemma yield_current_inv:
  assumes inv: "sched_inv (s, pc)"
  shows "\<exists>s'. yield_current s = (Ok (), s') \<and> sched_inv (s', pc) \<and> only_states s s'
    \<and> sd_current s' # sd_ready s' =
        (let q = (if sd_current s = sd_idle s then sd_ready s else sd_ready s @ [sd_current s]) in
         if q = [] then [sd_idle s] else q)"
proof -
  note c = sched_invD [OF inv]
  note b = base_invD [OF c(1)]
  let ?c = "sd_current s"
  define s1 where "s1 = snd (put_task_with_state ?c Running s)"
  have idl: "tk_idle (sd_task s ?c) \<longleftrightarrow> ?c = sd_idle s" using b(2) c(3) by (simp add: idle_ok_def)
  have s1: "s1 = (if ?c = sd_idle s then set_state Ready ?c s else sched_push ?c (set_state Ready ?c s))"
    using c(4) idl unfolding s1_def put_task_with_state_def transition_state_def
    by (cases "?c = sd_idle s") (simp_all add: set_state_def)
  have st: "task_state t s1 = (if t = ?c then Ready else task_state t s)" for t by (simp add: s1 sched_push_def state_ops)
  have o: "only_states s s1" by (simp add: only_states_def s1 sched_push_def state_ops)
  have f: "sd_ready s1 = (if ?c = sd_idle s then sd_ready s else sd_ready s @ [?c])"
    by (simp add: s1 sched_push_def set_state_def)
  have "distinct (sd_ready s)" "?c \<notin> set (sd_ready s)" using b(1) ready_iff [OF b(1), of ?c] c(4) by (simp_all add: ready_ok_def)
  then have "ready_ok s1" unfolding ready_ok_def f only_states_same [OF o] st using ready_iff [OF b(1)] c(3) by auto
  then have b1: "base_inv s1 pc" using b(2) c(4)
    by (intro base_inv_states [OF c(1) o]) (auto simp: st idle_ok_def split: if_splits)
  have "runs s1 = {}" using c(5) by (auto simp: runs_def st only_states_same [OF o])
  from resched_inv [OF b1 this] obtain s' where s': "resched s1 = (Ok (), s')" "sched_inv (s', pc)"
    "sd_current s' = (case sd_ready s1 of [] \<Rightarrow> sd_idle s1 | t # _ \<Rightarrow> t)" "sd_ready s' = tl (sd_ready s1)" "only_states s1 s'"
    by blast
  have "yield_current s = (Ok (), s')" using c(4) s'(1) by (simp add: yield_current_def s1_def)
  moreover have "only_states s s'" using o s'(5) by (simp add: only_states_def)
  moreover have "sd_current s' # sd_ready s' = (if sd_ready s1 = [] then [sd_idle s] else sd_ready s1)"
    using s'(3,4) only_states_same(2) [OF o] by (cases "sd_ready s1") simp_all
  ultimately show ?thesis using s'(2) unfolding f Let_def by blast
qed

text \<open>The invariant with the current task about to block: its own timer may be set already.\<close>

definition pre_inv :: "sched \<Rightarrow> pcs \<Rightarrow> bool" where
  "pre_inv s pc \<longleftrightarrow> ready_ok s \<and> idle_ok s \<and> wq_ok s pc \<and> runs s = {sd_current s}
     \<and> distinct (map ev_ticket (sd_timers s))
     \<and> (\<forall>e \<in> set (sd_timers s). ev_ticket e \<noteq> 0 \<and> ev_ticket e < sd_next_ticket s \<and> ev_task e \<in> set (sd_ids s))
     \<and> (\<forall>t. t \<noteq> sd_current s \<longrightarrow> armed s t \<longrightarrow> pc t = None \<and> task_state t s = Blocked \<or> (\<exists>q. pc t = Some (q, True)))
     \<and> (\<forall>t \<in> set (sd_ids s). task_state t s = Blocked \<longrightarrow> queued s t \<or> armed s t)
     \<and> (\<forall>t \<in> set (sd_exited s). task_state t s = Exited \<and> t \<in> set (sd_ids s)) \<and> sd_next_ticket s \<noteq> 0"

lemma pre_inv_sched: "sched_inv (s, pc) \<Longrightarrow> pre_inv s pc"
  unfolding pre_inv_def sched_inv_def base_inv_def timer_ok_def by simp

lemma pre_invD:
  assumes "pre_inv s pc"
  shows "ready_ok s" "idle_ok s" "wq_ok s pc" "sd_current s \<in> set (sd_ids s)" "task_state (sd_current s) s = Running"
    "\<And>t. t \<in> set (sd_ids s) \<Longrightarrow> task_state t s = Running \<Longrightarrow> t = sd_current s"
proof -
  show "ready_ok s" "idle_ok s" "wq_ok s pc" using assms by (simp_all add: pre_inv_def)
  have r: "runs s = {sd_current s}" using assms by (simp add: pre_inv_def)
  then have "sd_current s \<in> runs s" by simp
  then show "sd_current s \<in> set (sd_ids s)" "task_state (sd_current s) s = Running" by (simp_all add: runs_def)
  show "t = sd_current s" if "t \<in> set (sd_ids s)" "task_state t s = Running" for t
  proof -
    have "t \<in> runs s" using that by (simp add: runs_def)
    with r show ?thesis by simp
  qed
qed

lemma block_inv:
  assumes inv: "pre_inv s pc" and ni: "sd_current s \<noteq> sd_idle s"
    and pc: "pc (sd_current s) = None \<or> pc (sd_current s) = Some (q, False)"
    and ar: "b \<or> \<not> armed s (sd_current s)"
  shows "\<exists>s'. blocked_resched q s = (Ok (), s') \<and> sched_inv (s', pc(sd_current s := Some (q, b)))"
proof -
  note v = pre_invD [OF inv]
  note c = v(1,2,4,5,6)
  let ?c = "sd_current s" and ?pc = "pc(sd_current s := Some (q, b))"
  define s1 where "s1 = (set_in_wait_queue True ?c (set_state Blocked ?c s))\<lparr>sd_wq := (sd_wq s)(q := sd_wq s q @ [?c])\<rparr>"
  have idl: "\<not> tk_idle (sd_task s ?c)" using v(2) c(3) ni by (simp add: idle_ok_def)
  have e: "blocked_resched q s = resched s1"
    using c(4) idl by (simp add: blocked_resched_def Let_def s1_def set_in_wait_queue_def set_state_def)
  have st: "task_state t s1 = (if t = ?c then Blocked else task_state t s)" for t by (simp add: s1_def state_ops)
  have nq: "?c \<notin> set (sd_wq s q')" for q'
    using v(3) pc c(4) unfolding wq_ok_def by (metis option.distinct(1) option.inject prod.inject tstate.distinct(3))
  have f: "sd_ids s1 = sd_ids s" "sd_idle s1 = sd_idle s" "sd_ready s1 = sd_ready s" "sd_timers s1 = sd_timers s"
    "sd_next_ticket s1 = sd_next_ticket s" "sd_exited s1 = sd_exited s"
    "\<And>t. tk_idle (sd_task s1 t) = tk_idle (sd_task s t)" "\<And>t. tk_ticket (sd_task s1 t) = tk_ticket (sd_task s t)"
    "\<And>t. tk_in_wq (sd_task s1 t) = (t = ?c \<or> tk_in_wq (sd_task s t))"
    "\<And>q'. sd_wq s1 q' = (if q' = q then sd_wq s q @ [?c] else sd_wq s q')"
    by (simp_all add: s1_def state_ops)
  have q1: "queued s1 t \<longleftrightarrow> t = ?c \<or> queued s t" for t by (auto simp: queued_def f)
  have a1: "armed s1 t = armed s t" for t by (simp add: armed_def f)
  have "ready_ok s1" using v(1) c(4) unfolding ready_ok_def f st by auto
  moreover have "idle_ok s1" using v(2) ni unfolding idle_ok_def f st by auto
  moreover have "wq_ok s1 ?pc"
  proof -
    have "distinct (sd_wq s1 q')" for q' using v(3) nq by (simp add: wq_ok_def f)
    moreover have "t \<in> set (sd_ids s) \<and> (\<exists>b. ?pc t = Some (q', b))" if "t \<in> set (sd_wq s1 q')" for t q'
      using that v(3) c(3) nq unfolding wq_ok_def f by (cases "t = ?c") (auto split: if_splits)
    moreover have "tk_in_wq (sd_task s1 t) \<longleftrightarrow> queued s1 t" if "t \<in> set (sd_ids s)" for t
      using that v(3) unfolding wq_ok_def f q1 by blast
    moreover have "t \<notin> set (sd_wq s1 q')" if "?pc t = Some (q', False)" "task_state t s1 \<noteq> Blocked" for t q'
      using that v(3) unfolding wq_ok_def f st by (auto split: if_splits)
    moreover have "t \<in> set (sd_ids s) \<and> t \<noteq> sd_idle s \<and> task_state t s1 \<noteq> Exited" if "?pc t \<noteq> None" for t
      using that v(3) c(3) ni unfolding wq_ok_def st by (auto split: if_splits)
    ultimately show ?thesis unfolding wq_ok_def f(1,2) by blast
  qed
  moreover have "timer_ok s1 ?pc"
  proof -
    have "?pc t = None \<and> task_state t s1 = Blocked \<or> (\<exists>q. ?pc t = Some (q, True))" if "armed s t" for t
      using that inv ar unfolding pre_inv_def st by (cases "t = ?c") auto
    moreover have "queued s1 t \<or> armed s t" if "t \<in> set (sd_ids s)" "task_state t s1 = Blocked" for t
      using that inv unfolding pre_inv_def st q1 by (auto split: if_splits)
    ultimately show ?thesis using inv unfolding timer_ok_def pre_inv_def f a1 by blast
  qed
  moreover have "\<forall>t \<in> set (sd_exited s1). task_state t s1 = Exited \<and> t \<in> set (sd_ids s1)"
    using inv c(4) unfolding pre_inv_def f st by fastforce
  ultimately have "base_inv s1 ?pc" using inv unfolding base_inv_def pre_inv_def f by blast
  moreover have "runs s1 = {}" using c(5) by (auto simp: runs_def st f)
  ultimately show ?thesis using resched_inv [of s1 ?pc] e by auto
qed


section \<open>Waking tasks\<close>

lemma dequeue_inv:
  assumes inv: "base_inv s pc" and t: "t \<in> set (sd_wq s q)"
  shows "base_inv (unblock_one_task t (s\<lparr>sd_wq := (sd_wq s)(q := remove1 t (sd_wq s q))\<rparr>)) pc
    \<and> runs (unblock_one_task t (s\<lparr>sd_wq := (sd_wq s)(q := remove1 t (sd_wq s q))\<rparr>)) = runs s
    \<and> sd_current (unblock_one_task t (s\<lparr>sd_wq := (sd_wq s)(q := remove1 t (sd_wq s q))\<rparr>)) = sd_current s"
proof -
  note v = base_invD [OF inv]
  obtain b where b: "t \<in> set (sd_ids s)" "pc t = Some (q, b)" using v(3) t unfolding wq_ok_def by blast
  have d: "distinct (sd_wq s q')" for q' using v(3) by (simp add: wq_ok_def)
  have u: "t \<notin> set (sd_wq s q')" if "q' \<noteq> q" for q'
    using v(3) b(2) that unfolding wq_ok_def by fastforce
  define s1 where "s1 = set_in_wait_queue False t (s\<lparr>sd_wq := (sd_wq s)(q := remove1 t (sd_wq s q))\<rparr>)"
  have f: "sd_ids s1 = sd_ids s" "sd_idle s1 = sd_idle s" "sd_ready s1 = sd_ready s" "sd_timers s1 = sd_timers s"
    "sd_next_ticket s1 = sd_next_ticket s" "sd_exited s1 = sd_exited s" "sd_current s1 = sd_current s"
    "\<And>x. tk_idle (sd_task s1 x) = tk_idle (sd_task s x)" "\<And>x. tk_ticket (sd_task s1 x) = tk_ticket (sd_task s x)"
    "\<And>x. tk_in_wq (sd_task s1 x) = (x \<noteq> t \<and> tk_in_wq (sd_task s x))" "\<And>x. task_state x s1 = task_state x s"
    "\<And>q'. sd_wq s1 q' = (if q' = q then remove1 t (sd_wq s q) else sd_wq s q')"
    by (simp_all add: s1_def state_ops)
  have m: "x \<in> set (sd_wq s1 q') \<longleftrightarrow> x \<noteq> t \<and> x \<in> set (sd_wq s q')" for x q'
    using u [of q'] d [of q] by (auto simp: f)
  have q1: "queued s1 x \<longleftrightarrow> x \<noteq> t \<and> queued s x" for x unfolding queued_def m by blast
  have a1: "armed s1 x = armed s x" for x by (simp add: armed_def f)
  have blk: "task_state t s = Blocked \<Longrightarrow> queued s t" using t by (auto simp: queued_def)
  define s2 where "s2 = unblock_task t s1"
  have st2: "task_state x s2 = (if x = t \<and> task_state t s = Blocked then Ready else task_state x s)" for x
    using f(11) by (simp add: s2_def unblock_task_def put_task_with_state_def transition_state_def sched_push_def
        set_state_def task_state_def)
  have nid: "\<not> tk_idle (sd_task s t)" using v(2,3) b unfolding idle_ok_def wq_ok_def by blast
  have r2: "sd_ready s2 = (if task_state t s = Blocked then sd_ready s @ [t] else sd_ready s)"
    using nid f by (simp add: s2_def unblock_task_def put_task_with_state_def transition_state_def sched_push_def set_state_def)
  have o2: "only_states s1 s2"
    by (simp add: s2_def unblock_task_def put_task_with_state_def transition_state_def sched_push_def state_ops only_states_def)
  note f2 = only_states_same [OF o2, unfolded f q1 a1]
  have c2: "sd_current s2 = sd_current s"
    using f(7) by (simp add: s2_def unblock_task_def put_task_with_state_def transition_state_def sched_push_def state_ops)
  have "distinct (sd_ready s)" "task_state t s = Blocked \<Longrightarrow> t \<notin> set (sd_ready s)"
    using v(1) ready_iff [OF v(1), of t] by (simp_all add: ready_ok_def)
  moreover have "t \<noteq> sd_idle s" using v(3) b unfolding wq_ok_def by blast
  ultimately have "ready_ok s2" unfolding ready_ok_def r2 f2 st2 using ready_iff [OF v(1)] b(1) by auto
  moreover have "idle_ok s2" using v(2) \<open>t \<noteq> sd_idle s\<close> unfolding idle_ok_def f2 st2 by auto
  moreover have "wq_ok s2 pc"
  proof -
    have m2: "x \<in> set (sd_wq s2 q') \<longleftrightarrow> x \<noteq> t \<and> x \<in> set (sd_wq s q')" for x q'
      using m [of x q'] only_states_same(3) [OF o2] by simp
    have "distinct (sd_wq s2 q')" for q' using d by (simp add: f2 distinct_remove1)
    moreover have "x \<in> set (sd_ids s) \<and> (\<exists>b. pc x = Some (q', b))" if "x \<in> set (sd_wq s2 q')" for x q'
      using that v(3) unfolding wq_ok_def m2 by blast
    moreover have "tk_in_wq (sd_task s2 x) \<longleftrightarrow> queued s2 x" if "x \<in> set (sd_ids s)" for x
      using that v(3) unfolding wq_ok_def f2 by blast
    moreover have "x \<notin> set (sd_wq s2 q')" if "pc x = Some (q', False)" "task_state x s2 \<noteq> Blocked" for x q'
      using that v(3) unfolding wq_ok_def m2 st2 by (auto split: if_splits)
    moreover have "x \<in> set (sd_ids s) \<and> x \<noteq> sd_idle s \<and> task_state x s2 \<noteq> Exited" if "pc x \<noteq> None" for x
      using that v(3) unfolding wq_ok_def st2 by auto
    ultimately show ?thesis unfolding wq_ok_def f2(1,2) by blast
  qed
  moreover have "timer_ok s2 pc"
  proof -
    have "pc x = None \<and> task_state x s2 = Blocked \<or> (\<exists>q. pc x = Some (q, True))" if "armed s x" for x
      using that v(4) b(2) unfolding timer_ok_def st2 by fastforce
    moreover have "(x \<noteq> t \<and> queued s x) \<or> armed s x" if "x \<in> set (sd_ids s)" "task_state x s2 = Blocked" for x
      using that v(4) unfolding timer_ok_def st2 by (auto split: if_splits)
    ultimately show ?thesis using v(4) unfolding timer_ok_def f2 by blast
  qed
  moreover have "\<forall>x \<in> set (sd_exited s2). task_state x s2 = Exited \<and> x \<in> set (sd_ids s2)"
    using v(5) unfolding f2 st2 by fastforce
  ultimately have "base_inv s2 pc" using v(6) unfolding base_inv_def f2 by blast
  moreover have "runs s2 = runs s" by (auto simp: runs_def f2 st2)
  ultimately show ?thesis using c2 unfolding s2_def s1_def unblock_one_task_def by simp
qed

lemma notify_one_inv:
  assumes "base_inv s pc" and "notify_one q s = (r, s')"
  shows "base_inv s' pc \<and> runs s' = runs s \<and> sd_current s' = sd_current s"
  using assms dequeue_inv [OF assms(1), of "hd (sd_wq s q)" q]
  by (auto simp: notify_one_def split: list.splits)

lemma notify_all_inv:
  "base_inv s pc \<Longrightarrow> base_inv (notify_all q s) pc \<and> runs (notify_all q s) = runs s \<and> sd_current (notify_all q s) = sd_current s"
proof (induction q s rule: notify_all.induct)
  case (1 q s)
  obtain r s1 where n: "notify_one q s = (r, s1)" by fastforce
  note i = notify_one_inv [OF "1.prems" n]
  show ?case
  proof (cases r)
    case True
    with "1.IH" [OF n [symmetric]] i n show ?thesis by (subst (1 2 3) notify_all.simps) simp
  next
    case False
    with i n show ?thesis by (subst (1 2 3) notify_all.simps) simp
  qed
qed

lemma position_remove1:
  "position (\<lambda>x. x = t) xs = Some i \<Longrightarrow> xs ! i = t \<and> take i xs @ drop (Suc i) xs = remove1 t xs \<and> t \<in> set xs"
  by (induction xs arbitrary: i) (auto split: if_splits)

lemma notify_task_inv:
  assumes inv: "base_inv s pc" and n: "notify_task q t s = (r, s')"
  shows "base_inv s' pc \<and> runs s' = runs s \<and> sd_current s' = sd_current s"
proof (cases "position (\<lambda>x. x = t) (sd_wq s q)")
  case None
  with n inv show ?thesis by (simp add: notify_task_def)
next
  case (Some i)
  note p = position_remove1 [OF Some]
  have "s' = unblock_one_task t (s\<lparr>sd_wq := (sd_wq s)(q := remove1 t (sd_wq s q))\<rparr>)"
    using n Some p by (simp add: notify_task_def)
  with dequeue_inv [OF inv, of t q] p show ?thesis by simp
qed

section \<open>Timers\<close>

lemma set_timer_insert [simp]: "set (timer_insert e es) = insert e (set es)"
  by (induction es) auto

lemma distinct_timer_insert:
  "distinct (map ev_ticket (timer_insert e es)) \<longleftrightarrow> ev_ticket e \<notin> ev_ticket ` set es \<and> distinct (map ev_ticket es)"
  by (induction es) auto

lemma pop_timer_inv:
  assumes inv: "base_inv s pc" and e: "sd_timers s = e # es"
  shows "base_inv (timer_callback e (s\<lparr>sd_timers := es\<rparr>)) pc
    \<and> runs (timer_callback e (s\<lparr>sd_timers := es\<rparr>)) = runs s
    \<and> sd_current (timer_callback e (s\<lparr>sd_timers := es\<rparr>)) = sd_current s"
proof -
  note v = base_invD [OF inv]
  let ?s = "s\<lparr>sd_timers := es\<rparr>"
  obtain d n t where et: "e = TimerEvent d n t" by (cases e)
  have u: "n \<notin> ev_ticket ` set es" using v(4) et e by (simp add: timer_ok_def)
  have t: "t \<in> set (sd_ids s)" using v(4) et e by (simp add: timer_ok_def)
  have st: "task_state x ?s = task_state x s" "queued ?s x = queued s x" for x by (simp_all add: task_state_def queued_def)
  have ar: "armed s x \<longleftrightarrow> armed ?s x \<or> x = t \<and> tk_ticket (sd_task s t) = n" for x
    by (auto simp: armed_def e et)
  have part: "ready_ok ?s" "idle_ok ?s" "wq_ok ?s pc"
    using v(1,2,3) unfolding ready_ok_def idle_ok_def wq_ok_def st by simp_all
  show ?thesis
  proof (cases "tk_ticket (sd_task s t) = n")
    case False
    then have "armed s x = armed ?s x" for x using ar by simp
    then have "timer_ok ?s pc" using v(4) e unfolding timer_ok_def st by auto
    then have "base_inv ?s pc" using part v(5,6) unfolding base_inv_def st by simp
    moreover have "runs ?s = runs s" by (simp add: runs_def st)
    ultimately show ?thesis using False by (simp add: timer_callback_def et)
  next
    case True
    have na: "\<not> armed ?s t" 
    proof
      assume "armed ?s t"
      then obtain e' where "e' \<in> set es" "ev_ticket e' = n" using True by (auto simp: armed_def)
      with u show False by blast
    qed
    have at: "armed s t" using True by (simp add: ar)
    have pt: "pc t = None \<and> task_state t s = Blocked \<or> (\<exists>q. pc t = Some (q, True))" using v(4) at by (simp add: timer_ok_def)
    define s2 where "s2 = unblock_task t ?s"
    have st2: "task_state x s2 = (if x = t \<and> task_state t s = Blocked then Ready else task_state x s)" for x
      using st by (simp add: s2_def unblock_task_def put_task_with_state_def transition_state_def sched_push_def
          set_state_def task_state_def)
    have ni: "t \<noteq> sd_idle s" using v(2,3) pt unfolding idle_ok_def wq_ok_def by (metis option.distinct(1) tstate.distinct(3) tstate.distinct(7))
    have nid: "\<not> tk_idle (sd_task s t)" using v(2) t ni by (simp add: idle_ok_def)
    have r2: "sd_ready s2 = (if task_state t s = Blocked then sd_ready s @ [t] else sd_ready s)"
      using nid st by (simp add: s2_def unblock_task_def put_task_with_state_def transition_state_def sched_push_def set_state_def)
    have o2: "only_states ?s s2"
      by (simp add: s2_def unblock_task_def put_task_with_state_def transition_state_def sched_push_def state_ops only_states_def)
    have c2: "sd_current s2 = sd_current s"
      by (simp add: s2_def unblock_task_def put_task_with_state_def transition_state_def sched_push_def state_ops)
    have f2: "sd_ids s2 = sd_ids s" "sd_idle s2 = sd_idle s" "sd_wq s2 = sd_wq s" "sd_timers s2 = es"
      "sd_next_ticket s2 = sd_next_ticket s" "sd_exited s2 = sd_exited s" "tk_idle (sd_task s2 x) = tk_idle (sd_task s x)"
      "tk_in_wq (sd_task s2 x) = tk_in_wq (sd_task s x)" "queued s2 x = queued s x" "armed s2 x = armed ?s x" for x
      using only_states_same [OF o2] st by simp_all
    have "distinct (sd_ready s)" "task_state t s = Blocked \<Longrightarrow> t \<notin> set (sd_ready s)"
      using v(1) ready_iff [OF v(1), of t] by (simp_all add: ready_ok_def)
    then have "ready_ok s2" unfolding ready_ok_def r2 f2 st2 using ready_iff [OF v(1)] t ni by auto
    moreover have "idle_ok s2" using v(2) ni unfolding idle_ok_def f2 st2 by auto
    moreover have "wq_ok s2 pc"
    proof -
      have "x \<notin> set (sd_wq s q)" if "pc x = Some (q, False)" "task_state x s2 \<noteq> Blocked" for x q
        using that v(3) pt unfolding wq_ok_def st2 by (auto split: if_splits)
      moreover have "x \<in> set (sd_ids s) \<and> x \<noteq> sd_idle s \<and> task_state x s2 \<noteq> Exited" if "pc x \<noteq> None" for x
        using that v(3) unfolding wq_ok_def st2 by auto
      ultimately show ?thesis using v(3) unfolding wq_ok_def f2 by blast
    qed
    moreover have "timer_ok s2 pc"
    proof -
      have "pc x = None \<and> task_state x s2 = Blocked \<or> (\<exists>q. pc x = Some (q, True))" if "armed ?s x" for x
        using that v(4) ar na unfolding timer_ok_def st2 by auto
      moreover have "queued s x \<or> armed ?s x" if "x \<in> set (sd_ids s)" "task_state x s2 = Blocked" for x
        using that v(4) ar unfolding timer_ok_def st2 by (auto split: if_splits)
      ultimately show ?thesis using v(4) e unfolding timer_ok_def f2 by auto
    qed
    moreover have "\<forall>x \<in> set (sd_exited s2). task_state x s2 = Exited \<and> x \<in> set (sd_ids s2)"
      using v(5) unfolding f2 st2 by fastforce
    ultimately have "base_inv s2 pc" using v(6) unfolding base_inv_def f2 by blast
    moreover have "runs s2 = runs s" by (auto simp: runs_def f2 st2)
    ultimately show ?thesis using True c2 by (simp add: timer_callback_def et s2_def)
  qed
qed

lemma check_events_inv:
  "base_inv s pc \<Longrightarrow> base_inv (check_events clk i s) pc \<and> runs (check_events clk i s) = runs s
     \<and> sd_current (check_events clk i s) = sd_current s"
proof (induction clk i s rule: check_events.induct)
  case (1 clk i s)
  obtain r s1 where x: "expire_one (clk i) s = (r, s1)" by fastforce
  show ?case
  proof (cases r)
    case None
    then have "s1 = s" using x by (auto simp: expire_one_def split: list.splits if_splits)
    with 1 None x show ?thesis by (subst (1 2 3) check_events.simps) simp
  next
    case (Some e)
    then obtain es where es: "sd_timers s = e # es" "s1 = s\<lparr>sd_timers := es\<rparr>"
      using x by (auto simp: expire_one_def split: list.splits if_splits)
    note p = pop_timer_inv [OF "1.prems" es(1)]
    show ?thesis using "1.IH" [OF x [symmetric] Some] p Some x es(2) by (subst (1 2 3) check_events.simps) simp
  qed
qed

section \<open>Sleeping and waiting with a timeout\<close>

lemma alarm_inv:
  assumes inv: "sched_inv (s, pc)" and n: "sd_next_ticket s + 1 \<noteq> 0"
  shows "\<exists>s1. set_alarm_wakeup dl (sd_current s) s = (Ok (), s1) \<and> pre_inv s1 pc \<and> armed s1 (sd_current s)
    \<and> sd_current s1 = sd_current s \<and> sd_idle s1 = sd_idle s"
proof -
  note c = sched_invD [OF inv]
  note v = base_invD [OF c(1)]
  let ?c = "sd_current s" and ?n = "sd_next_ticket s"
  let ?e = "TimerEvent dl ?n ?c"
  define s1 where "s1 = (upd_task ?c (tk_ticket_update (\<lambda>_. ?n)) (s\<lparr>sd_next_ticket := ?n + 1\<rparr>))
      \<lparr>sd_timers := timer_insert ?e (sd_timers s)\<rparr>"
  have e: "set_alarm_wakeup dl ?c s = (Ok (), s1)"
    using v(6) by (simp add: set_alarm_wakeup_def s1_def Let_def)
  have f: "sd_ids s1 = sd_ids s" "sd_idle s1 = sd_idle s" "sd_wq s1 = sd_wq s" "sd_ready s1 = sd_ready s"
    "sd_exited s1 = sd_exited s" "sd_current s1 = ?c" "sd_timers s1 = timer_insert ?e (sd_timers s)" "sd_next_ticket s1 = ?n + 1"
    "tk_idle (sd_task s1 x) = tk_idle (sd_task s x)" "tk_in_wq (sd_task s1 x) = tk_in_wq (sd_task s x)"
    "task_state x s1 = task_state x s" "queued s1 x = queued s x" for x
    by (simp_all add: s1_def task_state_def queued_def)
  have tick: "tk_ticket (sd_task s1 x) = (if x = ?c then ?n else tk_ticket (sd_task s x))" for x by (simp add: s1_def)
  have ac: "armed s1 ?c" unfolding armed_def f tick by (intro bexI [of _ ?e]) simp_all
  have ax: "armed s1 x = armed s x" if "x \<noteq> ?c" for x using that by (auto simp: armed_def f tick)
  have lt: "?n < ?n + 1" using unatSuc [of ?n] n by (simp add: word_less_nat_alt add.commute)
  have ev: "ev_ticket x \<noteq> 0 \<and> ev_ticket x < ?n \<and> ev_task x \<in> set (sd_ids s)" if "x \<in> set (sd_timers s)" for x
    using that v(4) by (simp add: timer_ok_def)
  have "distinct (map ev_ticket (sd_timers s1))"
    using v(4) ev by (force simp: f distinct_timer_insert timer_ok_def)
  moreover have "ev_ticket x \<noteq> 0 \<and> ev_ticket x < ?n + 1 \<and> ev_task x \<in> set (sd_ids s)" if "x \<in> set (sd_timers s1)" for x
    using that ev [of x] lt v(6) c(3) less_trans [of "ev_ticket x" ?n "?n + 1"] by (auto simp: f)
  moreover have "pc t = None \<and> task_state t s = Blocked \<or> (\<exists>q. pc t = Some (q, True))" if "t \<noteq> ?c" "armed s1 t" for t
    using that ax v(4) by (simp add: timer_ok_def)
  moreover have "queued s t \<or> armed s1 t" if "t \<in> set (sd_ids s)" "task_state t s = Blocked" for t
    using that v(4) ax c(4) by (cases "t = ?c") (auto simp: timer_ok_def)
  moreover have "ready_ok s1" "idle_ok s1" "wq_ok s1 pc" "runs s1 = {?c}"
    using v(1,2,3) c(2) unfolding ready_ok_def idle_ok_def wq_ok_def runs_def f by simp_all
  ultimately have "pre_inv s1 pc" using v(5) n unfolding pre_inv_def f by simp
  with e ac f show ?thesis by blast
qed

lemma sleep_resched_inv:
  assumes inv: "pre_inv s pc" and ni: "sd_current s \<noteq> sd_idle s" and pc: "pc (sd_current s) = None"
    and ar: "armed s (sd_current s)"
  shows "\<exists>s'. resched (set_state Blocked (sd_current s) s) = (Ok (), s') \<and> sched_inv (s', pc)"
proof -
  note v = pre_invD [OF inv]
  let ?c = "sd_current s"
  let ?s = "set_state Blocked ?c s"
  have st: "task_state t ?s = (if t = ?c then Blocked else task_state t s)" for t by (simp add: state_ops)
  have o: "only_states s ?s" by (simp add: only_states_def state_ops)
  note f = only_states_same [OF o]
  have r: "sd_ready ?s = sd_ready s" by (simp add: set_state_def)
  have nq: "?c \<notin> set (sd_ready s)" using ready_iff [OF v(1), of ?c] v(5) by simp
  have "ready_ok ?s" using v(1) nq unfolding ready_ok_def f r st by auto
  moreover have "idle_ok ?s" using v(2) ni unfolding idle_ok_def f st by auto
  moreover have "wq_ok ?s pc" using v(3) pc unfolding wq_ok_def f st by auto
  moreover have "timer_ok ?s pc" using inv pc ar unfolding timer_ok_def pre_inv_def f st by auto
  moreover have "\<forall>t \<in> set (sd_exited ?s). task_state t ?s = Exited \<and> t \<in> set (sd_ids ?s)"
    using inv v(5) unfolding pre_inv_def f st by fastforce
  ultimately have "base_inv ?s pc" using inv unfolding base_inv_def pre_inv_def f by blast
  moreover have "runs ?s = {}" using v(6) by (auto simp: runs_def st f)
  ultimately show ?thesis using resched_inv by blast
qed

lemma sleep_until_inv:
  assumes inv: "sched_inv (s, pc)" and ni: "sd_current s \<noteq> sd_idle s" and pc: "pc (sd_current s) = None"
    and n: "sd_next_ticket s + 1 \<noteq> 0"
  shows "\<exists>s'. sleep_until dl now s = (Ok (), s') \<and> sched_inv (s', pc)"
proof -
  note c = sched_invD [OF inv]
  have idl: "\<not> tk_idle (sd_task s (sd_current s))"
    using base_invD(2) [OF c(1)] c(3) ni by (simp add: idle_ok_def)
  obtain s1 where s1: "set_alarm_wakeup dl (sd_current s) s = (Ok (), s1)" "pre_inv s1 pc" "armed s1 (sd_current s)"
    "sd_current s1 = sd_current s" "sd_idle s1 = sd_idle s" using alarm_inv [OF inv n] by blast
  from sleep_resched_inv [of s1 pc] s1 ni pc
  obtain s' where "resched (set_state Blocked (sd_current s) s1) = (Ok (), s')" "sched_inv (s', pc)" by auto
  with s1(1) c(4) idl inv show ?thesis by (auto simp: sleep_until_def Let_def)
qed

lemma wait_timeout_inv:
  assumes inv: "sched_inv (s, pc)" and ni: "sd_current s \<noteq> sd_idle s" and pc: "pc (sd_current s) = None"
    and n: "sd_next_ticket s + 1 \<noteq> 0"
  shows "\<exists>s'. wait_timeout q dl s = (Ok (), s') \<and> sched_inv (s', pc(sd_current s := Some (q, True)))"
proof -
  obtain s1 where s1: "set_alarm_wakeup dl (sd_current s) s = (Ok (), s1)" "pre_inv s1 pc" "armed s1 (sd_current s)"
    "sd_current s1 = sd_current s" "sd_idle s1 = sd_idle s" using alarm_inv [OF inv n] by blast
  with block_inv [of s1 pc q True] ni pc show ?thesis by (simp add: wait_timeout_def)
qed

lemma not_armed_current:
  assumes "sched_inv (s, pc)" and "pc (sd_current s) = None \<or> pc (sd_current s) = Some (q, False)"
  shows "\<not> armed s (sd_current s)"
proof
  assume "armed s (sd_current s)"
  moreover have "timer_ok s pc" using sched_invD(1) [OF assms(1)] by (simp add: base_inv_def)
  ultimately show False using assms(2) sched_invD(4) [OF assms(1)] unfolding timer_ok_def by fastforce
qed

lemma wait_inv:
  assumes inv: "sched_inv (s, pc)" and ni: "sd_current s \<noteq> sd_idle s"
    and pc: "pc (sd_current s) = None \<or> pc (sd_current s) = Some (q, False)"
  shows "\<exists>s'. blocked_resched q s = (Ok (), s') \<and> sched_inv (s', pc(sd_current s := Some (q, False)))"
  using block_inv [OF pre_inv_sched [OF inv] ni pc, of False] not_armed_current [OF inv pc] by blast

section \<open>Running again after a wait\<close>

lemma cancel_events_inv:
  assumes inv: "sched_inv (s, pc)" and pc: "pc (sd_current s) = Some (q, b)"
  shows "sched_inv (cancel_events q b s, pc(sd_current s := None))"
proof -
  note c = sched_invD [OF inv]
  note v = base_invD [OF c(1)]
  let ?c = "sd_current s" and ?pc = "pc(sd_current s := None)"
  define s1 where "s1 = cancel_events q b s"
  have u: "?c \<notin> set (sd_wq s q')" if "q' \<noteq> q" for q' using v(3) pc that unfolding wq_ok_def by fastforce
  have iq: "tk_in_wq (sd_task s ?c) \<longleftrightarrow> ?c \<in> set (sd_wq s q)"
    using v(3) c(3) u unfolding wq_ok_def queued_def by metis
  have f: "sd_ids s1 = sd_ids s" "sd_idle s1 = sd_idle s" "sd_ready s1 = sd_ready s" "sd_timers s1 = sd_timers s"
    "sd_next_ticket s1 = sd_next_ticket s" "sd_exited s1 = sd_exited s" "sd_current s1 = ?c"
    "tk_idle (sd_task s1 x) = tk_idle (sd_task s x)" "task_state x s1 = task_state x s"
    "tk_in_wq (sd_task s1 x) = (x \<noteq> ?c \<and> tk_in_wq (sd_task s x))"
    "tk_ticket (sd_task s1 x) = (if b \<and> x = ?c then 0 else tk_ticket (sd_task s x))" for x
    by (simp_all add: s1_def cancel_events_def Let_def state_ops)
  have w: "sd_wq s1 q' = filter (\<lambda>t. t \<noteq> ?c) (sd_wq s q')" for q'
  proof -
    have "filter (\<lambda>t. t \<noteq> ?c) xs = xs" if "?c \<notin> set xs" for xs using that by (induction xs) auto
    then show ?thesis using u [of q'] iq by (auto simp: s1_def cancel_events_def Let_def state_ops)
  qed
  have m: "x \<in> set (sd_wq s1 q') \<longleftrightarrow> x \<noteq> ?c \<and> x \<in> set (sd_wq s q')" for x q' by (auto simp: w)
  have q1: "queued s1 x \<longleftrightarrow> x \<noteq> ?c \<and> queued s x" for x unfolding queued_def m by blast
  have ax: "armed s1 x = armed s x" if "x \<noteq> ?c" for x using that by (auto simp: armed_def f)
  have ac: "\<not> armed s1 ?c"
  proof (cases b)
    case True
    then show ?thesis using v(4) unfolding armed_def f timer_ok_def by auto
  next
    case False
    with not_armed_current [OF inv, of q] pc show ?thesis by (simp add: armed_def f)
  qed
  have "ready_ok s1" "idle_ok s1" using v(1,2) unfolding ready_ok_def idle_ok_def f by simp_all
  moreover have "wq_ok s1 ?pc"
  proof -
    have "distinct (sd_wq s1 q')" for q' using v(3) by (simp add: wq_ok_def w)
    moreover have "tk_in_wq (sd_task s1 x) \<longleftrightarrow> queued s1 x" if "x \<in> set (sd_ids s)" for x
      using that v(3) unfolding wq_ok_def f q1 by blast
    ultimately show ?thesis using v(3) unfolding wq_ok_def m f by auto
  qed
  moreover have "timer_ok s1 ?pc"
  proof -
    have "?pc t = None \<and> task_state t s = Blocked \<or> (\<exists>q. ?pc t = Some (q, True))" if "armed s1 t" for t
      using that ac ax v(4) by (cases "t = ?c") (auto simp: timer_ok_def)
    moreover have "queued s1 t \<or> armed s1 t" if "t \<in> set (sd_ids s)" "task_state t s = Blocked" for t
      using that v(4) ax c(4) by (cases "t = ?c") (auto simp: timer_ok_def q1)
    ultimately show ?thesis using v(4) unfolding timer_ok_def f by blast
  qed
  ultimately have "base_inv s1 ?pc" using v(5,6) unfolding base_inv_def f by simp
  moreover have "runs s1 = {sd_current s1}" using c(2) by (simp add: runs_def f)
  ultimately show ?thesis unfolding sched_inv_def s1_def by simp
qed

section \<open>Exiting, creating and collecting tasks\<close>

lemma exit_state_inv:
  assumes inv: "sched_inv (s, pc)" and ni: "sd_current s \<noteq> sd_idle s" and pc: "pc (sd_current s) = None"
  shows "base_inv (set_state Exited (sd_current s) s) pc \<and> runs (set_state Exited (sd_current s) s) = {}"
proof -
  note c = sched_invD [OF inv]
  note v = base_invD [OF c(1)]
  let ?c = "sd_current s"
  let ?s = "set_state Exited ?c s"
  have st: "task_state t ?s = (if t = ?c then Exited else task_state t s)" for t by (simp add: state_ops)
  have o: "only_states s ?s" by (simp add: only_states_def state_ops)
  note f = only_states_same [OF o]
  have r: "sd_ready ?s = sd_ready s" by (simp add: set_state_def)
  have nq: "?c \<notin> set (sd_ready s)" using ready_iff [OF v(1), of ?c] c(4) by simp
  have "ready_ok ?s" using v(1) nq unfolding ready_ok_def f r st by auto
  moreover have "idle_ok ?s" using v(2) ni unfolding idle_ok_def f st by auto
  moreover have "wq_ok ?s pc" using v(3) pc unfolding wq_ok_def f st by auto
  moreover have "timer_ok ?s pc"
    using v(4) not_armed_current [OF inv] pc unfolding timer_ok_def f st by auto
  moreover have "\<forall>t \<in> set (sd_exited ?s). task_state t ?s = Exited \<and> t \<in> set (sd_ids ?s)"
    using v(5) unfolding f st by auto
  ultimately have "base_inv ?s pc" using v(6) unfolding base_inv_def f by blast
  moreover have "runs ?s = {}" using c(5) by (auto simp: runs_def st f)
  ultimately show ?thesis ..
qed

lemma base_inv_exit_code:
  "base_inv (upd_task t (tk_exit_code_update f) s) pc = base_inv s pc"
  "runs (upd_task t (tk_exit_code_update f) s) = runs s"
proof -
  let ?s = "upd_task t (tk_exit_code_update f) s"
  have f: "tk_idle (sd_task ?s x) = tk_idle (sd_task s x)" "tk_in_wq (sd_task ?s x) = tk_in_wq (sd_task s x)"
    "tk_ticket (sd_task ?s x) = tk_ticket (sd_task s x)" "task_state x ?s = task_state x s" for x
    by (simp_all add: task_state_def)
  then show "base_inv ?s pc = base_inv s pc" "runs ?s = runs s"
    unfolding inv_defs runs_def queued_def armed_def f upd_task_simps(1-9) by simp_all
qed

lemma base_inv_exited:
  assumes "base_inv s pc" and "task_state t s = Exited" and "t \<in> set (sd_ids s)"
  shows "base_inv (s\<lparr>sd_exited := sd_exited s @ [t]\<rparr>) pc"
  using assms by (simp add: inv_defs task_state_def queued_def armed_def)

lemma unblock_one_task_state:
  "task_state x (unblock_one_task t s) = (if x = t \<and> task_state t s = Blocked then Ready else task_state x s)"
  by (simp add: unblock_one_task_def unblock_task_def put_task_with_state_def transition_state_def sched_push_def
      set_in_wait_queue_def set_state_def task_state_def)

lemma unblock_one_task_ids [simp]: "sd_ids (unblock_one_task t s) = sd_ids s"
  by (simp add: unblock_one_task_def unblock_task_def put_task_with_state_def transition_state_def sched_push_def state_ops)

lemma task_state_wq [simp]: "task_state x (s\<lparr>sd_wq := w\<rparr>) = task_state x s" by (simp add: task_state_def)

lemma notify_all_spec:
  "sd_ids (notify_all q s) = sd_ids s \<and> sd_wq (notify_all q s) q = [] \<and>
   (\<forall>x. task_state x (notify_all q s) =
     (if x \<in> set (sd_wq s q) \<and> task_state x s = Blocked then Ready else task_state x s))"
proof (induction q s rule: notify_all.induct)
  case (1 q s)
  show ?case
  proof (cases "sd_wq s q")
    case Nil
    then show ?thesis by (subst (1 2 3) notify_all.simps) (simp add: notify_one_def)
  next
    case (Cons t ts)
    let ?s1 = "unblock_one_task t (s\<lparr>sd_wq := (sd_wq s)(q := ts)\<rparr>)"
    have n: "notify_one q s = (True, ?s1)" using Cons by (simp add: notify_one_def)
    have e: "notify_all q s = notify_all q ?s1" by (subst notify_all.simps) (simp add: n)
    from "1.IH" [OF n [symmetric]] show ?thesis
      unfolding e using Cons by (auto simp: unblock_one_task_state)
  qed
qed

lemma exit_current_inv:
  assumes inv: "sched_inv (s, pc)" and ni: "sd_current s \<noteq> sd_idle s" and pc: "pc (sd_current s) = None"
    and nn: "\<not> tk_init (sd_task s (sd_current s))"
  shows "\<exists>s'. exit_current code s = (Ok (), s') \<and> sched_inv (s', pc)"
proof -
  note c = sched_invD [OF inv]
  let ?c = "sd_current s"
  have idl: "\<not> tk_idle (sd_task s ?c)" using base_invD(2) [OF c(1)] c(3) ni by (simp add: idle_ok_def)
  let ?s0 = "upd_task ?c (tk_exit_code_update (\<lambda>_. code)) (set_state Exited ?c s)"
  have i0: "base_inv ?s0 pc" "runs ?s0 = {}" using exit_state_inv [OF inv ni pc] by (simp_all add: base_inv_exit_code)
  define s1 where "s1 = notify_all (ExitOf ?c) ?s0"
  have i1: "base_inv s1 pc" "runs s1 = {}" using notify_all_inv [OF i0(1)] i0(2) by (simp_all add: s1_def)
  have "task_state ?c s1 = Exited \<and> ?c \<in> set (sd_ids s1)"
    using c(3) notify_all_spec [of "ExitOf ?c" ?s0] unfolding s1_def by (simp add: state_ops)
  then have i2: "base_inv (s1\<lparr>sd_exited := sd_exited s1 @ [?c]\<rparr>) pc" "runs (s1\<lparr>sd_exited := sd_exited s1 @ [?c]\<rparr>) = {}"
    using i1 base_inv_exited by (simp_all add: runs_def task_state_def)
  obtain r s3 where n: "notify_one WaitForExit (s1\<lparr>sd_exited := sd_exited s1 @ [?c]\<rparr>) = (r, s3)" by fastforce
  have i3: "base_inv s3 pc" "runs s3 = {}" using notify_one_inv [OF i2(1) n] i2(2) by simp_all
  obtain s' where "resched s3 = (Ok (), s')" "sched_inv (s', pc)" using resched_inv [OF i3] by blast
  with n c(4) idl nn show ?thesis by (auto simp: exit_current_def Let_def notify_exit_def s1_def)
qed

lemma spawn_task_inv:
  assumes inv: "sched_inv (s, pc)" and new: "sd_next_id s \<notin> set (sd_ids s)" and name: "name \<noteq> ''idle''"
  shows "\<exists>s'. spawn_task name s = (Ok (sd_next_id s), s') \<and> sched_inv (s', pc) \<and> sd_ready s' = sd_ready s @ [sd_next_id s]"
proof -
  note c = sched_invD [OF inv]
  note v = base_invD [OF c(1)]
  let ?t = "sd_next_id s"
  define s' where "s' = s\<lparr>sd_next_id := ?t + 1, sd_ids := ?t # sd_ids s, sd_task := (sd_task s)(?t := task_new name),
      sd_ready := sd_ready s @ [?t]\<rparr>"
  have e: "spawn_task name s = (Ok ?t, s')"
    by (simp add: spawn_task_def add_task_def sched_push_def task_state_def task_new_def task_new_common_def s'_def Let_def)
  have st: "task_state x s' = (if x = ?t then Ready else task_state x s)" for x
    by (simp add: task_state_def s'_def task_new_def task_new_common_def)
  have f: "sd_ids s' = ?t # sd_ids s" "sd_idle s' = sd_idle s" "sd_wq s' = sd_wq s" "sd_timers s' = sd_timers s"
    "sd_next_ticket s' = sd_next_ticket s" "sd_exited s' = sd_exited s" "sd_current s' = sd_current s"
    "sd_ready s' = sd_ready s @ [?t]" by (simp_all add: s'_def)
  have fld: "sd_task s' x = (if x = ?t then task_new name else sd_task s x)" for x by (simp add: s'_def)
  have nt: "\<not> tk_idle (task_new name)" "\<not> tk_in_wq (task_new name)" using name by (simp_all add: task_new_def task_new_common_def)
  have ne: "?t \<noteq> sd_idle s" "?t \<noteq> sd_current s" using new v(2) c(3) by (auto simp: idle_ok_def)
  have nq: "\<not> queued s ?t" using v(3) new unfolding wq_ok_def queued_def by blast
  have q1: "queued s' x = queued s x" for x by (simp add: queued_def f)
  have et: "ev_task x \<noteq> ?t" if "x \<in> set (sd_timers s)" for x using that v(4) new by (auto simp: timer_ok_def)
  have a1: "armed s' x = armed s x" for x using et by (auto simp: armed_def f fld)
  have "?t \<notin> set (sd_ready s)" using ready_iff [OF v(1), of ?t] new by simp
  then have "ready_ok s'" using v(1) ne new unfolding ready_ok_def f st by auto
  moreover have "idle_ok s'" using v(2) ne new nt unfolding idle_ok_def f st fld by auto
  moreover have "wq_ok s' pc"
  proof -
    have p: "pc x \<noteq> None \<Longrightarrow> x \<noteq> ?t" for x using v(3) new unfolding wq_ok_def by blast
    have "tk_in_wq (sd_task s' x) \<longleftrightarrow> queued s x" if "x \<in> set (sd_ids s')" for x
      using that v(3) nq nt unfolding wq_ok_def f fld by auto
    moreover have "x \<notin> set (sd_wq s q)" if "pc x = Some (q, False)" "task_state x s' \<noteq> Blocked" for x q
      using that v(3) p [of x] unfolding wq_ok_def st by auto
    moreover have "x \<in> set (sd_ids s) \<and> x \<noteq> sd_idle s \<and> task_state x s' \<noteq> Exited" if "pc x \<noteq> None" for x
      using that v(3) unfolding wq_ok_def st by auto
    ultimately show ?thesis using v(3) unfolding wq_ok_def q1 f by auto
  qed
  moreover have "timer_ok s' pc"
  proof -
    have "\<not> armed s ?t" using et by (auto simp: armed_def)
    then have "pc x = None \<and> task_state x s' = Blocked \<or> (\<exists>q. pc x = Some (q, True))" if "armed s x" for x
      using that v(4) unfolding timer_ok_def st by auto
    moreover have "queued s x \<or> armed s x" if "x \<in> set (sd_ids s')" "task_state x s' = Blocked" for x
      using that v(4) unfolding timer_ok_def st f by (auto split: if_splits)
    ultimately show ?thesis using v(4) unfolding timer_ok_def q1 a1 f by auto
  qed
  moreover have "\<forall>x \<in> set (sd_exited s'). task_state x s' = Exited \<and> x \<in> set (sd_ids s')"
    using v(5) new unfolding f st by fastforce
  ultimately have "base_inv s' pc" using v(6) unfolding base_inv_def f by blast
  moreover have "runs s' = {sd_current s'}" 
  proof -
    have "t \<in> runs s' \<longleftrightarrow> t \<in> runs s" for t using new unfolding runs_def f st by auto
    then have "runs s' = runs s" by blast
    then show ?thesis using c(2) f(7) by simp
  qed
  ultimately show ?thesis using e f(8) by (auto simp: sched_inv_def)
qed

lemma base_inv_collect:
  assumes "base_inv s pc" and "set xs \<subseteq> set (sd_exited s)"
  shows "base_inv (s\<lparr>sd_exited := xs\<rparr>) pc" "runs (s\<lparr>sd_exited := xs\<rparr>) = runs s"
proof -
  let ?s = "s\<lparr>sd_exited := xs\<rparr>"
  have f: "task_state x ?s = task_state x s" "queued ?s x = queued s x" "armed ?s x = armed s x" for x
    by (simp_all add: task_state_def queued_def armed_def)
  show "runs ?s = runs s" by (simp add: runs_def f)
  have "ready_ok ?s = ready_ok s" "idle_ok ?s = idle_ok s" "wq_ok ?s pc = wq_ok s pc" "timer_ok ?s pc = timer_ok s pc"
    unfolding ready_ok_def idle_ok_def wq_ok_def timer_ok_def f by simp_all
  with assms show "base_inv ?s pc" unfolding base_inv_def f by auto
qed

lemma gc_pass_inv: "base_inv s pc \<Longrightarrow> base_inv (gc_pass held n s) pc \<and> runs (gc_pass held n s) = runs s
    \<and> sd_current (gc_pass held n s) = sd_current s"
proof (induction n arbitrary: s)
  case (Suc n)
  show ?case
  proof (cases "sd_exited s")
    case Nil
    with Suc show ?thesis by simp
  next
    case (Cons t ts)
    let ?xs = "if held t then ts @ [t] else ts"
    have "set ?xs \<subseteq> set (sd_exited s)" using Cons by auto
    from Suc.IH [OF base_inv_collect(1) [OF Suc.prems this]] base_inv_collect(2) [OF Suc.prems this] Cons
    show ?thesis by simp
  qed
qed simp

section \<open>The machine as a step relation\<close>

text \<open>
  The steps of the running kernel. A task that returns from a wait resumes with \<open>cancel_events\<close> (or waits
  again on the same queue, the loop of \<^verbatim>\<open>wait_until\<close>) before it does anything else. A timer interrupt can
  come at any time. The ticket counter and the task counter do not wrap.
\<close>

inductive sched_step :: "sched \<times> pcs \<Rightarrow> sched \<times> pcs \<Rightarrow> bool" where
  step_yield: "pc (sd_current s) = None \<Longrightarrow> yield_current s = (Ok (), s') \<Longrightarrow> sched_step (s, pc) (s', pc)"
| step_wait: "sd_current s \<noteq> sd_idle s \<Longrightarrow> pc (sd_current s) = None \<or> pc (sd_current s) = Some (q, False)
    \<Longrightarrow> wait q s = (Ok (), s') \<Longrightarrow> sched_step (s, pc) (s', pc(sd_current s := Some (q, False)))"
| step_wait_timeout: "sd_current s \<noteq> sd_idle s \<Longrightarrow> pc (sd_current s) = None \<Longrightarrow> sd_next_ticket s + 1 \<noteq> 0
    \<Longrightarrow> wait_timeout q dl s = (Ok (), s') \<Longrightarrow> sched_step (s, pc) (s', pc(sd_current s := Some (q, True)))"
| step_sleep: "sd_current s \<noteq> sd_idle s \<Longrightarrow> pc (sd_current s) = None \<Longrightarrow> sd_next_ticket s + 1 \<noteq> 0
    \<Longrightarrow> sleep_until dl now s = (Ok (), s') \<Longrightarrow> sched_step (s, pc) (s', pc)"
| step_resume: "pc (sd_current s) = Some (q, b) \<Longrightarrow> sched_step (s, pc) (cancel_events q b s, pc(sd_current s := None))"
| step_exit: "sd_current s \<noteq> sd_idle s \<Longrightarrow> pc (sd_current s) = None \<Longrightarrow> exit_current code s = (Ok (), s')
    \<Longrightarrow> sched_step (s, pc) (s', pc)"
| step_notify_one: "notify_one q s = (r, s') \<Longrightarrow> sched_step (s, pc) (s', pc)"
| step_notify_all: "sched_step (s, pc) (notify_all q s, pc)"
| step_notify_task: "notify_task q t s = (r, s') \<Longrightarrow> sched_step (s, pc) (s', pc)"
| step_tick: "sched_step (s, pc) (on_timer_tick clk s, pc)"
| step_spawn: "sd_next_id s \<notin> set (sd_ids s) \<Longrightarrow> name \<noteq> ''idle'' \<Longrightarrow> spawn_task name s = (Ok t, s')
    \<Longrightarrow> sched_step (s, pc) (s', pc)"
| step_gc: "sched_step (s, pc) (gc_pass held (length (sd_exited s)) s, pc)"

lemma sched_inv_wake:
  "sched_inv (s, pc) \<Longrightarrow> base_inv s' pc \<and> runs s' = runs s \<and> sd_current s' = sd_current s \<Longrightarrow> sched_inv (s', pc)"
  by (simp add: sched_inv_def)

lemma sched_step_inv: "sched_step a b \<Longrightarrow> sched_inv a \<Longrightarrow> sched_inv b"
proof (induction rule: sched_step.induct)
  case (step_yield pc s s')
  then show ?case using yield_current_inv [of s pc] by auto
next
  case (step_wait s pc q s')
  then show ?case using wait_inv [of s pc q] by (auto simp: wait_def)
next
  case (step_wait_timeout s pc q dl s')
  then show ?case using wait_timeout_inv [of s pc q dl] by auto
next
  case (step_sleep s pc dl now s')
  then show ?case using sleep_until_inv [of s pc dl now] by auto
next
  case (step_resume pc s q b)
  then show ?case by (rule cancel_events_inv [rotated])
next
  case (step_exit s pc code s')
  then have "\<not> tk_init (sd_task s (sd_current s))" by (auto simp: exit_current_def Let_def split: if_splits)
  with step_exit show ?case using exit_current_inv [of s pc code] by auto
next
  case (step_notify_one q s r s' pc)
  then show ?case using notify_one_inv sched_invD(1) sched_inv_wake by blast
next
  case (step_notify_all s pc q)
  then show ?case using notify_all_inv sched_invD(1) sched_inv_wake by blast
next
  case (step_notify_task q t s r s' pc)
  then show ?case using notify_task_inv sched_invD(1) sched_inv_wake by blast
next
  case (step_tick s pc clk)
  then show ?case unfolding on_timer_tick_def using check_events_inv sched_invD(1) sched_inv_wake by blast
next
  case (step_spawn s name t s' pc)
  then show ?case using spawn_task_inv [of s pc name] by auto
next
  case (step_gc s pc held)
  then show ?case using gc_pass_inv sched_invD(1) sched_inv_wake by blast
qed

abbreviation sched_reachable :: "sched \<times> pcs \<Rightarrow> bool" where
  "sched_reachable \<equiv> sched_step\<^sup>*\<^sup>* (sched_init, \<lambda>_. None)"

lemma reachable_inv: "sched_reachable x \<Longrightarrow> sched_inv x"
  by (induction rule: rtranclp_induct) (auto intro: sched_init_inv sched_step_inv)

section \<open>Waking by timers\<close>

lemma unblock_task_state:
  "task_state x (unblock_task t s) = (if x = t \<and> task_state t s = Blocked then Ready else task_state x s)"
  by (simp add: unblock_task_def put_task_with_state_def transition_state_def sched_push_def set_state_def task_state_def)

lemma timer_callback_state:
  "task_state x (timer_callback e s) = (if x = ev_task e \<and> tk_ticket (sd_task s x) = ev_ticket e \<and> task_state x s = Blocked
     then Ready else task_state x s)"
  by (cases e) (auto simp: timer_callback_def unblock_task_state)

lemma timer_callback_ticket [simp]: "tk_ticket (sd_task (timer_callback e s) x) = tk_ticket (sd_task s x)"
  by (cases e) (simp add: timer_callback_def unblock_task_def put_task_with_state_def transition_state_def sched_push_def
      set_state_def)

lemma check_events_wakes:
  assumes "\<And>i e. e \<in> set (sd_timers s) \<Longrightarrow> duration_le (ev_deadline e) (clk i)"
  shows "task_state x (check_events clk i s) = (if armed s x \<and> task_state x s = Blocked then Ready else task_state x s)"
  using assms
proof (induction clk i s rule: check_events.induct)
  case (1 clk i s)
  show ?case
  proof (cases "sd_timers s")
    case Nil
    then show ?thesis by (subst check_events.simps) (simp add: expire_one_def armed_def)
  next
    case (Cons e es)
    let ?s = "timer_callback e (s\<lparr>sd_timers := es\<rparr>)"
    have x: "expire_one (clk i) s = (Some e, s\<lparr>sd_timers := es\<rparr>)" using Cons "1.prems" by (simp add: expire_one_def)
    have "task_state x (check_events clk (Suc i) ?s) = (if armed ?s x \<and> task_state x ?s = Blocked then Ready else task_state x ?s)"
      using "1.IH" [OF x [symmetric] refl] "1.prems" Cons by simp
    moreover have "task_state x (s\<lparr>sd_timers := es\<rparr>) = task_state x s" by (simp add: task_state_def)
    ultimately show ?thesis
      using x Cons by (subst check_events.simps) (auto simp: timer_callback_state armed_def)
  qed
qed


section \<open>Properties\<close>


text \<open>The main task blocks right after start-up.\<close>

definition demo_blocked :: sched where
  "demo_blocked = snd (wait (Queue 0) sched_init)"

lemma demo_blocked_step:
  "sched_reachable (demo_blocked, (\<lambda>_. None)(2 := Some (Queue 0, False)))"
  "sd_current demo_blocked = 3" "sd_ids demo_blocked = [3, 2, 1]" "task_state 2 demo_blocked = Blocked"
proof -
  have e: "wait (Queue 0) sched_init = (Ok (), demo_blocked)"
    by (simp add: demo_blocked_def wait_def blocked_resched_def sched_init_def task_state_def task_new_init_def task_new_def
        task_new_common_def set_state_def set_in_wait_queue_def upd_task_def resched_def pick_next_task_def Let_def switch_to_def)
  have "sched_step (sched_init, \<lambda>_. None) (demo_blocked, (\<lambda>_. None)(sd_current sched_init := Some (Queue 0, False)))"
    using e by (intro step_wait) (simp_all add: sched_init_def)
  then show "sched_reachable (demo_blocked, (\<lambda>_. None)(2 := Some (Queue 0, False)))"
    by (simp add: sched_init_def r_into_rtranclp)
  show "sd_current demo_blocked = 3" "sd_ids demo_blocked = [3, 2, 1]" "task_state 2 demo_blocked = Blocked"
    by (simp_all add: demo_blocked_def wait_def blocked_resched_def sched_init_def task_state_def task_new_init_def task_new_def
        task_new_common_def set_state_def set_in_wait_queue_def upd_task_def resched_def pick_next_task_def Let_def switch_to_def)
qed




text \<open>
  C17. No wakeup is lost: in a reachable state a blocked task is in a wait queue whose notification
  makes it ready, or has a timer that makes it ready at any tick past the deadlines.
\<close>

theorem blocked_task_wakeable:
  assumes "sched_reachable (s, pc)" and "t \<in> set (sd_ids s)" and "task_state t s = Blocked"
  shows "(\<exists>q. t \<in> set (sd_wq s q) \<and> task_state t (notify_all q s) = Ready)
    \<or> (\<forall>clk. (\<forall>i. \<forall>e \<in> set (sd_timers s). duration_le (ev_deadline e) (clk i)) \<longrightarrow>
          task_state t (on_timer_tick clk s) = Ready)"
proof -
  have "sched_inv (s, pc)" by (rule reachable_inv [OF assms(1)])
  then have "timer_ok s pc" by (simp add: sched_inv_def base_inv_def)
  then have "queued s t \<or> armed s t" using assms(2,3) by (simp add: timer_ok_def)
  then show ?thesis
  proof
    assume "queued s t"
    then show ?thesis using notify_all_spec assms(3) unfolding queued_def by auto
  next
    assume "armed s t"
    then show ?thesis using check_events_wakes [of s _ t 0] assms(3) unfolding on_timer_tick_def by auto
  qed
qed

theorem blocked_task_wakeable_witness:
  "task_state 2 demo_blocked = Blocked \<and>
   (task_state 2 (notify_all (Queue 0) demo_blocked) = Ready
    \<or> task_state 2 (on_timer_tick (\<lambda>_. \<lparr>dur_secs = 9, dur_nanos = 0\<rparr>) demo_blocked) = Ready)"
proof -
  have t: "(2::tid) \<in> set (sd_ids demo_blocked)" using demo_blocked_step(3) by simp
  have "sd_timers demo_blocked = []" "sd_wq demo_blocked q = (if q = Queue 0 then [2] else [])" for q
    by (simp_all add: demo_blocked_def wait_def blocked_resched_def sched_init_def task_state_def task_new_init_def task_new_def
        task_new_common_def set_state_def set_in_wait_queue_def upd_task_def resched_def pick_next_task_def Let_def switch_to_def)
  then show ?thesis
    using blocked_task_wakeable [OF demo_blocked_step(1) t demo_blocked_step(4)] demo_blocked_step(4) by (auto split: if_splits)
qed

fun yields :: "nat \<Rightarrow> sched \<Rightarrow> sched" where
  "yields 0 s = s"
| "yields (Suc n) s = yields n (snd (yield_current s))"

text \<open>
  C20. The ready queue is served first in, first out: when the task at position \<open>k\<close> of the ready queue
  waits its turn and the tasks before it yield, it is the current task after \<open>k + 1\<close> yields.
\<close>

theorem yield_is_fair:
  assumes "sched_reachable (s, pc)" and "k < length (sd_ready s)"
  shows "sd_current (yields (Suc k) s) = sd_ready s ! k"
proof -
  have "sched_inv (s, pc)" by (rule reachable_inv [OF assms(1)])
  then show ?thesis using assms(2)
  proof (induction k arbitrary: s)
    case 0
    then show ?case using yield_current_inv [OF "0.prems"(1)]
      by (cases "sd_ready s") (auto simp: Let_def split: if_splits)
  next
    case (Suc k)
    obtain s' where y: "yield_current s = (Ok (), s')" "sched_inv (s', pc)"
      and q: "sd_current s' # sd_ready s' =
        (let q = (if sd_current s = sd_idle s then sd_ready s else sd_ready s @ [sd_current s]) in if q = [] then [sd_idle s] else q)"
      using yield_current_inv [OF Suc.prems(1)] by blast
    obtain t ts where r: "sd_ready s = t # ts" using Suc.prems(2) by (cases "sd_ready s") auto
    then have "sd_ready s' = ts \<or> sd_ready s' = ts @ [sd_current s]" using q by (auto simp: Let_def split: if_splits)
    then have "k < length (sd_ready s')" "sd_ready s' ! k = ts ! k" using Suc.prems(2) r by (auto simp: nth_append)
    with Suc.IH [OF y(2)] y(1) r show ?case by simp
  qed
qed

theorem yield_is_fair_witness: "sd_current (yields 1 sched_init) = 3"
proof -
  have "sched_reachable (sched_init, \<lambda>_. None)" by simp
  moreover have "sd_ready sched_init = [3]" by (simp add: sched_init_def)
  ultimately show ?thesis using yield_is_fair [of sched_init "\<lambda>_. None" 0] by simp
qed


definition demo_idle_run :: sched where
  "demo_idle_run = (let s = snd (spawn_task ''idle'' sched_init) in
     s\<lparr>sd_task := (sd_task s)(4 := (sd_task s 4)\<lparr>tk_state := Running\<rparr>, 2 := (sd_task s 2)\<lparr>tk_state := Ready\<rparr>),
       sd_current := 4, sd_ready := [3, 2]\<rparr>)"


end
