(* ===== verification/Mutex_Lock.thy ===== *)
theory Mutex_Lock
  imports Scheduler
begin

text \<open>
  The sleeping mutex (\<^verbatim>\<open>.arceos/modules/axsync/src/mutex.rs\<close>) over the scheduler. Mutex \<open>m\<close> has the wait queue
  \<open>Queue m\<close> and an owner, zero when it is free. \<open>weak\<close> is the spurious failure that \<^verbatim>\<open>compare_exchange_weak\<close>
  allows. A call of \<^verbatim>\<open>lock\<close> that finds the mutex taken waits in the loop of \<^verbatim>\<open>wait_until\<close>; when the task runs
  again it re-reads the owner and tries again.

  Lemmas: only the owner gives a mutex back; the lock never loses a wakeup (a free
  mutex with waiters has a woken task that is on its way to take it); release without ownership and
  recursive locking panic.
\<close>

type_synonym owners = "nat \<Rightarrow> tid"

definition mutex_is_locked :: "nat \<Rightarrow> owners \<Rightarrow> bool" where
  "mutex_is_locked m ow = (ow m \<noteq> 0)"

definition mutex_try_lock :: "nat \<Rightarrow> sched \<times> owners \<Rightarrow> bool \<times> (sched \<times> owners)" where
  "mutex_try_lock m = (\<lambda>(s, ow). if ow m = 0 then (True, (s, ow(m := sd_current s))) else (False, (s, ow)))"

text \<open>
  One round of the loop of \<^verbatim>\<open>lock\<close>: \<open>Some True\<close> when the mutex is taken, \<open>Some False\<close> when the loop goes on at
  once, \<open>None\<close> when the task blocked and another one runs.
\<close>

definition mutex_lock_round ::
  "bool \<Rightarrow> nat \<Rightarrow> sched \<times> owners \<Rightarrow> (machine_end, bool option) outcome \<times> (sched \<times> owners)" where
  "mutex_lock_round weak m = (\<lambda>(s, ow).
     let current_id = sd_current s in
     if ow m = 0 \<and> \<not> weak then (Ok (Some True), (s, ow(m := current_id)))
     else if ow m = current_id then (Panic, (s, ow))
     else case wait_until (Queue m) (\<lambda>_. \<not> mutex_is_locked m ow) s of
       (Ok True, s) \<Rightarrow> (Ok (Some False), (s, ow))
     | (Ok False, s) \<Rightarrow> (Ok None, (s, ow))
     | (Err e, s) \<Rightarrow> (Err e, (s, ow))
     | (Panic, s) \<Rightarrow> (Panic, (s, ow)))"

definition mutex_unlock :: "nat \<Rightarrow> sched \<times> owners \<Rightarrow> (machine_end, unit) outcome \<times> (sched \<times> owners)" where
  "mutex_unlock m = (\<lambda>(s, ow).
     let owner_id = ow m; ow = ow(m := 0) in
     if owner_id \<noteq> sd_current s then (Panic, (s, ow))
     else (Ok (), (snd (notify_one (Queue m) s), ow)))"

section \<open>The lock as a step relation\<close>

text \<open>
  \<open>other\<close> steps are steps of the scheduler that do not use the queue of a mutex. A task that runs again
  after waiting for mutex \<open>m\<close> is in the loop of \<^verbatim>\<open>wait_until\<close>: it waits again when the mutex is taken, and
  leaves with \<^verbatim>\<open>cancel_events\<close> and takes the mutex when it is free; nothing else runs in between.
\<close>

definition is_mutex_queue :: "wait_queue \<Rightarrow> bool" where
  "is_mutex_queue q = (case q of Queue _ \<Rightarrow> True | _ \<Rightarrow> False)"

inductive lock_step :: "sched \<times> pcs \<times> owners \<Rightarrow> sched \<times> pcs \<times> owners \<Rightarrow> bool" where
  lock_take: "pc (sd_current s) = None \<Longrightarrow> mutex_lock_round False m (s, ow) = (Ok (Some True), (s', ow'))
    \<Longrightarrow> lock_step (s, pc, ow) (s', pc, ow')"
| lock_block: "sd_current s \<noteq> sd_idle s \<Longrightarrow> pc (sd_current s) = None \<or> pc (sd_current s) = Some (Queue m, False)
    \<Longrightarrow> mutex_lock_round False m (s, ow) = (Ok None, (s', ow'))
    \<Longrightarrow> lock_step (s, pc, ow) (s', pc(sd_current s := Some (Queue m, False)), ow')"
| lock_retry: "pc (sd_current s) = Some (Queue m, False) \<Longrightarrow> \<not> mutex_is_locked m ow
    \<Longrightarrow> mutex_lock_round False m (cancel_events (Queue m) False s, ow) = (Ok (Some True), (s', ow'))
    \<Longrightarrow> lock_step (s, pc, ow) (s', pc(sd_current s := None), ow')"
| lock_release: "pc (sd_current s) = None \<Longrightarrow> mutex_unlock m (s, ow) = (Ok (), (s', ow'))
    \<Longrightarrow> lock_step (s, pc, ow) (s', pc, ow')"
| other_yield: "pc (sd_current s) = None \<Longrightarrow> yield_current s = (Ok (), s') \<Longrightarrow> lock_step (s, pc, ow) (s', pc, ow)"
| other_wait: "\<not> is_mutex_queue q \<Longrightarrow> sd_current s \<noteq> sd_idle s
    \<Longrightarrow> pc (sd_current s) = None \<or> pc (sd_current s) = Some (q, False) \<Longrightarrow> wait q s = (Ok (), s')
    \<Longrightarrow> lock_step (s, pc, ow) (s', pc(sd_current s := Some (q, False)), ow)"
| other_sleep: "sd_current s \<noteq> sd_idle s \<Longrightarrow> pc (sd_current s) = None \<Longrightarrow> sd_next_ticket s + 1 \<noteq> 0
    \<Longrightarrow> sleep_until dl now s = (Ok (), s') \<Longrightarrow> lock_step (s, pc, ow) (s', pc, ow)"
| other_resume: "\<not> is_mutex_queue q \<Longrightarrow> pc (sd_current s) = Some (q, b)
    \<Longrightarrow> lock_step (s, pc, ow) (cancel_events q b s, pc(sd_current s := None), ow)"
| other_exit: "sd_current s \<noteq> sd_idle s \<Longrightarrow> pc (sd_current s) = None \<Longrightarrow> (\<And>m. ow m \<noteq> sd_current s)
    \<Longrightarrow> exit_current code s = (Ok (), s') \<Longrightarrow> lock_step (s, pc, ow) (s', pc, ow)"
| other_notify: "\<not> is_mutex_queue q \<Longrightarrow> lock_step (s, pc, ow) (notify_all q s, pc, ow)"
| other_tick: "lock_step (s, pc, ow) (on_timer_tick clk s, pc, ow)"
| other_spawn: "sd_next_id s \<notin> set (sd_ids s) \<Longrightarrow> sd_next_id s \<noteq> 0 \<Longrightarrow> name \<noteq> ''idle'' \<Longrightarrow> spawn_task name s = (Ok t, s')
    \<Longrightarrow> lock_step (s, pc, ow) (s', pc, ow)"

text \<open>A free mutex with waiters has a task that was woken for it and has not run yet.\<close>

definition woken :: "sched \<Rightarrow> pcs \<Rightarrow> nat \<Rightarrow> bool" where
  "woken s pc m \<longleftrightarrow> (\<exists>t \<in> set (sd_ids s). pc t = Some (Queue m, False) \<and> task_state t s \<noteq> Blocked)"

definition lock_inv :: "sched \<times> pcs \<times> owners \<Rightarrow> bool" where
  "lock_inv = (\<lambda>(s, pc, ow). sched_inv (s, pc) \<and> 0 \<notin> set (sd_ids s)
     \<and> (\<forall>t m b. pc t = Some (Queue m, b) \<longrightarrow> \<not> b)
     \<and> (\<forall>m. ow m = 0 \<longrightarrow> sd_wq s (Queue m) \<noteq> [] \<longrightarrow> woken s pc m))"

section \<open>What a step does to the tasks that wait for a mutex\<close>

text \<open>From \<open>s\<close> to \<open>s'\<close> no task outside \<open>C\<close> becomes blocked, the queues of the mutexes stay, and no
  task gets the id 0, which is the owner of a free mutex.\<close>

definition keeps :: "tid set \<Rightarrow> sched \<Rightarrow> sched \<Rightarrow> bool" where
  "keeps C s s' \<longleftrightarrow> set (sd_ids s) \<subseteq> set (sd_ids s') \<and> (0 \<in> set (sd_ids s') \<longrightarrow> 0 \<in> set (sd_ids s)) \<and> (\<forall>m. sd_wq s' (Queue m) = sd_wq s (Queue m))
     \<and> (\<forall>t \<in> set (sd_ids s). t \<notin> C \<longrightarrow> task_state t s \<noteq> Blocked \<longrightarrow> task_state t s' \<noteq> Blocked)"

lemma keeps_refl [simp]: "keeps C s s" by (simp add: keeps_def)

lemma keeps_trans: "keeps C s s' \<Longrightarrow> keeps C s' s'' \<Longrightarrow> keeps C s s''"
  by (auto simp: keeps_def)

lemma keeps_mono: "keeps C s s' \<Longrightarrow> C \<subseteq> D \<Longrightarrow> keeps D s s'"
  by (auto simp: keeps_def)

lemma resched_keeps: "resched s = (Ok (), s') \<Longrightarrow> keeps {} s s'"
  by (auto simp: resched_def pick_next_task_def switch_to_def state_ops keeps_def Let_def split: list.splits if_splits)

lemma set_state_keeps: "st \<noteq> Blocked \<or> t \<in> C \<Longrightarrow> keeps C s (set_state st t s)"
  by (auto simp: keeps_def state_ops)

lemma put_task_keeps: "put_task_with_state t st s = (b, s') \<Longrightarrow> keeps {} s s'"
  by (auto simp: put_task_with_state_def sched_push_def state_ops keeps_def split: if_splits)

lemma unblock_task_keeps: "keeps {} s (unblock_task t s)"
  unfolding unblock_task_def by (rule put_task_keeps [of t Blocked s "fst (put_task_with_state t Blocked s)"]) simp

lemma yield_keeps:
  assumes "yield_current s = (Ok (), s')" shows "keeps {} s s'"
proof -
  have "resched (snd (put_task_with_state (sd_current s) Running s)) = (Ok (), s')"
    using assms by (simp add: yield_current_def split: if_splits)
  from keeps_trans [OF put_task_keeps resched_keeps [OF this]] show ?thesis by (metis prod.collapse)
qed

lemma wait_keeps:
  assumes "wait q s = (Ok (), s')" and "\<not> is_mutex_queue q"
  shows "keeps {sd_current s} s s'"
proof -
  let ?s = "set_in_wait_queue True (sd_current s) (set_state Blocked (sd_current s) s)"
  let ?s1 = "?s\<lparr>sd_wq := (sd_wq ?s)(q := sd_wq ?s q @ [sd_current s])\<rparr>"
  have r: "resched ?s1 = (Ok (), s')" using assms(1) by (simp add: wait_def blocked_resched_def Let_def split: if_splits)
  have "keeps {sd_current s} s ?s1" using assms(2) by (auto simp: keeps_def state_ops is_mutex_queue_def)
  with keeps_mono [OF resched_keeps [OF r], of "{sd_current s}"] show ?thesis by (blast intro: keeps_trans)
qed

lemma sleep_keeps:
  assumes "sleep_until dl now s = (Ok (), s')" shows "keeps {sd_current s} s s'"
proof (cases "duration_le dl now")
  case True
  then show ?thesis using assms by (auto simp: sleep_until_def Let_def split: if_splits)
next
  case False
  then obtain s1 where a: "set_alarm_wakeup dl (sd_current s) s = (Ok (), s1)"
    and r: "resched (set_state Blocked (sd_current s) s1) = (Ok (), s')"
    using assms by (auto simp: sleep_until_def Let_def sbind_eq_Ok split: if_splits)
  have "keeps {sd_current s} s s1" using a by (auto simp: set_alarm_wakeup_def keeps_def task_state_def Let_def split: if_splits)
  moreover have "keeps {sd_current s} s1 (set_state Blocked (sd_current s) s1)" by (rule set_state_keeps) simp
  moreover have "keeps {sd_current s} (set_state Blocked (sd_current s) s1) s'"
    using keeps_mono [OF resched_keeps [OF r]] by blast
  ultimately show ?thesis by (blast intro: keeps_trans)
qed

lemma notify_one_keeps:
  assumes "notify_one q s = (b, s')" and "\<not> is_mutex_queue q" shows "keeps {} s s'"
proof (cases "sd_wq s q")
  case Nil
  then show ?thesis using assms by (simp add: notify_one_def)
next
  case (Cons t ts)
  let ?s = "s\<lparr>sd_wq := (sd_wq s)(q := ts)\<rparr>"
  have e: "s' = unblock_task t (set_in_wait_queue False t ?s)"
    using assms(1) Cons by (simp add: notify_one_def unblock_one_task_def)
  have "keeps {} s (set_in_wait_queue False t ?s)" using assms(2) by (auto simp: keeps_def state_ops is_mutex_queue_def)
  with unblock_task_keeps show ?thesis unfolding e by (rule keeps_trans [rotated])
qed

lemma notify_all_keeps: "\<not> is_mutex_queue q \<Longrightarrow> keeps {} s (notify_all q s)"
proof (induction q s rule: notify_all.induct)
  case (1 q s)
  obtain r s1 where n: "notify_one q s = (r, s1)" by fastforce
  note k = notify_one_keeps [OF n "1.prems"]
  show ?case
  proof (cases r)
    case True
    with "1.IH" [OF n [symmetric] _ "1.prems"] k n show ?thesis
      by (subst notify_all.simps) (auto intro: keeps_trans)
  next
    case False
    with k n show ?thesis by (subst notify_all.simps) simp
  qed
qed

lemma check_events_keeps: "keeps {} s (check_events clk i s)"
proof (induction clk i s rule: check_events.induct)
  case (1 clk i s)
  obtain r s1 where x: "expire_one (clk i) s = (r, s1)" by fastforce
  have k1: "keeps {} s s1" using x by (auto simp: expire_one_def keeps_def task_state_def split: list.splits if_splits)
  show ?case
  proof (cases r)
    case None
    with x k1 show ?thesis by (subst check_events.simps) simp
  next
    case (Some e)
    have "keeps {} s1 (timer_callback e s1)" by (cases e) (simp add: timer_callback_def unblock_task_keeps)
    with "1.IH" [OF x [symmetric] Some] k1 x Some show ?thesis
      by (subst check_events.simps) (auto intro: keeps_trans)
  qed
qed

lemma exit_keeps:
  assumes "exit_current code s = (Ok (), s')" shows "keeps {sd_current s} s s'"
proof -
  let ?c = "sd_current s"
  let ?s0 = "upd_task ?c (tk_exit_code_update (\<lambda>_. code)) (set_state Exited ?c s)"
  let ?s1 = "notify_all (ExitOf ?c) ?s0"
  let ?s2 = "?s1\<lparr>sd_exited := sd_exited ?s1 @ [?c]\<rparr>"
  obtain b s3 where n: "notify_one WaitForExit ?s2 = (b, s3)" by fastforce
  have r: "resched s3 = (Ok (), s')"
    using assms n by (simp add: exit_current_def notify_exit_def Let_def split: if_splits)
  have "keeps {} s ?s0" by (auto simp: keeps_def state_ops)
  moreover have "keeps {} ?s0 ?s1" by (rule notify_all_keeps) (simp add: is_mutex_queue_def)
  moreover have "keeps {} ?s1 ?s2" by (auto simp: keeps_def task_state_def)
  moreover have "keeps {} ?s2 s3" by (rule notify_one_keeps [OF n]) (simp add: is_mutex_queue_def)
  ultimately have "keeps {} s s'" using resched_keeps [OF r] by (blast intro: keeps_trans)
  then show ?thesis by (rule keeps_mono) simp
qed

lemma spawn_keeps:
  assumes "spawn_task name s = (Ok t, s')" and "sd_next_id s \<notin> set (sd_ids s)" "sd_next_id s \<noteq> 0"
  shows "keeps {} s s'"
  using assms by (auto simp: spawn_task_def add_task_def sched_push_def keeps_def task_state_def Let_def split: if_splits)

lemma cancel_events_keeps:
  assumes "\<not> is_mutex_queue q" shows "keeps {} s (cancel_events q b s)"
  using assms by (auto simp: keeps_def cancel_events_def state_ops is_mutex_queue_def Let_def)

lemma lock_inv_keeps:
  assumes inv: "lock_inv (s, pc, ow)" and s': "sched_inv (s', pc')"
    and k: "keeps C s s'" and same: "\<And>t. t \<notin> C \<Longrightarrow> pc' t = pc t"
    and C: "\<And>t m b. t \<in> C \<Longrightarrow> pc' t \<noteq> Some (Queue m, b) \<and> pc t \<noteq> Some (Queue m, b)"
  shows "lock_inv (s', pc', ow)"
proof -
  have "\<not> b" if "pc' t = Some (Queue m, b)" for t m b
    using that inv same [of t] C [of t m b] unfolding lock_inv_def by (cases "t \<in> C") auto
  moreover have "woken s' pc' m" if m: "ow m = 0" "sd_wq s' (Queue m) \<noteq> []" for m
  proof -
    have "sd_wq s (Queue m) \<noteq> []" using m(2) k by (simp add: keeps_def)
    then have "woken s pc m" using inv m(1) unfolding lock_inv_def by blast
    then obtain t where t: "t \<in> set (sd_ids s)" "pc t = Some (Queue m, False)" "task_state t s \<noteq> Blocked"
      unfolding woken_def by blast
    then have "t \<notin> C" using C by blast
    with t k same [of t] show ?thesis unfolding woken_def keeps_def by auto
  qed
  moreover have "0 \<notin> set (sd_ids s')" using inv k unfolding lock_inv_def keeps_def by blast
  ultimately show ?thesis using s' unfolding lock_inv_def by auto
qed

lemma lock_inv_wake:
  assumes inv: "lock_inv (s, pc, ow)" and s': "sched_inv (s', pc)" and k: "keeps {} s s'"
  shows "lock_inv (s', pc, ow)"
  by (rule lock_inv_keeps [OF inv s' k]) simp_all

lemma blocked_resched_frame:
  assumes "blocked_resched q s = (Ok (), s')"
  shows "sd_ids s' = sd_ids s" "q' \<noteq> q \<Longrightarrow> sd_wq s' q' = sd_wq s q'"
    "t \<noteq> sd_current s \<Longrightarrow> task_state t s \<noteq> Blocked \<Longrightarrow> task_state t s' \<noteq> Blocked"
  using assms by (auto simp: blocked_resched_def resched_def pick_next_task_def switch_to_def state_ops Let_def
      split: list.splits if_splits)

lemma lock_block_inv:
  assumes inv: "lock_inv (s, pc, ow)" and ni: "sd_current s \<noteq> sd_idle s"
    and pc: "pc (sd_current s) = None \<or> pc (sd_current s) = Some (Queue m, False)"
    and l: "mutex_lock_round False m (s, ow) = (Ok None, (s', ow'))"
  shows "lock_inv (s', pc(sd_current s := Some (Queue m, False)), ow')"
proof -
  let ?pc = "pc(sd_current s := Some (Queue m, False))"
  have own: "ow m \<noteq> 0" "ow' = ow" and b: "blocked_resched (Queue m) s = (Ok (), s')"
    using l by (auto simp: mutex_lock_round_def wait_until_def mutex_is_locked_def Let_def sbind_eq_Ok
        split: if_splits outcome.splits prod.splits)
  have si: "sched_inv (s, pc)" using inv by (simp add: lock_inv_def)
  have s': "sched_inv (s', ?pc)" using wait_inv [OF si ni pc] b by auto
  note f = blocked_resched_frame [OF b]
  have "woken s' ?pc m'" if m': "ow m' = 0" "sd_wq s' (Queue m') \<noteq> []" for m'
  proof -
    have ne: "m' \<noteq> m" using m'(1) own(1) by auto
    then have "sd_wq s (Queue m') \<noteq> []" using f(2) [of "Queue m'"] m'(2) by simp
    then obtain t where t: "t \<in> set (sd_ids s)" "pc t = Some (Queue m', False)" "task_state t s \<noteq> Blocked"
      using inv m'(1) unfolding lock_inv_def woken_def by blast
    then have "t \<noteq> sd_current s" using pc ne by auto
    with t f(1) f(3) [of t] show ?thesis unfolding woken_def by auto
  qed
  then show ?thesis using inv s' f(1) own(2) unfolding lock_inv_def by auto
qed

lemma lock_retry_inv:
  assumes inv: "lock_inv (s, pc, ow)" and pc: "pc (sd_current s) = Some (Queue m, False)"
    and l: "mutex_lock_round False m (cancel_events (Queue m) False s, ow) = (Ok (Some True), (s', ow'))"
  shows "lock_inv (s', pc(sd_current s := None), ow')"
proof -
  let ?pc = "pc(sd_current s := None)"
  have si: "sched_inv (s, pc)" using inv by (simp add: lock_inv_def)
  note c = sched_invD [OF si]
  have e: "s' = cancel_events (Queue m) False s" "ow' = ow(m := sd_current s)"
    using l by (auto simp: mutex_lock_round_def wait_until_def Let_def sbind_def cancel_events_def set_in_wait_queue_def
        split: if_splits outcome.splits prod.splits)
  have z: "sd_current s \<noteq> 0" using inv c(3) by (auto simp: lock_inv_def)
  have s': "sched_inv (s', ?pc)" unfolding e by (rule cancel_events_inv [OF si pc])
  have f: "sd_ids s' = sd_ids s" "task_state t s' = task_state t s" "q' \<noteq> Queue m \<Longrightarrow> sd_wq s' q' = sd_wq s q'" for t q'
    by (simp_all add: e cancel_events_def Let_def state_ops)
  have "woken s' ?pc m'" if m': "ow' m' = 0" "sd_wq s' (Queue m') \<noteq> []" for m'
  proof -
    have ne: "m' \<noteq> m" using m'(1) z e(2) by auto
    then have "sd_wq s (Queue m') \<noteq> []" "ow m' = 0" using f(3) [of "Queue m'"] m' e(2) by simp_all
    then obtain t where t: "t \<in> set (sd_ids s)" "pc t = Some (Queue m', False)" "task_state t s \<noteq> Blocked"
      using inv unfolding lock_inv_def woken_def by blast
    then have "t \<noteq> sd_current s" using pc ne by auto
    with t f(1,2) show ?thesis unfolding woken_def by auto
  qed
  then show ?thesis using inv s' f(1) unfolding lock_inv_def by auto
qed

lemma lock_release_inv:
  assumes inv: "lock_inv (s, pc, ow)" and l: "mutex_unlock m (s, ow) = (Ok (), (s', ow'))"
  shows "lock_inv (s', pc, ow')"
proof -
  have si: "sched_inv (s, pc)" using inv by (simp add: lock_inv_def)
  obtain r where n: "notify_one (Queue m) s = (r, s')" and ow': "ow' = ow(m := 0)"
    using l by (cases "notify_one (Queue m) s") (auto simp: mutex_unlock_def Let_def split: if_splits)
  have s': "sched_inv (s', pc)"
    using notify_one_inv [OF sched_invD(1) [OF si] n] sched_inv_wake [OF si] by blast
  have f: "sd_ids s' = sd_ids s" "q' \<noteq> Queue m \<Longrightarrow> sd_wq s' q' = sd_wq s q'"
    "task_state t s \<noteq> Blocked \<Longrightarrow> task_state t s' \<noteq> Blocked" for q' t
    using n by (auto simp: notify_one_def unblock_one_task_state split: list.splits if_splits)
  have "woken s' pc m'" if m': "ow' m' = 0" "sd_wq s' (Queue m') \<noteq> []" for m'
  proof (cases "m' = m")
    case True
    obtain t ts where q: "sd_wq s (Queue m) = t # ts"
      using m'(2) n True by (cases "sd_wq s (Queue m)") (auto simp: notify_one_def)
    have "wq_ok s pc" using sched_invD(1) [OF si] by (simp add: base_inv_def)
    moreover have "t \<in> set (sd_wq s (Queue m))" using q by simp
    ultimately obtain b where t: "t \<in> set (sd_ids s)" "pc t = Some (Queue m, b)" unfolding wq_ok_def by blast
    have "\<forall>t m b. pc t = Some (Queue m, b) \<longrightarrow> \<not> b" using inv unfolding lock_inv_def prod.case by blast
    with t(2) have "\<not> b" by blast
    moreover have "task_state t s' \<noteq> Blocked" using n q by (auto simp: notify_one_def unblock_one_task_state split: if_splits)
    ultimately show ?thesis using f(1) True t unfolding woken_def by auto
  next
    case False
    then have "sd_wq s (Queue m') \<noteq> []" "ow m' = 0" using f(2) [of "Queue m'"] m' ow' by simp_all
    then have "woken s pc m'" using inv unfolding lock_inv_def by blast
    then show ?thesis using f(1,3) unfolding woken_def by auto
  qed
  then show ?thesis using inv s' f(1) unfolding lock_inv_def by auto
qed


lemma lock_take_inv:
  assumes inv: "lock_inv (s, pc, ow)" and l: "mutex_lock_round False m (s, ow) = (Ok (Some True), (s', ow'))"
  shows "lock_inv (s', pc, ow')"
proof -
  have e: "s' = s" "ow' = ow(m := sd_current s)"
    using l by (auto simp: mutex_lock_round_def wait_until_def Let_def sbind_def
        split: if_splits outcome.splits prod.splits)
  have "sched_inv (s, pc)" using inv by (simp add: lock_inv_def)
  then have "sd_current s \<in> set (sd_ids s)" by (rule sched_invD(3))
  then have "sd_current s \<noteq> 0" using inv by (auto simp: lock_inv_def)
  with inv show ?thesis unfolding e lock_inv_def by auto
qed

lemma lock_step_inv: "lock_step a b \<Longrightarrow> lock_inv a \<Longrightarrow> lock_inv b"
proof (induction rule: lock_step.induct)
  case (lock_take pc s m ow s' ow')
  then show ?case by (blast intro: lock_take_inv)
next
  case (lock_block s pc m ow s' ow')
  then show ?case by (blast intro: lock_block_inv)
next
  case (lock_retry pc s m ow s' ow')
  then show ?case by (blast intro: lock_retry_inv)
next
  case (lock_release pc s m ow s' ow')
  then show ?case by (blast intro: lock_release_inv)
next
  case (other_yield pc s s' ow)
  then have si: "sched_inv (s, pc)" by (simp add: lock_inv_def)
  then show ?case
    using yield_current_inv [OF si] other_yield yield_keeps lock_inv_wake [OF other_yield.prems] by fastforce
next
  case (other_wait q s pc s' ow)
  then have si: "sched_inv (s, pc)" by (simp add: lock_inv_def)
  have "sched_inv (s', pc(sd_current s := Some (q, False)))"
    using wait_inv [OF si other_wait.hyps(2,3)] other_wait.hyps(4) by (auto simp: wait_def)
  then show ?case
    using other_wait.hyps(1,3)
    by (intro lock_inv_keeps [OF other_wait.prems _ wait_keeps [OF other_wait.hyps(4,1)]])
       (auto simp: is_mutex_queue_def)
next
  case (other_sleep s pc dl now s' ow)
  then have si: "sched_inv (s, pc)" by (simp add: lock_inv_def)
  have "sched_inv (s', pc)" using sleep_until_inv [OF si other_sleep.hyps(1-3), of dl now] other_sleep.hyps(4) by auto
  then show ?case
    using other_sleep.hyps(2)
    by (intro lock_inv_keeps [OF other_sleep.prems _ sleep_keeps [OF other_sleep.hyps(4)]]) auto
next
  case (other_resume q pc s b ow)
  then have si: "sched_inv (s, pc)" by (simp add: lock_inv_def)
  have "keeps {sd_current s} s (cancel_events q b s)" using cancel_events_keeps [OF other_resume.hyps(1)] keeps_mono by blast
  then show ?case
    using other_resume.hyps cancel_events_inv [OF si other_resume.hyps(2)]
    by (intro lock_inv_keeps [OF other_resume.prems]) (auto simp: is_mutex_queue_def)
next
  case (other_exit s pc ow code s')
  then have si: "sched_inv (s, pc)" by (simp add: lock_inv_def)
  have "\<not> tk_init (sd_task s (sd_current s))"
    using other_exit.hyps(4) by (auto simp: exit_current_def Let_def split: if_splits)
  then have "sched_inv (s', pc)"
    using exit_current_inv [OF si other_exit.hyps(1,2), of code] other_exit.hyps(4) by auto
  then show ?case
    using other_exit.hyps(2)
    by (intro lock_inv_keeps [OF other_exit.prems _ exit_keeps [OF other_exit.hyps(4)]]) auto
next
  case (other_notify q s pc ow)
  then have si: "sched_inv (s, pc)" by (simp add: lock_inv_def)
  have "sched_inv (notify_all q s, pc)" using notify_all_inv [OF sched_invD(1) [OF si]] sched_inv_wake [OF si] by blast
  then show ?case by (rule lock_inv_wake [OF other_notify.prems _ notify_all_keeps [OF other_notify.hyps(1)]])
next
  case (other_tick s pc ow clk)
  then have si: "sched_inv (s, pc)" by (simp add: lock_inv_def)
  have "sched_inv (on_timer_tick clk s, pc)"
    unfolding on_timer_tick_def using check_events_inv [OF sched_invD(1) [OF si]] sched_inv_wake [OF si] by blast
  moreover have "keeps {} s (on_timer_tick clk s)" unfolding on_timer_tick_def by (rule check_events_keeps)
  ultimately show ?case by (rule lock_inv_wake [OF other_tick.prems])
next
  case (other_spawn s name t s' pc ow)
  then have si: "sched_inv (s, pc)" by (simp add: lock_inv_def)
  have "sched_inv (s', pc)" using spawn_task_inv [OF si other_spawn.hyps(1,3)] other_spawn.hyps(4) by auto
  then show ?case by (rule lock_inv_wake [OF other_spawn.prems _ spawn_keeps [OF other_spawn.hyps(4,1,2)]])
qed

section \<open>Properties\<close>

definition lock_init :: "sched \<times> pcs \<times> owners" where
  "lock_init = (sched_init, \<lambda>_. None, \<lambda>_. 0)"

lemma lock_reachable_inv: "lock_step\<^sup>*\<^sup>* lock_init x \<Longrightarrow> lock_inv x"
proof (induction rule: rtranclp_induct)
  case base
  have "\<not> woken sched_init (\<lambda>_. None) m" "sd_wq sched_init q = []" "0 \<notin> set (sd_ids sched_init)" for m q
    by (simp_all add: woken_def sched_init_def)
  then show ?case using sched_init_inv by (simp add: lock_inv_def lock_init_def)
next
  case (step y z)
  then show ?case by (blast intro: lock_step_inv)
qed


text \<open>The main task holds mutex 0, two tasks block on it, and the main task releases it.\<close>

definition demo_lock1 :: sched where
  "demo_lock1 = snd (yield_current (snd (spawn_task ''w'' sched_init)))"

definition demo_lock2 :: sched where
  "demo_lock2 = snd (blocked_resched (Queue 0) demo_lock1)"

definition demo_lock3 :: sched where
  "demo_lock3 = snd (blocked_resched (Queue 0) demo_lock2)"

definition demo_lock4 :: sched where
  "demo_lock4 = snd (notify_one (Queue 0) demo_lock3)"

lemmas demo_lock_ops = yield_current_def spawn_task_def add_task_def sched_push_def put_task_with_state_def
  transition_state_def notify_one_def unblock_one_task_def unblock_task_def
  blocked_resched_def sched_init_def task_state_def task_new_init_def task_new_def task_new_common_def set_state_def
  set_in_wait_queue_def upd_task_def resched_def pick_next_task_def Let_def switch_to_def

lemma demo_lock_reachable:
  "lock_step\<^sup>*\<^sup>* lock_init (demo_lock4, (\<lambda>_. None)(3 := Some (Queue 0, False), 4 := Some (Queue 0, False)), \<lambda>_. 0)"
proof -
  let ?ow = "(\<lambda>_. 0)(0 := 2) :: owners"
  let ?s1 = "snd (spawn_task ''w'' sched_init)"
  have "lock_step lock_init (sched_init, \<lambda>_. None, ?ow)"
    unfolding lock_init_def by (rule lock_take [where m = 0]) (simp_all add: mutex_lock_round_def demo_lock_ops)
  moreover have "lock_step (sched_init, \<lambda>_. None, ?ow) (?s1, \<lambda>_. None, ?ow)"
    by (rule other_spawn [where name = "''w''" and t = 4]) (simp_all add: demo_lock_ops)
  moreover have "lock_step (?s1, \<lambda>_. None, ?ow) (demo_lock1, \<lambda>_. None, ?ow)"
    unfolding demo_lock1_def by (rule other_yield) (simp_all add: demo_lock_ops)
  moreover have "lock_step (demo_lock1, \<lambda>_. None, ?ow) (demo_lock2, (\<lambda>_. None)(3 := Some (Queue 0, False)), ?ow)"
    using lock_block [of demo_lock1 "\<lambda>_. None" 0 ?ow demo_lock2 ?ow]
    by (simp add: mutex_lock_round_def wait_until_def mutex_is_locked_def demo_lock1_def demo_lock2_def sbind_def demo_lock_ops)
  moreover have "lock_step (demo_lock2, (\<lambda>_. None)(3 := Some (Queue 0, False)), ?ow)
      (demo_lock3, (\<lambda>_. None)(3 := Some (Queue 0, False), 4 := Some (Queue 0, False)), ?ow)"
    using lock_block [of demo_lock2 "(\<lambda>_. None)(3 := Some (Queue 0, False))" 0 ?ow demo_lock3 ?ow]
    by (simp add: mutex_lock_round_def wait_until_def mutex_is_locked_def demo_lock1_def demo_lock2_def demo_lock3_def
        sbind_def demo_lock_ops)
  moreover have "lock_step (demo_lock3, (\<lambda>_. None)(3 := Some (Queue 0, False), 4 := Some (Queue 0, False)), ?ow)
      (demo_lock4, (\<lambda>_. None)(3 := Some (Queue 0, False), 4 := Some (Queue 0, False)), \<lambda>_. 0)"
    by (rule lock_release [where m = 0])
       (simp_all add: mutex_unlock_def demo_lock1_def demo_lock2_def demo_lock3_def demo_lock4_def demo_lock_ops fun_upd_idem)
  ultimately show ?thesis by (meson converse_rtranclp_into_rtranclp rtranclp.rtrancl_refl)
qed


text \<open>
  C21. Mutual exclusion: a step of the system changes the owner of a mutex only when the current task takes a
  free mutex for itself, or when the owner is the current task and gives it back. A second lock by the owner
  and an unlock by another task panic.
\<close>

theorem mutex_exclusive:
  assumes "lock_step (s, pc, ow) (s', pc', ow')"
  shows "(ow' m \<noteq> ow m \<longrightarrow> (ow m = 0 \<and> ow' m = sd_current s) \<or> (ow m = sd_current s \<and> ow' m = 0))
    \<and> (ow m = sd_current s \<and> ow m \<noteq> 0 \<longrightarrow> fst (mutex_lock_round weak m (s, ow)) = Panic)
    \<and> (ow m \<noteq> sd_current s \<longrightarrow> fst (mutex_unlock m (s, ow)) = Panic)"
proof -
  have "ow' m \<noteq> ow m \<longrightarrow> (ow m = 0 \<and> ow' m = sd_current s) \<or> (ow m = sd_current s \<and> ow' m = 0)"
    using assms
    by (cases rule: lock_step.cases)
       (auto simp: mutex_lock_round_def mutex_unlock_def wait_until_def cancel_events_def Let_def sbind_def
         set_in_wait_queue_def split: if_splits outcome.splits prod.splits)
  then show ?thesis by (simp add: mutex_lock_round_def mutex_unlock_def Let_def)
qed

theorem mutex_exclusive_witness:
  "fst (mutex_unlock 0 (sched_init, (\<lambda>_. 0)(0 := 7))) = Panic"
proof -
  have "lock_step (sched_init, \<lambda>_. None, (\<lambda>_. 0)(0 := 7)) (on_timer_tick clk sched_init, \<lambda>_. None, (\<lambda>_. 0)(0 := 7))" for clk
    by (rule other_tick)
  from mutex_exclusive [OF this, of 0 False] show ?thesis by (simp add: sched_init_def)
qed

end
