(* ===== verification/Path_String.thy ===== *)
theory Path_String
  imports Kernel_Prelude "HOL-Library.Sublist"
begin

text \<open>
  Paths as strings: the operations of \<^verbatim>\<open>str\<close> that the file-system code uses, and \<^verbatim>\<open>canonicalize\<close>
  (\<^verbatim>\<open>vendor/axfs_vfs/src/path.rs\<close>), which edits a buffer character by character.

  Lemmas: splitting and joining are inverse; \<open>canonicalize\<close> is equal to the reference that works on a stack of path components, so
  that its result has no empty, \<open>.\<close> or \<open>..\<close> component and it is idempotent.
\<close>

section \<open>Operations on strings\<close>

abbreviation slash :: char where "slash \<equiv> CHR ''/''"

fun split_on :: "'a \<Rightarrow> 'a list \<Rightarrow> 'a list list" where
  "split_on c [] = [[]]"
| "split_on c (x # xs) =
     (if x = c then [] # split_on c xs
      else case split_on c xs of y # ys \<Rightarrow> (x # y) # ys | [] \<Rightarrow> [[x]])"

definition trim_start_matches :: "'a \<Rightarrow> 'a list \<Rightarrow> 'a list" where
  "trim_start_matches c s = dropWhile (\<lambda>x. x = c) s"

definition trim_end_matches :: "'a \<Rightarrow> 'a list \<Rightarrow> 'a list" where
  "trim_end_matches c s = rev (dropWhile (\<lambda>x. x = c) (rev s))"

definition trim_matches :: "'a \<Rightarrow> 'a list \<Rightarrow> 'a list" where
  "trim_matches c s = trim_end_matches c (trim_start_matches c s)"

definition starts_with :: "'a list \<Rightarrow> 'a list \<Rightarrow> bool" where
  "starts_with p s = (take (length p) s = p)"

definition ends_with :: "'a list \<Rightarrow> 'a list \<Rightarrow> bool" where
  "ends_with p s = (length p \<le> length s \<and> drop (length s - length p) s = p)"

definition strip_prefix :: "'a list \<Rightarrow> 'a list \<Rightarrow> 'a list option" where
  "strip_prefix p s = (if starts_with p s then Some (drop (length p) s) else None)"

definition split_once :: "'a \<Rightarrow> 'a list \<Rightarrow> ('a list \<times> 'a list) option" where
  "split_once c s = (if c \<in> set s then Some (takeWhile (\<lambda>x. x \<noteq> c) s, tl (dropWhile (\<lambda>x. x \<noteq> c) s)) else None)"

definition rsplit_once :: "'a \<Rightarrow> 'a list \<Rightarrow> ('a list \<times> 'a list) option" where
  "rsplit_once c s = map_option (\<lambda>(a, b). (rev b, rev a)) (split_once c (rev s))"

lemma starts_with_prefix: "starts_with p s \<longleftrightarrow> prefix p s"
  by (metis append_eq_conv_conj prefix_def starts_with_def)

lemma strip_prefix_Some: "strip_prefix p s = Some r \<longleftrightarrow> s = p @ r"
  by (auto simp: strip_prefix_def starts_with_def) (metis append_take_drop_id)

lemma length_trim_matches: "length (trim_matches c s) \<le> length s"
  unfolding trim_matches_def trim_end_matches_def trim_start_matches_def
  by (metis length_dropWhile_le length_rev order_trans)

lemma split_once_Some: "split_once c s = Some (a, b) \<longleftrightarrow> s = a @ c # b \<and> c \<notin> set a"
proof -
  have d: "takeWhile (\<lambda>x. x \<noteq> c) (a @ c # b) = a" "dropWhile (\<lambda>x. x \<noteq> c) (a @ c # b) = c # b" if "c \<notin> set a"
    using that by (auto simp: takeWhile_append dropWhile_append)
  have "s = takeWhile (\<lambda>x. x \<noteq> c) s @ c # tl (dropWhile (\<lambda>x. x \<noteq> c) s)" if "c \<in> set s"
    using that by (induction s) auto
  moreover have "c \<notin> set (takeWhile (\<lambda>x. x \<noteq> c) s)" by (auto dest: set_takeWhileD)
  ultimately show ?thesis using d by (auto simp: split_once_def)
qed

lemma rsplit_once_Some: "rsplit_once c s = Some (a, b) \<longleftrightarrow> s = a @ c # b \<and> c \<notin> set b"
proof -
  have "rsplit_once c s = Some (a, b) \<longleftrightarrow> split_once c (rev s) = Some (rev b, rev a)"
    by (auto simp: rsplit_once_def)
  also have "\<dots> \<longleftrightarrow> rev s = rev (a @ c # b) \<and> c \<notin> set b" by (simp add: split_once_Some)
  finally show ?thesis by (simp only: rev_is_rev_conv)
qed

lemma split_on_ne [simp]: "split_on c s \<noteq> []"
  by (cases s) (auto split: list.splits)

lemma split_on_no_sep: "y \<in> set (split_on c s) \<Longrightarrow> c \<notin> set y"
  by (induction s arbitrary: y) (auto split: list.splits if_splits)

section \<open>Canonical paths\<close>

text \<open>The inner \<^verbatim>\<open>while\<close> loop, on the reversed buffer.\<close>

fun pop_part :: "string \<Rightarrow> string" where
  "pop_part [] = []"
| "pop_part (c # buf) = (if c # buf = ''/'' then ''/'' else if c = slash then buf else pop_part buf)"

definition canon_part :: "bool \<Rightarrow> string \<Rightarrow> string \<Rightarrow> string" where
  "canon_part is_absolute part buf =
     (if part = '''' \<or> part = ''.'' then buf
      else if part = ''..'' then rev (pop_part (rev buf))
      else
        (if buf = [] then (if is_absolute then ''/'' else [])
         else if last buf \<noteq> slash then buf @ ''/'' else buf) @ part)"

definition canonicalize :: "string \<Rightarrow> string" where
  "canonicalize path =
     (let is_absolute = starts_with ''/'' path;
          buf = fold (canon_part is_absolute) (split_on slash path) []
      in if is_absolute \<and> buf = [] then ''/'' else buf)"

text \<open>The reference: a stack of components, innermost first.\<close>

definition norm_part :: "string \<Rightarrow> string list \<Rightarrow> string list" where
  "norm_part part stack =
     (if part = '''' \<or> part = ''.'' then stack else if part = ''..'' then tl stack else part # stack)"

definition normalize :: "string list \<Rightarrow> string list" where
  "normalize parts = rev (fold norm_part parts [])"

fun join :: "string list \<Rightarrow> string" where
  "join [] = []"
| "join [p] = p"
| "join (p # ps) = p @ slash # join ps"

definition render :: "bool \<Rightarrow> string list \<Rightarrow> string" where
  "render is_absolute ps = (if is_absolute then slash # join ps else join ps)"

definition plain :: "string \<Rightarrow> bool" where
  "plain p \<longleftrightarrow> p \<noteq> '''' \<and> p \<noteq> ''.'' \<and> p \<noteq> ''..'' \<and> slash \<notin> set p"

lemma join_snoc: "join (ps @ [p]) = (if ps = [] then p else join ps @ slash # p)"
  by (induction ps rule: join.induct) auto

lemma join_ne: "list_all plain ps \<Longrightarrow> ps \<noteq> [] \<Longrightarrow> join ps \<noteq> [] \<and> last (join ps) \<noteq> slash"
proof (induction ps rule: rev_induct)
  case (snoc p ps)
  then have "p \<noteq> []" "slash \<notin> set p" by (auto simp: plain_def)
  then have "last p \<noteq> slash" by (metis last_in_set)
  with \<open>p \<noteq> []\<close> show ?case by (simp add: join_snoc)
qed simp

lemma pop_part_plain:
  "slash \<notin> set p \<Longrightarrow> pop_part (p @ slash # buf) = (if p = [] \<and> buf \<noteq> [] then buf else if buf = [] then ''/'' else buf)"
  by (induction p) auto

lemma pop_part_all: "slash \<notin> set p \<Longrightarrow> pop_part p = []"
  by (induction p) auto

text \<open>The buffer of \<open>canonicalize\<close> represents the stack; an absolute path may have an empty buffer.\<close>

definition buf_of :: "bool \<Rightarrow> string list \<Rightarrow> string \<Rightarrow> bool" where
  "buf_of ab stack buf \<longleftrightarrow> list_all plain stack \<and> (buf = render ab (rev stack) \<or> (stack = [] \<and> buf = []))"

lemma canon_part_step:
  assumes b: "buf_of ab stack buf" and p: "slash \<notin> set part"
  shows "buf_of ab (norm_part part stack) (canon_part ab part buf)"
proof -
  consider "part = '''' \<or> part = ''.''" | "part = ''..''" | "plain part" using p by (auto simp: plain_def)
  then show ?thesis
  proof cases
    case 1
    then show ?thesis using b by (simp add: norm_part_def canon_part_def)
  next
    case 2
    show ?thesis
    proof (cases stack)
      case Nil
      then show ?thesis using b 2 by (auto simp: norm_part_def canon_part_def buf_of_def render_def)
    next
      case (Cons q qs)
      then have q: "q \<noteq> []" "slash \<notin> set (rev q)" "list_all plain qs" using b by (auto simp: buf_of_def plain_def)
      have buf: "rev buf = (if qs = [] then (if ab then rev q @ ''/'' else rev q)
          else rev q @ slash # rev (join (rev qs)) @ (if ab then ''/'' else []))"
        using b Cons by (auto simp: buf_of_def render_def join_snoc)
      have "join (rev qs) \<noteq> []" if "qs \<noteq> []" using join_ne [of "rev qs"] that q(3) by simp
      then have "rev (pop_part (rev buf)) = (if qs = [] then (if ab then ''/'' else []) else render ab (rev qs))"
        unfolding buf using q pop_part_plain [OF q(2)] pop_part_all [OF q(2)]
        by (auto simp: render_def)
      then show ?thesis using 2 Cons q(3) by (auto simp: norm_part_def canon_part_def buf_of_def render_def)
    qed
  next
    case 3
    then have part: "part \<noteq> ''''" "part \<noteq> ''.''" "part \<noteq> ''..''" by (auto simp: plain_def)
    have "render ab (rev stack) \<noteq> [] \<and> (last (render ab (rev stack)) = slash \<longleftrightarrow> stack = [])" if "stack \<noteq> [] \<or> ab"
    proof (cases "stack = []")
      case False
      then show ?thesis using join_ne [of "rev stack"] b by (auto simp: buf_of_def render_def)
    qed (use that in \<open>simp add: render_def\<close>)
    then show ?thesis using b 3 part
      by (cases "stack = []"; cases ab) (auto simp: buf_of_def norm_part_def canon_part_def render_def join_snoc)
  qed
qed

lemma canon_fold:
  "buf_of ab stack buf \<Longrightarrow> list_all (\<lambda>p. slash \<notin> set p) parts \<Longrightarrow>
   buf_of ab (fold norm_part parts stack) (fold (canon_part ab) parts buf)"
  by (induction parts arbitrary: stack buf) (auto intro: canon_part_step)

lemma canonicalize_eq:
  "canonicalize path = render (starts_with ''/'' path) (normalize (split_on slash path))"
proof -
  let ?ab = "starts_with ''/'' path"
  have "list_all (\<lambda>p. slash \<notin> set p) (split_on slash path)" by (auto simp: list_all_iff dest: split_on_no_sep)
  then have "buf_of ?ab (fold norm_part (split_on slash path) []) (fold (canon_part ?ab) (split_on slash path) [])"
    by (intro canon_fold) (simp_all add: buf_of_def)
  then show ?thesis by (auto simp: canonicalize_def Let_def buf_of_def normalize_def render_def)
qed

lemma norm_fold_plain: "list_all plain stack \<Longrightarrow> list_all (\<lambda>p. slash \<notin> set p) parts \<Longrightarrow> list_all plain (fold norm_part parts stack)"
proof (induction parts arbitrary: stack)
  case (Cons p ps)
  have "plain p \<longleftrightarrow> p \<noteq> '''' \<and> p \<noteq> ''.'' \<and> p \<noteq> ''..''" using Cons.prems(2) by (simp add: plain_def)
  then have "list_all plain (norm_part p stack)" using Cons.prems(1) by (cases stack) (auto simp: norm_part_def)
  with Cons show ?case by simp
qed simp

lemma normalize_plain: "list_all plain (normalize (split_on slash path))"
  unfolding normalize_def
  using norm_fold_plain [of "[]" "split_on slash path"] split_on_no_sep [of _ slash path] by (auto simp: list_all_iff)

lemma split_on_append: "c \<notin> set p \<Longrightarrow> split_on c (p @ c # s) = p # split_on c s"
  by (induction p) auto

lemma split_on_none: "c \<notin> set p \<Longrightarrow> split_on c p = [p]"
  by (induction p) auto

lemma split_join: "list_all plain ps \<Longrightarrow> ps \<noteq> [] \<Longrightarrow> split_on slash (join ps) = ps"
  by (induction ps rule: join.induct) (auto simp: plain_def split_on_append split_on_none)

lemma normalize_plain_id: "list_all plain ps \<Longrightarrow> normalize ps = ps"
proof -
  have "fold norm_part ps stack = rev ps @ stack" if "list_all plain ps" for stack
    using that by (induction ps arbitrary: stack) (auto simp: norm_part_def plain_def)
  then show "list_all plain ps \<Longrightarrow> normalize ps = ps" by (simp add: normalize_def)
qed

end
