(* ===== verification/Vfs_Root.thy ===== *)
theory Vfs_Root
  imports Path_String
begin

unbundle bit_operations_syntax

text \<open>
  The virtual file system: the interface of a file system (\<^verbatim>\<open>vendor/axfs_vfs\<close>) as a record of operations,
  and the root directory with its mount points and path operations (\<^verbatim>\<open>.arceos/modules/axfs/src/root.rs\<close>).
  The mounted file systems are numbered; \<open>'n\<close> are their nodes and \<open>'s\<close> is their state. A node the
  kernel holds is the root directory or a node of a file system. The current directory is the one of the running process.

  Lemmas: a file system is chosen by the longest matching
  mount path, where a match need not end at a component; absolute paths are canonical.
\<close>

section \<open>Nodes and file systems\<close>

datatype vfs_node_type = Fifo | CharDevice | Dir | BlockDevice | File | SymLink | Socket

fun node_type_code :: "vfs_node_type \<Rightarrow> u8" where
  "node_type_code Fifo = 1" | "node_type_code CharDevice = 2" | "node_type_code Dir = 4"
| "node_type_code BlockDevice = 6" | "node_type_code File = 8" | "node_type_code SymLink = 10"
| "node_type_code Socket = 12"

definition OWNER_READ :: u16 where "OWNER_READ = 0x100"
definition OWNER_WRITE :: u16 where "OWNER_WRITE = 0x80"
definition OWNER_EXEC :: u16 where "OWNER_EXEC = 0x40"

record vfs_node_attr =
  at_mode :: u16
  at_ty :: vfs_node_type
  at_size :: u64
  at_blocks :: u64

definition attr_is_dir :: "vfs_node_attr \<Rightarrow> bool" where "attr_is_dir a = (at_ty a = Dir)"
definition owner_readable :: "u16 \<Rightarrow> bool" where "owner_readable p = (p AND OWNER_READ = OWNER_READ)"
definition owner_writable :: "u16 \<Rightarrow> bool" where "owner_writable p = (p AND OWNER_WRITE = OWNER_WRITE)"
definition owner_executable :: "u16 \<Rightarrow> bool" where "owner_executable p = (p AND OWNER_EXEC = OWNER_EXEC)"

text \<open>A directory entry: its type and its name, the bytes before the first zero byte of \<^verbatim>\<open>d_name\<close>.\<close>

record vfs_dir_entry =
  de_type :: vfs_node_type
  de_name :: string

type_synonym ('s, 'a) vfs_op = "'s \<Rightarrow> (ax_error, 'a) outcome \<times> 's"

record ('n, 's) vfs =
  vn_open :: "'n \<Rightarrow> ('s, unit) vfs_op"
  vn_release :: "'n \<Rightarrow> ('s, unit) vfs_op"
  vn_get_attr :: "'n \<Rightarrow> ('s, vfs_node_attr) vfs_op"
  vn_read_at :: "'n \<Rightarrow> u64 \<Rightarrow> nat \<Rightarrow> ('s, u8 list) vfs_op"
  vn_write_at :: "'n \<Rightarrow> u64 \<Rightarrow> u8 list \<Rightarrow> ('s, usize) vfs_op"
  vn_fsync :: "'n \<Rightarrow> ('s, unit) vfs_op"
  vn_truncate :: "'n \<Rightarrow> u64 \<Rightarrow> ('s, unit) vfs_op"
  vn_lookup :: "'n \<Rightarrow> string \<Rightarrow> ('s, 'n) vfs_op"
  vn_create :: "'n \<Rightarrow> string \<Rightarrow> vfs_node_type \<Rightarrow> ('s, unit) vfs_op"
  vn_remove :: "'n \<Rightarrow> string \<Rightarrow> ('s, unit) vfs_op"
  vn_read_dir :: "'n \<Rightarrow> nat \<Rightarrow> nat \<Rightarrow> ('s, vfs_dir_entry list) vfs_op"
  vn_rename :: "'n \<Rightarrow> string \<Rightarrow> string \<Rightarrow> ('s, unit) vfs_op"
  vf_root_dir :: "nat \<Rightarrow> 'n"
  vf_mount :: "nat \<Rightarrow> string \<Rightarrow> 'n \<Rightarrow> ('s, unit) vfs_op"
  vf_umount :: "nat \<Rightarrow> ('s, unit) vfs_op"

datatype 'n node = RootDir | Sub 'n

record ('n, 's) fsys =
  fs_sub :: 's
  fs_main :: nat
  fs_mounts :: "(string \<times> nat) list"
  fs_cwd :: "'n node"
  fs_cwd_path :: string

type_synonym ('n, 's, 'a) fs_op = "('n, 's) fsys \<Rightarrow> (ax_error, 'a) outcome \<times> ('n, 's) fsys"

definition sub :: "('s, 'a) vfs_op \<Rightarrow> ('n, 's, 'a) fs_op" where
  "sub f st = (case f (fs_sub st) of (r, s) \<Rightarrow> (r, st\<lparr>fs_sub := s\<rparr>))"

section \<open>The root directory\<close>

definition root_contains :: "string \<Rightarrow> ('n, 's) fsys \<Rightarrow> bool" where
  "root_contains path st = list_ex (\<lambda>mp. fst mp = path) (fs_mounts st)"

definition root_mount :: "('n, 's) vfs \<Rightarrow> string \<Rightarrow> nat \<Rightarrow> ('n, 's, unit) fs_op" where
  "root_mount v path fs st =
     (if path = ''/'' then (Err InvalidInput, st)
      else if \<not> starts_with ''/'' path then (Err InvalidInput, st)
      else if root_contains path st then (Err InvalidInput, st)
      else let root = vf_root_dir v (fs_main st) in
        sbind (sub (vn_create v root path Dir) st) (\<lambda>_ st.
        sbind (sub (vn_lookup v root path) st) (\<lambda>mount_point st.
        sbind (sub (vf_mount v fs path mount_point) st) (\<lambda>_ st.
          (Ok (), st\<lparr>fs_mounts := fs_mounts st @ [(path, fs)]\<rparr>)))))"

text \<open>\<^verbatim>\<open>_umount\<close>: the removed mount points are dropped, which unmounts their file systems; errors are ignored.\<close>

definition root_umount :: "('n, 's) vfs \<Rightarrow> string \<Rightarrow> ('n, 's) fsys \<Rightarrow> ('n, 's) fsys" where
  "root_umount v path st =
     fold (\<lambda>mp st. snd (sub (vf_umount v (snd mp)) st)) (filter (\<lambda>mp. fst mp = path) (fs_mounts st))
       (st\<lparr>fs_mounts := filter (\<lambda>mp. fst mp \<noteq> path) (fs_mounts st)\<rparr>)"

text \<open>The \<^verbatim>\<open>for\<close> loop of \<^verbatim>\<open>lookup_mounted_fs\<close>: the index and the length of the longest match so far.\<close>

definition longest_mount :: "string \<Rightarrow> (string \<times> nat) list \<Rightarrow> nat \<times> nat" where
  "longest_mount path mounts =
     fold (\<lambda>(i, mp) (idx, max_len).
         if starts_with (tl (fst mp)) path \<and> max_len < length (fst mp) - 1 then (i, length (fst mp) - 1) else (idx, max_len))
       (enumerate 0 mounts) (0, 0)"

text \<open>Which file system serves a path, and the rest of the path there.\<close>

function lookup_mounted_fs :: "nat \<Rightarrow> (string \<times> nat) list \<Rightarrow> string \<Rightarrow> nat \<times> string" where
  "lookup_mounted_fs main mounts path =
     (let path = trim_matches slash path in
      case strip_prefix ''./'' path of
        Some rest \<Rightarrow> lookup_mounted_fs main mounts rest
      | None \<Rightarrow>
          (case longest_mount path mounts of (idx, max_len) \<Rightarrow>
             if max_len = 0 then (main, path) else (snd (mounts ! idx), drop max_len path)))"
  by pat_completeness auto
termination
proof (relation "measure (\<lambda>(main, mounts, path). length path)", goal_cases)
  case (2 main mounts path path' rest)
  then have "path' = ''./'' @ rest" by (simp only: strip_prefix_Some)
  then have "length rest < length path'" by simp
  also have "\<dots> \<le> length path" using 2(1) length_trim_matches by simp
  finally show ?case by simp
qed simp

declare lookup_mounted_fs.simps [simp del]

definition route :: "string \<Rightarrow> ('n, 's) fsys \<Rightarrow> nat \<times> string" where
  "route path st = lookup_mounted_fs (fs_main st) (fs_mounts st) path"

definition root_get_attr :: "('n, 's) vfs \<Rightarrow> ('n, 's, vfs_node_attr) fs_op" where
  "root_get_attr v st = sub (vn_get_attr v (vf_root_dir v (fs_main st))) st"

definition root_lookup :: "('n, 's) vfs \<Rightarrow> string \<Rightarrow> ('n, 's, 'n node) fs_op" where
  "root_lookup v path st =
     (case route path st of (fs, rest_path) \<Rightarrow>
        sbind (sub (vn_lookup v (vf_root_dir v fs) rest_path) st) (\<lambda>n st. (Ok (Sub n), st)))"

definition root_create :: "('n, 's) vfs \<Rightarrow> string \<Rightarrow> vfs_node_type \<Rightarrow> ('n, 's, unit) fs_op" where
  "root_create v path ty st =
     (case route path st of (fs, rest_path) \<Rightarrow>
        if rest_path = [] then (Ok (), st) else sub (vn_create v (vf_root_dir v fs) rest_path ty) st)"

definition root_remove :: "('n, 's) vfs \<Rightarrow> string \<Rightarrow> ('n, 's, unit) fs_op" where
  "root_remove v path st =
     (case route path st of (fs, rest_path) \<Rightarrow>
        if rest_path = [] then (Err PermissionDenied, st) else sub (vn_remove v (vf_root_dir v fs) rest_path) st)"

definition root_rename :: "('n, 's) vfs \<Rightarrow> string \<Rightarrow> string \<Rightarrow> ('n, 's, unit) fs_op" where
  "root_rename v src_path dst_path st =
     (case route src_path st of (fs, rest_path) \<Rightarrow>
        if rest_path = [] then (Err PermissionDenied, st) else sub (vn_rename v (vf_root_dir v fs) rest_path dst_path) st)"

section \<open>Operations of a node\<close>

definition nd_open :: "('n, 's) vfs \<Rightarrow> 'n node \<Rightarrow> ('n, 's, unit) fs_op" where
  "nd_open v n st = (case n of RootDir \<Rightarrow> (Ok (), st) | Sub m \<Rightarrow> sub (vn_open v m) st)"

definition nd_release :: "('n, 's) vfs \<Rightarrow> 'n node \<Rightarrow> ('n, 's, unit) fs_op" where
  "nd_release v n st = (case n of RootDir \<Rightarrow> (Ok (), st) | Sub m \<Rightarrow> sub (vn_release v m) st)"

definition nd_get_attr :: "('n, 's) vfs \<Rightarrow> 'n node \<Rightarrow> ('n, 's, vfs_node_attr) fs_op" where
  "nd_get_attr v n st = (case n of RootDir \<Rightarrow> root_get_attr v st | Sub m \<Rightarrow> sub (vn_get_attr v m) st)"

definition nd_read_at :: "('n, 's) vfs \<Rightarrow> 'n node \<Rightarrow> u64 \<Rightarrow> nat \<Rightarrow> ('n, 's, u8 list) fs_op" where
  "nd_read_at v n off len st = (case n of RootDir \<Rightarrow> (Err IsADirectory, st) | Sub m \<Rightarrow> sub (vn_read_at v m off len) st)"

definition nd_write_at :: "('n, 's) vfs \<Rightarrow> 'n node \<Rightarrow> u64 \<Rightarrow> u8 list \<Rightarrow> ('n, 's, usize) fs_op" where
  "nd_write_at v n off bs st = (case n of RootDir \<Rightarrow> (Err IsADirectory, st) | Sub m \<Rightarrow> sub (vn_write_at v m off bs) st)"

definition nd_fsync :: "('n, 's) vfs \<Rightarrow> 'n node \<Rightarrow> ('n, 's, unit) fs_op" where
  "nd_fsync v n st = (case n of RootDir \<Rightarrow> (Err IsADirectory, st) | Sub m \<Rightarrow> sub (vn_fsync v m) st)"

definition nd_truncate :: "('n, 's) vfs \<Rightarrow> 'n node \<Rightarrow> u64 \<Rightarrow> ('n, 's, unit) fs_op" where
  "nd_truncate v n sz st = (case n of RootDir \<Rightarrow> (Err IsADirectory, st) | Sub m \<Rightarrow> sub (vn_truncate v m sz) st)"

definition nd_lookup :: "('n, 's) vfs \<Rightarrow> 'n node \<Rightarrow> string \<Rightarrow> ('n, 's, 'n node) fs_op" where
  "nd_lookup v n path st =
     (case n of RootDir \<Rightarrow> root_lookup v path st
      | Sub m \<Rightarrow> sbind (sub (vn_lookup v m path) st) (\<lambda>k st. (Ok (Sub k), st)))"

definition nd_create :: "('n, 's) vfs \<Rightarrow> 'n node \<Rightarrow> string \<Rightarrow> vfs_node_type \<Rightarrow> ('n, 's, unit) fs_op" where
  "nd_create v n path ty st = (case n of RootDir \<Rightarrow> root_create v path ty st | Sub m \<Rightarrow> sub (vn_create v m path ty) st)"

definition nd_remove :: "('n, 's) vfs \<Rightarrow> 'n node \<Rightarrow> string \<Rightarrow> ('n, 's, unit) fs_op" where
  "nd_remove v n path st = (case n of RootDir \<Rightarrow> root_remove v path st | Sub m \<Rightarrow> sub (vn_remove v m path) st)"

definition nd_read_dir :: "('n, 's) vfs \<Rightarrow> 'n node \<Rightarrow> nat \<Rightarrow> nat \<Rightarrow> ('n, 's, vfs_dir_entry list) fs_op" where
  "nd_read_dir v n start len st = (case n of RootDir \<Rightarrow> (Err Unsupported, st) | Sub m \<Rightarrow> sub (vn_read_dir v m start len) st)"

definition nd_rename :: "('n, 's) vfs \<Rightarrow> 'n node \<Rightarrow> string \<Rightarrow> string \<Rightarrow> ('n, 's, unit) fs_op" where
  "nd_rename v n src dst st = (case n of RootDir \<Rightarrow> root_rename v src dst st | Sub m \<Rightarrow> sub (vn_rename v m src dst) st)"

section \<open>Operations on paths\<close>

definition parent_node_of :: "'n node option \<Rightarrow> string \<Rightarrow> ('n, 's) fsys \<Rightarrow> 'n node" where
  "parent_node_of dir path st =
     (if starts_with ''/'' path then RootDir else case dir of Some d \<Rightarrow> d | None \<Rightarrow> fs_cwd st)"

definition absolute_path :: "string \<Rightarrow> ('n, 's) fsys \<Rightarrow> string" where
  "absolute_path path st =
     (if starts_with ''/'' path then canonicalize path else canonicalize (fs_cwd_path st @ path))"

definition lookup :: "('n, 's) vfs \<Rightarrow> 'n node option \<Rightarrow> string \<Rightarrow> ('n, 's, 'n node) fs_op" where
  "lookup v dir path st =
     (if path = [] then (Err NotFound, st)
      else sbind (nd_lookup v (parent_node_of dir path st) path st) (\<lambda>n st.
        if ends_with ''/'' path then
          sbind (nd_get_attr v n st) (\<lambda>a st. if \<not> attr_is_dir a then (Err NotADirectory, st) else (Ok n, st))
        else (Ok n, st)))"

definition create_file :: "('n, 's) vfs \<Rightarrow> 'n node option \<Rightarrow> string \<Rightarrow> ('n, 's, 'n node) fs_op" where
  "create_file v dir path st =
     (if path = [] then (Err NotFound, st)
      else if ends_with ''/'' path then (Err NotADirectory, st)
      else let parent = parent_node_of dir path st in
        sbind (nd_create v parent path File st) (\<lambda>_ st. nd_lookup v parent path st))"

definition create_dir :: "('n, 's) vfs \<Rightarrow> 'n node option \<Rightarrow> string \<Rightarrow> ('n, 's, unit) fs_op" where
  "create_dir v dir path st =
     (case lookup v dir path st of
        (Ok _, st) \<Rightarrow> (Err AlreadyExists, st)
      | (Err e, st) \<Rightarrow> if e = NotFound then nd_create v (parent_node_of dir path st) path Dir st else (Err e, st)
      | (Panic, st) \<Rightarrow> (Panic, st))"

definition remove_file :: "('n, 's) vfs \<Rightarrow> 'n node option \<Rightarrow> string \<Rightarrow> ('n, 's, unit) fs_op" where
  "remove_file v dir path st =
     sbind (lookup v dir path st) (\<lambda>n st.
     sbind (nd_get_attr v n st) (\<lambda>a st.
       if attr_is_dir a then (Err IsADirectory, st)
       else if \<not> owner_writable (at_mode a) then (Err PermissionDenied, st)
       else nd_remove v (parent_node_of dir path st) path st))"

definition remove_dir :: "('n, 's) vfs \<Rightarrow> 'n node option \<Rightarrow> string \<Rightarrow> ('n, 's, unit) fs_op" where
  "remove_dir v dir path st =
     (let path_check = trim_matches slash path in
      if path = [] then (Err NotFound, st)
      else if path_check = [] then (Err DirectoryNotEmpty, st)
      else if path_check = ''.'' \<or> path_check = ''..'' \<or> ends_with ''/.'' path_check \<or> ends_with ''/..'' path_check
      then (Err InvalidInput, st)
      else if root_contains (absolute_path path st) st then (Err PermissionDenied, st)
      else
        sbind (lookup v dir path st) (\<lambda>n st.
        sbind (nd_get_attr v n st) (\<lambda>a st.
          if \<not> attr_is_dir a then (Err NotADirectory, st)
          else if \<not> owner_writable (at_mode a) then (Err PermissionDenied, st)
          else nd_remove v (parent_node_of dir path st) path st)))"

definition current_dir :: "('n, 's, string) fs_op" where
  "current_dir st = (Ok (fs_cwd_path st), st)"

definition set_current_dir :: "('n, 's) vfs \<Rightarrow> string \<Rightarrow> ('n, 's, unit) fs_op" where
  "set_current_dir v path st =
     (let p = absolute_path path st; abs_path = (if ends_with ''/'' p then p else p @ ''/'') in
      if abs_path = ''/'' then (Ok (), st\<lparr>fs_cwd := RootDir, fs_cwd_path := ''/''\<rparr>)
      else
        sbind (lookup v None abs_path st) (\<lambda>n st.
        sbind (nd_get_attr v n st) (\<lambda>a st.
          if \<not> attr_is_dir a then (Err NotADirectory, st)
          else if \<not> owner_executable (at_mode a) then (Err PermissionDenied, st)
          else (Ok (), st\<lparr>fs_cwd := n, fs_cwd_path := abs_path\<rparr>))))"

definition rename :: "('n, 's) vfs \<Rightarrow> string \<Rightarrow> string \<Rightarrow> ('n, 's, unit) fs_op" where
  "rename v old new st =
     (let cont = (\<lambda>st. nd_rename v (parent_node_of None old st) old new st) in
      case nd_lookup v (parent_node_of None new st) new st of
        (Ok _, st) \<Rightarrow> sbind (remove_file v None new st) (\<lambda>_ st. cont st)
      | (Err _, st) \<Rightarrow> cont st
      | (Panic, st) \<Rightarrow> (Panic, st))"

section \<open>Properties\<close>

definition mount_matches :: "string \<Rightarrow> string \<times> nat \<Rightarrow> bool" where
  "mount_matches path mp \<longleftrightarrow> prefix (tl (fst mp)) path \<and> 1 < length (fst mp)"

lemma longest_mount_spec:
  assumes "longest_mount path mounts = (idx, n)"
  shows "(n = 0 \<and> (\<forall>mp \<in> set mounts. \<not> mount_matches path mp))
    \<or> (idx < length mounts \<and> mount_matches path (mounts ! idx) \<and> n = length (fst (mounts ! idx)) - 1
       \<and> (\<forall>mp \<in> set mounts. mount_matches path mp \<longrightarrow> length (fst mp) - 1 \<le> n))"
  using assms
proof (induction mounts arbitrary: idx n rule: rev_induct)
  case Nil
  then show ?case by (simp add: longest_mount_def)
next
  case (snoc mp mounts)
  obtain i k where l: "longest_mount path mounts = (i, k)" by fastforce
  have e: "(idx, n) = (if prefix (tl (fst mp)) path \<and> k < length (fst mp) - 1 then (length mounts, length (fst mp) - 1) else (i, k))"
    using snoc.prems l by (auto simp: longest_mount_def enumerate_append_eq starts_with_prefix)
  show ?case
  proof (cases "prefix (tl (fst mp)) path \<and> k < length (fst mp) - 1")
    case True
    then have m: "mount_matches path mp" by (auto simp: mount_matches_def)
    have le: "\<forall>mp' \<in> set mounts. mount_matches path mp' \<longrightarrow> length (fst mp') - 1 \<le> length (fst mp) - 1"
      using snoc.IH [OF l] True by (meson le_trans less_imp_le)
    from True e have "idx = length mounts" "n = length (fst mp) - 1" by auto
    with m le show ?thesis by simp
  next
    case False
    then have m: "mount_matches path mp \<longrightarrow> length (fst mp) - 1 \<le> k" by (auto simp: mount_matches_def)
    from False e have idx: "idx = i" "n = k" by (simp_all split: if_splits)
    from snoc.IH [OF l] show ?thesis
    proof (elim disjE conjE)
      assume "k = 0" "\<forall>mp \<in> set mounts. \<not> mount_matches path mp"
      moreover from this m have "\<not> mount_matches path mp" by (auto simp: mount_matches_def)
      ultimately show ?thesis using idx by simp
    next
      assume "i < length mounts" "mount_matches path (mounts ! i)" "k = length (fst (mounts ! i)) - 1"
        "\<forall>mp \<in> set mounts. mount_matches path mp \<longrightarrow> length (fst mp) - 1 \<le> k"
      with m idx show ?thesis by (simp add: nth_append)
    qed
  qed
qed



text \<open>
  C30. The absolute form of a path, as the file system computes it, is the path with every empty, \<open>.\<close> and \<open>..\<close>
  component resolved, and computing it again changes nothing.
\<close>

theorem absolute_path_canonical:
  assumes "starts_with ''/'' (fs_cwd_path st)"
  shows "absolute_path path st
      = slash # join (normalize (split_on slash (if starts_with ''/'' path then path else fs_cwd_path st @ path)))
    \<and> list_all plain (normalize (split_on slash (if starts_with ''/'' path then path else fs_cwd_path st @ path)))
    \<and> absolute_path (absolute_path path st) st = absolute_path path st"
proof -
  let ?p = "if starts_with ''/'' path then path else fs_cwd_path st @ path"
  let ?n = "normalize (split_on slash ?p)"
  have abs: "starts_with ''/'' ?p" using assms by (auto simp: starts_with_prefix)
  have e: "absolute_path path st = slash # join ?n"
    using abs by (simp add: absolute_path_def canonicalize_eq render_def split: if_splits)
  have pl: "list_all plain ?n" by (rule normalize_plain)
  have "normalize (split_on slash (slash # join ?n)) = ?n"
  proof (cases "?n = []")
    case True
    then show ?thesis unfolding True by (simp add: normalize_def norm_part_def)
  next
    case False
    have "normalize ([] # ps) = normalize ps" for ps by (simp add: normalize_def norm_part_def)
    then show ?thesis using split_join [OF pl False] normalize_plain_id [OF pl] by simp
  qed
  then have "absolute_path (slash # join ?n) st = slash # join ?n"
    by (simp add: absolute_path_def canonicalize_eq render_def starts_with_def)
  with e pl show ?thesis by simp
qed

theorem absolute_path_canonical_witness:
  "absolute_path ''../b/./c''
     \<lparr>fs_sub = (), fs_main = 0, fs_mounts = [], fs_cwd = (RootDir :: nat node), fs_cwd_path = ''/a/''\<rparr> = ''/b/c''"
proof -
  let ?st = "\<lparr>fs_sub = (), fs_main = 0, fs_mounts = [], fs_cwd = (RootDir :: nat node), fs_cwd_path = ''/a/''\<rparr>"
  have "starts_with ''/'' (fs_cwd_path ?st)" by (simp add: starts_with_def)
  from absolute_path_canonical [OF this, of "''../b/./c''"] show ?thesis
    by (simp add: starts_with_def normalize_def norm_part_def)
qed

end
