(* ===== verification/File_Ops.thy ===== *)
theory File_Ops
  imports Vfs_Root
begin

unbundle bit_operations_syntax

text \<open>
  Open files and directories (\<^verbatim>\<open>.arceos/modules/axfs/src/fops.rs\<close>) with their capabilities (\<^verbatim>\<open>vendor/cap_access\<close>), and the
  convenience layer over them (\<^verbatim>\<open>axfs/src/api\<close>). An open file is a record that its owner holds; an operation returns it updated.

  The locale \<open>file_store\<close> is the contract of a file system whose files are byte sequences. Lemmas: an open file has the access rights
  that its options ask for; what \<open>file_read\<close>, \<open>file_write\<close> and \<open>file_seek\<close> do to contents and cursor; what is written is read back.
\<close>

section \<open>Capabilities and options\<close>

type_synonym cap = u32

definition CAP_READ :: cap where "CAP_READ = 1"
definition CAP_WRITE :: cap where "CAP_WRITE = 2"
definition CAP_EXECUTE :: cap where "CAP_EXECUTE = 4"

lemmas cap_defs = CAP_READ_def CAP_WRITE_def CAP_EXECUTE_def

definition cap_contains :: "cap \<Rightarrow> cap \<Rightarrow> bool" where
  "cap_contains c d = (c AND d = d)"

definition access_or_err :: "cap \<Rightarrow> cap \<Rightarrow> ('e, unit) outcome \<Rightarrow> ('e, unit) outcome" where
  "access_or_err have_cap want e = (if cap_contains have_cap want then Ok () else e)"

record open_options =
  oo_read :: bool
  oo_write :: bool
  oo_execute :: bool
  oo_append :: bool
  oo_truncate :: bool
  oo_create :: bool
  oo_create_new :: bool
  oo_directory :: bool

definition open_options_new :: open_options where
  "open_options_new = \<lparr>oo_read = False, oo_write = False, oo_execute = False, oo_append = False, oo_truncate = False,
     oo_create = False, oo_create_new = False, oo_directory = False\<rparr>"

definition opts_is_valid :: "open_options \<Rightarrow> bool" where
  "opts_is_valid o' =
     (if \<not> oo_read o' \<and> \<not> oo_write o' \<and> \<not> oo_append o' \<and> \<not> oo_directory o' then False
      else if oo_append o' then \<not> (oo_truncate o' \<and> \<not> oo_create_new o')
      else if oo_write o' then True
      else \<not> (oo_truncate o' \<or> oo_create o' \<or> oo_create_new o'))"

definition cap_of_opts :: "open_options \<Rightarrow> cap" where
  "cap_of_opts o' =
     (if oo_read o' then CAP_READ else 0) OR (if oo_write o' \<or> oo_append o' then CAP_WRITE else 0)
     OR (if oo_execute o' then CAP_EXECUTE else 0)"

definition perm_to_cap :: "u16 \<Rightarrow> cap" where
  "perm_to_cap p =
     (if owner_readable p then CAP_READ else 0) OR (if owner_writable p then CAP_WRITE else 0)
     OR (if owner_executable p then CAP_EXECUTE else 0)"

section \<open>Files\<close>

record 'n open_file =
  fl_node :: "'n node"
  fl_cap :: cap
  fl_append :: bool
  fl_offset :: u64

definition file_access :: "cap \<Rightarrow> 'n open_file \<Rightarrow> ('n, 's, unit) fs_op" where
  "file_access c f st = (access_or_err (fl_cap f) c (Err PermissionDenied), st)"

definition open_at :: "('n, 's) vfs \<Rightarrow> 'n node option \<Rightarrow> string \<Rightarrow> open_options \<Rightarrow> ('n, 's, 'n open_file) fs_op" where
  "open_at v dir path opts st =
     (if \<not> opts_is_valid opts then (Err InvalidInput, st)
      else
        sbind (case lookup v dir path st of
            (Ok node, st) \<Rightarrow>
              if oo_create_new opts then (Err AlreadyExists, st) else (Ok node, st)
          | (Err e, st) \<Rightarrow>
              if (oo_create opts \<or> oo_create_new opts) \<and> e = NotFound then create_file v dir path st else (Err e, st)
          | (Panic, st) \<Rightarrow> (Panic, st)) (\<lambda>node st.
        sbind (nd_get_attr v node st) (\<lambda>attr st.
          if attr_is_dir attr then (Err IsADirectory, st)
          else let access_cap = cap_of_opts opts in
            if \<not> cap_contains (perm_to_cap (at_mode attr)) access_cap then (Err PermissionDenied, st)
            else
              sbind (nd_open v node st) (\<lambda>_ st.
              sbind (if oo_truncate opts then nd_truncate v node 0 st else (Ok (), st)) (\<lambda>_ st.
                (Ok \<lparr>fl_node = node, fl_cap = access_cap, fl_append = oo_append opts, fl_offset = 0\<rparr>, st))))))"

definition file_open :: "('n, 's) vfs \<Rightarrow> string \<Rightarrow> open_options \<Rightarrow> ('n, 's, 'n open_file) fs_op" where
  "file_open v path opts = open_at v None path opts"

definition file_truncate :: "('n, 's) vfs \<Rightarrow> u64 \<Rightarrow> 'n open_file \<Rightarrow> ('n, 's, unit) fs_op" where
  "file_truncate v sz f st = sbind (file_access CAP_WRITE f st) (\<lambda>_ st. nd_truncate v (fl_node f) sz st)"

definition file_read :: "('n, 's) vfs \<Rightarrow> nat \<Rightarrow> 'n open_file \<Rightarrow> ('n, 's, u8 list \<times> 'n open_file) fs_op" where
  "file_read v len f st =
     sbind (file_access CAP_READ f st) (\<lambda>_ st.
     sbind (nd_read_at v (fl_node f) (fl_offset f) len st) (\<lambda>bs st.
       (Ok (bs, f\<lparr>fl_offset := fl_offset f + of_nat (length bs)\<rparr>), st)))"

definition file_read_at :: "('n, 's) vfs \<Rightarrow> u64 \<Rightarrow> nat \<Rightarrow> 'n open_file \<Rightarrow> ('n, 's, u8 list) fs_op" where
  "file_read_at v off len f st = sbind (file_access CAP_READ f st) (\<lambda>_ st. nd_read_at v (fl_node f) off len st)"

definition file_get_attr :: "('n, 's) vfs \<Rightarrow> 'n open_file \<Rightarrow> ('n, 's, vfs_node_attr) fs_op" where
  "file_get_attr v f st = sbind (file_access 0 f st) (\<lambda>_ st. nd_get_attr v (fl_node f) st)"

definition file_write :: "('n, 's) vfs \<Rightarrow> u8 list \<Rightarrow> 'n open_file \<Rightarrow> ('n, 's, usize \<times> 'n open_file) fs_op" where
  "file_write v buf f st =
     sbind (if fl_append f then sbind (file_get_attr v f st) (\<lambda>a st. (Ok (at_size a), st)) else (Ok (fl_offset f), st)) (\<lambda>offset st.
     sbind (file_access CAP_WRITE f st) (\<lambda>_ st.
     sbind (nd_write_at v (fl_node f) offset buf st) (\<lambda>n st.
       (Ok (n, f\<lparr>fl_offset := offset + n\<rparr>), st))))"

definition file_write_at :: "('n, 's) vfs \<Rightarrow> u64 \<Rightarrow> u8 list \<Rightarrow> 'n open_file \<Rightarrow> ('n, 's, usize) fs_op" where
  "file_write_at v off buf f st = sbind (file_access CAP_WRITE f st) (\<lambda>_ st. nd_write_at v (fl_node f) off buf st)"

definition file_flush :: "('n, 's) vfs \<Rightarrow> 'n open_file \<Rightarrow> ('n, 's, unit) fs_op" where
  "file_flush v f st = sbind (file_access CAP_WRITE f st) (\<lambda>_ st. nd_fsync v (fl_node f) st)"

datatype seek_from = Start u64 | End i64 | Current i64

text \<open>\<^verbatim>\<open>u64::checked_add_signed\<close>.\<close>

definition checked_add_signed :: "u64 \<Rightarrow> i64 \<Rightarrow> u64 option" where
  "checked_add_signed a b =
     (let r = uint a + sint b in if 0 \<le> r \<and> r < 2 ^ 64 then Some (a + b) else None)"

definition file_seek :: "('n, 's) vfs \<Rightarrow> seek_from \<Rightarrow> 'n open_file \<Rightarrow> ('n, 's, u64 \<times> 'n open_file) fs_op" where
  "file_seek v pos f st =
     sbind (file_get_attr v f st) (\<lambda>a st.
       (obind (ok_or (case pos of
            Start p \<Rightarrow> Some p
          | Current off \<Rightarrow> checked_add_signed (fl_offset f) off
          | End off \<Rightarrow> checked_add_signed (at_size a) off) InvalidInput)
        (\<lambda>new_offset. Ok (new_offset, f\<lparr>fl_offset := new_offset\<rparr>)), st))"

definition file_drop :: "('n, 's) vfs \<Rightarrow> 'n open_file \<Rightarrow> ('n, 's) fsys \<Rightarrow> ('n, 's) fsys" where
  "file_drop v f st = snd (nd_release v (fl_node f) st)"

section \<open>Directories\<close>

record 'n directory =
  dr_node :: "'n node"
  dr_cap :: cap
  dr_entry_idx :: nat

definition open_dir_at :: "('n, 's) vfs \<Rightarrow> 'n node option \<Rightarrow> string \<Rightarrow> open_options \<Rightarrow> ('n, 's, 'n directory) fs_op" where
  "open_dir_at v dir path opts st =
     (if \<not> oo_read opts then (Err InvalidInput, st)
      else if oo_create opts \<or> oo_create_new opts \<or> oo_write opts \<or> oo_append opts \<or> oo_truncate opts
      then (Err InvalidInput, st)
      else
        sbind (lookup v dir path st) (\<lambda>node st.
        sbind (nd_get_attr v node st) (\<lambda>attr st.
          if \<not> attr_is_dir attr then (Err NotADirectory, st)
          else let cap = perm_to_cap (at_mode attr) in
            if \<not> cap_contains cap (cap_of_opts opts) then (Err PermissionDenied, st)
            else sbind (nd_open v node st) (\<lambda>_ st. (Ok \<lparr>dr_node = node, dr_cap = cap, dr_entry_idx = 0\<rparr>, st)))))"

definition access_at :: "string \<Rightarrow> 'n directory \<Rightarrow> ('n, 's, 'n node option) fs_op" where
  "access_at path d st =
     (if starts_with ''/'' path then (Ok None, st)
      else (obind (access_or_err (dr_cap d) CAP_EXECUTE (Err PermissionDenied)) (\<lambda>_. Ok (Some (dr_node d))), st))"

definition dir_open_dir :: "('n, 's) vfs \<Rightarrow> string \<Rightarrow> open_options \<Rightarrow> ('n, 's, 'n directory) fs_op" where
  "dir_open_dir v path opts = open_dir_at v None path opts"

definition dir_open_dir_at :: "('n, 's) vfs \<Rightarrow> string \<Rightarrow> open_options \<Rightarrow> 'n directory \<Rightarrow> ('n, 's, 'n directory) fs_op" where
  "dir_open_dir_at v path opts d st = sbind (access_at path d st) (\<lambda>n st. open_dir_at v n path opts st)"

definition dir_open_file_at :: "('n, 's) vfs \<Rightarrow> string \<Rightarrow> open_options \<Rightarrow> 'n directory \<Rightarrow> ('n, 's, 'n open_file) fs_op" where
  "dir_open_file_at v path opts d st = sbind (access_at path d st) (\<lambda>n st. open_at v n path opts st)"

definition dir_create_file :: "('n, 's) vfs \<Rightarrow> string \<Rightarrow> 'n directory \<Rightarrow> ('n, 's, 'n node) fs_op" where
  "dir_create_file v path d st = sbind (access_at path d st) (\<lambda>n st. create_file v n path st)"

definition dir_create_dir :: "('n, 's) vfs \<Rightarrow> string \<Rightarrow> 'n directory \<Rightarrow> ('n, 's, unit) fs_op" where
  "dir_create_dir v path d st = sbind (access_at path d st) (\<lambda>n st. create_dir v n path st)"

definition dir_remove_file :: "('n, 's) vfs \<Rightarrow> string \<Rightarrow> 'n directory \<Rightarrow> ('n, 's, unit) fs_op" where
  "dir_remove_file v path d st = sbind (access_at path d st) (\<lambda>n st. remove_file v n path st)"

definition dir_remove_dir :: "('n, 's) vfs \<Rightarrow> string \<Rightarrow> 'n directory \<Rightarrow> ('n, 's, unit) fs_op" where
  "dir_remove_dir v path d st = sbind (access_at path d st) (\<lambda>n st. remove_dir v n path st)"

definition dir_read_dir :: "('n, 's) vfs \<Rightarrow> nat \<Rightarrow> 'n directory \<Rightarrow> ('n, 's, vfs_dir_entry list \<times> 'n directory) fs_op" where
  "dir_read_dir v len d st =
     sbind (access_or_err (dr_cap d) CAP_READ (Err PermissionDenied), st) (\<lambda>_ st.
     sbind (nd_read_dir v (dr_node d) (dr_entry_idx d) len st) (\<lambda>es st.
       (Ok (es, d\<lparr>dr_entry_idx := dr_entry_idx d + length es\<rparr>), st)))"

section \<open>The convenience layer\<close>

definition api_metadata :: "('n, 's) vfs \<Rightarrow> string \<Rightarrow> ('n, 's, vfs_node_attr) fs_op" where
  "api_metadata v path st = sbind (lookup v None path st) (\<lambda>n st. nd_get_attr v n st)"

definition absolute_path_exists :: "('n, 's) vfs \<Rightarrow> string \<Rightarrow> ('n, 's, bool) fs_op" where
  "absolute_path_exists v path st =
     (case lookup v None path st of (Ok _, st) \<Rightarrow> (Ok True, st) | (Err _, st) \<Rightarrow> (Ok False, st) | (Panic, st) \<Rightarrow> (Panic, st))"

definition dir_builder_create :: "('n, 's) vfs \<Rightarrow> bool \<Rightarrow> string \<Rightarrow> ('n, 's, unit) fs_op" where
  "dir_builder_create v recursive path st = (if recursive then (Err Unsupported, st) else create_dir v None path st)"

text \<open>\<^verbatim>\<open>ReadDir\<close>: the entries are fetched 31 at a time; \<open>.\<close> and \<open>..\<close> are skipped.\<close>

record 'n read_dir =
  rd_path :: string
  rd_inner :: "'n directory"
  rd_buf :: "vfs_dir_entry list"
  rd_end :: bool

definition read_dir_new :: "('n, 's) vfs \<Rightarrow> string \<Rightarrow> ('n, 's, 'n read_dir) fs_op" where
  "read_dir_new v path st =
     sbind (dir_open_dir v path (open_options_new\<lparr>oo_read := True\<rparr>) st) (\<lambda>d st.
       (Ok \<lparr>rd_path = path, rd_inner = d, rd_buf = [], rd_end = False\<rparr>, st))"

text \<open>The rest of the buffered entries after the dot entries, which the loop of \<^verbatim>\<open>next\<close> skips.\<close>

definition is_dot :: "vfs_dir_entry \<Rightarrow> bool" where
  "is_dot e = (de_name e = ''.'' \<or> de_name e = ''..'')"

text \<open>\<^verbatim>\<open>ReadDir::next\<close>: \<open>None\<close> at the end of the stream. The result of the whole call is \<open>None\<close> when the loop does not end.\<close>

partial_function (option) read_dir_next ::
  "('n, 's) vfs \<Rightarrow> 'n read_dir \<Rightarrow> ('n, 's) fsys \<Rightarrow>
   (((ax_error, vfs_dir_entry) outcome option \<times> 'n read_dir) \<times> ('n, 's) fsys) option" where
  "read_dir_next v r st =
     (if rd_end r then Some ((None, r), st)
      else case rd_buf r of
        e # es \<Rightarrow>
          if is_dot e then read_dir_next v (r\<lparr>rd_buf := es\<rparr>) st
          else Some ((Some (Ok e), r\<lparr>rd_buf := es\<rparr>), st)
      | [] \<Rightarrow>
          (case dir_read_dir v 31 (rd_inner r) st of
             (Ok ([], d), st) \<Rightarrow> Some ((None, r\<lparr>rd_inner := d, rd_end := True\<rparr>), st)
           | (Ok (es, d), st) \<Rightarrow> read_dir_next v (r\<lparr>rd_inner := d, rd_buf := es\<rparr>) st
           | (Err e, st) \<Rightarrow> Some ((Some (Err e), r\<lparr>rd_end := True\<rparr>), st)
           | (Panic, st) \<Rightarrow> Some ((Some Panic, r), st)))"

definition entry_path :: "'n read_dir \<Rightarrow> vfs_dir_entry \<Rightarrow> string" where
  "entry_path r e = trim_end_matches slash (rd_path r) @ ''/'' @ de_name e"

section \<open>Properties\<close>

lemma open_at_OkD:
  assumes "open_at v dir path opts st = (Ok f, st')"
  shows "opts_is_valid opts" "fl_cap f = cap_of_opts opts" "fl_append f = oo_append opts" "fl_offset f = 0"
    and "\<exists>a st1 st2. nd_get_attr v (fl_node f) st1 = (Ok a, st2) \<and> \<not> attr_is_dir a
      \<and> cap_contains (perm_to_cap (at_mode a)) (fl_cap f)"
  using assms unfolding open_at_def
  by (auto simp: Let_def sbind_eq_Ok split: if_splits) blast+

lemma cap_of_opts_contains:
  "cap_contains (cap_of_opts opts) CAP_READ = oo_read opts"
  "cap_contains (cap_of_opts opts) CAP_WRITE = (oo_write opts \<or> oo_append opts)"
  by (auto simp: cap_contains_def cap_of_opts_def cap_defs)

section \<open>Byte stores\<close>

text \<open>What a file relies on: the node holds a sequence of bytes, and reads and writes act on it at an offset.\<close>

definition overwrite :: "u8 list \<Rightarrow> nat \<Rightarrow> u8 list \<Rightarrow> u8 list" where
  "overwrite c off bs =
     take off (c @ replicate (off + length bs - length c) 0) @ bs @ drop (off + length bs) c"

lemma take_overwrite: "take (length bs) (drop off (overwrite c off bs)) = bs"
  by (simp add: overwrite_def)

locale file_store =
  fixes v :: "('n, 's) vfs" and content :: "'n \<Rightarrow> 's \<Rightarrow> u8 list option" and limit :: nat
  assumes limit: "limit < 2 ^ 64"
    and read_at: "\<lbrakk>content n s = Some c; unat off + len \<le> limit\<rbrakk> \<Longrightarrow> vn_read_at v n off len s = (Ok (take len (drop (unat off) c)), s)"
    and write_at: "\<lbrakk>content n s = Some c; unat off + length bs \<le> limit\<rbrakk> \<Longrightarrow>
      \<exists>s'. vn_write_at v n off bs s = (Ok (of_nat (length bs)), s') \<and> content n s' = Some (overwrite c (unat off) bs)
        \<and> (\<forall>m. m \<noteq> n \<longrightarrow> content m s' = content m s)"
    and attr: "content n s = Some c \<Longrightarrow> \<exists>a. vn_get_attr v n s = (Ok a, s) \<and> unat (at_size a) = length c"
begin

lemma seek_ok:
  assumes "fl_node f = Sub n" "content n (fs_sub st) = Some c"
  shows "file_seek v (Start p) f st = (Ok (p, f\<lparr>fl_offset := p\<rparr>), st)"
  using attr [OF assms(2)] assms(1)
  by (auto simp: file_seek_def file_get_attr_def file_access_def access_or_err_def cap_contains_def nd_get_attr_def sub_def ok_or_def)

lemma write_ok:
  assumes "fl_node f = Sub n" "content n (fs_sub st) = Some c" "cap_contains (fl_cap f) CAP_WRITE" "\<not> fl_append f"
    and "unat (fl_offset f) + length bs \<le> limit"
  shows "\<exists>s'. file_write v bs f st
      = (Ok (of_nat (length bs), f\<lparr>fl_offset := fl_offset f + of_nat (length bs)\<rparr>), st\<lparr>fs_sub := s'\<rparr>)
    \<and> content n s' = Some (overwrite c (unat (fl_offset f)) bs) \<and> (\<forall>m. m \<noteq> n \<longrightarrow> content m s' = content m (fs_sub st))"
  using write_at [OF assms(2,5)] assms(1,3,4)
  by (auto simp: file_write_def file_access_def access_or_err_def nd_write_at_def sub_def)

lemma append_ok:
  assumes "fl_node f = Sub n" "content n (fs_sub st) = Some c" "cap_contains (fl_cap f) CAP_WRITE" "fl_append f"
    and "length c + length bs \<le> limit"
  shows "\<exists>s'. file_write v bs f st
      = (Ok (of_nat (length bs), f\<lparr>fl_offset := of_nat (length c + length bs)\<rparr>), st\<lparr>fs_sub := s'\<rparr>)
    \<and> content n s' = Some (c @ bs)"
proof -
  obtain a where a: "vn_get_attr v n (fs_sub st) = (Ok a, fs_sub st)" "unat (at_size a) = length c"
    using attr [OF assms(2)] by blast
  have "of_nat (length c) = at_size a" by (simp flip: a(2))
  moreover have "overwrite c (length c) bs = c @ bs" by (simp add: overwrite_def)
  ultimately show ?thesis using write_at [OF assms(2), of "at_size a" bs] assms(1,3-5) a
    by (auto simp: file_write_def file_get_attr_def file_access_def access_or_err_def cap_contains_def nd_get_attr_def nd_write_at_def sub_def)
qed

lemma read_ok:
  assumes "fl_node f = Sub n" "content n (fs_sub st) = Some c" "cap_contains (fl_cap f) CAP_READ"
    and "unat (fl_offset f) + len \<le> limit"
  shows "file_read v len f st
    = (Ok (take len (drop (unat (fl_offset f)) c),
           f\<lparr>fl_offset := fl_offset f + of_nat (length (take len (drop (unat (fl_offset f)) c)))\<rparr>), st)"
  using read_at [OF assms(2,4)] assms(1,3)
  by (simp add: file_read_def file_access_def access_or_err_def nd_read_at_def sub_def)

lemma write_seek_read:
  assumes "fl_node f = Sub n" "content n (fs_sub st) = Some c" "cap_contains (fl_cap f) CAP_WRITE" "\<not> fl_append f"
    and "cap_contains (fl_cap f) CAP_READ" "unat (fl_offset f) + length bs \<le> limit"
  shows "\<exists>f1 st1 f2 f3. file_write v bs f st = (Ok (of_nat (length bs), f1), st1)
    \<and> file_seek v (Start (fl_offset f)) f1 st1 = (Ok (fl_offset f, f2), st1)
    \<and> file_read v (length bs) f2 st1 = (Ok (bs, f3), st1)
    \<and> (\<forall>m. m \<noteq> n \<longrightarrow> content m (fs_sub st1) = content m (fs_sub st))"
proof -
  obtain s' where w: "file_write v bs f st
      = (Ok (of_nat (length bs), f\<lparr>fl_offset := fl_offset f + of_nat (length bs)\<rparr>), st\<lparr>fs_sub := s'\<rparr>)"
    "content n s' = Some (overwrite c (unat (fl_offset f)) bs)" "\<forall>m. m \<noteq> n \<longrightarrow> content m s' = content m (fs_sub st)"
    using write_ok [OF assms(1-4,6)] by blast
  let ?f1 = "f\<lparr>fl_offset := fl_offset f + of_nat (length bs)\<rparr>" and ?st1 = "st\<lparr>fs_sub := s'\<rparr>"
  have s: "file_seek v (Start (fl_offset f)) ?f1 ?st1 = (Ok (fl_offset f, f), ?st1)"
    using seek_ok [of ?f1 n ?st1] assms(1) w(2) by simp
  have "\<exists>f3. file_read v (length bs) f ?st1 = (Ok (bs, f3), ?st1)"
    using read_ok [of f n ?st1, OF assms(1) _ assms(5,6)] w(2) by (simp add: take_overwrite)
  with w s show ?thesis by auto
qed

end

end
