(* ===== verification/Ram_Fs.thy ===== *)
theory Ram_Fs
  imports File_Ops Ordered_Map "HOL-Library.List_Lexorder" "HOL-Library.Char_ord"
begin

text \<open>
  The RAM file system (\<^verbatim>\<open>vendor/axfs_ramfs\<close>), which the kernel mounts at \<^verbatim>\<open>/tmp\<close>, \<^verbatim>\<open>/proc\<close> and \<^verbatim>\<open>/sys\<close>, as an instance of
  the interface \<open>vfs\<close>, and the files the kernel creates in the last two (\<^verbatim>\<open>axfs/src/mounts.rs\<close>). The nodes of all instances live in one heap; the root directory of instance \<open>k\<close>
  is node \<open>k\<close>. A node that was removed stays in the heap as long as a file refers to it, so the model never frees nodes.
  Sizes of files are kept as machine integers where the code adds them: a vector longer than \<^verbatim>\<open>isize::MAX\<close> is a panic.

  The locale \<open>file_store\<close> is the contract between files and a byte store; it is interpreted on this file system.
\<close>

section \<open>Nodes\<close>

datatype ram_node = RamFile "u8 list" | RamDir "nat option" "(string, nat) btree_map"

record ram =
  rm_nodes :: "nat \<Rightarrow> ram_node"
  rm_next :: nat
  rm_once :: "nat \<Rightarrow> nat option"

type_synonym 'a ram_op = "ram \<Rightarrow> (ax_error, 'a) outcome \<times> ram"

definition upd_node :: "nat \<Rightarrow> ram_node \<Rightarrow> ram \<Rightarrow> ram" where
  "upd_node n x s = s\<lparr>rm_nodes := (rm_nodes s)(n := x)\<rparr>"

definition ram_get_attr :: "nat \<Rightarrow> vfs_node_attr ram_op" where
  "ram_get_attr n s =
     (case rm_nodes s n of
        RamFile c \<Rightarrow> (Ok \<lparr>at_mode = 0x1b6, at_ty = File, at_size = of_nat (length c), at_blocks = 0\<rparr>, s)
      | RamDir _ _ \<Rightarrow> (Ok \<lparr>at_mode = 0x1ed, at_ty = Dir, at_size = 4096, at_blocks = 0\<rparr>, s))"

definition ISIZE_MAX :: nat where "ISIZE_MAX = 2 ^ 63 - 1"

definition ram_truncate :: "nat \<Rightarrow> u64 \<Rightarrow> unit ram_op" where
  "ram_truncate n sz s =
     (case rm_nodes s n of
        RamFile c \<Rightarrow>
          if unat sz < length c then (Ok (), upd_node n (RamFile (take (unat sz) c)) s)
          else if ISIZE_MAX < unat sz then (Panic, s)
          else (Ok (), upd_node n (RamFile (c @ replicate (unat sz - length c) 0)) s)
      | RamDir _ _ \<Rightarrow> (Err IsADirectory, s))"

definition ram_read_at :: "nat \<Rightarrow> u64 \<Rightarrow> nat \<Rightarrow> u8 list ram_op" where
  "ram_read_at n offset len s =
     (case rm_nodes s n of
        RamFile c \<Rightarrow>
          let start = min (length c) (unat offset); end' = min (length c) (unat (offset + of_nat len)) in
          if end' < start then (Panic, s) else (Ok (take (end' - start) (drop start c)), s)
      | RamDir _ _ \<Rightarrow> (Err IsADirectory, s))"

definition ram_write_at :: "nat \<Rightarrow> u64 \<Rightarrow> u8 list \<Rightarrow> usize ram_op" where
  "ram_write_at n offset buf s =
     (case rm_nodes s n of
        RamFile c \<Rightarrow>
          let end' = offset + of_nat (length buf) in
          if length c < unat end' \<and> ISIZE_MAX < unat end' then (Panic, s)
          else
            let c' = c @ replicate (unat end' - length c) 0 in
            if end' < offset then (Panic, upd_node n (RamFile c') s)
            else (Ok (of_nat (length buf)), upd_node n (RamFile (take (unat offset) c' @ buf @ drop (unat end') c')) s)
      | RamDir _ _ \<Rightarrow> (Err IsADirectory, s))"

definition ram_fsync :: "nat \<Rightarrow> unit ram_op" where
  "ram_fsync n s = (Err (case rm_nodes s n of RamFile _ \<Rightarrow> InvalidInput | RamDir _ _ \<Rightarrow> IsADirectory), s)"

section \<open>Directories\<close>

definition ram_split_path :: "string \<Rightarrow> string \<times> string option" where
  "ram_split_path path =
     (let t = trim_start_matches slash path in
      case split_once slash t of None \<Rightarrow> (t, None) | Some (name, rest) \<Rightarrow> (name, Some rest))"

lemma ram_split_path_shorter:
  assumes "ram_split_path path = (name, Some rest)" shows "length rest < length path"
proof -
  have "trim_start_matches slash path = name @ slash # rest"
    using assms by (auto simp: ram_split_path_def Let_def split_once_Some split: option.splits)
  then have "length rest < length (trim_start_matches slash path)" by simp
  also have "\<dots> \<le> length path" by (simp add: trim_start_matches_def length_dropWhile_le)
  finally show ?thesis .
qed

definition ram_parent :: "nat \<Rightarrow> ram \<Rightarrow> nat option" where
  "ram_parent n s = (case rm_nodes s n of RamDir p _ \<Rightarrow> p | RamFile _ \<Rightarrow> None)"

text \<open>The next node on a path: the directory itself, its parent, or a child.\<close>

definition ram_enter :: "nat \<Rightarrow> string \<Rightarrow> ram \<Rightarrow> (ax_error, nat) outcome" where
  "ram_enter n name s =
     (case rm_nodes s n of
        RamFile _ \<Rightarrow> Err NotADirectory
      | RamDir parent children \<Rightarrow>
          if name = '''' \<or> name = ''.'' then Ok n
          else if name = ''..'' then ok_or parent NotFound
          else ok_or (bt_get name children) NotFound)"

function ram_lookup :: "nat \<Rightarrow> string \<Rightarrow> ram \<Rightarrow> (ax_error, nat) outcome" where
  "ram_lookup n path s =
     (case ram_split_path path of (name, rest) \<Rightarrow>
        case ram_enter n name s of
          Ok m \<Rightarrow> (case rest of Some r \<Rightarrow> ram_lookup m r s | None \<Rightarrow> Ok m)
        | Err e \<Rightarrow> Err e
        | Panic \<Rightarrow> Panic)"
  by pat_completeness auto
termination
  by (relation "measure (\<lambda>(n, path, s). length path)") (auto dest: sym [THEN ram_split_path_shorter])

declare ram_lookup.simps [simp del]

definition ram_create_node :: "nat \<Rightarrow> string \<Rightarrow> vfs_node_type \<Rightarrow> unit ram_op" where
  "ram_create_node n name ty s =
     (case rm_nodes s n of
        RamFile _ \<Rightarrow> (Err NotADirectory, s)
      | RamDir parent children \<Rightarrow>
          if bt_get name children \<noteq> None then (Err AlreadyExists, s)
          else if ty \<noteq> File \<and> ty \<noteq> Dir then (Err Unsupported, s)
          else
            let m = rm_next s;
                x = (if ty = File then RamFile [] else RamDir (Some n) []);
                s = (upd_node m x s)\<lparr>rm_next := m + 1\<rparr>
            in (Ok (), upd_node n (RamDir parent (bt_insert name m children)) s))"

definition ram_remove_node :: "nat \<Rightarrow> string \<Rightarrow> unit ram_op" where
  "ram_remove_node n name s =
     (case rm_nodes s n of
        RamFile _ \<Rightarrow> (Err NotADirectory, s)
      | RamDir parent children \<Rightarrow>
          (case bt_get name children of
             None \<Rightarrow> (Err NotFound, s)
           | Some m \<Rightarrow>
               if (case rm_nodes s m of RamDir _ (x # xs) \<Rightarrow> True | _ \<Rightarrow> False) then (Err DirectoryNotEmpty, s)
               else (Ok (), upd_node n (RamDir parent (bt_remove name children)) s)))"

text \<open>\<^verbatim>\<open>create\<close> and \<^verbatim>\<open>remove\<close> walk the path in the same way; \<open>leaf\<close> acts on the last name, \<open>dot\<close> on \<open>.\<close>, \<open>..\<close> and the empty name.\<close>

function ram_walk :: "(nat \<Rightarrow> string \<Rightarrow> unit ram_op) \<Rightarrow> (ax_error, unit) outcome \<Rightarrow> nat \<Rightarrow> string \<Rightarrow> unit ram_op" where
  "ram_walk leaf dot n path s =
     (case rm_nodes s n of
        RamFile _ \<Rightarrow> (Err NotADirectory, s)
      | RamDir _ _ \<Rightarrow>
          (case ram_split_path path of
             (name, Some rest) \<Rightarrow>
               (case ram_enter n name s of
                  Ok m \<Rightarrow> ram_walk leaf dot m rest s
                | Err e \<Rightarrow> (Err e, s)
                | Panic \<Rightarrow> (Panic, s))
           | (name, None) \<Rightarrow>
               if name = '''' \<or> name = ''.'' \<or> name = ''..'' then (dot, s) else leaf n name s))"
  by pat_completeness auto
termination
  by (relation "measure (\<lambda>(leaf, dot, n, path, s). length path)") (auto dest: sym [THEN ram_split_path_shorter])

declare ram_walk.simps [simp del]

definition ram_create :: "nat \<Rightarrow> string \<Rightarrow> vfs_node_type \<Rightarrow> unit ram_op" where
  "ram_create n path ty = ram_walk (\<lambda>n name. ram_create_node n name ty) (Ok ()) n path"

definition ram_remove :: "nat \<Rightarrow> string \<Rightarrow> unit ram_op" where
  "ram_remove n path = ram_walk ram_remove_node (Err InvalidInput) n path"

text \<open>A directory entry has room for 63 bytes of name; \<^verbatim>\<open>VfsDirEntry::new\<close> panics on a longer one.\<close>

definition ram_type :: "nat \<Rightarrow> ram \<Rightarrow> vfs_node_type" where
  "ram_type n s = (case rm_nodes s n of RamFile _ \<Rightarrow> File | RamDir _ _ \<Rightarrow> Dir)"

definition ram_read_dir :: "nat \<Rightarrow> nat \<Rightarrow> nat \<Rightarrow> vfs_dir_entry list ram_op" where
  "ram_read_dir n start len s =
     (case rm_nodes s n of
        RamFile _ \<Rightarrow> (Err NotADirectory, s)
      | RamDir _ children \<Rightarrow>
          let all = \<lparr>de_type = Dir, de_name = ''.''\<rparr> # \<lparr>de_type = Dir, de_name = ''..''\<rparr>
                # map (\<lambda>(name, m). \<lparr>de_type = ram_type m s, de_name = name\<rparr>) children;
              es = take len (drop start all)
          in if list_ex (\<lambda>e. 63 < length (de_name e)) es then (Panic, s) else (Ok es, s))"

definition ram_mount :: "nat \<Rightarrow> string \<Rightarrow> nat \<Rightarrow> unit ram_op" where
  "ram_mount fs path mount_point s =
     (case ram_parent mount_point s of
        Some p \<Rightarrow>
          let q = (case rm_once s fs of Some q \<Rightarrow> q | None \<Rightarrow> p); s = s\<lparr>rm_once := (rm_once s)(fs \<mapsto> q)\<rparr>
          in (Ok (), case rm_nodes s fs of RamDir _ ch \<Rightarrow> upd_node fs (RamDir (Some q) ch) s | RamFile _ \<Rightarrow> s)
      | None \<Rightarrow> (Ok (), case rm_nodes s fs of RamDir _ ch \<Rightarrow> upd_node fs (RamDir None ch) s | RamFile _ \<Rightarrow> s))"

definition ramfs :: "(nat, ram) vfs" where
  "ramfs =
     \<lparr>vn_open = (\<lambda>n s. (Ok (), s)), vn_release = (\<lambda>n s. (Ok (), s)), vn_get_attr = ram_get_attr,
      vn_read_at = ram_read_at, vn_write_at = ram_write_at, vn_fsync = ram_fsync, vn_truncate = ram_truncate,
      vn_lookup = (\<lambda>n path s. (ram_lookup n path s, s)), vn_create = ram_create, vn_remove = ram_remove,
      vn_read_dir = ram_read_dir, vn_rename = (\<lambda>n src dst s. (Err Unsupported, s)),
      vf_root_dir = (\<lambda>fs. fs), vf_mount = ram_mount, vf_umount = (\<lambda>fs s. (Ok (), s))\<rparr>"

definition ram_init :: "nat \<Rightarrow> ram" where
  "ram_init k = \<lparr>rm_nodes = (\<lambda>n. if n < k then RamDir None [] else RamFile []), rm_next = k, rm_once = (\<lambda>_. None)\<rparr>"

section \<open>The files of /proc and /sys\<close>

definition create_all :: "nat \<Rightarrow> (string \<times> vfs_node_type) list \<Rightarrow> unit ram_op" where
  "create_all root xs s = fold (\<lambda>(p, ty) m. sbind m (\<lambda>_ s. ram_create root p ty s)) xs (Ok (), s)"

definition put_text :: "nat \<Rightarrow> string \<Rightarrow> string \<Rightarrow> unit ram_op" where
  "put_text root path txt s =
     (case ram_lookup root path s of
        Ok f \<Rightarrow> sbind (ram_write_at f 0 (map (\<lambda>c. of_nat (of_char c)) txt) s) (\<lambda>_ s. (Ok (), s))
      | Err e \<Rightarrow> (Err e, s)
      | Panic \<Rightarrow> (Panic, s))"

definition procfs :: "nat \<Rightarrow> unit ram_op" where
  "procfs root s =
     sbind (create_all root [(''sys'', Dir), (''sys/net'', Dir), (''sys/net/core'', Dir), (''sys/net/core/somaxconn'', File)] s) (\<lambda>_ s.
     sbind (put_text root ''./sys/net/core/somaxconn'' (''4096'' @ [CHR 0x0A]) s) (\<lambda>_ s.
     sbind (create_all root [(''sys/vm'', Dir), (''sys/vm/overcommit_memory'', File)] s) (\<lambda>_ s.
     sbind (put_text root ''./sys/vm/overcommit_memory'' (''0'' @ [CHR 0x0A]) s) (\<lambda>_ s.
       create_all root [(''self'', Dir), (''self/stat'', File)] s))))"

definition sysfs :: "nat \<Rightarrow> unit ram_op" where
  "sysfs root s =
     sbind (create_all root [(''kernel'', Dir), (''kernel/mm'', Dir), (''kernel/mm/transparent_hugepage'', Dir),
         (''kernel/mm/transparent_hugepage/enabled'', File)] s) (\<lambda>_ s.
     sbind (put_text root ''./kernel/mm/transparent_hugepage/enabled'' (''always [madvise] never'' @ [CHR 0x0A]) s) (\<lambda>_ s.
     sbind (create_all root [(''devices'', Dir), (''devices/system'', Dir), (''devices/system/clocksource'', Dir),
         (''devices/system/clocksource/clocksource0'', Dir),
         (''devices/system/clocksource/clocksource0/current_clocksource'', File)] s) (\<lambda>_ s.
       put_text root ''devices/system/clocksource/clocksource0/current_clocksource'' (''tsc'' @ [CHR 0x0A]) s)))"

section \<open>Properties\<close>

text \<open>
  C25. A file opened without write access stays as it is: every write, positioned write, truncation and flush on it is
  refused and leaves the file system unchanged. A file opened without read access cannot be read.
\<close>

theorem open_rights_enforced:
  assumes "open_at v dir path opts st = (Ok f, st')" and "\<not> oo_append opts"
  shows "(\<not> oo_write opts \<longrightarrow>
        file_write v buf f s = (Err PermissionDenied, s) \<and> file_write_at v off buf f s = (Err PermissionDenied, s)
      \<and> file_truncate v sz f s = (Err PermissionDenied, s) \<and> file_flush v f s = (Err PermissionDenied, s))
    \<and> (\<not> oo_read opts \<longrightarrow>
        file_read v len f s = (Err PermissionDenied, s) \<and> file_read_at v off len f s = (Err PermissionDenied, s))"
  using open_at_OkD(2,3) [OF assms(1)] assms(2) cap_of_opts_contains [of opts]
  by (simp add: file_write_def file_write_at_def file_truncate_def file_flush_def file_read_def file_read_at_def
      file_access_def access_or_err_def)

definition demo_fs :: "(nat, ram) fsys" where
  "demo_fs = \<lparr>fs_sub = \<lparr>rm_nodes = (\<lambda>n. if n = 0 then RamDir None [(''a'', 1)] else RamFile [65]), rm_next = 2, rm_once = (\<lambda>_. None)\<rparr>,
     fs_main = 0, fs_mounts = [], fs_cwd = Sub 0, fs_cwd_path = ''/''\<rparr>"

lemma demo_open:
  assumes "d = None \<or> d = Some (Sub 0)"
  shows "open_at ramfs d ''a'' (open_options_new\<lparr>oo_read := True\<rparr>) demo_fs
    = (Ok \<lparr>fl_node = Sub 1, fl_cap = 1, fl_append = False, fl_offset = 0\<rparr>, demo_fs)"
proof -
  have t: "trim_start_matches slash ''a'' = ''a''" by (simp add: trim_start_matches_def)
  have l: "ram_lookup 0 ''a'' (fs_sub demo_fs) = Ok 1"
    by (simp add: demo_fs_def ram_lookup.simps ram_split_path_def t ram_enter_def split_once_def ok_or_def Let_def)
  have "fs_cwd demo_fs = Sub 0" by (simp add: demo_fs_def)
  with assms l have n: "lookup ramfs d ''a'' demo_fs = (Ok (Sub 1), demo_fs)"
    by (auto simp: lookup_def parent_node_of_def starts_with_def ends_with_def nd_lookup_def sub_def ramfs_def)
  have g: "nd_get_attr ramfs (Sub 1) demo_fs = (Ok \<lparr>at_mode = 0x1b6, at_ty = File, at_size = 1, at_blocks = 0\<rparr>, demo_fs)"
    and p: "nd_open ramfs (Sub 1) demo_fs = (Ok (), demo_fs)"
    by (simp_all add: nd_get_attr_def nd_open_def sub_def ramfs_def ram_get_attr_def demo_fs_def)
  have c: "cap_contains (perm_to_cap 0x1b6) 1" "cap_of_opts (open_options_new\<lparr>oo_read := True\<rparr>) = 1"
    by (simp_all add: perm_to_cap_def cap_of_opts_def cap_contains_def cap_defs open_options_new_def
        owner_readable_def owner_writable_def owner_executable_def OWNER_READ_def OWNER_WRITE_def OWNER_EXEC_def)
  have v: "opts_is_valid (open_options_new\<lparr>oo_read := True\<rparr>)" by (simp add: opts_is_valid_def open_options_new_def)
  have m: "\<not> oo_create_new (open_options_new\<lparr>oo_read := True\<rparr>)" "\<not> oo_truncate (open_options_new\<lparr>oo_read := True\<rparr>)"
    "\<not> oo_append (open_options_new\<lparr>oo_read := True\<rparr>)"
    by (simp_all add: open_options_new_def)
  show ?thesis using m by (simp add: open_at_def n v g p c attr_is_dir_def Let_def del: One_nat_def)
qed

theorem open_rights_enforced_witness:
  "\<exists>f st'. open_at ramfs (Some (Sub 0)) ''a'' (open_options_new\<lparr>oo_read := True\<rparr>) demo_fs = (Ok f, st')
    \<and> file_write ramfs [1] f st' = (Err PermissionDenied, st')"
proof -
  note o = demo_open [of "Some (Sub 0)", simplified]
  from open_rights_enforced [OF o, of "[1]" demo_fs] o show ?thesis by (auto simp: open_options_new_def)
qed

definition ram_content :: "nat \<Rightarrow> ram \<Rightarrow> u8 list option" where
  "ram_content n s = (case rm_nodes s n of RamFile c \<Rightarrow> if length c \<le> ISIZE_MAX then Some c else None | RamDir _ _ \<Rightarrow> None)"

lemma ram_content_Some: "ram_content n s = Some c \<longleftrightarrow> rm_nodes s n = RamFile c \<and> length c \<le> ISIZE_MAX"
  by (auto simp: ram_content_def split: ram_node.splits)

lemma unat_offset_len:
  assumes "unat (off :: u64) + len \<le> ISIZE_MAX" shows "unat (off + of_nat len) = unat off + len"
proof -
  from assms have "unat off + len < 2 ^ 64" by (simp add: ISIZE_MAX_def)
  then show ?thesis by (simp add: unat_word_ariths unat_of_nat)
qed

lemma ram_read_at_content:
  assumes "ram_content n s = Some c" "unat off + len \<le> ISIZE_MAX"
  shows "ram_read_at n off len s = (Ok (take len (drop (unat off) c)), s)"
proof -
  let ?st = "min (length c) (unat off)" and ?en = "min (length c) (unat off + len)"
  have "\<not> ?en < ?st" by simp
  moreover have "take (?en - ?st) (drop ?st c) = take len (drop (unat off) c)"
    by (cases "unat off \<le> length c") (auto simp: min_def)
  ultimately show ?thesis using assms by (simp add: ram_read_at_def ram_content_Some unat_offset_len Let_def del: min_less_iff_conj)
qed

lemma ram_write_at_content:
  assumes "ram_content n s = Some c" "unat off + length bs \<le> ISIZE_MAX"
  shows "ram_write_at n off bs s = (Ok (of_nat (length bs)), upd_node n (RamFile (overwrite c (unat off) bs)) s)"
proof -
  let ?e = "off + of_nat (length bs)"
  have e: "unat ?e = unat off + length bs" using assms(2) by (rule unat_offset_len)
  then have "\<not> ?e < off" by (simp add: word_less_nat_alt)
  with e assms show ?thesis
    by (simp add: ram_write_at_def ram_content_Some Let_def overwrite_def)
qed

lemma length_overwrite: "length (overwrite c off bs) = max (length c) (off + length bs)"
  by (auto simp: overwrite_def)

interpretation ram_store: file_store ramfs ram_content ISIZE_MAX
proof
  show "ISIZE_MAX < 2 ^ 64" by (simp add: ISIZE_MAX_def)
next
  fix n s c and off :: u64 and len
  assume "ram_content n s = Some c" "unat off + len \<le> ISIZE_MAX"
  then show "vn_read_at ramfs n off len s = (Ok (take len (drop (unat off) c)), s)"
    by (simp add: ramfs_def ram_read_at_content)
next
  fix n s c and off :: u64 and bs :: "u8 list"
  assume a: "ram_content n s = Some c" "unat off + length bs \<le> ISIZE_MAX"
  then have "length (overwrite c (unat off) bs) \<le> ISIZE_MAX" by (simp add: length_overwrite ram_content_Some)
  with a show "\<exists>s'. vn_write_at ramfs n off bs s = (Ok (of_nat (length bs)), s')
      \<and> ram_content n s' = Some (overwrite c (unat off) bs) \<and> (\<forall>m. m \<noteq> n \<longrightarrow> ram_content m s' = ram_content m s)"
    by (simp add: ramfs_def ram_write_at_content upd_node_def ram_content_def)
next
  fix n s c assume "ram_content n s = Some c"
  then show "\<exists>a. vn_get_attr ramfs n s = (Ok a, s) \<and> unat (at_size a) = length c"
    by (simp add: ramfs_def ram_get_attr_def ram_content_Some unat_of_nat ISIZE_MAX_def)
qed

text \<open>
  C23. What is written to a file of the RAM file system is read back: writing a buffer, seeking to where the write
  began and reading as many bytes returns the buffer, and no other file changes.
\<close>

theorem ram_write_read_roundtrip:
  assumes "fl_node f = Sub n" and "ram_content n (fs_sub st) = Some c"
    and "cap_contains (fl_cap f) CAP_WRITE" and "\<not> fl_append f" and "cap_contains (fl_cap f) CAP_READ"
    and "unat (fl_offset f) + length bs \<le> ISIZE_MAX"
  shows "\<exists>f1 st1 f2 f3. file_write ramfs bs f st = (Ok (of_nat (length bs), f1), st1)
    \<and> file_seek ramfs (Start (fl_offset f)) f1 st1 = (Ok (fl_offset f, f2), st1)
    \<and> file_read ramfs (length bs) f2 st1 = (Ok (bs, f3), st1)
    \<and> (\<forall>m. m \<noteq> n \<longrightarrow> ram_content m (fs_sub st1) = ram_content m (fs_sub st))"
  using assms by (rule ram_store.write_seek_read)

theorem ram_write_read_roundtrip_witness:
  "\<exists>f1 st1 f2 f3. file_write ramfs [7, 8] \<lparr>fl_node = Sub 1, fl_cap = 3, fl_append = False, fl_offset = 4\<rparr>
      \<lparr>fs_sub = ram_init 1, fs_main = 0, fs_mounts = [], fs_cwd = RootDir, fs_cwd_path = ''/''\<rparr> = (Ok (2, f1), st1)
    \<and> file_seek ramfs (Start 4) f1 st1 = (Ok (4, f2), st1) \<and> file_read ramfs (Suc (Suc 0)) f2 st1 = (Ok ([7, 8], f3), st1)"
  using ram_write_read_roundtrip [of "\<lparr>fl_node = Sub 1, fl_cap = 3, fl_append = False, fl_offset = 4\<rparr>" 1
      "\<lparr>fs_sub = ram_init 1, fs_main = 0, fs_mounts = [], fs_cwd = RootDir, fs_cwd_path = ''/''\<rparr>" "[]" "[7, 8]"]
  by (auto simp: ram_content_def ram_init_def cap_contains_def cap_defs ISIZE_MAX_def)

text \<open>
  Reading a file of the RAM file system at an offset beyond its end panics the kernel when the offset plus the
  length wraps around to a position inside the file.
\<close>

lemma ram_read_wrap_panics:
  assumes "fl_node f = Sub n" and "rm_nodes (fs_sub st) n = RamFile c" and "length c < 2 ^ 63"
    and "cap_contains (fl_cap f) CAP_READ" and "fl_offset f + of_nat len < of_nat (length c)"
    and "2 ^ 63 \<le> unat (fl_offset f)"
  shows "fst (file_read ramfs len f st) = Panic"
proof -
  have "unat (fl_offset f + of_nat len) < length c"
    using assms(3,5) by (simp add: word_less_nat_alt unat_of_nat)
  with assms show ?thesis
    by (simp add: file_read_def file_access_def access_or_err_def nd_read_at_def sub_def ramfs_def ram_read_at_def Let_def)
qed

end
