(* ===== verification/Disk_Dev.thy ===== *)
theory Disk_Dev
  imports Ram_Fs
begin

text \<open>
  The disk under the main file system (\<^verbatim>\<open>.arceos/modules/axfs/src/dev.rs\<close>): a block device with a byte cursor, the reads and writes
  that the file system libraries do through it (\<^verbatim>\<open>axfs/src/fs/fatfs.rs\<close>, \<^verbatim>\<open>axfs/src/fs/lwext4_rust.rs\<close>), and the RAM disk
  (\<^verbatim>\<open>vendor/axdriver_block/src/ramdisk.rs\<close>) as a device. The device is an argument of the model.

  The locale \<open>block_device\<close> is the contract of a device; in it, the disk is shown to be a flat array of bytes: reads return
  and writes replace the bytes at the cursor, across block boundaries. It is interpreted on the RAM disk.
\<close>

section \<open>Block devices\<close>

datatype dev_error = DevAlreadyExists | DevAgain | DevBadState | DevInvalidParam | DevIo | DevNoMemory | DevResourceBusy | DevUnsupported

definition BLOCK_SIZE :: nat where "BLOCK_SIZE = 512"

record 'd blkdev =
  bd_num_blocks :: "'d \<Rightarrow> u64"
  bd_read_block :: "u64 \<Rightarrow> nat \<Rightarrow> 'd \<Rightarrow> (dev_error, u8 list) outcome \<times> 'd"
  bd_write_block :: "u64 \<Rightarrow> u8 list \<Rightarrow> 'd \<Rightarrow> (dev_error, unit) outcome \<times> 'd"

record ram_disk =
  rd_size :: usize
  rd_data :: "u8 list"

definition disk_align_up :: "usize \<Rightarrow> usize" where
  "disk_align_up val = (val + 512 - 1) AND NOT (512 - 1)"

definition rd_new :: "usize \<Rightarrow> ram_disk" where
  "rd_new size_hint = (let size = disk_align_up size_hint in \<lparr>rd_size = size, rd_data = replicate (unat size) 0\<rparr>)"

definition rd_num_blocks :: "ram_disk \<Rightarrow> u64" where
  "rd_num_blocks d = rd_size d div 512"

definition rd_read_block :: "u64 \<Rightarrow> nat \<Rightarrow> ram_disk \<Rightarrow> (dev_error, u8 list) outcome \<times> ram_disk" where
  "rd_read_block block_id n d =
     (let offset = block_id * 512; end' = offset + of_nat n in
      if rd_size d < end' then (Err DevIo, d)
      else if n mod 512 \<noteq> 0 then (Err DevInvalidParam, d)
      else if end' < offset then (Panic, d)
      else (Ok (take n (drop (unat offset) (rd_data d))), d))"

definition overlay :: "nat \<Rightarrow> 'a list \<Rightarrow> 'a list \<Rightarrow> 'a list" where
  "overlay p b xs = take p xs @ b @ drop (p + length b) xs"

definition rd_write_block :: "u64 \<Rightarrow> u8 list \<Rightarrow> ram_disk \<Rightarrow> (dev_error, unit) outcome \<times> ram_disk" where
  "rd_write_block block_id buf d =
     (let offset = block_id * 512; end' = offset + of_nat (length buf) in
      if rd_size d < end' then (Err DevIo, d)
      else if length buf mod 512 \<noteq> 0 then (Err DevInvalidParam, d)
      else if end' < offset then (Panic, d)
      else (Ok (), d\<lparr>rd_data := overlay (unat offset) buf (rd_data d)\<rparr>))"

definition ram_disk_dev :: "ram_disk blkdev" where
  "ram_disk_dev = \<lparr>bd_num_blocks = rd_num_blocks, bd_read_block = rd_read_block, bd_write_block = rd_write_block\<rparr>"

section \<open>The disk\<close>

record 'd disk =
  dk_block_id :: u64
  dk_offset :: nat
  dk_dev :: 'd

definition disk_new :: "'d \<Rightarrow> 'd disk" where
  "disk_new d = \<lparr>dk_block_id = 0, dk_offset = 0, dk_dev = d\<rparr>"

definition disk_size :: "'d blkdev \<Rightarrow> 'd disk \<Rightarrow> u64" where
  "disk_size dev dk = bd_num_blocks dev (dk_dev dk) * 512"

definition disk_position :: "'d disk \<Rightarrow> u64" where
  "disk_position dk = dk_block_id dk * 512 + of_nat (dk_offset dk)"

definition disk_set_position :: "u64 \<Rightarrow> 'd disk \<Rightarrow> 'd disk" where
  "disk_set_position pos dk = dk\<lparr>dk_block_id := pos div 512, dk_offset := unat pos mod BLOCK_SIZE\<rparr>"

definition disk_advance :: "nat \<Rightarrow> 'd disk \<Rightarrow> 'd disk" where
  "disk_advance count dk =
     (if BLOCK_SIZE \<le> dk_offset dk + count
      then dk\<lparr>dk_block_id := dk_block_id dk + 1, dk_offset := dk_offset dk + count - BLOCK_SIZE\<rparr>
      else dk\<lparr>dk_offset := dk_offset dk + count\<rparr>)"

definition read_one :: "'d blkdev \<Rightarrow> nat \<Rightarrow> 'd disk \<Rightarrow> (dev_error, u8 list) outcome \<times> 'd disk" where
  "read_one dev len dk =
     (if dk_offset dk = 0 \<and> BLOCK_SIZE \<le> len then
        (case bd_read_block dev (dk_block_id dk) BLOCK_SIZE (dk_dev dk) of
           (Ok data, d) \<Rightarrow> (Ok data, dk\<lparr>dk_dev := d, dk_block_id := dk_block_id dk + 1\<rparr>)
         | (Err e, d) \<Rightarrow> (Err e, dk\<lparr>dk_dev := d\<rparr>)
         | (Panic, d) \<Rightarrow> (Panic, dk\<lparr>dk_dev := d\<rparr>))
      else
        let start = dk_offset dk; count = min len (BLOCK_SIZE - dk_offset dk) in
        (case bd_read_block dev (dk_block_id dk) BLOCK_SIZE (dk_dev dk) of
           (Ok data, d) \<Rightarrow> (Ok (take count (drop start data)), disk_advance count (dk\<lparr>dk_dev := d\<rparr>))
         | (Err e, d) \<Rightarrow> (Err e, dk\<lparr>dk_dev := d\<rparr>)
         | (Panic, d) \<Rightarrow> (Panic, dk\<lparr>dk_dev := d\<rparr>)))"

definition write_one :: "'d blkdev \<Rightarrow> u8 list \<Rightarrow> 'd disk \<Rightarrow> (dev_error, nat) outcome \<times> 'd disk" where
  "write_one dev buf dk =
     (if dk_offset dk = 0 \<and> BLOCK_SIZE \<le> length buf then
        (case bd_write_block dev (dk_block_id dk) (take BLOCK_SIZE buf) (dk_dev dk) of
           (Ok _, d) \<Rightarrow> (Ok BLOCK_SIZE, dk\<lparr>dk_dev := d, dk_block_id := dk_block_id dk + 1\<rparr>)
         | (Err e, d) \<Rightarrow> (Err e, dk\<lparr>dk_dev := d\<rparr>)
         | (Panic, d) \<Rightarrow> (Panic, dk\<lparr>dk_dev := d\<rparr>))
      else
        let start = dk_offset dk; count = min (length buf) (BLOCK_SIZE - dk_offset dk) in
        (case bd_read_block dev (dk_block_id dk) BLOCK_SIZE (dk_dev dk) of
           (Ok data, d) \<Rightarrow>
             (case bd_write_block dev (dk_block_id dk) (overlay start (take count buf) data) d of
                (Ok _, d) \<Rightarrow> (Ok count, disk_advance count (dk\<lparr>dk_dev := d\<rparr>))
              | (Err e, d) \<Rightarrow> (Err e, dk\<lparr>dk_dev := d\<rparr>)
              | (Panic, d) \<Rightarrow> (Panic, dk\<lparr>dk_dev := d\<rparr>))
         | (Err e, d) \<Rightarrow> (Err e, dk\<lparr>dk_dev := d\<rparr>)
         | (Panic, d) \<Rightarrow> (Panic, dk\<lparr>dk_dev := d\<rparr>)))"

section \<open>The loops of the file system libraries\<close>

text \<open>The bytes read before a failing block are lost with the error.\<close>

function disk_read :: "'d blkdev \<Rightarrow> nat \<Rightarrow> 'd disk \<Rightarrow> (unit, u8 list) outcome \<times> 'd disk" where
  "disk_read dev len dk =
     (if len = 0 then (Ok [], dk)
      else case read_one dev len dk of
        (Ok [], dk) \<Rightarrow> (Ok [], dk)
      | (Ok (b # bs), dk) \<Rightarrow> sbind (disk_read dev (len - length (b # bs)) dk) (\<lambda>r dk. (Ok (b # bs @ r), dk))
      | (Err _, dk) \<Rightarrow> (Err (), dk)
      | (Panic, dk) \<Rightarrow> (Panic, dk))"
  by pat_completeness auto
termination by (relation "measure (\<lambda>(dev, len, dk). len)") auto

function disk_write :: "'d blkdev \<Rightarrow> u8 list \<Rightarrow> 'd disk \<Rightarrow> (unit, nat) outcome \<times> 'd disk" where
  "disk_write dev buf dk =
     (if buf = [] then (Ok 0, dk)
      else case write_one dev buf dk of
        (Ok 0, dk) \<Rightarrow> (Ok 0, dk)
      | (Ok (Suc n), dk) \<Rightarrow> sbind (disk_write dev (drop (Suc n) buf) dk) (\<lambda>r dk. (Ok (Suc n + r), dk))
      | (Err _, dk) \<Rightarrow> (Err (), dk)
      | (Panic, dk) \<Rightarrow> (Panic, dk))"
  by pat_completeness auto
termination by (relation "measure (\<lambda>(dev, buf, dk). length buf)") auto

declare disk_read.simps [simp del] disk_write.simps [simp del]

definition disk_seek :: "'d blkdev \<Rightarrow> seek_from \<Rightarrow> 'd disk \<Rightarrow> (unit, u64) outcome \<times> 'd disk" where
  "disk_seek dev pos dk =
     (case (case pos of
          Start pos \<Rightarrow> Some pos
        | Current off \<Rightarrow> checked_add_signed (disk_position dk) off
        | End off \<Rightarrow> checked_add_signed (disk_size dev dk) off) of
        None \<Rightarrow> (Err (), dk)
      | Some new_pos \<Rightarrow> (Ok new_pos, disk_set_position new_pos dk))"

text \<open>The interface of the ext4 library reports errors as \<^verbatim>\<open>-1\<close>, and an unknown \<^verbatim>\<open>whence\<close> counts as an absolute position.\<close>

definition ext4_dev_read :: "'d blkdev \<Rightarrow> nat \<Rightarrow> 'd disk \<Rightarrow> (i32, u8 list) outcome \<times> 'd disk" where
  "ext4_dev_read dev len dk = (case disk_read dev len dk of (r, dk) \<Rightarrow> (map_err (\<lambda>_. - 1) r, dk))"

definition ext4_dev_write :: "'d blkdev \<Rightarrow> u8 list \<Rightarrow> 'd disk \<Rightarrow> (i32, nat) outcome \<times> 'd disk" where
  "ext4_dev_write dev buf dk = (case disk_write dev buf dk of (r, dk) \<Rightarrow> (map_err (\<lambda>_. - 1) r, dk))"

definition ext4_dev_seek :: "'d blkdev \<Rightarrow> i64 \<Rightarrow> i32 \<Rightarrow> 'd disk \<Rightarrow> (i32, i64) outcome \<times> 'd disk" where
  "ext4_dev_seek dev off whence dk =
     (case (if whence = 1 then checked_add_signed (disk_position dk) off
            else if whence = 2 then checked_add_signed (disk_size dev dk) off
            else Some off) of
        None \<Rightarrow> (Err (- 1), dk)
      | Some new_pos \<Rightarrow> (Ok new_pos, disk_set_position new_pos dk))"

section \<open>Splicing\<close>

lemma length_overlay: "p + length b \<le> length xs \<Longrightarrow> length (overlay p b xs) = length xs"
  by (simp add: overlay_def)

lemma nth_overlay:
  "p + length b \<le> length xs \<Longrightarrow> i < length xs \<Longrightarrow>
     overlay p b xs ! i = (if p \<le> i \<and> i < p + length b then b ! (i - p) else xs ! i)"
  by (auto simp: overlay_def nth_append)

lemma overlay_empty [simp]: "overlay p [] xs = xs"
  by (simp add: overlay_def)

lemma overlay_overlay:
  assumes "p + length b + length c \<le> length xs"
  shows "overlay (p + length b) c (overlay p b xs) = overlay p (b @ c) xs"
proof (rule nth_equalityI)
  show "length (overlay (p + length b) c (overlay p b xs)) = length (overlay p (b @ c) xs)"
    using assms by (simp add: length_overlay)
  fix i assume "i < length (overlay (p + length b) c (overlay p b xs))"
  then have "i < length xs" using assms by (simp add: length_overlay)
  with assms show "overlay (p + length b) c (overlay p b xs) ! i = overlay p (b @ c) xs ! i"
    by (auto simp: nth_overlay length_overlay nth_append)
qed

lemma overlay_inside:
  assumes "p + n \<le> length xs" and "s + length b \<le> n"
  shows "overlay p (overlay s b (take n (drop p xs))) xs = overlay (p + s) b xs"
proof (rule nth_equalityI)
  let ?d = "take n (drop p xs)"
  have l: "length (overlay s b ?d) = n" using assms by (simp add: length_overlay)
  then show "length (overlay p (overlay s b ?d) xs) = length (overlay (p + s) b xs)"
    using assms by (simp add: length_overlay)
  fix i assume "i < length (overlay p (overlay s b ?d) xs)"
  then have "i < length xs" using assms l by (simp add: length_overlay)
  with assms l show "overlay p (overlay s b ?d) xs ! i = overlay (p + s) b xs ! i"
    by (auto simp: nth_overlay)
qed

lemma take_drop_overlay: "p + length b \<le> length xs \<Longrightarrow> take (length b) (drop p (overlay p b xs)) = b"
  by (simp add: overlay_def)

section \<open>The contract of a device\<close>

definition disk_pos :: "'d disk \<Rightarrow> nat" where
  "disk_pos dk = unat (dk_block_id dk) * BLOCK_SIZE + dk_offset dk"

locale block_device =
  fixes dev :: "'d blkdev" and image :: "'d \<Rightarrow> u8 list" and inv :: "'d \<Rightarrow> bool"
  assumes blocks: "inv d \<Longrightarrow> length (image d) = unat (bd_num_blocks dev d) * BLOCK_SIZE"
    and size: "inv d \<Longrightarrow> length (image d) < 2 ^ 64"
    and read_block: "\<lbrakk>inv d; k < bd_num_blocks dev d\<rbrakk> \<Longrightarrow>
      bd_read_block dev k BLOCK_SIZE d = (Ok (take BLOCK_SIZE (drop (unat k * BLOCK_SIZE) (image d))), d)"
    and write_block: "\<lbrakk>inv d; k < bd_num_blocks dev d; length buf = BLOCK_SIZE\<rbrakk> \<Longrightarrow>
      \<exists>d'. bd_write_block dev k buf d = (Ok (), d') \<and> inv d' \<and> bd_num_blocks dev d' = bd_num_blocks dev d
        \<and> image d' = overlay (unat k * BLOCK_SIZE) buf (image d)"
begin

lemma block_in:
  assumes "inv (dk_dev dk)" and "dk_offset dk < BLOCK_SIZE" and "disk_pos dk < length (image (dk_dev dk))"
  shows "dk_block_id dk < bd_num_blocks dev (dk_dev dk)"
    and "unat (dk_block_id dk) * BLOCK_SIZE + BLOCK_SIZE \<le> length (image (dk_dev dk))"
    and "unat (dk_block_id dk + 1) = unat (dk_block_id dk) + 1"
proof -
  let ?n = "unat (bd_num_blocks dev (dk_dev dk))" and ?i = "unat (dk_block_id dk)"
  have b: "length (image (dk_dev dk)) = ?n * BLOCK_SIZE" using assms(1) by (rule blocks)
  have lt: "?i < ?n" using assms(2,3) b by (auto simp: disk_pos_def BLOCK_SIZE_def)
  then show "dk_block_id dk < bd_num_blocks dev (dk_dev dk)" by (simp add: word_less_nat_alt)
  show "?i * BLOCK_SIZE + BLOCK_SIZE \<le> length (image (dk_dev dk))"
    using lt b by (simp add: BLOCK_SIZE_def)
  have "?n < 2 ^ 64" using b size [OF assms(1)] by (simp add: BLOCK_SIZE_def)
  with lt have "?i + 1 < 2 ^ 64" by simp
  then show "unat (dk_block_id dk + 1) = ?i + 1" by (simp add: unat_word_ariths)
qed

lemma advance:
  assumes "unat (dk_block_id dk + 1) = unat (dk_block_id dk) + 1" "dk_offset dk < BLOCK_SIZE" "dk_offset dk + c \<le> BLOCK_SIZE"
  shows "disk_pos (disk_advance c dk) = disk_pos dk + c" "dk_offset (disk_advance c dk) < BLOCK_SIZE"
    "dk_dev (disk_advance c dk) = dk_dev dk"
  using assms by (auto simp: disk_advance_def disk_pos_def BLOCK_SIZE_def)

lemma read_one_ok:
  assumes "inv (dk_dev dk)" and off: "dk_offset dk < BLOCK_SIZE" and "disk_pos dk < length (image (dk_dev dk))" and "0 < len"
  obtains c dk' where "0 < c" "c \<le> len" "disk_pos dk + c \<le> length (image (dk_dev dk))"
    "read_one dev len dk = (Ok (take c (drop (disk_pos dk) (image (dk_dev dk)))), dk')"
    "disk_pos dk' = disk_pos dk + c" "dk_offset dk' < BLOCK_SIZE" "dk_dev dk' = dk_dev dk"
proof -
  note b = block_in [OF assms(1-3)]
  let ?img = "image (dk_dev dk)" and ?i = "unat (dk_block_id dk) * BLOCK_SIZE"
  have r: "bd_read_block dev (dk_block_id dk) BLOCK_SIZE (dk_dev dk) = (Ok (take BLOCK_SIZE (drop ?i ?img)), dk_dev dk)"
    using assms(1) b(1) by (rule read_block)
  have upd: "dk\<lparr>dk_dev := dk_dev dk\<rparr> = dk" by simp
  show thesis
  proof (cases "dk_offset dk = 0 \<and> BLOCK_SIZE \<le> len")
    case True
    with r b(2,3) that [of BLOCK_SIZE "dk\<lparr>dk_block_id := dk_block_id dk + 1\<rparr>"] show ?thesis
      by (simp add: read_one_def disk_pos_def BLOCK_SIZE_def)
  next
    case False
    define c where "c = min len (BLOCK_SIZE - dk_offset dk)"
    have c: "0 < c" "c \<le> len" "dk_offset dk + c \<le> BLOCK_SIZE" using off \<open>0 < len\<close> by (auto simp: c_def)
    have e: "take c (drop (dk_offset dk) (take BLOCK_SIZE (drop ?i ?img))) = take c (drop (disk_pos dk) ?img)"
      using c(3) by (simp add: drop_take disk_pos_def add.commute min_def)
    have "read_one dev len dk = (Ok (take c (drop (disk_pos dk) ?img)), disk_advance c dk)"
      using False unfolding read_one_def Let_def c_def [symmetric] r by (auto simp: e upd)
    with c advance [OF b(3) off c(3)] b(2) that [of c "disk_advance c dk"] show ?thesis
      by (simp add: disk_pos_def)
  qed
qed

lemma write_one_ok:
  assumes "inv (dk_dev dk)" and off: "dk_offset dk < BLOCK_SIZE" and "disk_pos dk < length (image (dk_dev dk))" and "buf \<noteq> []"
  obtains c dk' where "0 < c" "c \<le> length buf" "disk_pos dk + c \<le> length (image (dk_dev dk))"
    "write_one dev buf dk = (Ok c, dk')" "inv (dk_dev dk')" "disk_pos dk' = disk_pos dk + c" "dk_offset dk' < BLOCK_SIZE"
    "image (dk_dev dk') = overlay (disk_pos dk) (take c buf) (image (dk_dev dk))"
proof -
  note b = block_in [OF assms(1-3)]
  let ?img = "image (dk_dev dk)" and ?i = "unat (dk_block_id dk) * BLOCK_SIZE"
  show thesis
  proof (cases "dk_offset dk = 0 \<and> BLOCK_SIZE \<le> length buf")
    case True
    then obtain d' where "bd_write_block dev (dk_block_id dk) (take BLOCK_SIZE buf) (dk_dev dk) = (Ok (), d')"
      "inv d'" "image d' = overlay ?i (take BLOCK_SIZE buf) ?img"
      using write_block [OF assms(1) b(1), of "take BLOCK_SIZE buf"] by auto
    with True b(2,3) that [of BLOCK_SIZE "dk\<lparr>dk_dev := d', dk_block_id := dk_block_id dk + 1\<rparr>"] show ?thesis
      by (simp add: write_one_def disk_pos_def BLOCK_SIZE_def)
  next
    case False
    have r: "bd_read_block dev (dk_block_id dk) BLOCK_SIZE (dk_dev dk) = (Ok (take BLOCK_SIZE (drop ?i ?img)), dk_dev dk)"
      using assms(1) b(1) by (rule read_block)
    define c where "c = min (length buf) (BLOCK_SIZE - dk_offset dk)"
    have c: "0 < c" "c \<le> length buf" "dk_offset dk + c \<le> BLOCK_SIZE" using off \<open>buf \<noteq> []\<close> by (auto simp: c_def)
    let ?data = "overlay (dk_offset dk) (take c buf) (take BLOCK_SIZE (drop ?i ?img))"
    have "length ?data = BLOCK_SIZE" using c b(2) by (simp add: length_overlay)
    then obtain d' where w: "bd_write_block dev (dk_block_id dk) ?data (dk_dev dk) = (Ok (), d')"
      "inv d'" "image d' = overlay ?i ?data ?img"
      using write_block [OF assms(1) b(1), of ?data] by auto
    have img: "image d' = overlay (disk_pos dk) (take c buf) ?img"
      using overlay_inside [OF b(2), of "dk_offset dk" "take c buf"] c w(3) by (simp add: disk_pos_def)
    let ?dk = "dk\<lparr>dk_dev := d'\<rparr>"
    have "write_one dev buf dk = (Ok c, disk_advance c ?dk)"
      using False unfolding write_one_def Let_def c_def [symmetric] r by (auto simp: w(1))
    with c advance [of ?dk c] b(2,3) off img w(2) that [of c "disk_advance c ?dk"] show ?thesis
      by (simp add: disk_pos_def)
  qed
qed

lemma disk_read_ok:
  "\<lbrakk>inv (dk_dev dk); dk_offset dk < BLOCK_SIZE; disk_pos dk + len \<le> length (image (dk_dev dk))\<rbrakk> \<Longrightarrow>
   \<exists>dk'. disk_read dev len dk = (Ok (take len (drop (disk_pos dk) (image (dk_dev dk)))), dk')
     \<and> disk_pos dk' = disk_pos dk + len \<and> dk_offset dk' < BLOCK_SIZE \<and> dk_dev dk' = dk_dev dk"
proof (induction len arbitrary: dk rule: less_induct)
  case (less len)
  show ?case
  proof (cases "len = 0")
    case True
    with less.prems show ?thesis by (simp add: disk_read.simps)
  next
    case False
    let ?img = "image (dk_dev dk)" and ?p = "disk_pos dk"
    obtain c dk1 where r: "0 < c" "c \<le> len" "?p + c \<le> length ?img"
      "read_one dev len dk = (Ok (take c (drop ?p ?img)), dk1)"
      "disk_pos dk1 = ?p + c" "dk_offset dk1 < BLOCK_SIZE" "dk_dev dk1 = dk_dev dk"
      using read_one_ok [OF less.prems(1,2), of len] less.prems(3) False by auto
    have lc: "length (take c (drop ?p ?img)) = c" using r(3) by simp
    obtain dk2 where s: "disk_read dev (len - c) dk1 = (Ok (take (len - c) (drop (?p + c) ?img)), dk2)"
      "disk_pos dk2 = ?p + len" "dk_offset dk2 < BLOCK_SIZE" "dk_dev dk2 = dk_dev dk"
      using less.IH [of "len - c" dk1] less.prems r by auto
    have cat: "take c (drop ?p ?img) @ take (len - c) (drop (?p + c) ?img) = take len (drop ?p ?img)"
      using take_add [of c "len - c" "drop ?p ?img"] r(2) by (simp add: add.commute)
    obtain x xs where x: "take c (drop ?p ?img) = x # xs" using lc r(1) by (cases "take c (drop ?p ?img)") auto
    have "disk_read dev len dk = (Ok (x # xs @ take (len - c) (drop (?p + c) ?img)), dk2)"
      using False r(4) s(1) lc x by (subst disk_read.simps) simp
    with s cat x show ?thesis by simp
  qed
qed

lemma disk_write_ok:
  "\<lbrakk>inv (dk_dev dk); dk_offset dk < BLOCK_SIZE; disk_pos dk + length buf \<le> length (image (dk_dev dk))\<rbrakk> \<Longrightarrow>
   \<exists>dk'. disk_write dev buf dk = (Ok (length buf), dk') \<and> inv (dk_dev dk')
     \<and> disk_pos dk' = disk_pos dk + length buf \<and> dk_offset dk' < BLOCK_SIZE
     \<and> image (dk_dev dk') = overlay (disk_pos dk) buf (image (dk_dev dk))"
proof (induction "length buf" arbitrary: buf dk rule: less_induct)
  case less
  show ?case
  proof (cases "buf = []")
    case True
    with less.prems show ?thesis by (simp add: disk_write.simps)
  next
    case False
    let ?img = "image (dk_dev dk)" and ?p = "disk_pos dk"
    have "?p < length ?img" using less.prems(3) False by (cases buf) auto
    then obtain c dk1 where r: "0 < c" "c \<le> length buf" "?p + c \<le> length ?img"
      "write_one dev buf dk = (Ok c, dk1)" "inv (dk_dev dk1)" "disk_pos dk1 = ?p + c" "dk_offset dk1 < BLOCK_SIZE"
      "image (dk_dev dk1) = overlay ?p (take c buf) ?img"
      using write_one_ok [OF less.prems(1,2) _ False] by metis
    have shorter: "length buf - c < length buf" using r(1,2) by simp
    have l: "length (image (dk_dev dk1)) = length ?img" using r by (simp add: length_overlay)
    obtain dk2 where s: "disk_write dev (drop c buf) dk1 = (Ok (length buf - c), dk2)" "inv (dk_dev dk2)"
      "disk_pos dk2 = ?p + length buf" "dk_offset dk2 < BLOCK_SIZE"
      "image (dk_dev dk2) = overlay (?p + c) (drop c buf) (overlay ?p (take c buf) ?img)"
      using less.hyps [of "drop c buf" dk1] less.prems r l shorter by auto
    have cat: "overlay (?p + c) (drop c buf) (overlay ?p (take c buf) ?img) = overlay ?p buf ?img"
      using overlay_overlay [of ?p "take c buf" "drop c buf" ?img] less.prems(3) r(2) by simp
    obtain k where k: "c = Suc k" using r(1) by (cases c) auto
    have "disk_write dev buf dk = (Ok (c + (length buf - c)), dk2)"
      using False r(4) s(1) k by (subst disk_write.simps) simp
    with s cat r(2) show ?thesis by simp
  qed
qed

end

section \<open>The RAM disk\<close>

definition rd_inv :: "ram_disk \<Rightarrow> bool" where
  "rd_inv d \<longleftrightarrow> unat (rd_size d) = length (rd_data d) \<and> length (rd_data d) mod 512 = 0 \<and> length (rd_data d) < 2 ^ 63"

lemma rd_blocks:
  assumes "rd_inv d" shows "length (rd_data d) = unat (rd_num_blocks d) * 512"
  using assms by (auto simp: rd_inv_def rd_num_blocks_def unat_div)

lemma rd_range:
  assumes "rd_inv d" and "k < rd_num_blocks d"
  shows "unat (k * 512) = unat k * 512" "unat (k * 512 + 512) = unat k * 512 + 512" "unat k * 512 + 512 \<le> length (rd_data d)"
proof -
  have "unat k < unat (rd_num_blocks d)" using assms(2) by (simp add: word_less_nat_alt)
  then show b: "unat k * 512 + 512 \<le> length (rd_data d)" using rd_blocks [OF assms(1)] by simp
  have "length (rd_data d) < 2 ^ 63" using assms(1) by (simp add: rd_inv_def)
  with b show m: "unat (k * 512) = unat k * 512" by (simp add: unat_word_ariths)
  with b \<open>length (rd_data d) < 2 ^ 63\<close> show "unat (k * 512 + 512) = unat k * 512 + 512"
    by (simp add: unat_word_ariths(1))
qed

interpretation ram_disk: block_device ram_disk_dev rd_data rd_inv
proof
  fix d assume inv: "rd_inv d"
  then show "length (rd_data d) = unat (bd_num_blocks ram_disk_dev d) * BLOCK_SIZE"
    by (simp add: ram_disk_dev_def BLOCK_SIZE_def rd_blocks)
  from inv show "length (rd_data d) < 2 ^ 64" by (simp add: rd_inv_def)
  fix k :: u64 and buf :: "u8 list"
  assume k: "k < bd_num_blocks ram_disk_dev d"
  then have r: "unat (k * 512) = unat k * 512" "unat (k * 512 + 512) = unat k * 512 + 512" "unat k * 512 + 512 \<le> length (rd_data d)"
    using rd_range [OF inv] by (simp_all add: ram_disk_dev_def)
  have n: "\<not> rd_size d < k * 512 + 512" "\<not> k * 512 + 512 < k * 512"
    using r inv by (simp_all add: word_less_nat_alt rd_inv_def)
  show "bd_read_block ram_disk_dev k BLOCK_SIZE d = (Ok (take BLOCK_SIZE (drop (unat k * BLOCK_SIZE) (rd_data d))), d)"
    using n r by (simp add: ram_disk_dev_def rd_read_block_def BLOCK_SIZE_def Let_def)
  assume l: "length buf = BLOCK_SIZE"
  have "length (overlay (unat k * 512) buf (rd_data d)) = length (rd_data d)"
    using r(3) l by (simp add: length_overlay BLOCK_SIZE_def)
  then show "\<exists>d'. bd_write_block ram_disk_dev k buf d = (Ok (), d') \<and> rd_inv d'
      \<and> bd_num_blocks ram_disk_dev d' = bd_num_blocks ram_disk_dev d
      \<and> rd_data d' = overlay (unat k * BLOCK_SIZE) buf (rd_data d)"
    using n r inv l by (simp add: ram_disk_dev_def rd_write_block_def BLOCK_SIZE_def Let_def rd_inv_def rd_num_blocks_def)
qed

text \<open>
  C24. On a RAM disk, bytes written at the cursor, at any position and across any number of block boundaries, are read back after
  seeking to where the write began; the rest of the disk is unchanged.
\<close>

theorem disk_write_read_roundtrip:
  assumes "rd_inv (dk_dev dk)" and "dk_offset dk < BLOCK_SIZE"
    and "disk_pos dk + length buf \<le> length (rd_data (dk_dev dk))"
  shows "\<exists>dk1 dk2 dk3. disk_write ram_disk_dev buf dk = (Ok (length buf), dk1)
    \<and> disk_seek ram_disk_dev (Start (of_nat (disk_pos dk))) dk1 = (Ok (of_nat (disk_pos dk)), dk2)
    \<and> disk_read ram_disk_dev (length buf) dk2 = (Ok buf, dk3)
    \<and> rd_data (dk_dev dk3) = overlay (disk_pos dk) buf (rd_data (dk_dev dk))"
proof -
  obtain dk1 where w: "disk_write ram_disk_dev buf dk = (Ok (length buf), dk1)" "rd_inv (dk_dev dk1)"
    "rd_data (dk_dev dk1) = overlay (disk_pos dk) buf (rd_data (dk_dev dk))"
    using ram_disk.disk_write_ok [OF assms] by blast
  let ?p = "of_nat (disk_pos dk) :: u64"
  have p: "unat ?p = disk_pos dk"
    using assms(1,3) by (simp add: unat_of_nat take_bit_eq_mod rd_inv_def)
  let ?dk2 = "disk_set_position ?p dk1"
  have s: "disk_pos ?dk2 = disk_pos dk" "dk_offset ?dk2 < BLOCK_SIZE" "dk_dev ?dk2 = dk_dev dk1"
    using p by (simp_all add: disk_set_position_def disk_pos_def BLOCK_SIZE_def unat_div)
  obtain dk3 where "disk_read ram_disk_dev (length buf) ?dk2
      = (Ok (take (length buf) (drop (disk_pos dk) (rd_data (dk_dev dk1)))), dk3)" "dk_dev dk3 = dk_dev dk1"
    using ram_disk.disk_read_ok [of ?dk2 "length buf"] s w(2,3) assms(3) by (auto simp: length_overlay)
  with w s assms(3) show ?thesis by (auto simp: disk_seek_def take_drop_overlay)
qed

theorem disk_write_read_roundtrip_witness:
  "\<exists>dk1 dk2 dk3. disk_write ram_disk_dev [1, 2, 3] \<lparr>dk_block_id = 0, dk_offset = 511, dk_dev = rd_new 1000\<rparr> = (Ok 3, dk1)
    \<and> disk_seek ram_disk_dev (Start 511) dk1 = (Ok 511, dk2) \<and> disk_read ram_disk_dev (length [1, 2, 3 :: u8]) dk2 = (Ok [1, 2, 3], dk3)"
  using disk_write_read_roundtrip [of "\<lparr>dk_block_id = 0, dk_offset = 511, dk_dev = rd_new 1000\<rparr>" "[1, 2, 3]"]
  by (auto simp: rd_inv_def rd_new_def disk_align_up_def BLOCK_SIZE_def disk_pos_def Let_def)

end
