(* ===== verification/Main_Fs.thy ===== *)
theory Main_Fs
  imports Disk_Dev User_Memory
begin

unbundle bit_operations_syntax

text \<open>
  The main file systems: the nodes that the kernel puts around the ext4 library (\<^verbatim>\<open>axfs/src/fs/lwext4_rust.rs\<close>, with the Rust side of the
  library, \<^verbatim>\<open>vendor/lwext4_rust/src/file.rs\<close>) and around the FAT library (\<^verbatim>\<open>axfs/src/fs/fatfs.rs\<close>), each as an instance of the interface \<open>vfs\<close>.
  The C functions of the ext4 library and the functions of the FAT library are arguments of the model. A node of the ext4
  file system is a path with the type it was looked up as; the library file in it is opened and closed by each operation.
  Paths hold no zero byte.

  Lemmas: what the error numbers of the C library become; creating a file that the library cannot open panics;
  the paths handed to the C library are clean.
\<close>

section \<open>Error numbers\<close>

definition ax_errors :: "ax_error list" where
  "ax_errors = [AddrInUse, AlreadyExists, BadAddress, BadState, ConnectionRefused, ConnectionReset, DirectoryNotEmpty,
     InvalidData, InvalidInput, Io, IsADirectory, NoMemory, NotADirectory, NotConnected, NotFound, PermissionDenied,
     ResourceBusy, StorageFull, UnexpectedEof, Unsupported, WouldBlock, WriteZero]"

definition ax_error_try_from :: "i32 \<Rightarrow> ax_error option" where
  "ax_error_try_from value =
     (if 0 <s value \<and> value \<le>s of_nat (length ax_errors) then Some (ax_errors ! (unat value - 1)) else None)"

text \<open>\<^verbatim>\<open>map_err(|e| e.try_into().unwrap())\<close>.\<close>

definition unwrap_code :: "(i32, 'a) outcome \<Rightarrow> (ax_error, 'a) outcome" where
  "unwrap_code r =
     (case r of
        Ok a \<Rightarrow> Ok a
      | Err c \<Rightarrow> (case ax_error_try_from c of Some e \<Rightarrow> Err e | None \<Rightarrow> Panic)
      | Panic \<Rightarrow> Panic)"

definition coded :: "(i32, 'a) outcome \<times> 's \<Rightarrow> (ax_error, 'a) outcome \<times> 's" where
  "coded m = (unwrap_code (fst m), snd m)"

section \<open>The ext4 library\<close>

datatype inode_types =
    EXT4_DE_UNKNOWN | EXT4_DE_REG_FILE | EXT4_DE_DIR | EXT4_DE_CHRDEV | EXT4_DE_BLKDEV | EXT4_DE_FIFO | EXT4_DE_SOCK | EXT4_DE_SYMLINK
  | EXT4_INODE_MODE_FIFO | EXT4_INODE_MODE_CHARDEV | EXT4_INODE_MODE_DIRECTORY | EXT4_INODE_MODE_BLOCKDEV | EXT4_INODE_MODE_FILE
  | EXT4_INODE_MODE_SOFTLINK | EXT4_INODE_MODE_SOCKET | EXT4_INODE_MODE_TYPE_MASK

fun inode_type_code :: "inode_types \<Rightarrow> i32" where
  "inode_type_code EXT4_DE_UNKNOWN = 0" | "inode_type_code EXT4_DE_REG_FILE = 1" | "inode_type_code EXT4_DE_DIR = 2"
| "inode_type_code EXT4_DE_CHRDEV = 3" | "inode_type_code EXT4_DE_BLKDEV = 4" | "inode_type_code EXT4_DE_FIFO = 5"
| "inode_type_code EXT4_DE_SOCK = 6" | "inode_type_code EXT4_DE_SYMLINK = 7"
| "inode_type_code EXT4_INODE_MODE_FIFO = 0x1000" | "inode_type_code EXT4_INODE_MODE_CHARDEV = 0x2000"
| "inode_type_code EXT4_INODE_MODE_DIRECTORY = 0x4000" | "inode_type_code EXT4_INODE_MODE_BLOCKDEV = 0x6000"
| "inode_type_code EXT4_INODE_MODE_FILE = 0x8000" | "inode_type_code EXT4_INODE_MODE_SOFTLINK = 0xA000"
| "inode_type_code EXT4_INODE_MODE_SOCKET = 0xC000" | "inode_type_code EXT4_INODE_MODE_TYPE_MASK = 0xF000"

text \<open>\<^verbatim>\<open>InodeTypes::from(usize)\<close> on the types of directory entries.\<close>

definition inode_type_of :: "u8 \<Rightarrow> inode_types" where
  "inode_type_of num =
     (if num = 1 then EXT4_DE_REG_FILE else if num = 2 then EXT4_DE_DIR else if num = 3 then EXT4_DE_CHRDEV
      else if num = 4 then EXT4_DE_BLKDEV else if num = 5 then EXT4_DE_FIFO else if num = 6 then EXT4_DE_SOCK
      else if num = 7 then EXT4_DE_SYMLINK else EXT4_DE_UNKNOWN)"

text \<open>The C functions: a return code, what they store through pointers, and the state of the library.\<close>

record ('d, 's) ext4_c =
  c_fopen :: "string \<Rightarrow> string \<Rightarrow> 's \<Rightarrow> i32 \<times> 'd \<times> 's"
  c_fclose :: "'d \<Rightarrow> 's \<Rightarrow> 's"
  c_inode_exist :: "string \<Rightarrow> i32 \<Rightarrow> 's \<Rightarrow> i32 \<times> 's"
  c_frename :: "string \<Rightarrow> string \<Rightarrow> 's \<Rightarrow> i32 \<times> 's"
  c_fremove :: "string \<Rightarrow> 's \<Rightarrow> i32 \<times> 's"
  c_fseek :: "i64 \<Rightarrow> u32 \<Rightarrow> 'd \<Rightarrow> 's \<Rightarrow> i32 \<times> 'd \<times> 's"
  c_fread :: "nat \<Rightarrow> 'd \<Rightarrow> 's \<Rightarrow> i32 \<times> u8 list \<times> 'd \<times> 's"
  c_fwrite :: "u8 list \<Rightarrow> 'd \<Rightarrow> 's \<Rightarrow> i32 \<times> usize \<times> 'd \<times> 's"
  c_ftruncate :: "u64 \<Rightarrow> 'd \<Rightarrow> 's \<Rightarrow> i32 \<times> 'd \<times> 's"
  c_fsize :: "'d \<Rightarrow> u64"
  c_mode_get :: "string \<Rightarrow> 's \<Rightarrow> i32 \<times> u32 \<times> 's"
  c_dir_mk :: "string \<Rightarrow> 's \<Rightarrow> i32 \<times> 's"
  c_dir_rm :: "string \<Rightarrow> 's \<Rightarrow> i32 \<times> 's"
  c_dir_entries :: "string \<Rightarrow> 's \<Rightarrow> (u8 list \<times> u8) list \<times> 's"

definition flags_to_cstring :: "u32 \<Rightarrow> string" where
  "flags_to_cstring flags =
     (if flags = 0 then ''rb'' else if flags = 2 then ''r+'' else if flags = 0x241 then ''wb'' else if flags = 0x441 then ''ab''
      else if flags = 0x242 then ''w+'' else if flags = 0x442 then ''a+'' else ''r+'')"

definition rc :: "'a \<Rightarrow> i32 \<Rightarrow> (i32, 'a) outcome" where "rc v r = (if r = 0 then Ok v else Err r)"

definition x4_file_open :: "('d, 's) ext4_c \<Rightarrow> string \<Rightarrow> u32 \<Rightarrow> 's \<Rightarrow> (i32, 'd) outcome \<times> 's" where
  "x4_file_open c path flags s = (case c_fopen c path (flags_to_cstring flags) s of (r, d, s) \<Rightarrow> (rc d r, s))"

definition x4_file_seek :: "('d, 's) ext4_c \<Rightarrow> i64 \<Rightarrow> u32 \<Rightarrow> 'd \<Rightarrow> 's \<Rightarrow> (i32, 'd) outcome \<times> 's" where
  "x4_file_seek c offset seek_type d s =
     (let sz = c_fsize c d; offset = (if sz <s offset then sz else offset) in
      case c_fseek c offset seek_type d s of (r, d, s) \<Rightarrow> (rc d r, s))"

definition x4_file_read :: "('d, 's) ext4_c \<Rightarrow> nat \<Rightarrow> 'd \<Rightarrow> 's \<Rightarrow> (i32, u8 list) outcome \<times> 'd \<times> 's" where
  "x4_file_read c len d s = (case c_fread c len d s of (r, bs, d, s) \<Rightarrow> (rc bs r, d, s))"

definition x4_file_write :: "('d, 's) ext4_c \<Rightarrow> u8 list \<Rightarrow> 'd \<Rightarrow> 's \<Rightarrow> (i32, usize) outcome \<times> 'd \<times> 's" where
  "x4_file_write c buf d s = (case c_fwrite c buf d s of (r, n, d, s) \<Rightarrow> (rc n r, d, s))"

definition x4_file_truncate :: "('d, 's) ext4_c \<Rightarrow> u64 \<Rightarrow> 'd \<Rightarrow> 's \<Rightarrow> (i32, unit) outcome \<times> 'd \<times> 's" where
  "x4_file_truncate c sz d s = (case c_ftruncate c sz d s of (r, d, s) \<Rightarrow> (rc () r, d, s))"

definition x4_mode_get :: "('d, 's) ext4_c \<Rightarrow> string \<Rightarrow> 's \<Rightarrow> (i32, u32) outcome \<times> 's" where
  "x4_mode_get c path s = (case c_mode_get c path s of (r, mode, s) \<Rightarrow> (rc mode r, s))"

definition x4_type_get :: "('d, 's) ext4_c \<Rightarrow> string \<Rightarrow> 's \<Rightarrow> (i32, inode_types) outcome \<times> 's" where
  "x4_type_get c path s =
     (case x4_mode_get c path s of
        (Ok mode, s) \<Rightarrow>
          let types = mode AND NOT 0x1ff in
          (Ok (if types = 0x1000 then EXT4_INODE_MODE_FIFO else if types = 0x2000 then EXT4_INODE_MODE_CHARDEV
               else if types = 0x4000 then EXT4_INODE_MODE_DIRECTORY else if types = 0x6000 then EXT4_INODE_MODE_BLOCKDEV
               else if types = 0x8000 then EXT4_INODE_MODE_FILE else if types = 0xA000 then EXT4_INODE_MODE_SOFTLINK
               else if types = 0xC000 then EXT4_INODE_MODE_SOCKET else if types = 0xF000 then EXT4_INODE_MODE_TYPE_MASK
               else EXT4_INODE_MODE_FILE), s)
      | (_, s) \<Rightarrow> (Panic, s))"

definition x4_inode_exist :: "('d, 's) ext4_c \<Rightarrow> string \<Rightarrow> inode_types \<Rightarrow> 's \<Rightarrow> bool \<times> 's" where
  "x4_inode_exist c path types s = (case c_inode_exist c path (inode_type_code types) s of (r, s) \<Rightarrow> (r = 0, s))"

text \<open>Removal takes a missing file (\<^verbatim>\<open>ENOENT\<close>, 2) for removed.\<close>

definition x4_file_remove :: "('d, 's) ext4_c \<Rightarrow> string \<Rightarrow> 's \<Rightarrow> (i32, unit) outcome \<times> 's" where
  "x4_file_remove c path s = (case c_fremove c path s of (r, s) \<Rightarrow> (if r \<noteq> 0 \<and> r \<noteq> 2 then Err r else Ok (), s))"

definition x4_dir_rm :: "('d, 's) ext4_c \<Rightarrow> string \<Rightarrow> 's \<Rightarrow> (i32, unit) outcome \<times> 's" where
  "x4_dir_rm c path s = (case c_dir_rm c path s of (r, s) \<Rightarrow> (if r \<noteq> 0 \<and> r \<noteq> 2 then Err r else Ok (), s))"

definition x4_dir_mk :: "('d, 's) ext4_c \<Rightarrow> string \<Rightarrow> 's \<Rightarrow> (i32, unit) outcome \<times> 's" where
  "x4_dir_mk c path s = (case c_dir_mk c path s of (r, s) \<Rightarrow> (rc () r, s))"

definition x4_file_rename :: "('d, 's) ext4_c \<Rightarrow> string \<Rightarrow> string \<Rightarrow> 's \<Rightarrow> (i32, unit) outcome \<times> 's" where
  "x4_file_rename c path new_path s = (case c_frename c path new_path s of (r, s) \<Rightarrow> (rc () r, s))"

text \<open>Every name gets a final zero byte in a buffer of 255 bytes, so a name of 255 bytes panics.\<close>

definition x4_dir_entries ::
  "('d, 's) ext4_c \<Rightarrow> string \<Rightarrow> inode_types \<Rightarrow> 's \<Rightarrow> (i32, (u8 list \<times> inode_types) list) outcome \<times> 's" where
  "x4_dir_entries c path ty s =
     (if ty \<noteq> EXT4_DE_DIR then (Err (- 1), s)
      else case c_dir_entries c path s of (es, s) \<Rightarrow>
        if list_ex (\<lambda>e. 255 \<le> length (fst e)) es then (Panic, s)
        else (Ok (map (\<lambda>(name, t). (name @ [0], inode_type_of t)) es), s))"

section \<open>The nodes of the ext4 file system\<close>

record ext4_node =
  xn_path :: string
  xn_type :: inode_types

text \<open>\<^verbatim>\<open>str::replace("//", "/")\<close>.\<close>

fun replace_slashes :: "string \<Rightarrow> string" where
  "replace_slashes (x # y # r) = (if x = slash \<and> y = slash then slash # replace_slashes r else x # replace_slashes (y # r))"
| "replace_slashes r = r"

lemma replace_slashes_le: "length (replace_slashes p) \<le> length p"
  by (induction p rule: replace_slashes.induct) auto

lemma replace_slashes_less: "p \<noteq> replace_slashes p \<Longrightarrow> length (replace_slashes p) < length p"
proof (induction p rule: replace_slashes.induct)
  case (1 x y r)
  then show ?case using replace_slashes_le [of r] by (auto split: if_splits)
qed auto

function path_deal_with :: "string \<Rightarrow> string \<Rightarrow> string" where
  "path_deal_with dir path =
     (let p = trim_matches slash path in
      if p = [] \<or> p = ''.'' then []
      else case strip_prefix ''./'' p of
        Some rest \<Rightarrow> path_deal_with dir rest
      | None \<Rightarrow>
          let rest_p = replace_slashes p in
          if p \<noteq> rest_p then path_deal_with dir rest_p
          else trim_end_matches slash dir @ [slash] @ p)"
  by pat_completeness auto
termination
proof (relation "measure (\<lambda>(dir, path). length path)", goal_cases)
  case (2 dir path p rest_p)
  then have "length rest_p < length p" using replace_slashes_less by blast
  with 2 show ?case using length_trim_matches [of slash path] by simp
next
  case (3 dir path p rest)
  then have "length rest < length p" by (auto simp: strip_prefix_Some)
  with 3 show ?case using length_trim_matches [of slash path] by simp
qed simp

declare path_deal_with.simps [simp del]

definition ext4_get_attr :: "('d, 's) ext4_c \<Rightarrow> ext4_node \<Rightarrow> ('s, vfs_node_attr) vfs_op" where
  "ext4_get_attr c n s =
     (case x4_mode_get c (xn_path n) s of (m, s) \<Rightarrow>
        let perm = (case m of Ok mode \<Rightarrow> mode | _ \<Rightarrow> 0x1ed) in
        sbind (coded (x4_type_get c (xn_path n) s)) (\<lambda>t s.
        let vtype = (case t of EXT4_INODE_MODE_FIFO \<Rightarrow> Fifo | EXT4_INODE_MODE_CHARDEV \<Rightarrow> CharDevice
              | EXT4_INODE_MODE_DIRECTORY \<Rightarrow> Dir | EXT4_INODE_MODE_BLOCKDEV \<Rightarrow> BlockDevice | EXT4_INODE_MODE_FILE \<Rightarrow> File
              | EXT4_INODE_MODE_SOFTLINK \<Rightarrow> SymLink | EXT4_INODE_MODE_SOCKET \<Rightarrow> Socket | _ \<Rightarrow> File) in
        sbind (if vtype = File then
                 sbind (coded (x4_file_open c (xn_path n) 0 s)) (\<lambda>d s. (Ok (c_fsize c d), c_fclose c d s))
               else (Ok 0, s)) (\<lambda>sz s.
          (Ok \<lparr>at_mode = ucast perm AND 0x1ff, at_ty = vtype, at_size = sz, at_blocks = (sz + 511) div 512\<rparr>, s))))"

definition ext4_create :: "('d, 's) ext4_c \<Rightarrow> ext4_node \<Rightarrow> string \<Rightarrow> vfs_node_type \<Rightarrow> ('s, unit) vfs_op" where
  "ext4_create c n path ty s =
     (let fpath = path_deal_with (xn_path n) path in
      if fpath = [] then (Ok (), s)
      else
        let types = (case ty of Fifo \<Rightarrow> EXT4_DE_FIFO | CharDevice \<Rightarrow> EXT4_DE_CHRDEV | Dir \<Rightarrow> EXT4_DE_DIR
              | BlockDevice \<Rightarrow> EXT4_DE_BLKDEV | File \<Rightarrow> EXT4_DE_REG_FILE | SymLink \<Rightarrow> EXT4_DE_SYMLINK | Socket \<Rightarrow> EXT4_DE_SOCK) in
        case x4_inode_exist c fpath types s of
          (True, s) \<Rightarrow> (Ok (), s)
        | (False, s) \<Rightarrow>
            if types = EXT4_DE_DIR then coded (x4_dir_mk c fpath s)
            else case x4_file_open c fpath 0x241 s of
              (Ok d, s) \<Rightarrow> (Ok (), c_fclose c d s)
            | (_, s) \<Rightarrow> (Panic, s))"

definition ext4_remove :: "('d, 's) ext4_c \<Rightarrow> ext4_node \<Rightarrow> string \<Rightarrow> ('s, unit) vfs_op" where
  "ext4_remove c n path s =
     (let fpath = path_deal_with (xn_path n) path in
      if fpath = [] then (Panic, s)
      else case x4_inode_exist c fpath EXT4_DE_DIR s of
        (True, s) \<Rightarrow> coded (x4_dir_rm c fpath s)
      | (False, s) \<Rightarrow> coded (x4_file_remove c fpath s))"

definition ext4_parent :: "ext4_node \<Rightarrow> ext4_node option" where
  "ext4_parent n =
     (if xn_type n = EXT4_DE_DIR then
        let path = rev (dropWhile (\<lambda>ch. ch \<noteq> slash) (rev (trim_end_matches slash (xn_path n)))) in
        if path \<noteq> [] then Some \<lparr>xn_path = path, xn_type = EXT4_DE_DIR\<rparr> else None
      else None)"

text \<open>An entry that is no directory, file or symbolic link is \<^verbatim>\<open>unreachable!()\<close>.\<close>

definition ext4_dir_entry :: "u8 list \<times> inode_types \<Rightarrow> vfs_dir_entry option" where
  "ext4_dir_entry e =
     (case e of (name, t) \<Rightarrow>
        if t \<notin> {EXT4_DE_DIR, EXT4_DE_REG_FILE, EXT4_DE_SYMLINK} \<or> \<not> utf8_valid name \<or> 63 < length name then None
        else Some \<lparr>de_type = (if t = EXT4_DE_DIR then Dir else if t = EXT4_DE_REG_FILE then File else SymLink),
                   de_name = string_of_bytes (takeWhile (\<lambda>b. b \<noteq> 0) name)\<rparr>)"

definition ext4_read_dir :: "('d, 's) ext4_c \<Rightarrow> ext4_node \<Rightarrow> nat \<Rightarrow> nat \<Rightarrow> ('s, vfs_dir_entry list) vfs_op" where
  "ext4_read_dir c n start len s =
     (case x4_dir_entries c (xn_path n) (xn_type n) s of
        (Ok all, s) \<Rightarrow>
          let es = map ext4_dir_entry (take len (drop start all)) in
          if None \<in> set es then (Panic, s) else (Ok (map the es), s)
      | (_, s) \<Rightarrow> (Panic, s))"

definition ext4_lookup :: "('d, 's) ext4_c \<Rightarrow> ext4_node \<Rightarrow> string \<Rightarrow> ('s, ext4_node) vfs_op" where
  "ext4_lookup c n path s =
     (let fpath = path_deal_with (xn_path n) path in
      if fpath = [] then (Ok n, s)
      else case x4_inode_exist c fpath EXT4_DE_DIR s of
        (True, s) \<Rightarrow> (Ok \<lparr>xn_path = fpath, xn_type = EXT4_DE_DIR\<rparr>, s)
      | (False, s) \<Rightarrow>
          (case x4_inode_exist c fpath EXT4_DE_REG_FILE s of
             (True, s) \<Rightarrow> (Ok \<lparr>xn_path = fpath, xn_type = EXT4_DE_REG_FILE\<rparr>, s)
           | (False, s) \<Rightarrow> (Err NotFound, s)))"

definition ext4_read_at :: "('d, 's) ext4_c \<Rightarrow> ext4_node \<Rightarrow> u64 \<Rightarrow> nat \<Rightarrow> ('s, u8 list) vfs_op" where
  "ext4_read_at c n offset len s =
     sbind (coded (x4_file_open c (xn_path n) 0 s)) (\<lambda>d s.
     sbind (coded (x4_file_seek c offset 0 d s)) (\<lambda>d s.
       case x4_file_read c len d s of (r, d, s) \<Rightarrow> (unwrap_code r, c_fclose c d s)))"

definition ext4_write_at :: "('d, 's) ext4_c \<Rightarrow> ext4_node \<Rightarrow> u64 \<Rightarrow> u8 list \<Rightarrow> ('s, usize) vfs_op" where
  "ext4_write_at c n offset buf s =
     sbind (coded (x4_file_open c (xn_path n) 2 s)) (\<lambda>d s.
     sbind (coded (x4_file_seek c offset 0 d s)) (\<lambda>d s.
       case x4_file_write c buf d s of (r, d, s) \<Rightarrow> (unwrap_code r, c_fclose c d s)))"

definition ext4_truncate :: "('d, 's) ext4_c \<Rightarrow> ext4_node \<Rightarrow> u64 \<Rightarrow> ('s, unit) vfs_op" where
  "ext4_truncate c n sz s =
     sbind (coded (x4_file_open c (xn_path n) 0x242 s)) (\<lambda>d s.
       case x4_file_truncate c sz d s of (r, d, s) \<Rightarrow> (unwrap_code r, c_fclose c d s))"

definition ext4_rename :: "('d, 's) ext4_c \<Rightarrow> ext4_node \<Rightarrow> string \<Rightarrow> string \<Rightarrow> ('s, unit) vfs_op" where
  "ext4_rename c n src_path dst_path s = coded (x4_file_rename c src_path dst_path s)"

text \<open>The operations that the wrapper does not define are the defaults of the interface.\<close>

definition ext4fs :: "('d, 's) ext4_c \<Rightarrow> (ext4_node, 's) vfs" where
  "ext4fs c =
     \<lparr>vn_open = (\<lambda>n s. (Ok (), s)), vn_release = (\<lambda>n s. (Ok (), s)), vn_get_attr = ext4_get_attr c,
      vn_read_at = ext4_read_at c, vn_write_at = ext4_write_at c, vn_fsync = (\<lambda>n s. (Err InvalidInput, s)),
      vn_truncate = ext4_truncate c, vn_lookup = ext4_lookup c, vn_create = ext4_create c, vn_remove = ext4_remove c,
      vn_read_dir = ext4_read_dir c, vn_rename = ext4_rename c,
      vf_root_dir = (\<lambda>fs. \<lparr>xn_path = ''/'', xn_type = EXT4_DE_DIR\<rparr>), vf_mount = (\<lambda>fs p m s. (Ok (), s)), vf_umount = (\<lambda>fs s. (Ok (), s))\<rparr>"

section \<open>The FAT file system\<close>

datatype fat_error =
    FatIo | FatUnexpectedEof | FatWriteZero | FatInvalidInput | FatNotFound | FatAlreadyExists | FatDirectoryIsNotEmpty
  | FatCorruptedFileSystem | FatNotEnoughSpace | FatInvalidFileNameLength | FatUnsupportedFileNameCharacter

fun as_vfs_err :: "fat_error \<Rightarrow> ax_error" where
  "as_vfs_err FatAlreadyExists = AlreadyExists" | "as_vfs_err FatCorruptedFileSystem = InvalidData"
| "as_vfs_err FatDirectoryIsNotEmpty = DirectoryNotEmpty" | "as_vfs_err FatInvalidInput = InvalidInput"
| "as_vfs_err FatInvalidFileNameLength = InvalidInput" | "as_vfs_err FatUnsupportedFileNameCharacter = InvalidInput"
| "as_vfs_err FatNotEnoughSpace = StorageFull" | "as_vfs_err FatNotFound = NotFound"
| "as_vfs_err FatUnexpectedEof = UnexpectedEof" | "as_vfs_err FatWriteZero = WriteZero" | "as_vfs_err FatIo = Io"

text \<open>The library: \<open>'f\<close> are its open files, with their own cursors, \<open>'d\<close> its directories.\<close>

type_synonym ('s, 'a) fat_op = "'s \<Rightarrow> (fat_error, 'a) outcome \<times> 's"

record ('f, 'd, 's) fat_lib =
  fat_seek :: "'f \<Rightarrow> seek_from \<Rightarrow> ('s, u64) fat_op"
  fat_file_read :: "'f \<Rightarrow> nat \<Rightarrow> ('s, u8 list) fat_op"
  fat_file_write :: "'f \<Rightarrow> u8 list \<Rightarrow> ('s, usize) fat_op"
  fat_file_truncate :: "'f \<Rightarrow> ('s, unit) fat_op"
  fat_open_dir :: "'d \<Rightarrow> string \<Rightarrow> ('s, 'd) fat_op"
  fat_open_file :: "'d \<Rightarrow> string \<Rightarrow> ('s, 'f) fat_op"
  fat_create_file :: "'d \<Rightarrow> string \<Rightarrow> ('s, 'f) fat_op"
  fat_create_dir :: "'d \<Rightarrow> string \<Rightarrow> ('s, 'd) fat_op"
  fat_remove :: "'d \<Rightarrow> string \<Rightarrow> ('s, unit) fat_op"
  fat_entries :: "'d \<Rightarrow> 's \<Rightarrow> (fat_error + string \<times> bool) list \<times> 's"
  fat_rename :: "'d \<Rightarrow> string \<Rightarrow> 'd \<Rightarrow> string \<Rightarrow> ('s, unit) fat_op"
  fat_root_dir :: 'd

datatype ('f, 'd) fat_node = FatFile 'f | FatDir 'd

definition vfs_err :: "(fat_error, 'a) outcome \<times> 's \<Rightarrow> (ax_error, 'a) outcome \<times> 's" where
  "vfs_err m = (map_err as_vfs_err (fst m), snd m)"

definition fat_get_attr :: "('f, 'd, 's) fat_lib \<Rightarrow> ('f, 'd) fat_node \<Rightarrow> ('s, vfs_node_attr) vfs_op" where
  "fat_get_attr l n s =
     (case n of
        FatFile f \<Rightarrow>
          sbind (vfs_err (fat_seek l f (End 0) s)) (\<lambda>sz s.
            (Ok \<lparr>at_mode = 0x1ed, at_ty = File, at_size = sz, at_blocks = (sz + 512 - 1) div 512\<rparr>, s))
      | FatDir d \<Rightarrow> (Ok \<lparr>at_mode = 0x1ed, at_ty = Dir, at_size = 512, at_blocks = 1\<rparr>, s))"

definition fat_read_at :: "('f, 'd, 's) fat_lib \<Rightarrow> ('f, 'd) fat_node \<Rightarrow> u64 \<Rightarrow> nat \<Rightarrow> ('s, u8 list) vfs_op" where
  "fat_read_at l n offset len s =
     (case n of
        FatFile f \<Rightarrow> sbind (vfs_err (fat_seek l f (Start offset) s)) (\<lambda>_ s. vfs_err (fat_file_read l f len s))
      | FatDir d \<Rightarrow> (Err IsADirectory, s))"

definition fat_write_at :: "('f, 'd, 's) fat_lib \<Rightarrow> ('f, 'd) fat_node \<Rightarrow> u64 \<Rightarrow> u8 list \<Rightarrow> ('s, usize) vfs_op" where
  "fat_write_at l n offset buf s =
     (case n of
        FatFile f \<Rightarrow> sbind (vfs_err (fat_seek l f (Start offset) s)) (\<lambda>_ s. vfs_err (fat_file_write l f buf s))
      | FatDir d \<Rightarrow> (Err IsADirectory, s))"

definition fat_truncate :: "('f, 'd, 's) fat_lib \<Rightarrow> ('f, 'd) fat_node \<Rightarrow> u64 \<Rightarrow> ('s, unit) vfs_op" where
  "fat_truncate l n sz s =
     (case n of
        FatFile f \<Rightarrow> sbind (vfs_err (fat_seek l f (Start sz) s)) (\<lambda>_ s. vfs_err (fat_file_truncate l f s))
      | FatDir d \<Rightarrow> (Err IsADirectory, s))"

definition fat_parent :: "('f, 'd, 's) fat_lib \<Rightarrow> ('f, 'd) fat_node \<Rightarrow> 's \<Rightarrow> ('f, 'd) fat_node option \<times> 's" where
  "fat_parent l n s =
     (case n of
        FatFile f \<Rightarrow> (None, s)
      | FatDir d \<Rightarrow> (case fat_open_dir l d ''..'' s of (Ok p, s) \<Rightarrow> (Some (FatDir p), s) | (_, s) \<Rightarrow> (None, s)))"

text \<open>The three operations on a path cut slashes and leading \<^verbatim>\<open>./\<close> in the same way.\<close>

function fat_path :: "string \<Rightarrow> string" where
  "fat_path path =
     (let path = trim_matches slash path in
      if path = [] \<or> path = ''.'' then path
      else case strip_prefix ''./'' path of Some rest \<Rightarrow> fat_path rest | None \<Rightarrow> path)"
  by pat_completeness auto
termination
proof (relation "measure length", goal_cases)
  case (2 path p rest)
  then have "length rest < length p" by (auto simp: strip_prefix_Some)
  with 2 show ?case using length_trim_matches [of slash path] by simp
qed simp

declare fat_path.simps [simp del]

definition fat_lookup :: "('f, 'd, 's) fat_lib \<Rightarrow> ('f, 'd) fat_node \<Rightarrow> string \<Rightarrow> ('s, ('f, 'd) fat_node) vfs_op" where
  "fat_lookup l n path s =
     (case n of
        FatFile f \<Rightarrow> (Err NotADirectory, s)
      | FatDir d \<Rightarrow>
          let path = fat_path path in
          if path = [] \<or> path = ''.'' then (Ok n, s)
          else case fat_open_file l d path s of
            (Ok f, s) \<Rightarrow> (Ok (FatFile f), s)
          | (Err _, s) \<Rightarrow>
              (case fat_open_dir l d path s of
                 (Ok d, s) \<Rightarrow> (Ok (FatDir d), s)
               | (Err _, s) \<Rightarrow> (Err NotFound, s)
               | (Panic, s) \<Rightarrow> (Panic, s))
          | (Panic, s) \<Rightarrow> (Panic, s))"

definition fat_create :: "('f, 'd, 's) fat_lib \<Rightarrow> ('f, 'd) fat_node \<Rightarrow> string \<Rightarrow> vfs_node_type \<Rightarrow> ('s, unit) vfs_op" where
  "fat_create l n path ty s =
     (case n of
        FatFile f \<Rightarrow> (Err NotADirectory, s)
      | FatDir d \<Rightarrow>
          let path = fat_path path in
          if path = [] \<or> path = ''.'' then (Ok (), s)
          else case ty of
            File \<Rightarrow> sbind (vfs_err (fat_create_file l d path s)) (\<lambda>_ s. (Ok (), s))
          | Dir \<Rightarrow> sbind (vfs_err (fat_create_dir l d path s)) (\<lambda>_ s. (Ok (), s))
          | _ \<Rightarrow> (Err Unsupported, s))"

text \<open>\<^verbatim>\<open>remove\<close> asserts that the path is not empty, but passes a single dot to the library.\<close>

definition fat_remove_node :: "('f, 'd, 's) fat_lib \<Rightarrow> ('f, 'd) fat_node \<Rightarrow> string \<Rightarrow> ('s, unit) vfs_op" where
  "fat_remove_node l n path s =
     (case n of
        FatFile f \<Rightarrow> (Err NotADirectory, s)
      | FatDir d \<Rightarrow>
          let path = fat_path path in
          if path = [] then (Panic, s) else vfs_err (fat_remove l d path s))"

text \<open>The listing stops at the first entry that cannot be read.\<close>

fun fat_ok_entries :: "(fat_error + string \<times> bool) list \<Rightarrow> (string \<times> bool) list" where
  "fat_ok_entries (Inr e # es) = e # fat_ok_entries es"
| "fat_ok_entries _ = []"

definition fat_read_dir :: "('f, 'd, 's) fat_lib \<Rightarrow> ('f, 'd) fat_node \<Rightarrow> nat \<Rightarrow> nat \<Rightarrow> ('s, vfs_dir_entry list) vfs_op" where
  "fat_read_dir l n start len s =
     (case n of
        FatFile f \<Rightarrow> (Err NotADirectory, s)
      | FatDir d \<Rightarrow>
          (case fat_entries l d s of (all, s) \<Rightarrow>
             let es = fat_ok_entries (take len (drop start all)) in
             if list_ex (\<lambda>e. 63 < length (fst e)) es then (Panic, s)
             else (Ok (map (\<lambda>(name, dir). \<lparr>de_type = if dir then Dir else File, de_name = takeWhile (\<lambda>ch. ch \<noteq> CHR 0x00) name\<rparr>) es), s)))"

definition fat_rename_node :: "('f, 'd, 's) fat_lib \<Rightarrow> ('f, 'd) fat_node \<Rightarrow> string \<Rightarrow> string \<Rightarrow> ('s, unit) vfs_op" where
  "fat_rename_node l n src_path dst_path s =
     (case n of FatFile f \<Rightarrow> (Err Unsupported, s) | FatDir d \<Rightarrow> vfs_err (fat_rename l d src_path d dst_path s))"

definition fatfs :: "('f, 'd, 's) fat_lib \<Rightarrow> (('f, 'd) fat_node, 's) vfs" where
  "fatfs l =
     \<lparr>vn_open = (\<lambda>n s. (Ok (), s)), vn_release = (\<lambda>n s. (Ok (), s)), vn_get_attr = fat_get_attr l,
      vn_read_at = fat_read_at l, vn_write_at = fat_write_at l,
      vn_fsync = (\<lambda>n s. (Err (case n of FatFile _ \<Rightarrow> InvalidInput | FatDir _ \<Rightarrow> IsADirectory), s)),
      vn_truncate = fat_truncate l, vn_lookup = fat_lookup l, vn_create = fat_create l, vn_remove = fat_remove_node l,
      vn_read_dir = fat_read_dir l, vn_rename = fat_rename_node l,
      vf_root_dir = (\<lambda>fs. FatDir (fat_root_dir l)), vf_mount = (\<lambda>fs p m s. (Ok (), s)), vf_umount = (\<lambda>fs s. (Ok (), s))\<rparr>"

section \<open>Properties\<close>

lemma replace_slashes_fixed: "p = replace_slashes p \<Longrightarrow> \<not> sublist [slash, slash] p"
proof (induction p rule: replace_slashes.induct)
  case (1 x y r)
  show ?case
  proof (cases "x = slash \<and> y = slash")
    case True
    then show ?thesis using 1 replace_slashes_le [of r] by (metis impossible_Cons length_Cons list.inject replace_slashes.simps(1))
  next
    case False
    then have "y # r = replace_slashes (y # r)" using 1(3) by (metis list.inject replace_slashes.simps(1))
    with 1(2) False have "\<not> sublist [slash, slash] (y # r)" by blast
    with False show ?thesis by (auto simp: sublist_Cons_right)
  qed
qed (auto simp: sublist_Cons_right)

lemma trim_matches_ends:
  assumes "trim_matches c s \<noteq> []" shows "hd (trim_matches c s) \<noteq> c" "last (trim_matches c s) \<noteq> c"
proof -
  let ?t = "dropWhile (\<lambda>x. x = c) s" and ?e = "\<lambda>l. rev (dropWhile (\<lambda>x. x = c) (rev l))"
  have tr: "trim_matches c s = ?e ?t"
    by (simp add: trim_matches_def trim_start_matches_def trim_end_matches_def)
  show "last (trim_matches c s) \<noteq> c" using assms hd_dropWhile [of "\<lambda>x. x = c" "rev ?t"] by (auto simp: tr last_rev)
  have ne: "?t \<noteq> []" using assms unfolding tr by (metis dropWhile.simps(1) rev.simps(1))
  have "prefix (?e ?t) ?t" by (metis rev_rev_ident suffix_dropWhile suffix_to_prefix)
  then have "hd (?e ?t) = hd ?t" using assms unfolding tr by (metis hd_append2 prefix_def)
  with hd_dropWhile [OF ne] show "hd (trim_matches c s) \<noteq> c" by (simp add: tr)
qed


text \<open>
  Creating a file that the ext4 library cannot open, for instance in a directory that does not exist, panics the kernel.
\<close>

lemma ext4_create_failure_panics:
  assumes "path \<noteq> []" and "\<not> ends_with ''/'' path" and "\<not> starts_with ''/'' path"
    and "fpath = path_deal_with (xn_path n) path" and "fpath \<noteq> []"
    and "\<And>t s. fst (c_inode_exist c fpath t s) \<noteq> 0" and "\<And>m s. fst (c_fopen c fpath m s) \<noteq> 0"
  shows "fst (create_file (ext4fs c) (Some (Sub n)) path st) = Panic"
proof -
  have e: "fst (x4_inode_exist c fpath t s) = False" for t s
    using assms(6) [of "inode_type_code t" s] by (auto simp: x4_inode_exist_def split: prod.splits)
  have o: "\<exists>k s'. x4_file_open c fpath m s = (Err k, s')" for m s
    using assms(7) [of "flags_to_cstring m" s] by (auto simp: x4_file_open_def rc_def split: prod.splits)
  have "fst (ext4_create c n path File s) = Panic" for s
  proof -
    obtain s1 where "x4_inode_exist c fpath EXT4_DE_REG_FILE s = (False, s1)" using e by (metis prod.collapse)
    moreover obtain k s2 where "x4_file_open c fpath 0x241 s1 = (Err k, s2)" using o by blast
    ultimately show ?thesis using assms(4,5) by (simp add: ext4_create_def Let_def)
  qed
  then obtain s' where "ext4_create c n path File (fs_sub st) = (Panic, s')" by (metis prod.collapse)
  then show ?thesis using assms(1-3)
    by (simp add: create_file_def parent_node_of_def nd_create_def sub_def ext4fs_def Let_def)
qed

text \<open>
  An error number of the ext4 library leaves the file system as a different error: \<^verbatim>\<open>ENOENT\<close> as \<^verbatim>\<open>AlreadyExists\<close>, and every number above
  22, such as \<^verbatim>\<open>ENOSPC\<close>, panics the kernel.
\<close>

lemma ext4_error_misread:
  assumes "fst (c_fopen c (xn_path n) ''rb'' s) = k" and "k \<noteq> 0"
  shows "fst (ext4_read_at c n off len s) =
    (if k = 2 then Err AlreadyExists else if 0 <s k \<and> k \<le>s 22 then Err (ax_errors ! (unat k - 1)) else Panic)"
proof -
  obtain s' where o: "x4_file_open c (xn_path n) 0 s = (Err k, s')"
    using assms by (cases "c_fopen c (xn_path n) ''rb'' s") (auto simp: x4_file_open_def rc_def flags_to_cstring_def)
  have l: "of_nat (length ax_errors) = (22 :: i32)" by (simp add: ax_errors_def)
  have two: "ax_errors ! 1 = AlreadyExists" "0 <s (2 :: i32)" "(2 :: i32) \<le>s 22"
    by (simp_all add: ax_errors_def word_sless_alt word_sle_eq)
  show ?thesis
    using two by (auto simp: ext4_read_at_def o coded_def unwrap_code_def ax_error_try_from_def l)
qed

end
