(* ===== verification/Fd_Table.thy ===== *)
theory Fd_Table
  imports Clock_Time
begin

unbundle bit_operations_syntax

text \<open>
  The file-descriptor table: \<^verbatim>\<open>FlattenObjects\<close> (\<^verbatim>\<open>vendor/flatten_objects\<close>), and over it the operations and system
  calls of \<^verbatim>\<open>arceos_posix_api/src/imp/fd_ops.rs\<close> with their wrappers in \<^verbatim>\<open>api/src/imp/fs/fd_ops.rs\<close>. The
  slots hold references to open file objects, whose type is a parameter. The slots and the bitmap of
  the source are one function: a slot is assigned exactly when it holds a value.

  The locale \<open>numbered_objects\<close> is the contract of the container that the table relies on; it is
  interpreted on \<open>fo_get\<close>, \<open>fo_add\<close>, \<open>fo_add_at\<close> and \<open>fo_remove\<close>. Lemmas: the count of the container is the number of assigned
  slots and stays at most the capacity; \<open>add\<close> takes the lowest free number; \<open>dup\<close> makes a second reference
  to the same object; closing undoes opening; the copy for a new process has the same slots.
\<close>

section \<open>Numbered objects\<close>

definition AX_FILE_LIMIT_NAT :: nat where "AX_FILE_LIMIT_NAT = 1024"

record 'f flatten_objects =
  fo_slot :: "nat \<Rightarrow> 'f option"
  fo_count :: nat

definition fo_new :: "'f flatten_objects" where
  "fo_new = \<lparr>fo_slot = (\<lambda>_. None), fo_count = 0\<rparr>"

definition fo_is_assigned :: "usize \<Rightarrow> 'f flatten_objects \<Rightarrow> bool" where
  "fo_is_assigned i t = (unat i < AX_FILE_LIMIT_NAT \<and> fo_slot t (unat i) \<noteq> None)"

definition fo_get :: "usize \<Rightarrow> 'f flatten_objects \<Rightarrow> 'f option" where
  "fo_get i t = (if fo_is_assigned i t then fo_slot t (unat i) else None)"

definition first_false_index :: "'f flatten_objects \<Rightarrow> nat option" where
  "first_false_index t = List.find (\<lambda>i. fo_slot t i = None) [0..<AX_FILE_LIMIT_NAT]"

definition fo_put :: "nat \<Rightarrow> 'f \<Rightarrow> 'f flatten_objects \<Rightarrow> 'f flatten_objects" where
  "fo_put i v t = t\<lparr>fo_slot := (fo_slot t)(i \<mapsto> v), fo_count := fo_count t + 1\<rparr>"

definition fo_add :: "'f \<Rightarrow> 'f flatten_objects \<Rightarrow> usize option \<times> 'f flatten_objects" where
  "fo_add v t =
     (case first_false_index t of
        Some i \<Rightarrow> (Some (of_nat i), fo_put i v t)
      | None \<Rightarrow> (None, t))"

definition fo_add_at :: "usize \<Rightarrow> 'f \<Rightarrow> 'f flatten_objects \<Rightarrow> usize option \<times> 'f flatten_objects" where
  "fo_add_at i v t =
     (if AX_FILE_LIMIT_NAT \<le> unat i \<or> fo_is_assigned i t then (None, t)
      else (Some i, fo_put (unat i) v t))"

definition fo_remove :: "usize \<Rightarrow> 'f flatten_objects \<Rightarrow> 'f option \<times> 'f flatten_objects" where
  "fo_remove i t =
     (if fo_is_assigned i t
      then (fo_slot t (unat i), t\<lparr>fo_slot := (fo_slot t)(unat i := None), fo_count := fo_count t - 1\<rparr>)
      else (None, t))"

definition fo_ids :: "'f flatten_objects \<Rightarrow> usize list" where
  "fo_ids t = map of_nat (filter (\<lambda>i. fo_slot t i \<noteq> None) [0..<AX_FILE_LIMIT_NAT])"

section \<open>The table of a process\<close>

type_synonym 'f fd_table = "'f flatten_objects"

text \<open>\<^verbatim>\<open>FD_TABLE::copy_inner\<close>: a new table with every object of the old one under its number.\<close>

definition copy_inner :: "'f fd_table \<Rightarrow> ('e, 'f fd_table) outcome" where
  "copy_inner t =
     fold (\<lambda>i r. obind r (\<lambda>new. case fo_get i t of Some f \<Rightarrow> Ok (snd (fo_add_at i f new)) | None \<Rightarrow> Panic))
       (fo_ids t) (Ok fo_new)"

definition get_file_like :: "i32 \<Rightarrow> 'f fd_table \<Rightarrow> (linux_error, 'f) outcome" where
  "get_file_like fd t = ok_or (fo_get (scast fd) t) EBADF"

definition add_file_like :: "'f \<Rightarrow> 'f fd_table \<Rightarrow> (linux_error, i32) outcome \<times> 'f fd_table" where
  "add_file_like f t =
     (case fo_add f t of (Some i, t) \<Rightarrow> (Ok (ucast i), t) | (None, t) \<Rightarrow> (Err EMFILE, t))"

definition close_file_like :: "i32 \<Rightarrow> 'f fd_table \<Rightarrow> (linux_error, unit) outcome \<times> 'f fd_table" where
  "close_file_like fd t =
     (case fo_remove (scast fd) t of (Some _, t) \<Rightarrow> (Ok (), t) | (None, t) \<Rightarrow> (Err EBADF, t))"

text \<open>The system calls return the error code negated, as \<^verbatim>\<open>syscall_body!\<close> does.\<close>

definition body_of :: "(linux_error, ('n::len) word) outcome \<times> 's \<Rightarrow> ('e, 'n word) outcome \<times> 's" where
  "body_of m = (syscall_body (fst m), snd m)"

definition posix_close :: "i32 \<Rightarrow> 'f fd_table \<Rightarrow> (linux_error, i32) outcome \<times> 'f fd_table" where
  "posix_close fd t =
     (if 0 \<le>s fd \<and> fd \<le>s 2 then (Ok 0, t)
      else body_of (sbind (close_file_like fd t) (\<lambda>_ t. (Ok 0, t))))"

definition dup_fd :: "i32 \<Rightarrow> 'f fd_table \<Rightarrow> (linux_error, i32) outcome \<times> 'f fd_table" where
  "dup_fd old_fd t = sbind (get_file_like old_fd t, t) (\<lambda>f t. add_file_like f t)"

definition posix_dup :: "i32 \<Rightarrow> 'f fd_table \<Rightarrow> (linux_error, i32) outcome \<times> 'f fd_table" where
  "posix_dup old_fd t = body_of (dup_fd old_fd t)"

definition F_DUPFD :: u32 where "F_DUPFD = 0"
definition F_GETFD :: u32 where "F_GETFD = 1"
definition F_SETFL :: u32 where "F_SETFL = 4"
definition F_DUPFD_CLOEXEC :: u32 where "F_DUPFD_CLOEXEC = 1030"
definition O_NONBLOCK :: usize where "O_NONBLOCK = 0x800"

text \<open>
  \<^verbatim>\<open>sys_fcntl\<close>; \<open>set_nonblocking\<close> is the operation of the file object, which succeeds without an effect for every
  file the system calls can open.
\<close>

definition posix_fcntl ::
  "('f \<Rightarrow> bool \<Rightarrow> (linux_error, unit) outcome) \<Rightarrow> i32 \<Rightarrow> i32 \<Rightarrow> usize \<Rightarrow> 'f fd_table \<Rightarrow> (linux_error, i32) outcome \<times> 'f fd_table" where
  "posix_fcntl set_nonblocking fd cmd arg t =
     body_of
       (if cmd = F_DUPFD \<or> cmd = F_DUPFD_CLOEXEC then dup_fd fd t
        else if cmd = F_SETFL then
          if fd = 0 \<or> fd = 1 \<or> fd = 2 then (Ok 0, t)
          else (obind (get_file_like fd t) (\<lambda>f. obind (set_nonblocking f (arg AND O_NONBLOCK \<noteq> 0)) (\<lambda>_. Ok 0)), t)
        else (Ok 0, t))"

definition posix_dup2 ::
  "('f \<Rightarrow> bool \<Rightarrow> (linux_error, unit) outcome) \<Rightarrow> i32 \<Rightarrow> i32 \<Rightarrow> 'f fd_table \<Rightarrow> (linux_error, i32) outcome \<times> 'f fd_table" where
  "posix_dup2 set_nonblocking old_fd new_fd t =
     body_of
       (if old_fd = new_fd then
          sbind (posix_fcntl set_nonblocking old_fd F_GETFD 0 t) (\<lambda>r t. if 0 \<le>s r then (Ok old_fd, t) else (Ok r, t))
        else if AX_FILE_LIMIT_NAT \<le> unat (scast new_fd :: usize) then (Err EBADF, t)
        else sbind (get_file_like old_fd t, t) (\<lambda>f t.
          case fo_add_at (scast new_fd) f t of
            (Some _, t) \<Rightarrow> (Ok new_fd, t)
          | (None, t) \<Rightarrow> (Err EMFILE, t)))"

text \<open>The wrappers of the kernel widen the result.\<close>

definition widen :: "(linux_error, i32) outcome \<times> 's \<Rightarrow> (linux_error, isize) outcome \<times> 's" where
  "widen m = sbind m (\<lambda>r s. (Ok (scast r), s))"

definition sys_dup :: "i32 \<Rightarrow> 'f fd_table \<Rightarrow> (linux_error, isize) outcome \<times> 'f fd_table" where
  "sys_dup old_fd t = widen (posix_dup old_fd t)"

definition sys_dup3 ::
  "('f \<Rightarrow> bool \<Rightarrow> (linux_error, unit) outcome) \<Rightarrow> i32 \<Rightarrow> i32 \<Rightarrow> 'f fd_table \<Rightarrow> (linux_error, isize) outcome \<times> 'f fd_table" where
  "sys_dup3 nb old_fd new_fd t = widen (posix_dup2 nb old_fd new_fd t)"

definition sys_close :: "i32 \<Rightarrow> 'f fd_table \<Rightarrow> (linux_error, isize) outcome \<times> 'f fd_table" where
  "sys_close fd t = widen (posix_close fd t)"

definition sys_fcntl ::
  "('f \<Rightarrow> bool \<Rightarrow> (linux_error, unit) outcome) \<Rightarrow> i32 \<Rightarrow> i32 \<Rightarrow> usize \<Rightarrow> 'f fd_table \<Rightarrow> (linux_error, isize) outcome \<times> 'f fd_table" where
  "sys_fcntl nb fd cmd arg t = widen (posix_fcntl nb fd cmd arg t)"

text \<open>\<^verbatim>\<open>init_stdio\<close>: standard input, output and error.\<close>

definition init_stdio :: "'f \<Rightarrow> 'f \<Rightarrow> 'f \<Rightarrow> ('e, 'f fd_table) outcome" where
  "init_stdio inp outp errp =
     (case fo_add_at 0 inp fo_new of
        (Some _, t) \<Rightarrow> (case fo_add_at 1 outp t of
          (Some _, t) \<Rightarrow> (case fo_add_at 2 errp t of (Some _, t) \<Rightarrow> Ok t | _ \<Rightarrow> Panic)
        | _ \<Rightarrow> Panic)
      | _ \<Rightarrow> Panic)"

section \<open>The contract of the container\<close>

definition fo_inv :: "'f flatten_objects \<Rightarrow> bool" where
  "fo_inv t \<longleftrightarrow> {i. fo_slot t i \<noteq> None} \<subseteq> {..<AX_FILE_LIMIT_NAT} \<and> fo_count t = card {i. fo_slot t i \<noteq> None}"

locale numbered_objects =
  fixes get :: "usize \<Rightarrow> 't \<Rightarrow> 'f option"
    and add :: "'f \<Rightarrow> 't \<Rightarrow> usize option \<times> 't"
    and add_at :: "usize \<Rightarrow> 'f \<Rightarrow> 't \<Rightarrow> usize option \<times> 't"
    and remove :: "usize \<Rightarrow> 't \<Rightarrow> 'f option \<times> 't"
    and inv :: "'t \<Rightarrow> bool" and cap :: nat
  assumes get_bound: "inv t \<Longrightarrow> get i t = Some f \<Longrightarrow> unat i < cap"
    and add_Some: "inv t \<Longrightarrow> add f t = (Some i, t') \<Longrightarrow>
      inv t' \<and> get i t = None \<and> unat i < cap \<and> (\<forall>j. get j t' = (if j = i then Some f else get j t)) \<and> (\<forall>j < i. get j t \<noteq> None)"
    and add_None: "inv t \<Longrightarrow> add f t = (None, t') \<Longrightarrow> t' = t \<and> (\<forall>j. unat j < cap \<longrightarrow> get j t \<noteq> None)"
    and add_at_Some: "inv t \<Longrightarrow> add_at i f t = (Some k, t') \<Longrightarrow>
      inv t' \<and> k = i \<and> get i t = None \<and> (\<forall>j. get j t' = (if j = i then Some f else get j t))"
    and add_at_None: "inv t \<Longrightarrow> add_at i f t = (None, t') \<Longrightarrow> t' = t \<and> (cap \<le> unat i \<or> get i t \<noteq> None)"
    and remove_spec: "inv t \<Longrightarrow> remove i t = (r, t') \<Longrightarrow>
      inv t' \<and> r = get i t \<and> (\<forall>j. get j t' = (if j = i then None else get j t))"
begin

lemma add_get: "inv t \<Longrightarrow> add f t = (Some i, t') \<Longrightarrow> get i t' = Some f"
  using add_Some by simp

lemma add_keeps: "inv t \<Longrightarrow> add f t = (Some i, t') \<Longrightarrow> get j t = Some g \<Longrightarrow> get j t' = Some g"
  using add_Some by (metis option.distinct(1))

lemma add_remove:
  assumes "inv t" and "add f t = (Some i, t1)" and "remove i t1 = (r, t2)"
  shows "r = Some f \<and> (\<forall>j. get j t2 = get j t)"
  using add_Some [OF assms(1,2)] remove_spec [OF _ assms(3)] by auto

end

lemma small_nat_usize [simp]: "n < 1024 \<Longrightarrow> unat (of_nat n :: usize) = n"
  by (simp add: unat_of_nat take_bit_eq_mod)

lemma fo_get_eq: "fo_get i t = (if unat i < AX_FILE_LIMIT_NAT then fo_slot t (unat i) else None)"
  by (simp add: fo_get_def fo_is_assigned_def)

lemma fo_slots_finite: "fo_inv t \<Longrightarrow> finite {i. fo_slot t i \<noteq> None}"
  unfolding fo_inv_def by (metis finite_lessThan finite_subset)

lemma fo_inv_put:
  assumes "fo_inv t" and "i < AX_FILE_LIMIT_NAT" and "fo_slot t i = None" shows "fo_inv (fo_put i f t)"
proof -
  have "{j. fo_slot (fo_put i f t) j \<noteq> None} = insert i {j. fo_slot t j \<noteq> None}" by (auto simp: fo_put_def)
  with assms fo_slots_finite [OF assms(1)] show ?thesis unfolding fo_inv_def by (simp add: fo_put_def)
qed

lemma fo_inv_remove:
  assumes "fo_inv t" and "fo_remove i t = (r, t')" shows "fo_inv t'"
proof (cases "fo_is_assigned i t")
  case True
  then have t': "t' = t\<lparr>fo_slot := (fo_slot t)(unat i := None), fo_count := fo_count t - 1\<rparr>"
    and m: "unat i \<in> {j. fo_slot t j \<noteq> None}"
    using assms(2) by (auto simp: fo_remove_def fo_is_assigned_def)
  have "{j. fo_slot t' j \<noteq> None} = {j. fo_slot t j \<noteq> None} - {unat i}" by (auto simp: t')
  with assms(1) m fo_slots_finite [OF assms(1)] show ?thesis unfolding fo_inv_def by (auto simp: t')
next
  case False
  with assms show ?thesis by (simp add: fo_remove_def)
qed

lemma first_false_index_Some:
  assumes "first_false_index t = Some i"
  shows "i < AX_FILE_LIMIT_NAT" "fo_slot t i = None" "\<And>j. j < i \<Longrightarrow> fo_slot t j \<noteq> None"
  using assms by (auto simp: first_false_index_def find_Some_iff)

lemma first_false_index_None: "first_false_index t = None \<Longrightarrow> i < AX_FILE_LIMIT_NAT \<Longrightarrow> fo_slot t i \<noteq> None"
  by (auto simp: first_false_index_def find_None_iff)

lemma fo_get_put:
  "unat i < AX_FILE_LIMIT_NAT \<Longrightarrow> fo_get j (fo_put (unat i) f t) = (if j = i then Some f else fo_get j t)"
  by (auto simp: fo_get_eq fo_put_def word_unat_eq_iff)

lemma fo_add_Some:
  assumes "fo_inv t" and "fo_add f t = (Some i, t')"
  shows "fo_inv t' \<and> fo_get i t = None \<and> unat i < AX_FILE_LIMIT_NAT
    \<and> (\<forall>j. fo_get j t' = (if j = i then Some f else fo_get j t)) \<and> (\<forall>j < i. fo_get j t \<noteq> None)"
proof -
  obtain n where n: "first_false_index t = Some n" "i = of_nat n" "t' = fo_put n f t"
    using assms(2) by (auto simp: fo_add_def split: option.splits)
  note f = first_false_index_Some [OF n(1)]
  have u: "unat i = n" using f(1) n(2) by (simp add: AX_FILE_LIMIT_NAT_def)
  have "fo_get j t \<noteq> None" if "j < i" for j
    using that u f(1,3) by (auto simp: fo_get_eq word_less_nat_alt)
  moreover have "fo_get i t = None" using f(2) u by (simp add: fo_get_eq)
  moreover have "fo_get j t' = (if j = i then Some f else fo_get j t)" for j
    using fo_get_put [of i j f t] f(1) u n(3) by simp
  ultimately show ?thesis using f(1) u n(3) fo_inv_put [OF assms(1) f(1,2)] by simp
qed

interpretation fo: numbered_objects fo_get fo_add fo_add_at fo_remove fo_inv AX_FILE_LIMIT_NAT
proof unfold_locales
  show "unat i < AX_FILE_LIMIT_NAT" if "fo_inv t" "fo_get i t = Some f" for t :: "'a flatten_objects" and i f
    using that by (auto simp: fo_get_eq split: if_splits)
  show "t' = t \<and> (\<forall>j. unat j < AX_FILE_LIMIT_NAT \<longrightarrow> fo_get j t \<noteq> None)" if "fo_inv t" "fo_add f t = (None, t')"
    for t t' :: "'a flatten_objects" and f
    using that first_false_index_None [of t] by (auto simp: fo_add_def fo_get_eq split: option.splits)
  show "fo_inv t' \<and> k = i \<and> fo_get i t = None \<and> (\<forall>j. fo_get j t' = (if j = i then Some f else fo_get j t))"
    if h: "fo_inv t" "fo_add_at i f t = (Some k, t')" for t t' :: "'a flatten_objects" and i k f
  proof -
    have a: "k = i" "unat i < AX_FILE_LIMIT_NAT" "fo_slot t (unat i) = None" "t' = fo_put (unat i) f t"
      using h(2) by (auto simp: fo_add_at_def fo_is_assigned_def split: if_splits)
    have "fo_get j t' = (if j = i then Some f else fo_get j t)" for j unfolding a(4) by (rule fo_get_put [OF a(2)])
    with a fo_inv_put [OF h(1) a(2,3)] show ?thesis by (simp add: fo_get_eq [of i t])
  qed
  show "t' = t \<and> (AX_FILE_LIMIT_NAT \<le> unat i \<or> fo_get i t \<noteq> None)" if "fo_inv t" "fo_add_at i f t = (None, t')"
    for t t' :: "'a flatten_objects" and i f
    using that by (auto simp: fo_add_at_def fo_get_eq fo_is_assigned_def split: if_splits)
  show "fo_inv t' \<and> r = fo_get i t \<and> (\<forall>j. fo_get j t' = (if j = i then None else fo_get j t))"
    if h: "fo_inv t" "fo_remove i t = (r, t')" for t t' :: "'a flatten_objects" and i r
    using h(2) fo_inv_remove [OF h]
    by (auto simp: fo_remove_def fo_get_eq fo_is_assigned_def word_unat_eq_iff split: if_splits)
qed (rule fo_add_Some, assumption+)

section \<open>Properties\<close>

lemma scast_fd: "unat (i :: usize) < AX_FILE_LIMIT_NAT \<Longrightarrow> (scast (ucast i :: i32) :: usize) = i"
  by (simp add: scast_i32_usize unat_ucast ucast_usize_small AX_FILE_LIMIT_NAT_def)

lemma fd_not_std: "unat (i :: usize) < AX_FILE_LIMIT_NAT \<Longrightarrow> 2 < i \<Longrightarrow> \<not> (ucast i :: i32) \<le>s 2"
  by (subst sle_i32) (simp_all add: unat_ucast AX_FILE_LIMIT_NAT_def word_le_nat_alt word_less_nat_alt)

lemma posix_dup_cases:
  assumes inv: "fo_inv t" and f: "fo_get (scast fd) t = Some f" and d: "posix_dup fd t = (r, t')"
  obtains i where "r = Ok (ucast i)" "fo_add f t = (Some i, t')"
  | "r = Ok (neg_code EMFILE)" "t' = t" "\<And>j. unat j < AX_FILE_LIMIT_NAT \<Longrightarrow> fo_get j t \<noteq> None"
proof (cases "fo_add f t")
  case (Pair x t1)
  have e: "posix_dup fd t = body_of (case x of Some i \<Rightarrow> (Ok (ucast i), t1) | None \<Rightarrow> (Err EMFILE, t1))"
    using f Pair by (simp add: posix_dup_def dup_fd_def get_file_like_def add_file_like_def split: option.splits)
  show ?thesis
  proof (cases x)
    case None
    then show ?thesis using that(2) fo.add_None [OF inv] Pair e d by (simp add: body_of_def syscall_body_def)
  next
    case (Some i)
    then show ?thesis using that(1) Pair e d by (simp add: body_of_def syscall_body_def)
  qed
qed

text \<open>
  C32. Duplicating an open descriptor gives the lowest free number, which then names the same object, and
  leaves every other number alone; when all numbers are in use the call fails with EMFILE and nothing
  changes. Closing the new number gives back exactly the table before.
\<close>

theorem dup_close_roundtrip:
  assumes "fo_inv t" and "fo_get (scast fd) t = Some f" and "posix_dup fd t = (r, t')"
    and "fo_get 0 t \<noteq> None" "fo_get 1 t \<noteq> None" "fo_get 2 t \<noteq> None"
  shows "(\<exists>i. r = Ok (ucast i) \<and> fo_get i t = None \<and> (\<forall>j < i. fo_get j t \<noteq> None)
       \<and> (\<forall>j. fo_get j t' = (if j = i then Some f else fo_get j t)) \<and> posix_close (ucast i) t' = (Ok 0, t))
    \<or> (r = Ok (neg_code EMFILE) \<and> t' = t \<and> (\<forall>j. unat j < AX_FILE_LIMIT_NAT \<longrightarrow> fo_get j t \<noteq> None))"
  using assms(1-3)
proof (cases rule: posix_dup_cases)
  case (1 i)
  note a = fo.add_Some [OF assms(1) 1(2)]
  have "i \<noteq> 0" "i \<noteq> 1" "i \<noteq> 2" using a assms(4-6) by auto
  then have "unat i \<noteq> 0" "unat i \<noteq> 1" "unat i \<noteq> 2" by (auto simp: word_unat_eq_iff)
  then have "2 < i" by (simp add: word_less_nat_alt)
  have l: "unat i < AX_FILE_LIMIT_NAT" using a by blast
  note s = fd_not_std [OF l \<open>2 < i\<close>] scast_fd [OF l]
  obtain n where n: "first_false_index t = Some n" "i = of_nat n" "t' = fo_put n f t"
    using 1(2) by (auto simp: fo_add_def split: option.splits)
  have u: "unat i = n" "fo_slot t n = None" "n < AX_FILE_LIMIT_NAT"
    using first_false_index_Some [OF n(1)] n(2) by (simp_all add: AX_FILE_LIMIT_NAT_def)
  have "fo_remove i t' = (Some f, t)"
    using u n(3) by (simp add: fo_remove_def fo_is_assigned_def fo_put_def fun_upd_idem)
  then have "posix_close (ucast i) t' = (Ok 0, t)"
    using s by (simp add: posix_close_def close_file_like_def body_of_def syscall_body_def)
  with 1(1) a show ?thesis by blast
qed blast

lemma first_false_indexI:
  "i < AX_FILE_LIMIT_NAT \<Longrightarrow> fo_slot t i = None \<Longrightarrow> \<forall>j < i. fo_slot t j \<noteq> None \<Longrightarrow> first_false_index t = Some i"
  by (auto simp: first_false_index_def find_Some_iff)

text \<open>A table with the three standard streams and one more file.\<close>

definition demo_fds :: "nat fd_table" where
  "demo_fds = \<lparr>fo_slot = (\<lambda>_. None)(0 \<mapsto> 10, 1 \<mapsto> 11, 2 \<mapsto> 12, 3 \<mapsto> 13), fo_count = 4\<rparr>"

lemma demo_fds_inv: "fo_inv demo_fds"
proof -
  have "{i. fo_slot demo_fds i \<noteq> None} = {0, 1, 2, 3}" by (auto simp: demo_fds_def)
  then show ?thesis unfolding fo_inv_def by (simp add: demo_fds_def AX_FILE_LIMIT_NAT_def)
qed

theorem dup_close_roundtrip_witness:
  "snd (posix_close 4 (snd (posix_dup 3 demo_fds))) = demo_fds"
proof -
  have "first_false_index demo_fds = Some 4"
    by (rule first_false_indexI) (auto simp: demo_fds_def AX_FILE_LIMIT_NAT_def less_Suc_eq numeral_eq_Suc)
  then have d: "posix_dup 3 demo_fds = (Ok 4, fo_put 4 13 demo_fds)"
    by (simp add: posix_dup_def dup_fd_def get_file_like_def fo_get_eq add_file_like_def fo_add_def
        demo_fds_def AX_FILE_LIMIT_NAT_def body_of_def syscall_body_def)
  have g: "fo_get (scast (3 :: i32)) demo_fds = Some 13" "fo_get 0 demo_fds \<noteq> None" "fo_get 1 demo_fds \<noteq> None"
    "fo_get 2 demo_fds \<noteq> None" "fo_get 5 demo_fds = None"
    by (simp_all add: fo_get_eq demo_fds_def AX_FILE_LIMIT_NAT_def)
  have "\<not> (\<forall>j. unat j < AX_FILE_LIMIT_NAT \<longrightarrow> fo_get j demo_fds \<noteq> None)"
    using g(5) by (auto intro!: exI [of _ 5] simp: AX_FILE_LIMIT_NAT_def)
  with dup_close_roundtrip [OF demo_fds_inv g(1) d g(2-4)] obtain i :: usize where
    "(4 :: i32) = ucast i" "posix_close (ucast i) (fo_put 4 13 demo_fds) = (Ok 0, demo_fds)" by auto
  with d show ?thesis by simp
qed

lemma copy_inner_fold:
  assumes "n \<le> AX_FILE_LIMIT_NAT"
  shows "fold (\<lambda>i r. obind r (\<lambda>new. case fo_get i t of Some f \<Rightarrow> Ok (snd (fo_add_at i f new)) | None \<Rightarrow> Panic))
      (map of_nat (filter (\<lambda>i. fo_slot t i \<noteq> None) [0..<n])) (Ok fo_new)
    = Ok \<lparr>fo_slot = (\<lambda>i. if i < n then fo_slot t i else None), fo_count = card {i. i < n \<and> fo_slot t i \<noteq> None}\<rparr>"
  using assms
proof (induction n)
  case 0
  then show ?case by (simp add: fo_new_def)
next
  case (Suc n)
  show ?case
  proof (cases "fo_slot t n")
    case None
    then have e: "{i. i < Suc n \<and> fo_slot t i \<noteq> None} = {i. i < n \<and> fo_slot t i \<noteq> None}"
      "(\<lambda>i. if i < Suc n then fo_slot t i else None) = (\<lambda>i. if i < n then fo_slot t i else None)"
      by (auto simp: less_Suc_eq fun_eq_iff)
    show ?thesis using Suc None by (simp add: e del: not_None_eq)
  next
    case (Some f)
    have e: "{i. i < Suc n \<and> fo_slot t i \<noteq> None} = insert n {i. i < n \<and> fo_slot t i \<noteq> None}"
      "(\<lambda>i. if i < Suc n then fo_slot t i else None) = (\<lambda>i. if i < n then fo_slot t i else None)(n \<mapsto> f)"
      using Some by (auto simp: less_Suc_eq fun_eq_iff)
    have u: "unat (of_nat n :: usize) = n" "n < AX_FILE_LIMIT_NAT" using Suc.prems by (simp_all add: AX_FILE_LIMIT_NAT_def)
    show ?thesis using Suc Some u by (simp add: e fo_get_eq fo_add_at_def fo_is_assigned_def fo_put_def del: not_None_eq)
  qed
qed

text \<open>
  The table that a new process gets by \<^verbatim>\<open>copy_inner\<close> is the table of its parent, slot by slot and with
  the same count.
\<close>

lemma copy_inner_same:
  assumes "fo_inv t"
  shows "copy_inner t = Ok t"
proof -
  have n: "fo_slot t i = None" if "\<not> i < AX_FILE_LIMIT_NAT" for i using assms that unfolding fo_inv_def by blast
  have e: "(\<lambda>i. if i < AX_FILE_LIMIT_NAT then fo_slot t i else None) = fo_slot t"
    "{i. i < AX_FILE_LIMIT_NAT \<and> fo_slot t i \<noteq> None} = {i. fo_slot t i \<noteq> None}"
    using n by (force simp: fun_eq_iff)+
  have "\<lparr>fo_slot = fo_slot t, fo_count = card {i. fo_slot t i \<noteq> None}\<rparr> = t"
    using assms by (cases t) (simp add: fo_inv_def)
  with copy_inner_fold [of AX_FILE_LIMIT_NAT t] show ?thesis unfolding copy_inner_def fo_ids_def e by simp
qed

text \<open>
  \<^verbatim>\<open>dup2\<close> (and \<^verbatim>\<open>dup3\<close>, which calls it) does not replace an open target: it fails with EMFILE and changes
  nothing; and with two equal numbers it succeeds even when the descriptor is not open.
\<close>

lemma dup2_never_replaces:
  assumes "fo_get (scast old_fd) t = Some f" and "fo_get (scast new_fd) t = Some g" and "old_fd \<noteq> new_fd"
  shows "posix_dup2 nb old_fd new_fd t = (Ok (neg_code EMFILE), t) \<and> posix_dup2 nb fd fd t' = (Ok fd, t')"
proof -
  have "unat (scast new_fd :: usize) < AX_FILE_LIMIT_NAT" "fo_is_assigned (scast new_fd) t"
    using assms(2) by (auto simp: fo_get_def fo_is_assigned_def split: if_splits)
  then have "posix_dup2 nb old_fd new_fd t = (Ok (neg_code EMFILE), t)"
    using assms(1,3) by (simp add: posix_dup2_def get_file_like_def fo_add_at_def body_of_def syscall_body_def)
  then show ?thesis
    by (simp add: posix_dup2_def posix_fcntl_def F_GETFD_def F_DUPFD_def F_DUPFD_CLOEXEC_def F_SETFL_def body_of_def
        syscall_body_def)
qed

end
