(* ===== verification/Pipe_Buffer.thy ===== *)
theory Pipe_Buffer
  imports Fd_Table
begin

text \<open>
  Pipes (\<^verbatim>\<open>arceos_posix_api/src/imp/pipe.rs\<close>): the ring buffer of 256 bytes, the two ends, and \<^verbatim>\<open>sys_pipe\<close>. The
  loops of \<^verbatim>\<open>read\<close> and \<^verbatim>\<open>write\<close> are modelled one round at a time, because another task runs whenever a round
  yields; the lock of the buffer is held for one round. Positions of the buffer are below 256 and are natural numbers.

  The locale \<open>byte_fifo\<close> is the contract of a bounded byte queue, interpreted on the ring buffer. Lemmas: the ring buffer refines a queue;
  the bytes that come out of a pipe are the bytes that went in, in order and each once; a write that fits
  with room to spare returns at once; a write that fills the buffer exactly does not return before someone reads.
\<close>

section \<open>The ring buffer\<close>

datatype ring_status = Full | Empty | Normal

definition RING_BUFFER_SIZE :: nat where "RING_BUFFER_SIZE = 256"

record pipe_ring_buffer =
  rb_arr :: "u8 list"
  rb_head :: nat
  rb_tail :: nat
  rb_status :: ring_status

definition ring_new :: pipe_ring_buffer where
  "ring_new = \<lparr>rb_arr = replicate RING_BUFFER_SIZE 0, rb_head = 0, rb_tail = 0, rb_status = Empty\<rparr>"

definition write_byte :: "u8 \<Rightarrow> pipe_ring_buffer \<Rightarrow> pipe_ring_buffer" where
  "write_byte b r =
     (let tail = (rb_tail r + 1) mod RING_BUFFER_SIZE in
      r\<lparr>rb_arr := (rb_arr r)[rb_tail r := b], rb_tail := tail, rb_status := if tail = rb_head r then Full else Normal\<rparr>)"

definition read_byte :: "pipe_ring_buffer \<Rightarrow> u8 \<times> pipe_ring_buffer" where
  "read_byte r =
     (let head = (rb_head r + 1) mod RING_BUFFER_SIZE in
      (rb_arr r ! rb_head r, r\<lparr>rb_head := head, rb_status := if head = rb_tail r then Empty else Normal\<rparr>))"

definition available_read :: "pipe_ring_buffer \<Rightarrow> nat" where
  "available_read r =
     (if rb_status r = Empty then 0
      else if rb_head r < rb_tail r then rb_tail r - rb_head r
      else rb_tail r + RING_BUFFER_SIZE - rb_head r)"

definition available_write :: "pipe_ring_buffer \<Rightarrow> nat" where
  "available_write r = (if rb_status r = Full then 0 else RING_BUFFER_SIZE - available_read r)"

section \<open>The two ends\<close>

text \<open>The \<^verbatim>\<open>for\<close> loops over the bytes.\<close>

fun read_bytes :: "nat \<Rightarrow> pipe_ring_buffer \<Rightarrow> u8 list \<times> pipe_ring_buffer" where
  "read_bytes 0 r = ([], r)"
| "read_bytes (Suc n) r =
     (case read_byte r of (b, r) \<Rightarrow> case read_bytes n r of (bs, r) \<Rightarrow> (b # bs, r))"

text \<open>
  One round of the loop of \<^verbatim>\<open>read\<close> into a buffer of \<open>len\<close> bytes: \<open>None\<close> when the round yields.
  \<open>write_end_close\<close> is whether the other end is gone.
\<close>

definition pipe_read ::
  "bool \<Rightarrow> bool \<Rightarrow> nat \<Rightarrow> pipe_ring_buffer \<Rightarrow> (linux_error, u8 list option) outcome \<times> pipe_ring_buffer" where
  "pipe_read readable write_end_close len r =
     (if \<not> readable then (Err EPERM, r)
      else if available_read r = 0 then
        if write_end_close then (Ok (Some []), r) else (Ok None, r)
      else case read_bytes (min len (available_read r)) r of (bs, r) \<Rightarrow> (Ok (Some bs), r))"

text \<open>One round of the loop of \<^verbatim>\<open>write\<close>, with the number of bytes written before it.\<close>

datatype write_round = Done nat | Again nat | Yields nat

fun write_for :: "u8 list \<Rightarrow> nat \<Rightarrow> nat \<Rightarrow> pipe_ring_buffer \<Rightarrow> write_round \<times> pipe_ring_buffer" where
  "write_for buf 0 write_size r = (Again write_size, r)"
| "write_for buf (Suc n) write_size r =
     (if write_size = length buf then (Done write_size, r)
      else write_for buf n (write_size + 1) (write_byte (buf ! write_size) r))"

definition pipe_write ::
  "bool \<Rightarrow> u8 list \<Rightarrow> nat \<Rightarrow> pipe_ring_buffer \<Rightarrow> (linux_error, write_round) outcome \<times> pipe_ring_buffer" where
  "pipe_write writable buf write_size r =
     (if \<not> writable then (Err EPERM, r)
      else let loop_write = available_write r in
        if loop_write = 0 then (Ok (Yields write_size), r)
        else case write_for buf loop_write write_size r of (w, r) \<Rightarrow> (Ok w, r))"

definition pipe_poll :: "bool \<Rightarrow> pipe_ring_buffer \<Rightarrow> bool \<times> bool" where
  "pipe_poll readable r = (readable \<and> 0 < available_read r, \<not> readable \<and> 0 < available_write r)"

text \<open>\<^verbatim>\<open>sys_pipe\<close>: the two numbers are stored in \<open>fds\<close>; \<open>rd\<close> and \<open>wr\<close> are the new ends.\<close>

definition posix_pipe ::
  "'f \<Rightarrow> 'f \<Rightarrow> i32 list \<Rightarrow> 'f fd_table \<Rightarrow> (linux_error, i32) outcome \<times> (i32 list \<times> 'f fd_table)" where
  "posix_pipe rd wr fds t =
     (if length fds \<noteq> 2 then (syscall_body (Err EFAULT), (fds, t))
      else case add_file_like rd t of
        (Ok read_fd, t) \<Rightarrow>
          (case add_file_like wr t of
             (Ok write_fd, t) \<Rightarrow> (syscall_body (Ok 0), ([read_fd, write_fd], t))
           | (Err e, t) \<Rightarrow> (syscall_body (Err e), (fds, snd (close_file_like read_fd t)))
           | (Panic, t) \<Rightarrow> (Panic, (fds, t)))
      | (Err e, t) \<Rightarrow> (syscall_body (Err e), (fds, t))
      | (Panic, t) \<Rightarrow> (Panic, (fds, t)))"

section \<open>The contract of a bounded byte queue\<close>

locale byte_fifo =
  fixes put :: "u8 \<Rightarrow> 'r \<Rightarrow> 'r" and get :: "'r \<Rightarrow> u8 \<times> 'r"
    and used :: "'r \<Rightarrow> nat" and room :: "'r \<Rightarrow> nat" and inv :: "'r \<Rightarrow> bool" and content :: "'r \<Rightarrow> u8 list" and cap :: nat
  assumes used_content: "inv r \<Longrightarrow> used r = length (content r)"
    and room_content: "inv r \<Longrightarrow> room r + length (content r) = cap"
    and put_content: "inv r \<Longrightarrow> 0 < room r \<Longrightarrow> inv (put b r) \<and> content (put b r) = content r @ [b]"
    and get_content: "inv r \<Longrightarrow> content r = c # cs \<Longrightarrow> fst (get r) = c \<and> inv (snd (get r)) \<and> content (snd (get r)) = cs"
begin

lemma fold_put:
  "inv r \<Longrightarrow> length bs \<le> room r \<Longrightarrow> inv (fold put bs r) \<and> content (fold put bs r) = content r @ bs"
proof (induction bs arbitrary: r)
  case Nil
  then show ?case by simp
next
  case (Cons b bs)
  have p: "inv (put b r)" "content (put b r) = content r @ [b]" using put_content [of r b] Cons.prems by auto
  have "room (put b r) + 1 = room r" using room_content [OF p(1)] room_content [OF Cons.prems(1)] p(2) by simp
  with Cons.IH [OF p(1)] Cons.prems(2) p(2) show ?case by simp
qed

end

definition ring_content :: "pipe_ring_buffer \<Rightarrow> u8 list" where
  "ring_content r = map (\<lambda>i. rb_arr r ! ((rb_head r + i) mod RING_BUFFER_SIZE)) [0..<available_read r]"

definition ring_inv :: "pipe_ring_buffer \<Rightarrow> bool" where
  "ring_inv r \<longleftrightarrow> length (rb_arr r) = RING_BUFFER_SIZE \<and> rb_head r < RING_BUFFER_SIZE \<and> rb_tail r < RING_BUFFER_SIZE
     \<and> (rb_status r = Normal \<longleftrightarrow> rb_head r \<noteq> rb_tail r)"

section \<open>The ring buffer is a byte queue\<close>

lemma ring_used: "ring_inv r \<Longrightarrow> available_read r \<le> 256"
  by (auto simp: ring_inv_def available_read_def RING_BUFFER_SIZE_def)

lemma ring_room:
  assumes "ring_inv r" shows "available_write r + available_read r = 256"
  using assms ring_used [OF assms]
  by (cases "rb_status r") (auto simp: ring_inv_def available_write_def available_read_def RING_BUFFER_SIZE_def)

lemma ring_tail:
  assumes "ring_inv r" "0 < available_write r"
  shows "(rb_head r + available_read r) mod 256 = rb_tail r"
  using assms by (cases "rb_status r") (auto simp: ring_inv_def available_write_def available_read_def RING_BUFFER_SIZE_def)

lemma mod_256_inj: "h < 256 \<Longrightarrow> i < 256 \<Longrightarrow> j < 256 \<Longrightarrow> (h + i) mod 256 = (h + j) mod 256 \<Longrightarrow> i = (j :: nat)"
  by (simp add: mod_if split: if_splits)

lemma write_byte_used:
  assumes "ring_inv r" "0 < available_write r"
  shows "ring_inv (write_byte b r)" "available_read (write_byte b r) = Suc (available_read r)"
  using assms
  by (cases "rb_status r"; auto simp: ring_inv_def write_byte_def available_write_def available_read_def
      RING_BUFFER_SIZE_def Let_def mod_if split: if_splits)+

lemma read_byte_used:
  assumes "ring_inv r" "0 < available_read r"
  shows "ring_inv (snd (read_byte r))" "Suc (available_read (snd (read_byte r))) = available_read r"
  using assms
  by (cases "rb_status r"; auto simp: ring_inv_def read_byte_def available_read_def
      RING_BUFFER_SIZE_def Let_def mod_if split: if_splits)+

lemma write_byte_content:
  assumes inv: "ring_inv r" and w: "0 < available_write r"
  shows "ring_content (write_byte b r) = ring_content r @ [b]"
proof -
  note u = write_byte_used [OF inv w, of b]
  have lim: "available_read r < 256" using ring_room [OF inv] w by simp
  have l: "length (rb_arr r) = 256" "rb_head r < 256" "rb_tail r < 256"
    using inv by (simp_all add: ring_inv_def RING_BUFFER_SIZE_def)
  have a: "rb_arr (write_byte b r) = (rb_arr r)[rb_tail r := b]" "rb_head (write_byte b r) = rb_head r"
    by (simp_all add: write_byte_def Let_def)
  have "(rb_head r + i) mod 256 \<noteq> rb_tail r" if "i < available_read r" for i
    using mod_256_inj [OF l(2), of i "available_read r"] that lim ring_tail [OF inv w] by auto
  then have "map (\<lambda>i. (rb_arr r)[rb_tail r := b] ! ((rb_head r + i) mod 256)) [0..<available_read r]
      = map (\<lambda>i. rb_arr r ! ((rb_head r + i) mod 256)) [0..<available_read r]"
    by (intro map_cong [OF refl] nth_list_update_neq) (metis atLeastLessThan_iff set_upt)
  then show ?thesis
    using l ring_tail [OF inv w] by (simp add: ring_content_def u(2) a RING_BUFFER_SIZE_def)
qed

lemma read_byte_content:
  assumes inv: "ring_inv r" and c: "ring_content r = c # cs"
  shows "fst (read_byte r) = c" "ring_content (snd (read_byte r)) = cs"
proof -
  have pos: "0 < available_read r" using c by (cases "available_read r") (auto simp: ring_content_def)
  note u = read_byte_used [OF inv pos]
  define n where "n = available_read (snd (read_byte r))"
  have n: "available_read r = Suc n" using u(2) by (simp add: n_def)
  have h: "rb_head r < 256" using inv by (simp add: ring_inv_def RING_BUFFER_SIZE_def)
  have a: "rb_arr (snd (read_byte r)) = rb_arr r" "rb_head (snd (read_byte r)) = (rb_head r + 1) mod 256"
    by (simp_all add: read_byte_def Let_def RING_BUFFER_SIZE_def)
  have "[0..<Suc n] = 0 # map Suc [0..<n]" by (simp add: map_Suc_upt upt_conv_Cons)
  then have "ring_content r = rb_arr r ! rb_head r # map (\<lambda>i. rb_arr r ! ((rb_head r + Suc i) mod 256)) [0..<n]"
    using h by (simp add: ring_content_def n RING_BUFFER_SIZE_def)
  moreover have "ring_content (snd (read_byte r)) = map (\<lambda>i. rb_arr r ! ((rb_head r + Suc i) mod 256)) [0..<n]"
    by (simp add: ring_content_def a n_def [symmetric] RING_BUFFER_SIZE_def mod_simps)
  ultimately show "fst (read_byte r) = c" "ring_content (snd (read_byte r)) = cs"
    using c by (simp_all add: read_byte_def Let_def)
qed

interpretation ring: byte_fifo write_byte read_byte available_read available_write ring_inv ring_content RING_BUFFER_SIZE
proof unfold_locales
  show "available_read r = length (ring_content r)" for r by (simp add: ring_content_def)
  show "available_write r + length (ring_content r) = RING_BUFFER_SIZE" if "ring_inv r" for r
    using ring_room [OF that] by (simp add: ring_content_def RING_BUFFER_SIZE_def)
  show "ring_inv (write_byte b r) \<and> ring_content (write_byte b r) = ring_content r @ [b]"
    if "ring_inv r" "0 < available_write r" for r b
    using write_byte_used [OF that] write_byte_content [OF that] by simp
  show "fst (read_byte r) = c \<and> ring_inv (snd (read_byte r)) \<and> ring_content (snd (read_byte r)) = cs"
    if h: "ring_inv r" "ring_content r = c # cs" for r c cs
  proof -
    have "0 < available_read r" using h(2) by (cases "available_read r") (auto simp: ring_content_def)
    then show ?thesis using read_byte_content [OF h] read_byte_used [OF h(1)] by simp
  qed
qed

lemma read_bytes_spec:
  "ring_inv r \<Longrightarrow> n \<le> length (ring_content r) \<Longrightarrow>
   \<exists>r'. read_bytes n r = (take n (ring_content r), r') \<and> ring_inv r' \<and> ring_content r' = drop n (ring_content r)"
proof (induction n arbitrary: r)
  case 0
  then show ?case by simp
next
  case (Suc n)
  then obtain c cs where c: "ring_content r = c # cs" by (cases "ring_content r") auto
  note g = ring.get_content [OF Suc.prems(1) c]
  obtain b r1 where b: "read_byte r = (b, r1)" by fastforce
  with g have "b = c" "ring_inv r1" "ring_content r1 = cs" by auto
  with Suc.IH [of r1] Suc.prems(2) c b show ?case by auto
qed

lemma write_for_spec:
  assumes "ring_inv r" and "n = available_write r" and "ws \<le> length buf"
  shows "\<exists>r'. write_for buf n ws r = (if length buf - ws < n then Done (length buf) else Again (ws + n), r')
    \<and> ring_inv r' \<and> ring_content r' = ring_content r @ take n (drop ws buf)"
  using assms
proof (induction n arbitrary: ws r)
  case 0
  then show ?case by simp
next
  case (Suc n)
  show ?case
  proof (cases "ws = length buf")
    case True
    with Suc.prems(1) show ?thesis by simp
  next
    case False
    let ?r = "write_byte (buf ! ws) r"
    have p: "ring_inv ?r" "ring_content ?r = ring_content r @ [buf ! ws]"
      using ring.put_content [of r "buf ! ws"] Suc.prems by auto
    have "n = available_write ?r"
      using ring.room_content [OF p(1)] ring.room_content [OF Suc.prems(1)] Suc.prems(2) p(2) by simp
    moreover have "drop ws buf = buf ! ws # drop (Suc ws) buf"
      using False Suc.prems(3) by (simp add: Cons_nth_drop_Suc)
    ultimately show ?thesis using Suc.IH [OF p(1), of "ws + 1"] False Suc.prems(3) p(2) by (auto simp: less_diff_conv)
  qed
qed

section \<open>Properties\<close>

fun progress :: "write_round \<Rightarrow> nat" where
  "progress (Done n) = n" | "progress (Again n) = n" | "progress (Yields n) = n"

text \<open>
  A run of a pipe: rounds of writers and readers in any order, with the bytes sent and received so far.
\<close>

inductive pipe_step :: "pipe_ring_buffer \<times> u8 list \<times> u8 list \<Rightarrow> pipe_ring_buffer \<times> u8 list \<times> u8 list \<Rightarrow> bool" where
  step_write: "ws \<le> length buf \<Longrightarrow> pipe_write True buf ws r = (Ok w, r')
    \<Longrightarrow> pipe_step (r, sent, got) (r', sent @ take (progress w - ws) (drop ws buf), got)"
| step_read: "pipe_read True closed len r = (Ok (Some bs), r') \<Longrightarrow> pipe_step (r, sent, got) (r', sent, got @ bs)"

lemma ring_new_inv: "ring_inv ring_new" "ring_content ring_new = []"
  by (simp_all add: ring_inv_def ring_new_def ring_content_def available_read_def RING_BUFFER_SIZE_def)

lemma pipe_write_spec:
  assumes inv: "ring_inv r" and ws: "ws \<le> length buf" and w: "pipe_write True buf ws r = (Ok w, r')"
  shows "ring_inv r'" "ring_content r' = ring_content r @ take (progress w - ws) (drop ws buf)"
proof -
  obtain r1 where f: "write_for buf (available_write r) ws r
      = (if length buf - ws < available_write r then Done (length buf) else Again (ws + available_write r), r1)"
    "ring_inv r1" "ring_content r1 = ring_content r @ take (available_write r) (drop ws buf)"
    using write_for_spec [OF inv refl ws] by blast
  show "ring_inv r'" "ring_content r' = ring_content r @ take (progress w - ws) (drop ws buf)"
    using w f inv ws by (auto simp: pipe_write_def Let_def split: if_splits)
qed

lemma pipe_read_spec:
  assumes inv: "ring_inv r" and r: "pipe_read True closed len r = (Ok (Some bs), r')"
  shows "ring_inv r'" "ring_content r = bs @ ring_content r'"
proof -
  obtain r1 where f: "read_bytes (min len (available_read r)) r = (take (min len (available_read r)) (ring_content r), r1)"
    "ring_inv r1" "ring_content r1 = drop (min len (available_read r)) (ring_content r)"
    using read_bytes_spec [OF inv, of "min len (available_read r)"] ring.used_content [OF inv] by auto
  show "ring_inv r'" "ring_content r = bs @ ring_content r'"
    using r f inv ring.used_content [OF inv] by (auto simp: pipe_read_def split: if_splits)
qed

text \<open>
  C8. A pipe is a bounded FIFO channel: after any sequence of rounds of readers and writers the bytes
  sent are the bytes received followed by the content of the buffer, and at most 256 bytes are buffered.
\<close>

theorem pipe_is_fifo:
  assumes "pipe_step\<^sup>*\<^sup>* (ring_new, [], []) (r, sent, got)"
  shows "sent = got @ ring_content r \<and> length (ring_content r) \<le> 256"
proof -
  have "ring_inv (fst x) \<and> fst (snd x) = snd (snd x) @ ring_content (fst x)"
    if "pipe_step\<^sup>*\<^sup>* (ring_new, [], []) x" for x
    using that
  proof (induction rule: rtranclp_induct)
    case base
    then show ?case by (simp add: ring_new_inv)
  next
    case (step y z)
    from step(2,3) show ?case
      by (cases rule: pipe_step.cases) (auto dest: pipe_write_spec pipe_read_spec)
  qed
  from this [OF assms] have i: "ring_inv r" "sent = got @ ring_content r" by simp_all
  then show ?thesis using ring.room_content [OF i(1)] by (simp add: RING_BUFFER_SIZE_def)
qed

theorem pipe_is_fifo_witness:
  "[1, 2, 3] = [1, 2] @ ring_content (snd (pipe_read True False 2 (snd (pipe_write True [1, 2, 3] 0 ring_new))))"
proof -
  let ?r1 = "snd (pipe_write True [1, 2, 3] 0 ring_new)"
  have e: "available_write ring_new = 256"
    by (simp add: available_write_def available_read_def ring_new_def RING_BUFFER_SIZE_def)
  have w: "pipe_write True [1, 2, 3] 0 ring_new = (Ok (Done 3), ?r1)"
    using write_for_spec [OF ring_new_inv(1) refl, of 0 "[1, 2, 3]"] by (auto simp: pipe_write_def e Let_def)
  have c: "ring_inv ?r1" "ring_content ?r1 = [1, 2, 3]"
    using pipe_write_spec [OF ring_new_inv(1) _ w] by (simp_all add: ring_new_inv)
  have "available_read ?r1 = 3" using ring.used_content [OF c(1)] c(2) by simp
  then have r: "pipe_read True False 2 ?r1 = (Ok (Some [1, 2]), snd (pipe_read True False 2 ?r1))"
    using read_bytes_spec [OF c(1), of 2] c(2) by (auto simp: pipe_read_def)
  have "pipe_step (ring_new, [], []) (?r1, [1, 2, 3], [])"
    using step_write [OF _ w, of "[]" "[]"] by simp
  moreover have "pipe_step (?r1, [1, 2, 3], []) (snd (pipe_read True False 2 ?r1), [1, 2, 3], [1, 2])"
    using step_read [OF r, of "[1, 2, 3]" "[]"] by simp
  ultimately have "pipe_step\<^sup>*\<^sup>* (ring_new, [], []) (snd (pipe_read True False 2 ?r1), [1, 2, 3], [1, 2])"
    by (meson converse_rtranclp_into_rtranclp rtranclp.rtrancl_refl)
  from pipe_is_fifo [OF this] show ?thesis by simp
qed

text \<open>
  C39. A write that leaves room in the buffer returns in one round. A write that fills the buffer exactly
  stores all its bytes but does not return: its next round yields, and so does every later one until
  someone reads.
\<close>

theorem pipe_write_exact_fill_blocks:
  assumes "ring_inv r" and "0 < available_write r"
  shows "(length buf < available_write r \<longrightarrow> (\<exists>r'. pipe_write True buf 0 r = (Ok (Done (length buf)), r')
        \<and> ring_content r' = ring_content r @ buf))
    \<and> (length buf = available_write r \<longrightarrow> (\<exists>r'. pipe_write True buf 0 r = (Ok (Again (length buf)), r')
        \<and> ring_content r' = ring_content r @ buf \<and> pipe_write True buf (length buf) r' = (Ok (Yields (length buf)), r')))"
proof -
  obtain r1 where f: "write_for buf (available_write r) 0 r
      = (if length buf < available_write r then Done (length buf) else Again (available_write r), r1)"
    "ring_inv r1" "ring_content r1 = ring_content r @ take (available_write r) buf"
    using write_for_spec [OF assms(1) refl, of 0 buf] by auto
  have "available_write r1 = 0" if "length buf = available_write r"
    using ring.room_content [OF f(2)] ring.room_content [OF assms(1)] f(3) that by simp
  then show ?thesis using f assms(2) by (auto simp: pipe_write_def Let_def)
qed

theorem pipe_write_exact_fill_blocks_witness:
  "\<exists>r'. pipe_write True (replicate 256 7) 0 ring_new = (Ok (Again 256), r')
     \<and> pipe_write True (replicate 256 7) 256 r' = (Ok (Yields 256), r')"
proof -
  have e: "available_write ring_new = 256"
    by (simp add: available_write_def available_read_def ring_new_def RING_BUFFER_SIZE_def)
  then show ?thesis using pipe_write_exact_fill_blocks [OF ring_new_inv(1), of "replicate 256 7"] by auto
qed

text \<open>
  C33. \<^verbatim>\<open>sys_pipe\<close> is all or nothing: it puts both ends under two new numbers, or it fails with EMFILE and the
  table is as before.
\<close>

theorem pipe_all_or_nothing:
  assumes "fo_inv t" and "length fds = 2" and "posix_pipe rd wr fds t = (res, (fds', t'))"
  shows "(\<exists>i j. res = Ok 0 \<and> fds' = [ucast i, ucast j] \<and> i \<noteq> j \<and> fo_get i t = None \<and> fo_get j t = None
       \<and> (\<forall>k. fo_get k t' = (if k = i then Some rd else if k = j then Some wr else fo_get k t)))
    \<or> (res = Ok (neg_code EMFILE) \<and> fds' = fds \<and> (\<forall>k. fo_get k t' = fo_get k t))"
proof (cases "fo_add rd t")
  case (Pair x t1)
  show ?thesis
  proof (cases x)
    case None
    then have "t1 = t" using fo.add_None [OF assms(1), of rd t1] Pair by simp
    with None Pair assms(2,3) have "res = Ok (neg_code EMFILE) \<and> fds' = fds \<and> t' = t"
      by (simp add: posix_pipe_def add_file_like_def syscall_body_def)
    then show ?thesis by simp
  next
    case (Some i)
    note a = fo.add_Some [OF assms(1) Pair [unfolded Some]]
    have it: "fo_inv t1" and li: "unat i < AX_FILE_LIMIT_NAT" and gi: "fo_get i t = None"
      and g1: "\<And>k. fo_get k t1 = (if k = i then Some rd else fo_get k t)" using a by auto
    obtain y t2 where y: "fo_add wr t1 = (y, t2)" by fastforce
    show ?thesis
    proof (cases y)
      case None
      have t2: "t2 = t1" using fo.add_None [OF it y [unfolded None]] by simp
      have "(scast (ucast i :: i32) :: usize) = i" by (rule scast_fd [OF li])
      moreover obtain v t3 where v: "fo_remove i t1 = (v, t3)" by fastforce
      moreover have "v = Some rd \<and> (\<forall>k. fo_get k t3 = fo_get k t)"
        using fo.add_remove [OF assms(1) Pair [unfolded Some] v] .
      ultimately have "res = Ok (neg_code EMFILE) \<and> fds' = fds \<and> t' = t3 \<and> (\<forall>k. fo_get k t3 = fo_get k t)"
        using assms(2,3) Pair Some y None t2
        by (simp add: posix_pipe_def add_file_like_def close_file_like_def syscall_body_def)
      then show ?thesis by simp
    next
      case (Some j)
      have gj: "fo_get j t1 = None" and g2: "\<And>k. fo_get k t2 = (if k = j then Some wr else fo_get k t1)"
        using fo.add_Some [OF it y [unfolded Some]] by auto
      have ij: "i \<noteq> j" and nj: "fo_get j t = None" using gj g1 [of j] by (auto split: if_splits)
      have "res = Ok 0 \<and> fds' = [ucast i, ucast j] \<and> t' = t2"
        using assms(2,3) Pair \<open>x = Some i\<close> y Some by (auto simp: posix_pipe_def add_file_like_def syscall_body_def)
      moreover have "fo_get k t2 = (if k = i then Some rd else if k = j then Some wr else fo_get k t)" for k
        using g1 g2 ij by simp
      ultimately show ?thesis using ij nj gi by blast
    qed
  qed
qed

theorem pipe_all_or_nothing_witness:
  "fo_get 3 (snd (snd (posix_pipe 20 21 [0, 0] demo_fds))) = Some 13"
proof -
  obtain res fds' t' where p: "posix_pipe 20 21 [0, 0] demo_fds = (res, (fds', t'))" by (metis prod.exhaust)
  have "fo_get 3 demo_fds = Some 13" by (simp add: fo_get_eq demo_fds_def AX_FILE_LIMIT_NAT_def)
  with pipe_all_or_nothing [OF demo_fds_inv _ p] p show ?thesis by force
qed

end
