(* ===== verification/File_Objects.thy ===== *)
theory File_Objects
  imports Pipe_Buffer Ram_Fs
begin

unbundle bit_operations_syntax

text \<open>
  The objects behind file descriptors and the POSIX layer over them: the console and the standard streams
  (\<^verbatim>\<open>arceos_posix_api/src/imp/stdio.rs\<close>, \<^verbatim>\<open>axhal/src/platform/x86_pc/uart16550.rs\<close>), files and directories (\<^verbatim>\<open>imp/fs.rs\<close>), reading and writing by
  descriptor (\<^verbatim>\<open>imp/io.rs\<close>), and hard links and path arguments (\<^verbatim>\<open>imp/path_link.rs\<close>).

  Objects are numbered. The descriptor table of the running process holds numbers; \<open>fx_held\<close> are the objects that other tables and blocked system calls
  refer to, so an object is gone when neither mentions it. A call that may wait is modelled one round at a time, and its result is
  \<open>None\<close> when the round yields. Buffers are byte lists here; the system-call layer moves them to and from user memory.

  Lemmas: the reference counts of hard links count the links.
\<close>

section \<open>The console\<close>

text \<open>\<open>cn_avail\<close> are the bytes the serial port has received, \<open>cn_buf\<close> the bytes left in the buffered reader, \<open>cn_out\<close> what was sent.\<close>

record console =
  cn_avail :: "u8 list"
  cn_buf :: "u8 list"
  cn_out :: "u8 list"

definition con_putchar :: "u8 \<Rightarrow> console \<Rightarrow> console" where
  "con_putchar ch c = c\<lparr>cn_out := cn_out c @ (if ch = 10 then [13, 10] else [ch])\<rparr>"

definition con_write_bytes :: "u8 list \<Rightarrow> console \<Rightarrow> console" where
  "con_write_bytes bs c = fold con_putchar bs c"

definition con_getchar :: "console \<Rightarrow> u8 option \<times> console" where
  "con_getchar c = (case cn_avail c of [] \<Rightarrow> (None, c) | b # bs \<Rightarrow> (Some b, c\<lparr>cn_avail := bs\<rparr>))"

fun con_read_bytes :: "nat \<Rightarrow> console \<Rightarrow> u8 list \<times> console" where
  "con_read_bytes 0 c = ([], c)"
| "con_read_bytes (Suc n) c =
     (case con_getchar c of
        (None, c) \<Rightarrow> ([], c)
      | (Some b, c) \<Rightarrow> (case con_read_bytes n c of (bs, c) \<Rightarrow> (b # bs, c)))"

definition console_read_bytes :: "nat \<Rightarrow> console \<Rightarrow> u8 list \<times> console" where
  "console_read_bytes n c = (case con_read_bytes n c of (bs, c) \<Rightarrow> (map (\<lambda>b. if b = 13 then 10 else b) bs, c))"

definition console_write_bytes :: "u8 list \<Rightarrow> console \<Rightarrow> nat \<times> console" where
  "console_write_bytes bs c = (length bs, con_write_bytes bs c)"

function stdin_raw_read :: "nat \<Rightarrow> console \<Rightarrow> u8 list \<times> console" where
  "stdin_raw_read len c =
     (if len = 0 then ([], c)
      else case console_read_bytes len c of
        ([], c) \<Rightarrow> ([], c)
      | (b # bs, c) \<Rightarrow> (case stdin_raw_read (len - length (b # bs)) c of (r, c) \<Rightarrow> (b # bs @ r, c)))"
  by pat_completeness auto
termination by (relation "measure fst") auto

declare stdin_raw_read.simps [simp del]

definition DEFAULT_BUF_SIZE :: nat where "DEFAULT_BUF_SIZE = 1024"

text \<open>\<^verbatim>\<open>BufReader::read\<close>.\<close>

definition buf_reader_read :: "nat \<Rightarrow> console \<Rightarrow> u8 list \<times> console" where
  "buf_reader_read len c =
     (if cn_buf c = [] \<and> DEFAULT_BUF_SIZE \<le> len then stdin_raw_read len c
      else
        let c = (if cn_buf c = [] then (case stdin_raw_read DEFAULT_BUF_SIZE c of (bs, c) \<Rightarrow> c\<lparr>cn_buf := bs\<rparr>) else c)
        in (take len (cn_buf c), c\<lparr>cn_buf := drop len (cn_buf c)\<rparr>))"

text \<open>A round of \<^verbatim>\<open>read_blocked\<close>; the first round reads once more before the loop.\<close>

definition read_blocked :: "bool \<Rightarrow> nat \<Rightarrow> console \<Rightarrow> u8 list option \<times> console" where
  "read_blocked first len c =
     (let again = (\<lambda>c. case buf_reader_read len c of ([], c) \<Rightarrow> (None, c) | (bs, c) \<Rightarrow> (Some bs, c)) in
      if first then
        (case buf_reader_read len c of (bs, c) \<Rightarrow> if len = 0 \<or> bs \<noteq> [] then (Some bs, c) else again c)
      else again c)"

section \<open>Objects\<close>

datatype 'n file_obj =
    Stdin | Stdout
  | PipeEnd bool nat nat  \<comment> \<open>readable, ring buffer, the other end\<close>
  | FileObj "'n open_file" string
  | DirObj "'n directory" string

record mounted_fs =
  mf_device :: string
  mf_mnt_dir :: string

record ('n, 's) files =
  fx_fs :: "('n, 's) fsys"
  fx_objs :: "nat \<Rightarrow> 'n file_obj"
  fx_next :: nat
  fx_rings :: "nat \<Rightarrow> pipe_ring_buffer"
  fx_next_ring :: nat
  fx_table :: "nat fd_table"
  fx_held :: "nat list"
  fx_console :: console
  fx_links :: "(string, string) btree_map"
  fx_ref_counts :: "(string, usize) btree_map"
  fx_mounted :: "mounted_fs list"

type_synonym ('n, 's, 'a) file_call = "('n, 's) files \<Rightarrow> (linux_error, 'a) outcome \<times> ('n, 's) files"

definition on_fs :: "('n, 's, 'a) fs_op \<Rightarrow> ('n, 's, 'a) file_call" where
  "on_fs f fx = (case f (fx_fs fx) of (r, st) \<Rightarrow> (map_err linux_of_ax r, fx\<lparr>fx_fs := st\<rparr>))"

definition on_table ::
  "(nat fd_table \<Rightarrow> (linux_error, 'a) outcome \<times> nat fd_table) \<Rightarrow> ('n, 's, 'a) file_call" where
  "on_table f fx = (case f (fx_table fx) of (r, t) \<Rightarrow> (r, fx\<lparr>fx_table := t\<rparr>))"

definition obj_alive :: "nat \<Rightarrow> ('n, 's) files \<Rightarrow> bool" where
  "obj_alive o' fx = (o' \<in> set (fx_held fx) \<or> list_ex (\<lambda>i. fo_get i (fx_table fx) = Some o') (fo_ids (fx_table fx)))"

definition get_obj :: "i32 \<Rightarrow> ('n, 's, nat) file_call" where
  "get_obj fd fx = (get_file_like fd (fx_table fx), fx)"

definition add_obj :: "'n file_obj \<Rightarrow> ('n, 's, i32) file_call" where
  "add_obj x fx =
     (case add_file_like (fx_next fx) (fx_table fx) of
        (r, t) \<Rightarrow> (r, fx\<lparr>fx_objs := (fx_objs fx)(fx_next fx := x), fx_next := fx_next fx + 1, fx_table := t\<rparr>))"

definition file_from_fd :: "i32 \<Rightarrow> ('n, 's, nat \<times> 'n open_file \<times> string) file_call" where
  "file_from_fd fd fx =
     sbind (get_obj fd fx) (\<lambda>o' fx. case fx_objs fx o' of FileObj f p \<Rightarrow> (Ok (o', f, p), fx) | _ \<Rightarrow> (Err EINVAL, fx))"

definition directory_from_fd :: "i32 \<Rightarrow> ('n, 's, nat \<times> 'n directory \<times> string) file_call" where
  "directory_from_fd fd fx =
     sbind (get_obj fd fx) (\<lambda>o' fx. case fx_objs fx o' of DirObj d p \<Rightarrow> (Ok (o', d, p), fx) | _ \<Rightarrow> (Err EINVAL, fx))"

definition set_obj :: "nat \<Rightarrow> 'n file_obj \<Rightarrow> ('n, 's) files \<Rightarrow> ('n, 's) files" where
  "set_obj o' x fx = fx\<lparr>fx_objs := (fx_objs fx)(o' := x)\<rparr>"

section \<open>The operations of an object\<close>

definition obj_read :: "('n, 's) vfs \<Rightarrow> bool \<Rightarrow> nat \<Rightarrow> nat \<Rightarrow> ('n, 's, u8 list option) file_call" where
  "obj_read v first o' len fx =
     (case fx_objs fx o' of
        Stdin \<Rightarrow> (case read_blocked first len (fx_console fx) of (r, c) \<Rightarrow> (Ok r, fx\<lparr>fx_console := c\<rparr>))
      | Stdout \<Rightarrow> (Err EPERM, fx)
      | PipeEnd readable ring other \<Rightarrow>
          (case pipe_read readable (\<not> obj_alive other fx) len (fx_rings fx ring) of
             (r, b) \<Rightarrow> (r, fx\<lparr>fx_rings := (fx_rings fx)(ring := b)\<rparr>))
      | FileObj f p \<Rightarrow> sbind (on_fs (file_read v len f) fx) (\<lambda>(bs, f) fx. (Ok (Some bs), set_obj o' (FileObj f p) fx))
      | DirObj d p \<Rightarrow> (Err EBADF, fx))"

text \<open>The part of the buffer that a round of writing reads: its start and length.\<close>

definition obj_source :: "nat \<Rightarrow> nat \<Rightarrow> nat \<Rightarrow> ('n, 's) files \<Rightarrow> nat \<times> nat" where
  "obj_source o' count written fx =
     (case fx_objs fx o' of
        Stdout \<Rightarrow> (0, count)
      | PipeEnd readable ring other \<Rightarrow>
          if readable then (0, 0) else (written, min (count - written) (available_write (fx_rings fx ring)))
      | FileObj f p \<Rightarrow> if cap_contains (fl_cap f) CAP_WRITE then (0, count) else (0, 0)
      | _ \<Rightarrow> (0, 0))"

definition obj_write :: "('n, 's) vfs \<Rightarrow> nat \<Rightarrow> u8 list \<Rightarrow> nat \<Rightarrow> ('n, 's, write_round) file_call" where
  "obj_write v o' buf written fx =
     (case fx_objs fx o' of
        Stdin \<Rightarrow> (Err EPERM, fx)
      | Stdout \<Rightarrow> (case console_write_bytes buf (fx_console fx) of (n, c) \<Rightarrow> (Ok (Done n), fx\<lparr>fx_console := c\<rparr>))
      | PipeEnd readable ring other \<Rightarrow>
          (case pipe_write (\<not> readable) buf written (fx_rings fx ring) of
             (r, b) \<Rightarrow> (r, fx\<lparr>fx_rings := (fx_rings fx)(ring := b)\<rparr>))
      | FileObj f p \<Rightarrow>
          sbind (on_fs (file_write v buf f) fx) (\<lambda>(n, f) fx. (Ok (Done (unat n)), set_obj o' (FileObj f p) fx))
      | DirObj d p \<Rightarrow> (Err EBADF, fx))"

record stat =
  st_dev :: u64
  st_ino :: u64
  st_mode :: u32
  st_nlink :: u32
  st_uid :: u32
  st_gid :: u32
  st_rdev :: u64
  st_size :: i64
  st_blksize :: i64
  st_blocks :: i64
  st_atime :: timespec
  st_mtime :: timespec
  st_ctime :: timespec

definition stat_default :: stat where
  "stat_default = (let z = \<lparr>ts_sec = 0, ts_nsec = 0\<rparr> in
     \<lparr>st_dev = 0, st_ino = 0, st_mode = 0, st_nlink = 0, st_uid = 0, st_gid = 0, st_rdev = 0, st_size = 0, st_blksize = 0,
      st_blocks = 0, st_atime = z, st_mtime = z, st_ctime = z\<rparr>)"

definition file_stat :: "('n, 's) vfs \<Rightarrow> 'n open_file \<Rightarrow> ('n, 's, stat) file_call" where
  "file_stat v f fx =
     sbind (on_fs (file_get_attr v f) fx) (\<lambda>m fx.
       (Ok (stat_default\<lparr>st_ino := 1, st_nlink := 1,
              st_mode := push_bit 12 (ucast (node_type_code (at_ty m))) OR ucast (at_mode m),
              st_uid := 1000, st_gid := 1000, st_size := at_size m, st_blocks := at_blocks m, st_blksize := 512\<rparr>), fx))"

definition obj_stat :: "('n, 's) vfs \<Rightarrow> nat \<Rightarrow> ('n, 's, stat) file_call" where
  "obj_stat v o' fx =
     (case fx_objs fx o' of
        Stdin \<Rightarrow> (Ok (stat_default\<lparr>st_ino := 1, st_nlink := 1, st_mode := 0x2000 OR 0x120\<rparr>), fx)
      | Stdout \<Rightarrow> (Ok (stat_default\<lparr>st_ino := 1, st_nlink := 1, st_mode := 0x2000 OR 0x90\<rparr>), fx)
      | PipeEnd _ _ _ \<Rightarrow>
          (Ok (stat_default\<lparr>st_ino := 1, st_nlink := 1, st_mode := 0x1000 OR 0x180, st_uid := 1000, st_gid := 1000, st_blksize := 4096\<rparr>), fx)
      | FileObj f p \<Rightarrow> file_stat v f fx
      | DirObj _ _ \<Rightarrow> (Err EBADF, fx))"

definition obj_poll :: "nat \<Rightarrow> ('n, 's) files \<Rightarrow> bool \<times> bool" where
  "obj_poll o' fx =
     (case fx_objs fx o' of
        PipeEnd readable ring _ \<Rightarrow> pipe_poll readable (fx_rings fx ring)
      | DirObj _ _ \<Rightarrow> (True, False)
      | _ \<Rightarrow> (True, True))"

section \<open>Opening files\<close>

definition AT_FDCWD :: i32 where "AT_FDCWD = - 100"

definition O_WRONLY :: u32 where "O_WRONLY = 1"
definition O_CREAT :: u32 where "O_CREAT = 0x40"
definition O_TRUNC :: u32 where "O_TRUNC = 0x200"
definition O_APPEND :: u32 where "O_APPEND = 0x400"
definition O_DIRECTORY :: u32 where "O_DIRECTORY = 0x10000"
definition O_EXEC :: u32 where "O_EXEC = 0x200000"

lemmas o_flag_defs = O_WRONLY_def O_CREAT_def O_TRUNC_def O_APPEND_def O_DIRECTORY_def O_EXEC_def

definition flags_to_options :: "i32 \<Rightarrow> open_options" where
  "flags_to_options flags =
     (let o0 = open_options_new;
          o1 = (if flags AND 3 = 0 then o0\<lparr>oo_read := True\<rparr>
                else if flags AND 3 = O_WRONLY then o0\<lparr>oo_write := True\<rparr>
                else o0\<lparr>oo_read := True, oo_write := True\<rparr>);
          o2 = (if flags AND O_APPEND \<noteq> 0 then o1\<lparr>oo_append := True\<rparr> else o1);
          o3 = (if flags AND O_TRUNC \<noteq> 0 then o2\<lparr>oo_truncate := True\<rparr> else o2);
          o4 = (if flags AND O_CREAT \<noteq> 0 then o3\<lparr>oo_create := True\<rparr> else o3);
          o5 = (if flags AND O_EXEC \<noteq> 0 then o4\<lparr>oo_execute := True\<rparr> else o4);
          o6 = (if flags AND O_DIRECTORY \<noteq> 0 then o5\<lparr>oo_directory := True\<rparr> else o5)
      in o6)"

text \<open>A file is tried first; when it is a directory, or a directory is asked for, the directory is opened.\<close>

definition add_file_or_directory_fd ::
  "(string \<Rightarrow> open_options \<Rightarrow> ('n, 's, 'n open_file) fs_op) \<Rightarrow> (string \<Rightarrow> open_options \<Rightarrow> ('n, 's, 'n directory) fs_op)
   \<Rightarrow> string \<Rightarrow> open_options \<Rightarrow> ('n, 's, i32) file_call" where
  "add_file_or_directory_fd open_f open_d filename options fx =
     (let try_dir = (\<lambda>fx. sbind (on_fs (open_d filename options) fx) (\<lambda>d fx. add_obj (DirObj d filename) fx)) in
      if \<not> oo_directory options then
        (case sbind (on_fs (open_f filename options) fx) (\<lambda>f fx. add_obj (FileObj f filename) fx) of
           (Err EISDIR, fx) \<Rightarrow> try_dir fx
         | r \<Rightarrow> r)
      else try_dir fx)"

definition posix_open :: "('n, 's) vfs \<Rightarrow> (linux_error, string) outcome \<Rightarrow> i32 \<Rightarrow> ('n, 's, i32) file_call" where
  "posix_open v filename flags fx =
     body_of (sbind (filename, fx) (\<lambda>filename fx.
       add_file_or_directory_fd (file_open v) (dir_open_dir v) filename (flags_to_options flags) fx))"

text \<open>The name was read from user memory; \<open>Err\<close> when it is no UTF-8. All errors of the relative form are reported as \<^verbatim>\<open>-1\<close>.\<close>

definition posix_openat :: "('n, 's) vfs \<Rightarrow> i32 \<Rightarrow> (linux_error, string) outcome \<Rightarrow> i32 \<Rightarrow> ('n, 's, i32) file_call" where
  "posix_openat v dirfd filename flags fx =
     (case filename of
        Ok name \<Rightarrow>
          if starts_with ''/'' name \<or> dirfd = AT_FDCWD then posix_open v (Ok name) flags fx
          else
            (case sbind (directory_from_fd dirfd fx) (\<lambda>(o', dir, p) fx.
                add_file_or_directory_fd (\<lambda>name opts. dir_open_file_at v name opts dir)
                  (\<lambda>name opts. dir_open_dir_at v name opts dir) name (flags_to_options flags) fx) of
               (Ok fd, fx) \<Rightarrow> (Ok fd, fx)
             | (Err e, fx) \<Rightarrow> (Ok (- 1), fx)
             | (Panic, fx) \<Rightarrow> (Panic, fx))
      | Err _ \<Rightarrow> (Ok (- 1), fx)
      | Panic \<Rightarrow> (Panic, fx))"

definition posix_lseek :: "('n, 's) vfs \<Rightarrow> i32 \<Rightarrow> i64 \<Rightarrow> i32 \<Rightarrow> ('n, 's, i64) file_call" where
  "posix_lseek v fd offset whence fx =
     body_of
       (sbind (if whence = 0 then (Ok (Start offset), fx) else if whence = 1 then (Ok (Current offset), fx)
               else if whence = 2 then (Ok (End offset), fx) else (Err EINVAL, fx)) (\<lambda>pos fx.
        sbind (file_from_fd fd fx) (\<lambda>(o', f, p) fx.
        sbind (on_fs (file_seek v pos f) fx) (\<lambda>(off, f) fx. (Ok off, set_obj o' (FileObj f p) fx)))))"

text \<open>The calls that fill a structure return it, to be stored through the pointer \<open>buf\<close>.\<close>

definition posix_stat :: "('n, 's) vfs \<Rightarrow> (linux_error, string) outcome \<Rightarrow> usize \<Rightarrow> ('n, 's) files
    \<Rightarrow> (linux_error, i32) outcome \<times> stat option \<times> ('n, 's) files" where
  "posix_stat v p buf fx =
     (case (if buf = 0 then (Err EFAULT, fx)
            else sbind (p, fx) (\<lambda>p fx.
              sbind (on_fs (file_open v p (open_options_new\<lparr>oo_read := True\<rparr>)) fx) (\<lambda>f fx. file_stat v f fx))) of
        (Ok st, fx) \<Rightarrow> (Ok 0, Some st, fx)
      | (Err e, fx) \<Rightarrow> (syscall_body (Err e), None, fx)
      | (Panic, fx) \<Rightarrow> (Panic, None, fx))"

definition posix_fstat :: "('n, 's) vfs \<Rightarrow> i32 \<Rightarrow> usize \<Rightarrow> ('n, 's) files
    \<Rightarrow> (linux_error, i32) outcome \<times> stat option \<times> ('n, 's) files" where
  "posix_fstat v fd buf fx =
     (case (if buf = 0 then (Err EFAULT, fx) else sbind (get_obj fd fx) (\<lambda>o' fx. obj_stat v o' fx)) of
        (Ok st, fx) \<Rightarrow> (Ok 0, Some st, fx)
      | (Err e, fx) \<Rightarrow> (syscall_body (Err e), None, fx)
      | (Panic, fx) \<Rightarrow> (Panic, None, fx))"

definition posix_lstat :: "usize \<Rightarrow> (linux_error, isize) outcome \<times> stat option" where
  "posix_lstat buf = (if buf = 0 then (syscall_body (Err EFAULT), None) else (Ok 0, Some stat_default))"

text \<open>\<^verbatim>\<open>sys_getcwd\<close>: the returned pointer and the bytes stored at the buffer.\<close>

definition bytes_of_string :: "string \<Rightarrow> u8 list" where
  "bytes_of_string s = map (\<lambda>c. of_nat (of_char c)) s"

definition posix_getcwd :: "usize \<Rightarrow> usize \<Rightarrow> ('n, 's) files \<Rightarrow> (linux_error, usize) outcome \<times> u8 list" where
  "posix_getcwd buf sz fx =
     (if buf = 0 then (Ok 0, [])
      else case map_err linux_of_ax (fst (current_dir (fx_fs fx))) of
        Ok cwd \<Rightarrow>
          if length cwd < unat sz then (Ok buf, bytes_of_string cwd @ [0]) else (syscall_body (Err ERANGE), [])
      | Err e \<Rightarrow> (syscall_body (Err e), [])
      | Panic \<Rightarrow> (Panic, []))"

definition posix_rename ::
  "('n, 's) vfs \<Rightarrow> (linux_error, string) outcome \<Rightarrow> (linux_error, string) outcome \<Rightarrow> ('n, 's, i32) file_call" where
  "posix_rename v old new fx =
     body_of (sbind (old, fx) (\<lambda>old fx. sbind (new, fx) (\<lambda>new fx.
       sbind (on_fs (rename v old new) fx) (\<lambda>_ fx. (Ok 0, fx)))))"

section \<open>Reading and writing\<close>

text \<open>The result and the bytes stored at the buffer, or \<open>None\<close> when the round yields.\<close>

definition posix_read :: "('n, 's) vfs \<Rightarrow> i32 \<Rightarrow> usize \<Rightarrow> usize \<Rightarrow> ('n, 's, (isize \<times> u8 list) option) file_call" where
  "posix_read v fd buf count fx =
     (case (if buf = 0 then (Err EFAULT, fx) else sbind (get_obj fd fx) (\<lambda>o' fx. obj_read v True o' (unat count) fx)) of
        (Ok (Some bs), fx) \<Rightarrow> (Ok (Some (of_nat (length bs), bs)), fx)
      | (Ok None, fx) \<Rightarrow> (Ok None, fx)
      | (Err e, fx) \<Rightarrow> (Ok (Some (neg_code e, [])), fx)
      | (Panic, fx) \<Rightarrow> (Panic, fx))"

text \<open>\<^verbatim>\<open>sys_pipe\<close> with the new ring buffer and its two ends.\<close>

definition new_pipe :: "('n, 's) files \<Rightarrow> nat \<times> nat \<times> ('n, 's) files" where
  "new_pipe fx =
     (let rd = fx_next fx; wr = fx_next fx + 1; ring = fx_next_ring fx in
      (rd, wr, fx\<lparr>fx_objs := (fx_objs fx)(rd := PipeEnd True ring wr, wr := PipeEnd False ring rd), fx_next := fx_next fx + 2,
         fx_rings := (fx_rings fx)(ring := ring_new), fx_next_ring := ring + 1\<rparr>))"

definition posix_pipe_fx :: "i32 list \<Rightarrow> ('n, 's) files \<Rightarrow> (linux_error, i32) outcome \<times> i32 list \<times> ('n, 's) files" where
  "posix_pipe_fx fds fx =
     (case new_pipe fx of (rd, wr, fx) \<Rightarrow>
        case posix_pipe rd wr fds (fx_table fx) of (r, fds, t) \<Rightarrow> (r, fds, fx\<lparr>fx_table := t\<rparr>))"

section \<open>Paths and hard links\<close>

text \<open>\<^verbatim>\<open>str::trim\<close> removes white space at both ends: the encodings of the characters with the property White_Space.\<close>

definition white_space :: "string list" where
  "white_space =
     map (map char_of)
       ([[9], [10], [11], [12], [13], [32], [0xc2, 0x85], [0xc2, 0xa0], [0xe1, 0x9a, 0x80], [0xe2, 0x80, 0xa8], [0xe2, 0x80, 0xa9],
         [0xe2, 0x80, 0xaf], [0xe2, 0x81, 0x9f], [0xe3, 0x80, 0x80]] @ map (\<lambda>i. [0xe2, 0x80, 0x80 + i]) [0..<11] :: nat list list)"

lemma white_space_ne: "w \<in> set white_space \<Longrightarrow> w \<noteq> []"
  by (auto simp: white_space_def)

function trim_start_ws :: "string \<Rightarrow> string" where
  "trim_start_ws s = (case List.find (\<lambda>w. starts_with w s) white_space of Some w \<Rightarrow> trim_start_ws (drop (length w) s) | None \<Rightarrow> s)"
  by pat_completeness auto
termination
proof (relation "measure length", goal_cases)
  case (2 s w)
  then have "w \<noteq> []" "prefix w s" using white_space_ne by (auto dest: find_SomeD simp: starts_with_prefix)
  then show ?case by (cases s) (auto simp: prefix_def)
qed simp

function trim_end_ws :: "string \<Rightarrow> string" where
  "trim_end_ws s = (case List.find (\<lambda>w. ends_with w s) white_space of Some w \<Rightarrow> trim_end_ws (take (length s - length w) s) | None \<Rightarrow> s)"
  by pat_completeness auto
termination
proof (relation "measure length", goal_cases)
  case (2 s w)
  then have "w \<noteq> []" "length w \<le> length s" using white_space_ne by (auto dest: find_SomeD simp: ends_with_def)
  then show ?case by (cases w) auto
qed simp

declare trim_start_ws.simps [simp del] trim_end_ws.simps [simp del]

definition trim_ws :: "string \<Rightarrow> string" where
  "trim_ws s = trim_end_ws (trim_start_ws s)"

definition real_path :: "string \<Rightarrow> ('n, 's) files \<Rightarrow> string" where
  "real_path path fx = (case bt_get path (fx_links fx) of Some r \<Rightarrow> r | None \<Rightarrow> path)"

definition file_path_new :: "string \<Rightarrow> ('n, 's) files \<Rightarrow> (ax_error, string) outcome" where
  "file_path_new path fx =
     (let canonical = absolute_path path (fx_fs fx);
          new_path = trim_ws canonical;
          new_path = (if ends_with ''/'' path \<and> \<not> ends_with ''/'' new_path then new_path @ ''/'' else new_path)
      in if \<not> starts_with ''/'' new_path then Panic else Ok (real_path new_path fx))"

definition fp_is_root :: "string \<Rightarrow> bool" where "fp_is_root p = (p = ''/'')"
definition fp_is_dir :: "string \<Rightarrow> bool" where "fp_is_dir p = ends_with ''/'' p"
definition fp_is_file :: "string \<Rightarrow> bool" where "fp_is_file p = (\<not> fp_is_dir p)"

definition fp_strip :: "string \<Rightarrow> string" where
  "fp_strip p = (if ends_with ''/'' p then butlast p else p)"

definition fp_parent :: "string \<Rightarrow> (ax_error, string) outcome" where
  "fp_parent p =
     (if fp_is_root p then Ok ''/''
      else obind (ok_or (rsplit_once slash (fp_strip p)) NotFound) (\<lambda>(a, b). Ok (a @ ''/'')))"

definition fp_name :: "string \<Rightarrow> (ax_error, string) outcome" where
  "fp_name p =
     (if fp_is_root p then Ok ''/''
      else obind (ok_or (rsplit_once slash (fp_strip p)) NotFound) (\<lambda>(a, b). if ends_with ''/'' (fp_strip p) then Panic else Ok b))"

definition fp_exists :: "('n, 's) vfs \<Rightarrow> string \<Rightarrow> ('n, 's) files \<Rightarrow> (ax_error, bool) outcome \<times> ('n, 's) files" where
  "fp_exists v p fx = (case absolute_path_exists v p (fx_fs fx) of (r, st) \<Rightarrow> (r, fx\<lparr>fx_fs := st\<rparr>))"

definition fp_join :: "string \<Rightarrow> string \<Rightarrow> ('n, 's) files \<Rightarrow> (ax_error, string) outcome" where
  "fp_join p q fx = file_path_new ((if ends_with ''/'' p then p else p @ ''/'') @ q) fx"

definition fp_components :: "string \<Rightarrow> string list" where
  "fp_components p = split_on slash (trim_matches slash p)"

type_synonym ('n, 's, 'a) link_call = "('n, 's) files \<Rightarrow> (ax_error, 'a) outcome \<times> ('n, 's) files"

definition on_fs_ax :: "('n, 's, 'a) fs_op \<Rightarrow> ('n, 's, 'a) link_call" where
  "on_fs_ax f fx = (case f (fx_fs fx) of (r, st) \<Rightarrow> (r, fx\<lparr>fx_fs := st\<rparr>))"

definition decrease_ref_count :: "('n, 's) vfs \<Rightarrow> string \<Rightarrow> ('n, 's, unit option) link_call" where
  "decrease_ref_count v path fx =
     (case bt_get path (fx_ref_counts fx) of
        Some count \<Rightarrow>
          let count = count - 1 in
          if count = 0 then
            (case on_fs_ax (remove_file v None path) (fx\<lparr>fx_ref_counts := bt_remove path (fx_ref_counts fx)\<rparr>) of
               (Ok _, fx) \<Rightarrow> (Ok (Some ()), fx)
             | (Err _, fx) \<Rightarrow> (Ok None, fx)
             | (Panic, fx) \<Rightarrow> (Panic, fx))
          else (Ok (Some ()), fx\<lparr>fx_ref_counts := bt_insert path count (fx_ref_counts fx)\<rparr>)
      | None \<Rightarrow> (Ok None, fx))"

definition count_ref :: "string \<Rightarrow> ('n, 's) files \<Rightarrow> ('n, 's) files" where
  "count_ref p fx =
     fx\<lparr>fx_ref_counts := bt_insert p ((case bt_get p (fx_ref_counts fx) of Some n \<Rightarrow> n | None \<Rightarrow> 0) + 1) (fx_ref_counts fx)\<rparr>"

definition atomic_link_update :: "('n, 's) vfs \<Rightarrow> string \<Rightarrow> string \<Rightarrow> ('n, 's, unit) link_call" where
  "atomic_link_update v src dst fx =
     (let link = (\<lambda>fx. (Ok (), count_ref dst (fx\<lparr>fx_links := bt_insert src dst (fx_links fx)\<rparr>))) in
      case bt_get src (fx_links fx) of
        Some old_dst \<Rightarrow>
          if old_dst = dst then (Ok (), fx) else sbind (decrease_ref_count v old_dst fx) (\<lambda>_ fx. link fx)
      | None \<Rightarrow> link fx)"

definition atomic_link_remove :: "('n, 's) vfs \<Rightarrow> string \<Rightarrow> ('n, 's, string option) link_call" where
  "atomic_link_remove v src fx =
     (case bt_get src (fx_links fx) of
        Some dst \<Rightarrow>
          sbind (decrease_ref_count v dst (fx\<lparr>fx_links := bt_remove src (fx_links fx)\<rparr>)) (\<lambda>_ fx. (Ok (Some dst), fx))
      | None \<Rightarrow> (Ok None, fx))"

text \<open>The variants of \<^verbatim>\<open>LinkError\<close> become \<^verbatim>\<open>AxError\<close>s where they leave the manager.\<close>

definition create_link :: "('n, 's) vfs \<Rightarrow> string \<Rightarrow> string \<Rightarrow> ('n, 's, unit) link_call" where
  "create_link v src dst fx =
     sbind (fp_exists v dst fx) (\<lambda>ex fx.
       if \<not> ex then (Err NotFound, fx)
       else if \<not> fp_is_dir dst then (Err InvalidInput, fx)
       else atomic_link_update v src dst fx)"

definition remove_link :: "('n, 's) vfs \<Rightarrow> string \<Rightarrow> ('n, 's, string option) link_call" where
  "remove_link v src fx =
     sbind (atomic_link_remove v src fx) (\<lambda>r fx.
       case r of
         Some dst \<Rightarrow> (Ok (Some dst), fx)
       | None \<Rightarrow>
           (case on_fs_ax (remove_file v None src) fx of
              (Ok _, fx) \<Rightarrow> (Ok (Some src), fx)
            | (Err _, fx) \<Rightarrow> (Ok None, fx)
            | (Panic, fx) \<Rightarrow> (Panic, fx)))"

definition link_count :: "('n, 's) vfs \<Rightarrow> string \<Rightarrow> ('n, 's, usize) link_call" where
  "link_count v p fx =
     (case bt_get p (fx_ref_counts fx) of
        Some n \<Rightarrow> (Ok n, fx)
      | None \<Rightarrow> sbind (fp_exists v p fx) (\<lambda>ex fx. (Ok (if ex then 1 else 0), fx)))"

section \<open>Path arguments\<close>

definition handle_empty_path :: "isize \<Rightarrow> ('n, 's) files \<Rightarrow> (ax_error, string) outcome" where
  "handle_empty_path dir_fd fx =
     (if dir_fd = - 100 then Ok ''.''
      else case fst (directory_from_fd (ucast dir_fd) fx) of Ok (_, _, p) \<Rightarrow> Ok p | Err _ \<Rightarrow> Err NotFound | Panic \<Rightarrow> Panic)"

definition handle_relative_path :: "isize \<Rightarrow> string \<Rightarrow> ('n, 's) files \<Rightarrow> (ax_error, string) outcome" where
  "handle_relative_path dir_fd path fx =
     (case fst (directory_from_fd (ucast dir_fd) fx) of Ok (_, _, p) \<Rightarrow> Ok (p @ path) | Err _ \<Rightarrow> Err NotFound | Panic \<Rightarrow> Panic)"

definition prepend_cwd :: "string \<Rightarrow> ('n, 's) files \<Rightarrow> (ax_error, string) outcome" where
  "prepend_cwd path fx = obind (map_err (\<lambda>_. NotFound) (fst (current_dir (fx_fs fx)))) (\<lambda>cwd. Ok (cwd @ path))"

definition adjust_path_suffix :: "string \<Rightarrow> bool \<Rightarrow> string" where
  "adjust_path_suffix path force_dir =
     (let path = (if force_dir \<and> \<not> ends_with ''/'' path then path @ ''/'' else path)
      in if ends_with ''.'' path then path @ ''/'' else path)"

text \<open>\<open>path\<close> is what was read at the address: \<open>Err\<close> when it is no UTF-8.\<close>

definition handle_file_path :: "isize \<Rightarrow> usize option \<Rightarrow> (linux_error, string) outcome \<Rightarrow> bool \<Rightarrow> ('n, 's) files \<Rightarrow> (ax_error, string) outcome" where
  "handle_file_path dir_fd path_addr path force_dir fx =
     obind (case path_addr of
         Some addr \<Rightarrow> if addr = 0 then Err BadAddress else map_err (\<lambda>_. NotFound) path
       | None \<Rightarrow> Ok []) (\<lambda>path.
     obind (if path = [] then handle_empty_path dir_fd fx else Ok path) (\<lambda>path.
     obind (if \<not> starts_with ''/'' path then
              if dir_fd = - 100 then prepend_cwd path fx else handle_relative_path dir_fd path fx
            else Ok path) (\<lambda>path.
       file_path_new (adjust_path_suffix path force_dir) fx)))"

section \<open>Hard links are counted\<close>

definition count_ok :: "(string, usize) btree_map \<Rightarrow> (string \<Rightarrow> string set) \<Rightarrow> bool" where
  "count_ok counts L \<longleftrightarrow>
     (\<forall>p. finite (L p) \<and> (case bt_get p counts of None \<Rightarrow> L p = {} | Some n \<Rightarrow> L p \<noteq> {} \<and> unat n = card (L p)))"

definition links_to :: "(string, string) btree_map \<Rightarrow> string \<Rightarrow> string set" where
  "links_to links p = {s. bt_get s links = Some p}"

definition link_inv :: "('n, 's) files \<Rightarrow> bool" where
  "link_inv fx \<longleftrightarrow> count_ok (fx_ref_counts fx) (links_to (fx_links fx))"

lemma count_okD:
  assumes "count_ok counts L"
  shows "finite (L p)" "bt_get p counts = None \<Longrightarrow> L p = {}"
    "bt_get p counts = Some n \<Longrightarrow> L p \<noteq> {}" "bt_get p counts = Some n \<Longrightarrow> unat n = card (L p)"
proof -
  have "finite (L p) \<and> (case bt_get p counts of None \<Rightarrow> L p = {} | Some n \<Rightarrow> L p \<noteq> {} \<and> unat n = card (L p))"
    using assms unfolding count_ok_def by blast
  then show "finite (L p)" "bt_get p counts = None \<Longrightarrow> L p = {}"
    "bt_get p counts = Some n \<Longrightarrow> L p \<noteq> {}" "bt_get p counts = Some n \<Longrightarrow> unat n = card (L p)" by simp_all
qed

lemma count_ok_update:
  assumes "count_ok counts L" and "finite S" and "S \<noteq> {}" and "unat n = card S"
  shows "count_ok (bt_insert p n counts) (L(p := S))"
  using assms unfolding count_ok_def by (simp add: bt_get_insert cong: option.case_cong)

lemma count_ok_delete: "count_ok counts L \<Longrightarrow> count_ok (bt_remove p counts) (L(p := {}))"
  unfolding count_ok_def by (simp add: bt_get_remove cong: option.case_cong)

lemma links_to_insert:
  assumes "bt_get s links = None \<or> bt_get s links = Some q" and "q \<noteq> p"
  shows "links_to (bt_insert s p links) = (links_to links)(q := links_to links q - {s}, p := insert s (links_to links p))"
  using assms by (auto simp: fun_eq_iff links_to_def bt_get_insert)

lemma links_to_remove:
  assumes "bt_get s links = Some p"
  shows "links_to (bt_remove s links) = (links_to links)(p := links_to links p - {s})"
  using assms by (auto simp: fun_eq_iff links_to_def bt_get_remove)

lemma on_fs_ax_keeps:
  "fx_links (snd (on_fs_ax f fx)) = fx_links fx" "fx_ref_counts (snd (on_fs_ax f fx)) = fx_ref_counts fx"
  by (simp_all add: on_fs_ax_def split: prod.splits)

lemma decrease_ref_count_ok:
  assumes "count_ok (fx_ref_counts fx) L" and "x \<in> L p" and "decrease_ref_count v p fx = (r, fx')"
  shows "count_ok (fx_ref_counts fx') (L(p := L p - {x})) \<and> fx_links fx' = fx_links fx
    \<and> (1 < card (L p) \<longrightarrow> fx_fs fx' = fx_fs fx)"
proof -
  obtain n where n: "bt_get p (fx_ref_counts fx) = Some n"
    using count_okD(2) [OF assms(1), of p] assms(2) by (cases "bt_get p (fx_ref_counts fx)") auto
  note c = count_okD(1) [OF assms(1), of p] count_okD(4) [OF assms(1) n]
  have pos: "0 < card (L p)" using c(1) assms(2) card_gt_0_iff by blast
  then have u: "unat (n - 1) = card (L p) - 1" using c(2) by (simp add: unat_sub_if_size word_less_nat_alt split: if_splits)
  have cd: "card (L p - {x}) = card (L p) - 1" using assms(2) by simp
  show ?thesis
  proof (cases "n - 1 = 0")
    case True
    then have "card (L p - {x}) = 0" using u cd by simp
    then have e: "L p - {x} = {}" "\<not> 1 < card (L p)" using c(1) cd by auto
    let ?fx = "fx\<lparr>fx_ref_counts := bt_remove p (fx_ref_counts fx)\<rparr>"
    have "fx' = snd (on_fs_ax (remove_file v None p) ?fx)"
      using assms(3) n True by (auto simp: decrease_ref_count_def Let_def split: prod.splits outcome.splits)
    with count_ok_delete [OF assms(1), of p] e(2) show ?thesis unfolding e(1) by (simp add: on_fs_ax_keeps)
  next
    case False
    then have ne: "L p - {x} \<noteq> {}" using u cd c(1) by (metis card.empty unat_eq_zero)
    have "fx' = fx\<lparr>fx_ref_counts := bt_insert p (n - 1) (fx_ref_counts fx)\<rparr>"
      using assms(3) n False by (simp add: decrease_ref_count_def Let_def)
    with count_ok_update [OF assms(1) _ ne, of "n - 1" p] c(1) u cd show ?thesis by simp
  qed
qed

lemma count_ref_ok:
  assumes "count_ok (fx_ref_counts fx) L" and "x \<notin> L p" and "card (L p) < 2 ^ 63"
  shows "count_ok (fx_ref_counts (count_ref p fx)) (L(p := insert x (L p)))"
proof -
  let ?n = "case bt_get p (fx_ref_counts fx) of Some n \<Rightarrow> n | None \<Rightarrow> 0"
  have f: "finite (L p)" by (rule count_okD(1) [OF assms(1)])
  have "unat ?n = card (L p)" using count_okD(2,4) [OF assms(1), of p] by (auto split: option.splits)
  then have "unat (?n + 1) = card (insert x (L p))" using assms(2,3) f by (simp add: unat_word_ariths)
  with count_ok_update [OF assms(1), of "insert x (L p)" "?n + 1" p] f show ?thesis by (simp add: count_ref_def)
qed

lemma links_to_small: "length links < 2 ^ 63 \<Longrightarrow> card (links_to links p) < 2 ^ 63"
proof -
  assume l: "length links < 2 ^ 63"
  have "links_to links p \<subseteq> fst ` set links" by (auto simp: links_to_def dest: bt_get_mem intro: rev_image_eqI)
  then have "card (links_to links p) \<le> card (fst ` set links)" by (simp add: card_mono)
  also have "\<dots> \<le> length links" by (metis card_image_le card_length finite_set le_trans)
  finally show ?thesis using l by simp
qed

lemma link_update_ok:
  assumes inv: "link_inv fx" and small: "length (fx_links fx) < 2 ^ 63"
    and upd: "atomic_link_update v src dst fx = (r, fx')" and "r \<noteq> Panic"
  shows "link_inv fx'"
proof -
  let ?L = "links_to (fx_links fx)"
  have cnt: "count_ok (fx_ref_counts fx) ?L" using inv by (simp add: link_inv_def)
  note sm = links_to_small [OF small, of dst]
  have linked: "link_inv (count_ref dst (fx1\<lparr>fx_links := bt_insert src dst (fx_links fx1)\<rparr>))"
    if "fx_links fx1 = fx_links fx" "q \<noteq> dst" "bt_get src (fx_links fx) = None \<or> bt_get src (fx_links fx) = Some q"
      "count_ok (fx_ref_counts fx1) (?L(q := ?L q - {src}))" for fx1 q
  proof -
    have "src \<notin> ?L dst" using that(2,3) by (auto simp: links_to_def)
    then have "count_ok (fx_ref_counts (count_ref dst (fx1\<lparr>fx_links := bt_insert src dst (fx_links fx1)\<rparr>)))
        ((?L(q := ?L q - {src}))(dst := insert src (?L dst)))"
      using count_ref_ok [of "fx1\<lparr>fx_links := bt_insert src dst (fx_links fx1)\<rparr>" "?L(q := ?L q - {src})" src dst] that(2,4) sm by simp
    then show ?thesis using links_to_insert [OF that(3,2)] that(1) by (simp add: link_inv_def count_ref_def)
  qed
  show ?thesis
  proof (cases "bt_get src (fx_links fx)")
    case None
    obtain q where q: "q \<noteq> dst" by (metis list.distinct(1) list.exhaust neq_Nil_conv)
    have "src \<notin> ?L q" using None by (simp add: links_to_def)
    then have "?L(q := ?L q - {src}) = ?L" by (simp add: fun_eq_iff)
    with linked [of fx q] q None cnt upd show ?thesis by (auto simp: atomic_link_update_def Let_def)
  next
    case (Some old)
    show ?thesis
    proof (cases "old = dst")
      case True
      with Some upd inv show ?thesis by (simp add: atomic_link_update_def)
    next
      case False
      obtain r1 fx1 where d: "decrease_ref_count v old fx = (r1, fx1)" by fastforce
      have "src \<in> ?L old" using Some by (simp add: links_to_def)
      note k = decrease_ref_count_ok [OF cnt this d]
      have "r1 \<noteq> Panic" "\<And>e. r1 \<noteq> Err e"
        using d upd Some False \<open>r \<noteq> Panic\<close> by (auto simp: atomic_link_update_def decrease_ref_count_def Let_def
            split: option.splits outcome.splits prod.splits if_splits)
      then have "fx' = count_ref dst (fx1\<lparr>fx_links := bt_insert src dst (fx_links fx1)\<rparr>)"
        using d upd Some False by (cases r1) (auto simp: atomic_link_update_def Let_def)
      with linked [of fx1 old] k Some False show ?thesis by simp
    qed
  qed
qed

lemma link_remove_ok:
  assumes inv: "link_inv fx" and rm: "atomic_link_remove v src fx = (r, fx')"
  shows "link_inv fx' \<and> (\<forall>dst. bt_get src (fx_links fx) = Some dst \<longrightarrow> 1 < card (links_to (fx_links fx) dst) \<longrightarrow> fx_fs fx' = fx_fs fx)"
proof (cases "bt_get src (fx_links fx)")
  case None
  with inv rm show ?thesis by (auto simp: atomic_link_remove_def)
next
  case (Some dst)
  let ?L = "links_to (fx_links fx)" and ?fx = "fx\<lparr>fx_links := bt_remove src (fx_links fx)\<rparr>"
  obtain r1 fx1 where d: "decrease_ref_count v dst ?fx = (r1, fx1)" by fastforce
  have "src \<in> ?L dst" using Some by (simp add: links_to_def)
  then have k: "count_ok (fx_ref_counts fx1) (?L(dst := ?L dst - {src}))" "fx_links fx1 = bt_remove src (fx_links fx)"
    "1 < card (?L dst) \<longrightarrow> fx_fs fx1 = fx_fs fx"
    using decrease_ref_count_ok [of ?fx ?L src dst v r1 fx1] d inv by (auto simp: link_inv_def)
  have "fx' = fx1" using rm d Some by (cases r1) (auto simp: atomic_link_remove_def)
  with k links_to_remove [OF Some] Some show ?thesis by (auto simp: link_inv_def)
qed

text \<open>
  C26. The reference count of a path is the number of hard links to it: linking and unlinking keep this, whatever the file system answers, and removing one of several
  links to a file leaves the file system alone.
\<close>

theorem link_counts_invariant:
  assumes "link_inv fx" and "length (fx_links fx) < 2 ^ 63"
  shows "(fst (create_link v src dst fx) \<noteq> Panic \<longrightarrow> link_inv (snd (create_link v src dst fx)))
    \<and> link_inv (snd (remove_link v src fx))
    \<and> (\<forall>p. bt_get src (fx_links fx) = Some p \<longrightarrow> 1 < card (links_to (fx_links fx) p)
         \<longrightarrow> fx_fs (snd (remove_link v src fx)) = fx_fs fx)"
proof (intro conjI)
  show "fst (create_link v src dst fx) \<noteq> Panic \<longrightarrow> link_inv (snd (create_link v src dst fx))"
  proof -
    obtain r1 fx1 where e: "fp_exists v dst fx = (r1, fx1)" by fastforce
    have f: "fx_links fx1 = fx_links fx" "fx_ref_counts fx1 = fx_ref_counts fx"
      using e by (auto simp: fp_exists_def split: prod.splits)
    then have "link_inv fx1" using assms(1) by (simp add: link_inv_def)
    then show ?thesis using link_update_ok [of fx1 v src dst] assms(2) e f
      by (cases r1; cases "atomic_link_update v src dst fx1") (auto simp: create_link_def)
  qed
  obtain r1 fx1 where a: "atomic_link_remove v src fx = (r1, fx1)" by fastforce
  note k = link_remove_ok [OF assms(1) a]
  have o: "link_inv (snd (on_fs_ax f fx1))" for f :: "('a, 'b, unit) fs_op"
    using k by (simp add: link_inv_def on_fs_ax_keeps)
  show "link_inv (snd (remove_link v src fx))"
    using k o [of "remove_file v None src"] a
    by (cases r1) (auto simp: remove_link_def split: option.splits prod.splits outcome.splits)
  show "\<forall>p. bt_get src (fx_links fx) = Some p \<longrightarrow> 1 < card (links_to (fx_links fx) p)
      \<longrightarrow> fx_fs (snd (remove_link v src fx)) = fx_fs fx"
  proof (intro allI impI)
    fix p assume s: "bt_get src (fx_links fx) = Some p" and c: "1 < card (links_to (fx_links fx) p)"
    then have "r1 = Ok (Some p) \<or> r1 = Panic \<or> (\<exists>e. r1 = Err e)"
      using a by (auto simp: atomic_link_remove_def sbind_def split: prod.splits outcome.splits)
    with k s c a show "fx_fs (snd (remove_link v src fx)) = fx_fs fx" by (auto simp: remove_link_def)
  qed
qed

definition demo_files :: "(nat, ram) files" where
  "demo_files =
     \<lparr>fx_fs = demo_fs, fx_objs = (\<lambda>_. Stdin), fx_next = 3, fx_rings = (\<lambda>_. ring_new), fx_next_ring = 0, fx_table = fo_new, fx_held = [],
      fx_console = \<lparr>cn_avail = [], cn_buf = [], cn_out = []\<rparr>, fx_links = [(''/l/'', ''/d/'')], fx_ref_counts = [(''/d/'', 1)], fx_mounted = []\<rparr>"

theorem link_counts_invariant_witness:
  "link_inv demo_files \<and> link_inv (snd (remove_link ramfs ''/l/'' demo_files))"
proof -
  have l: "links_to [(''/l/'', ''/d/'')] p = (if p = ''/d/'' then {''/l/''} else {})" for p
    by (auto simp: links_to_def)
  have "link_inv demo_files" by (simp add: link_inv_def count_ok_def demo_files_def l)
  moreover have "length (fx_links demo_files) < 2 ^ 63" by (simp add: demo_files_def)
  ultimately show ?thesis using link_counts_invariant [of demo_files ramfs "''/l/''"] by simp
qed

end
