(* ===== verification/File_Calls.thy ===== *)
theory File_Calls
  imports File_Objects
begin

unbundle bit_operations_syntax

text \<open>
  The system calls on files (\<^verbatim>\<open>api/src/imp/fs\<close>): user pointers are checked, names and buffers are moved between user memory
  and the POSIX layer. The state is the address space of the running process with physical memory, and the files. A call that waits returns what it waits
  for; the functions named \<open>_again\<close> are its later rounds.

  Lemmas: opening returns the lowest free descriptor and changes no descriptor on failure; lengths above \<^verbatim>\<open>isize::MAX\<close> panic in the
  layout of the buffer.
\<close>

type_synonym ('n, 's) cstate = "as_state \<times> ('n, 's) files"
type_synonym ('n, 's, 'a) call = "('n, 's) cstate \<Rightarrow> (stop, 'a) outcome \<times> ('n, 's) cstate"

definition mem :: "(as_state \<Rightarrow> (stop, 'a) outcome \<times> as_state) \<Rightarrow> ('n, 's, 'a) call" where
  "mem f = (\<lambda>(m, fx). case f m of (r, m) \<Rightarrow> (r, (m, fx)))"

definition mem_errno :: "(as_state \<Rightarrow> (linux_error, 'a) outcome \<times> as_state) \<Rightarrow> ('n, 's, 'a) call" where
  "mem_errno f = mem (\<lambda>m. errno (f m))"

definition fil :: "('n, 's, 'a) file_call \<Rightarrow> ('n, 's, 'a) call" where
  "fil f = (\<lambda>(m, fx). case f fx of (r, fx) \<Rightarrow> (map_err Errno r, (m, fx)))"

definition lnk :: "('n, 's, 'a) link_call \<Rightarrow> ('n, 's, 'a) call" where
  "lnk f = fil (\<lambda>fx. case f fx of (r, fx) \<Rightarrow> (map_err linux_of_ax r, fx))"

definition ret :: "(stop, 'a) outcome \<Rightarrow> ('n, 's, 'a) call" where
  "ret r st = (r, st)"

lemmas call_defs = mem_def mem_errno_def fil_def lnk_def ret_def errno_def

text \<open>
  \<^verbatim>\<open>get_as_null_terminated\<close> for characters, with the bytes that are read through the slice later. The check
  always returns (\<open>check_null_terminated_returns\<close>).
\<close>

definition user_cstr :: "mapping_flags \<Rightarrow> usize \<Rightarrow> as_state \<Rightarrow> (stop, u8 list) outcome \<times> as_state" where
  "user_cstr access p m =
     sbind (the (check_null_terminated 1 1 access p m)) (\<lambda>len m. user_read_bytes False (unat len) p m)"

definition user_str :: "usize \<Rightarrow> as_state \<Rightarrow> (stop, string) outcome \<times> as_state" where
  "user_str p m =
     sbind (user_cstr USER_CONST_PTR_ACCESS p m) (\<lambda>bs m.
       if utf8_valid bs then (Ok (string_of_bytes bs), m) else (Err (Errno EILSEQ), m))"

text \<open>\<^verbatim>\<open>char_ptr_to_str\<close> on a checked, non-null string.\<close>

definition char_ptr_to_str :: "u8 list \<Rightarrow> (linux_error, string) outcome" where
  "char_ptr_to_str bs = (if utf8_valid bs then Ok (string_of_bytes bs) else Err EINVAL)"

section \<open>Reading and writing\<close>

definition sys_read :: "('n, 's) vfs \<Rightarrow> i32 \<Rightarrow> usize \<Rightarrow> usize \<Rightarrow> ('n, 's, isize option) call" where
  "sys_read v fd buf count st =
     sbind (mem_errno (get_as_bytes USER_PTR_ACCESS buf count) st) (\<lambda>p st.
     sbind (fil (posix_read v fd p count) st) (\<lambda>r st.
       case r of
         None \<Rightarrow> (Ok None, st)
       | Some (n, bs) \<Rightarrow> sbind (mem (user_write_bytes False p bs) st) (\<lambda>_ st. (Ok (Some n), st))))"

definition sys_read_again :: "('n, 's) vfs \<Rightarrow> nat \<Rightarrow> usize \<Rightarrow> usize \<Rightarrow> ('n, 's, isize option) call" where
  "sys_read_again v o' p count st =
     (case fil (obj_read v False o' (unat count)) st of
        (Ok None, st) \<Rightarrow> (Ok None, st)
      | (Ok (Some bs), st) \<Rightarrow> sbind (mem (user_write_bytes False p bs) st) (\<lambda>_ st. (Ok (Some (of_nat (length bs))), st))
      | (Err (Errno e), st) \<Rightarrow> (Ok (Some (neg_code e)), st)
      | (Err x, st) \<Rightarrow> (Err x, st)
      | (Panic, st) \<Rightarrow> (Panic, st))"

text \<open>A write that returns, or waits at an object with a number of bytes written.\<close>

datatype 'a wstate = Returns 'a | Waits nat nat

text \<open>A round of writing: the part of the buffer that the object takes is read from user memory.\<close>

definition write_round_user :: "('n, 's) vfs \<Rightarrow> nat \<Rightarrow> usize \<Rightarrow> usize \<Rightarrow> nat \<Rightarrow> ('n, 's, isize wstate) call" where
  "write_round_user v o' p count written st =
     (case obj_source o' (unat count) written (snd st) of (off, len) \<Rightarrow>
        sbind (mem (user_read_bytes False len (p + of_nat off)) st) (\<lambda>bs st.
        sbind (fil (obj_write v o' (replicate off 0 @ bs @ replicate (unat count - off - len) 0) written) st) (\<lambda>w st.
          (Ok (case w of Done n \<Rightarrow> Returns (of_nat n) | Again n \<Rightarrow> Waits o' n | Yields n \<Rightarrow> Waits o' n), st))))"

definition write_impl :: "('n, 's) vfs \<Rightarrow> i32 \<Rightarrow> usize \<Rightarrow> usize \<Rightarrow> ('n, 's, isize wstate) call" where
  "write_impl v fd buf count st =
     (if buf = 0 then (Err (Errno EFAULT), st)
      else sbind (fil (get_obj fd) st) (\<lambda>o' st. write_round_user v o' buf count 0 st))"

definition syscall_result :: "(stop, isize wstate) outcome \<times> 'st \<Rightarrow> (stop, isize wstate) outcome \<times> 'st" where
  "syscall_result m = (case m of (Err (Errno e), st) \<Rightarrow> (Ok (Returns (neg_code e)), st) | r \<Rightarrow> r)"

definition posix_write :: "('n, 's) vfs \<Rightarrow> i32 \<Rightarrow> usize \<Rightarrow> usize \<Rightarrow> ('n, 's, isize wstate) call" where
  "posix_write v fd buf count st = syscall_result (write_impl v fd buf count st)"

definition sys_write :: "('n, 's) vfs \<Rightarrow> i32 \<Rightarrow> usize \<Rightarrow> usize \<Rightarrow> ('n, 's, isize wstate) call" where
  "sys_write v fd buf count st =
     sbind (mem_errno (get_as_bytes USER_CONST_PTR_ACCESS buf count) st) (\<lambda>p st. posix_write v fd p count st)"

text \<open>The loop of \<^verbatim>\<open>writev\<close> over \<open>n\<close> vectors from address \<open>iov\<close> on; when it waits, the rest of the loop is kept.\<close>

datatype vstate = VReturns isize | VWaits usize nat isize usize usize nat nat

fun writev_loop :: "('n, 's) vfs \<Rightarrow> i32 \<Rightarrow> nat \<Rightarrow> usize \<Rightarrow> isize \<Rightarrow> ('n, 's, vstate) call" where
  "writev_loop v fd 0 iov acc st = (Ok (VReturns acc), st)"
| "writev_loop v fd (Suc n) iov acc st =
     sbind (mem (user_read_bytes False 16 iov) st) (\<lambda>bs st.
       let base = le_word (take 8 bs); len = le_word (drop 8 bs) in
       if base = 0 then writev_loop v fd n (iov + 16) acc st
       else sbind (write_impl v fd base len st) (\<lambda>w st.
         case w of
           Returns result \<Rightarrow>
             if result <s len then (Ok (VReturns (acc + result)), st) else writev_loop v fd n (iov + 16) (acc + result) st
         | Waits o' k \<Rightarrow> (Ok (VWaits (iov + 16) n acc base len o' k), st)))"

definition posix_writev :: "('n, 's) vfs \<Rightarrow> i32 \<Rightarrow> usize \<Rightarrow> i32 \<Rightarrow> ('n, 's, vstate) call" where
  "posix_writev v fd iov iocnt st =
     (case (if \<not> (0 \<le>s iocnt \<and> iocnt \<le>s 1024) then (Err (Errno EINVAL), st) else writev_loop v fd (unat iocnt) iov 0 st) of
        (Err (Errno e), st) \<Rightarrow> (Ok (VReturns (neg_code e)), st)
      | r \<Rightarrow> r)"

definition sys_writev :: "('n, 's) vfs \<Rightarrow> i32 \<Rightarrow> usize \<Rightarrow> i32 \<Rightarrow> ('n, 's, vstate) call" where
  "sys_writev v fd iov iocnt st =
     sbind (mem_errno (get_as_bytes USER_CONST_PTR_ACCESS iov (scast iocnt)) st) (\<lambda>p st. posix_writev v fd p iocnt st)"

section \<open>Opening, unlinking, pipes\<close>

definition wide :: "(stop, i32) outcome \<times> 'st \<Rightarrow> (stop, isize) outcome \<times> 'st" where
  "wide m = sbind m (\<lambda>r st. (Ok (scast r), st))"

definition sys_openat :: "('n, 's) vfs \<Rightarrow> i32 \<Rightarrow> usize \<Rightarrow> i32 \<Rightarrow> ('n, 's, isize) call" where
  "sys_openat v dirfd p flags st =
     sbind (mem (user_cstr USER_CONST_PTR_ACCESS p) st) (\<lambda>bs st.
       wide (fil (posix_openat v dirfd (char_ptr_to_str bs) flags) st))"

definition sys_open :: "('n, 's) vfs \<Rightarrow> usize \<Rightarrow> i32 \<Rightarrow> ('n, 's, isize) call" where
  "sys_open v p flags = sys_openat v AT_FDCWD p flags"

text \<open>The result of \<^verbatim>\<open>remove_file\<close> is dropped.\<close>

definition sys_unlink :: "('n, 's) vfs \<Rightarrow> usize \<Rightarrow> ('n, 's, isize) call" where
  "sys_unlink v p st =
     sbind (mem (user_str p) st) (\<lambda>path_name st.
       case rsplit_once slash path_name of
         None \<Rightarrow> (Panic, st)
       | Some (dir_prefix, file_name) \<Rightarrow>
           (case fil (on_fs (dir_open_dir v dir_prefix (open_options_new\<lparr>oo_read := True\<rparr>))) st of
              (Ok dir, st) \<Rightarrow>
                (case fil (on_fs (dir_remove_file v file_name dir)) st of (Panic, st) \<Rightarrow> (Panic, st) | (_, st) \<Rightarrow> (Ok 0, st))
            | (_, st) \<Rightarrow> (Panic, st)))"

definition sys_pipe :: "('n, 's, isize) call" where
  "sys_pipe st = (Panic, st)"

definition sys_pipe2 :: "usize \<Rightarrow> ('n, 's, isize) call" where
  "sys_pipe2 fds st =
     sbind (mem_errno (get_as_array USER_PTR_ACCESS fds 4 4 2) st) (\<lambda>p st.
     sbind (mem (user_read_bytes False 8 p) st) (\<lambda>old st.
       case posix_pipe_fx [le_word (take 4 old), le_word (drop 4 old)] (snd st) of
         (r, fds, fx) \<Rightarrow>
           sbind (mem (user_write_bytes False p (concat (map (le_bytes 4) fds))) (fst st, fx)) (\<lambda>_ st.
             wide (map_err Errno r, st))))"

section \<open>Directories and links\<close>

definition sys_ioctl :: "('n, 's, isize) call" where
  "sys_ioctl st = (Ok 0, st)"

definition sys_chdir :: "('n, 's) vfs \<Rightarrow> usize \<Rightarrow> ('n, 's, isize) call" where
  "sys_chdir v p st =
     sbind (mem (user_str p) st) (\<lambda>name st. sbind (fil (on_fs (set_current_dir v name)) st) (\<lambda>_ st. (Ok 0, st)))"

definition sys_mkdirat :: "('n, 's) vfs \<Rightarrow> i32 \<Rightarrow> usize \<Rightarrow> u32 \<Rightarrow> ('n, 's, isize) call" where
  "sys_mkdirat v dirfd p mode st =
     sbind (mem (user_str p) st) (\<lambda>name st.
       if \<not> starts_with ''/'' name \<and> dirfd \<noteq> AT_FDCWD then (Err (Errno EINVAL), st)
       else sbind (fil (on_fs (dir_builder_create v False name)) st) (\<lambda>_ st. (Ok 0, st)))"

definition sys_getcwd :: "usize \<Rightarrow> usize \<Rightarrow> ('n, 's, isize) call" where
  "sys_getcwd buf sz st =
     sbind (mem (user_cstr USER_PTR_ACCESS buf) st) (\<lambda>_ st.
       case posix_getcwd buf sz (snd st) of
         (r, bs) \<Rightarrow> sbind (mem (user_write_bytes False buf bs) st) (\<lambda>_ st. (map_err Errno r, st)))"

definition path_arg :: "isize \<Rightarrow> usize \<Rightarrow> bool \<Rightarrow> u8 list \<Rightarrow> ('n, 's, string) call" where
  "path_arg dir_fd p force_dir bs st =
     (map_err (\<lambda>e. Errno (linux_of_ax e)) (handle_file_path dir_fd (Some p) (char_ptr_to_str bs) force_dir (snd st)), st)"

definition sys_linkat :: "('n, 's) vfs \<Rightarrow> i32 \<Rightarrow> usize \<Rightarrow> i32 \<Rightarrow> usize \<Rightarrow> ('n, 's, isize) call" where
  "sys_linkat v old_dirfd old_path new_dirfd new_path st =
     sbind (mem (user_cstr USER_CONST_PTR_ACCESS old_path) st) (\<lambda>old st.
     sbind (mem (user_cstr USER_CONST_PTR_ACCESS new_path) st) (\<lambda>new st.
     sbind (path_arg (scast old_dirfd) old_path False old st) (\<lambda>old_path st.
     sbind (path_arg (scast new_dirfd) new_path False new st) (\<lambda>new_path st.
     sbind (lnk (create_link v new_path old_path) st) (\<lambda>_ st. (Ok 0, st))))))"

definition AT_REMOVEDIR :: usize where "AT_REMOVEDIR = 0x200"

definition sys_unlinkat :: "('n, 's) vfs \<Rightarrow> isize \<Rightarrow> usize \<Rightarrow> usize \<Rightarrow> ('n, 's, isize) call" where
  "sys_unlinkat v dir_fd p flags st =
     sbind (mem (user_cstr USER_CONST_PTR_ACCESS p) st) (\<lambda>bs st.
     sbind (path_arg dir_fd p False bs st) (\<lambda>name st.
       if flags = AT_REMOVEDIR then sbind (lnk (on_fs_ax (remove_dir v None name)) st) (\<lambda>_ st. (Ok 0, st))
       else sbind (lnk (on_fs_ax (api_metadata v name)) st) (\<lambda>metadata st.
         if attr_is_dir metadata then (Err (Errno (linux_of_ax IsADirectory)), st)
         else sbind (lnk (remove_link v name) st) (\<lambda>r st.
           case r of Some _ \<Rightarrow> (Ok 0, st) | None \<Rightarrow> (Err (Errno (linux_of_ax NotFound)), st)))))"

section \<open>Listing a directory\<close>

definition DIRENT_FIXED_SIZE :: nat where "DIRENT_FIXED_SIZE = 19"

text \<open>An entry: \<^verbatim>\<open>d_ino\<close>, \<^verbatim>\<open>d_off\<close>, \<^verbatim>\<open>d_reclen\<close> and \<^verbatim>\<open>d_type\<close>, then the name.\<close>

definition dirent_bytes :: "u64 \<Rightarrow> i64 \<Rightarrow> nat \<Rightarrow> u8 \<Rightarrow> u8 list \<Rightarrow> u8 list" where
  "dirent_bytes ino off reclen ty name = le_bytes 8 ino @ le_bytes 8 off @ le_bytes 2 (of_nat reclen :: u16) @ [ty] @ name"

definition dirent_type :: "vfs_node_type \<Rightarrow> u8" where
  "dirent_type t = (if t = Dir then 4 else if t = File then 8 else 0)"

text \<open>The \<^verbatim>\<open>while\<close> loop over the entries already in the buffer.\<close>

function getdents_scan :: "usize \<Rightarrow> nat \<Rightarrow> nat \<Rightarrow> nat \<Rightarrow> as_state \<Rightarrow> (stop, nat \<times> nat) outcome \<times> as_state" where
  "getdents_scan buf len off count m =
     (if off + DIRENT_FIXED_SIZE \<le> len then
        (case user_read_bytes False DIRENT_FIXED_SIZE (buf + of_nat off) m of
           (Ok bs, m) \<Rightarrow>
             let reclen = unat (le_word (take 2 (drop 16 bs)) :: u16); d_off = le_word (take 8 (drop 8 bs)) :: i64 in
             if reclen = 0 then (Ok (off, count), m)
             else if d_off \<noteq> of_nat (off + reclen) then (Panic, m)
             else getdents_scan buf len (off + reclen) (count + 1) m
         | (Err x, m) \<Rightarrow> (Err x, m)
         | (Panic, m) \<Rightarrow> (Panic, m))
      else (Ok (off, count), m))"
  by pat_completeness auto
termination by (relation "measure (\<lambda>(buf, len, off, count, m). Suc len - off)") (auto simp: DIRENT_FIXED_SIZE_def)

declare getdents_scan.simps [simp del]

text \<open>
  The loop over the entries of the directory: \<open>boff\<close> is the offset of the \<^verbatim>\<open>DirBuffer\<close>, \<open>cur\<close> and \<open>tot\<close> are \<^verbatim>\<open>current_offset\<close> and \<^verbatim>\<open>total_size\<close>.
  \<open>None\<close> when the directory does not end.
\<close>

partial_function (option) getdents_loop ::
  "('n, 's) vfs \<Rightarrow> usize \<Rightarrow> nat \<Rightarrow> 'n read_dir \<Rightarrow> nat \<Rightarrow> nat \<Rightarrow> nat \<Rightarrow> nat \<Rightarrow> ('n, 's) cstate
   \<Rightarrow> ((stop, nat \<times> nat \<times> nat) outcome \<times> ('n, 's) cstate) option" where
  "getdents_loop v buf len r skip boff cur tot st =
     (case read_dir_next v r (fx_fs (snd st)) of
        None \<Rightarrow> None
      | Some ((e, r), fs) \<Rightarrow>
          (let st = (fst st, (snd st)\<lparr>fx_fs := fs\<rparr>) in
           case e of
             None \<Rightarrow> Some (Ok (boff, cur, tot), st)
           | Some (Err _) \<Rightarrow> getdents_loop v buf len r skip boff cur tot st
           | Some Panic \<Rightarrow> Some (Panic, st)
           | Some (Ok e) \<Rightarrow>
               if 0 < skip then getdents_loop v buf len r (skip - 1) boff cur tot st
               else
                 let name = bytes_of_string (de_name e) @ [0];
                     entry_size = DIRENT_FIXED_SIZE + length name;
                     cur = cur + entry_size in
                 if len - boff < entry_size then Some (Ok (boff, cur, tot), st)
                 else case mem (user_write_bytes False (buf + of_nat boff)
                          (dirent_bytes 1 (of_nat cur) entry_size (dirent_type (de_type e)) name)) st of
                   (Ok _, st) \<Rightarrow> getdents_loop v buf len r 0 (boff + entry_size) cur (tot + entry_size) st
                 | (Err x, st) \<Rightarrow> Some (Err x, st)
                 | (Panic, st) \<Rightarrow> Some (Panic, st)))"

text \<open>The final entry has the record length zero and is written when a fixed part fits.\<close>

definition getdents_end :: "usize \<Rightarrow> nat \<Rightarrow> nat \<times> nat \<times> nat \<Rightarrow> ('n, 's, isize) call" where
  "getdents_end buf len res st =
     (case res of (boff, cur, tot) \<Rightarrow>
        sbind (if 0 < tot \<and> DIRENT_FIXED_SIZE \<le> len - boff
               then mem (user_write_bytes False (buf + of_nat boff) (dirent_bytes 1 (of_nat cur) 0 8 [])) st
               else (Ok (), st)) (\<lambda>_ st. (Ok (of_nat tot), st)))"

definition sys_getdents64 :: "('n, 's) vfs \<Rightarrow> i32 \<Rightarrow> usize \<Rightarrow> usize \<Rightarrow> ('n, 's) cstate
    \<Rightarrow> ((stop, isize) outcome \<times> ('n, 's) cstate) option" where
  "sys_getdents64 v fd buf len st =
     (case sbind (mem_errno (get_as_bytes USER_PTR_ACCESS buf len) st) (\<lambda>p st.
        if unat len < DIRENT_FIXED_SIZE then (Err (Errno EINVAL), st)
        else case fil (directory_from_fd fd) st of
          (Ok (_, _, path), st) \<Rightarrow>
            sbind (mem (getdents_scan p (unat len) 0 0) st) (\<lambda>(off, count) st.
            sbind (fil (on_fs (read_dir_new v path)) st) (\<lambda>r st. (Ok (r, off, count), st)))
        | (Err _, st) \<Rightarrow> (Err (Errno EBADF), st)
        | (Panic, st) \<Rightarrow> (Panic, st)) of
        (Ok (r, off, count), st) \<Rightarrow>
          map_option (\<lambda>m. sbind m (\<lambda>res st. getdents_end buf (unat len) res st))
            (getdents_loop v buf (unat len) r count 0 off off st)
      | (Err x, st) \<Rightarrow> Some (Err x, st)
      | (Panic, st) \<Rightarrow> Some (Panic, st))"

section \<open>Mounting\<close>

definition mounted_fs_new :: "string \<Rightarrow> string \<Rightarrow> (stop, mounted_fs) outcome" where
  "mounted_fs_new device mnt_dir =
     (if fp_is_file device \<and> fp_is_dir mnt_dir then Ok \<lparr>mf_device = device, mf_mnt_dir = mnt_dir\<rparr> else Panic)"

definition check_mounted :: "string \<Rightarrow> mounted_fs list \<Rightarrow> bool" where
  "check_mounted path ms = list_ex (\<lambda>m. starts_with (mf_mnt_dir m) path) ms"

definition mount_fat_fs :: "('n, 's) vfs \<Rightarrow> string \<Rightarrow> string \<Rightarrow> ('n, 's, bool) call" where
  "mount_fat_fs v device_path mount_path st =
     sbind (lnk (fp_exists v mount_path) st) (\<lambda>ex st.
       if ex then
         sbind (mounted_fs_new device_path mount_path, st) (\<lambda>m st.
           (Ok True, (fst st, (snd st)\<lparr>fx_mounted := fx_mounted (snd st) @ [m]\<rparr>)))
       else (Ok False, st))"

definition umount_fat_fs :: "string \<Rightarrow> mounted_fs list \<Rightarrow> bool \<times> mounted_fs list" where
  "umount_fat_fs mount_path ms =
     (let ms' = filter (\<lambda>m. mf_mnt_dir m \<noteq> mount_path) ms in (length ms' < length ms, ms'))"

definition sys_mount :: "('n, 's) vfs \<Rightarrow> usize \<Rightarrow> usize \<Rightarrow> usize \<Rightarrow> ('n, 's, isize) call" where
  "sys_mount v source target fs_type st =
     sbind (mem (user_cstr USER_CONST_PTR_ACCESS source) st) (\<lambda>src st.
     sbind (mem (user_cstr USER_CONST_PTR_ACCESS target) st) (\<lambda>tgt st.
     sbind (mem (user_str fs_type) st) (\<lambda>ty st.
     sbind (path_arg (- 100) source False src st) (\<lambda>device_path st.
     sbind (path_arg (- 100) target True tgt st) (\<lambda>mount_path st.
       if ty \<noteq> ''vfat'' then (Err (Errno EPERM), st)
       else sbind (lnk (fp_exists v mount_path) st) (\<lambda>ex st.
         if \<not> ex then (Err (Errno EPERM), st)
         else if check_mounted mount_path (fx_mounted (snd st)) then (Err (Errno EPERM), st)
         else sbind (mount_fat_fs v device_path mount_path st) (\<lambda>ok st.
           if \<not> ok then (Err (Errno EPERM), st) else (Ok 0, st))))))))"

definition sys_umount2 :: "('n, 's) vfs \<Rightarrow> usize \<Rightarrow> i32 \<Rightarrow> ('n, 's, isize) call" where
  "sys_umount2 v target flags st =
     sbind (mem (user_cstr USER_CONST_PTR_ACCESS target) st) (\<lambda>tgt st.
     sbind (path_arg (- 100) target True tgt st) (\<lambda>mount_path st.
       if flags \<noteq> 0 then (Err (Errno EPERM), st)
       else sbind (lnk (fp_exists v mount_path) st) (\<lambda>ex st.
         if \<not> ex then (Err (Errno EPERM), st)
         else case umount_fat_fs mount_path (fx_mounted (snd st)) of
           (ok, ms) \<Rightarrow>
             let st = (fst st, (snd st)\<lparr>fx_mounted := ms\<rparr>) in
             if \<not> ok then (Err (Errno EPERM), st) else (Ok 0, st))))"

section \<open>Metadata\<close>

text \<open>\<^verbatim>\<open>Kstat::from\<close>, as the bytes of the structure.\<close>

definition kstat_bytes :: "stat \<Rightarrow> u8 list" where
  "kstat_bytes s =
     le_bytes 8 (st_dev s) @ le_bytes 8 (st_ino s) @ le_bytes 8 (ucast (st_nlink s) :: u64) @ le_bytes 4 (st_mode s)
     @ le_bytes 4 (st_uid s) @ le_bytes 4 (st_gid s) @ le_bytes 4 (0 :: u32) @ le_bytes 8 (st_rdev s) @ le_bytes 8 (st_size s)
     @ le_bytes 8 (st_blksize s) @ le_bytes 8 (st_blocks s)
     @ le_bytes 8 (ts_sec (st_atime s)) @ le_bytes 8 (ts_nsec (st_atime s))
     @ le_bytes 8 (ts_sec (st_mtime s)) @ le_bytes 8 (ts_nsec (st_mtime s))
     @ le_bytes 8 (ts_sec (st_ctime s)) @ le_bytes 8 (ts_nsec (st_ctime s)) @ replicate 24 0"

definition kstat_result :: "usize \<Rightarrow> (linux_error, i32) outcome \<times> stat option \<Rightarrow> ('n, 's, isize) call" where
  "kstat_result p res st =
     (case res of
        (Ok r, Some s) \<Rightarrow> sbind (mem (user_write_bytes False p (kstat_bytes s)) st) (\<lambda>_ st. (Ok 0, st))
      | (Ok r, None) \<Rightarrow> (Ok (scast r), st)
      | (Err e, _) \<Rightarrow> (Err (Errno e), st)
      | (Panic, _) \<Rightarrow> (Panic, st))"

definition sys_fstat :: "('n, 's) vfs \<Rightarrow> i32 \<Rightarrow> usize \<Rightarrow> ('n, 's, isize) call" where
  "sys_fstat v fd kstatbuf st =
     sbind (mem_errno (ptr_get_as USER_PTR_ACCESS kstatbuf 144 8) st) (\<lambda>p st.
       case posix_fstat v fd 1 (snd st) of (r, s, fx) \<Rightarrow> kstat_result p (r, s) (fst st, fx))"

text \<open>
  The path goes to \<^verbatim>\<open>sys_stat\<close> as a C string although the \<^verbatim>\<open>String\<close> has no terminator: the name continues with the bytes of the heap after
  it, \<open>junk\<close>, up to the first zero byte.
\<close>

definition sys_fstatat :: "('n, 's) vfs \<Rightarrow> u8 list \<Rightarrow> isize \<Rightarrow> usize \<Rightarrow> usize \<Rightarrow> ('n, 's, isize) call" where
  "sys_fstatat v junk dir_fd p kstatbuf st =
     sbind (mem (user_cstr USER_CONST_PTR_ACCESS p) st) (\<lambda>bs st.
     sbind (path_arg dir_fd p False bs st) (\<lambda>name st.
     sbind (mem_errno (ptr_get_as USER_PTR_ACCESS kstatbuf 144 8) st) (\<lambda>q st.
       case posix_stat v (char_ptr_to_str (bytes_of_string name @ junk)) 1 (snd st) of
         (r, s, fx) \<Rightarrow> kstat_result q (r, s) (fst st, fx))))"

definition AT_EMPTY_PATH :: u32 where "AT_EMPTY_PATH = 0x1000"

text \<open>\<^verbatim>\<open>LinuxError::try_from\<close>, on the variants of the model.\<close>

definition linux_error_try_from :: "i32 \<Rightarrow> linux_error option" where
  "linux_error_try_from c =
     List.find (\<lambda>e. of_nat (linux_error_code e) = c)
       [EPERM, ENOENT, ESRCH, EINTR, EIO, EBADF, ECHILD, EAGAIN, ENOMEM, EACCES, EFAULT, EBUSY, EEXIST, ENODEV, ENOTDIR, EISDIR,
        EINVAL, EMFILE, ENOSPC, ERANGE, ENOSYS, ENOTEMPTY, EILSEQ, EADDRINUSE, ECONNRESET, ENOTCONN, ECONNREFUSED]"

text \<open>The fields that \<^verbatim>\<open>sys_statx\<close> assigns: offset in the structure and bytes.\<close>

definition statx_fields :: "stat \<Rightarrow> (usize \<times> u8 list) list" where
  "statx_fields s =
     [(4, le_bytes 4 (st_blksize s)), (8, le_bytes 8 (ucast (st_mode s) :: u64)), (16, le_bytes 4 (st_nlink s)), (20, le_bytes 4 (st_uid s)),
      (24, le_bytes 4 (st_gid s)), (28, le_bytes 2 (st_mode s)), (32, le_bytes 8 (st_ino s)), (40, le_bytes 8 (st_size s)),
      (48, le_bytes 8 (st_blocks s)), (56, le_bytes 8 (0x7FF :: u64)),
      (64, le_bytes 8 (ts_sec (st_atime s))), (72, le_bytes 4 (ts_nsec (st_atime s))),
      (96, le_bytes 8 (ts_sec (st_ctime s))), (104, le_bytes 4 (ts_nsec (st_ctime s))),
      (112, le_bytes 8 (ts_sec (st_mtime s))), (120, le_bytes 4 (ts_nsec (st_mtime s)))]"

definition store_fields :: "usize \<Rightarrow> (usize \<times> u8 list) list \<Rightarrow> ('n, 's, unit) call" where
  "store_fields p fs st = fold (\<lambda>(off, bs) m. sbind m (\<lambda>_ st. mem (user_write_bytes False (p + off) bs) st)) fs (Ok (), st)"

definition sys_statx :: "('n, 's) vfs \<Rightarrow> i32 \<Rightarrow> usize \<Rightarrow> u32 \<Rightarrow> usize \<Rightarrow> ('n, 's, isize) call" where
  "sys_statx v dirfd pathname flags statxbuf st =
     sbind (mem (user_str pathname) st) (\<lambda>path st.
       if path \<noteq> [] then (Err (Errno ENOSYS), st)
       else if flags AND AT_EMPTY_PATH = 0 then (Err (Errno EINVAL), st)
       else case posix_fstat v dirfd 1 (snd st) of
         (Ok r, Some s, fx) \<Rightarrow>
           sbind (mem_errno (ptr_get_as USER_PTR_ACCESS statxbuf 160 8) (fst st, fx)) (\<lambda>p st.
           sbind (store_fields p (statx_fields s) st) (\<lambda>_ st. (Ok 0, st)))
       | (Ok r, None, fx) \<Rightarrow> (case linux_error_try_from (- r) of Some e \<Rightarrow> Err (Errno e) | None \<Rightarrow> Panic, (fst st, fx))
       | (Err e, _, fx) \<Rightarrow> (Err (Errno e), (fst st, fx))
       | (Panic, _, fx) \<Rightarrow> (Panic, (fst st, fx)))"

section \<open>Properties\<close>

lemma add_obj_cases:
  assumes "fo_inv (fx_table fx)" and "add_obj x fx = (r, fx')"
  obtains (added) i where "r = Ok (ucast i)" "fo_get i (fx_table fx) = None" "\<forall>j < i. fo_get j (fx_table fx) \<noteq> None"
      "\<forall>j. fo_get j (fx_table fx') = (if j = i then Some (fx_next fx) else fo_get j (fx_table fx))" "fx_objs fx' (fx_next fx) = x"
  | (full) "r = Err EMFILE" "fx_table fx' = fx_table fx"
proof -
  obtain k t where a: "fo_add (fx_next fx) (fx_table fx) = (k, t)" by fastforce
  show thesis
  proof (cases k)
    case None
    then show ?thesis using full fo.add_None [OF assms(1)] assms(2) a by (auto simp: add_obj_def add_file_like_def)
  next
    case (Some i)
    then have e: "r = Ok (ucast i)" "fx_table fx' = t" "fx_objs fx' (fx_next fx) = x"
      using assms(2) a by (auto simp: add_obj_def add_file_like_def)
    from fo.add_Some [OF assms(1), of "fx_next fx" i t] a Some e show ?thesis by (intro added [of i]) auto
  qed
qed

lemma on_fs_table: "on_fs f fx = (r, fx') \<Longrightarrow> fx_table fx' = fx_table fx"
  by (auto simp: on_fs_def split: prod.splits)

lemma open_then_add:
  assumes "fo_inv (fx_table fx)" and "sbind (on_fs f fx) (\<lambda>y fx. add_obj (mk y) fx) = (r, fx')"
  obtains (added) i o' y where "r = Ok (ucast i)" "fo_get i (fx_table fx) = None" "\<forall>j < i. fo_get j (fx_table fx) \<noteq> None"
      "\<forall>j. fo_get j (fx_table fx') = (if j = i then Some o' else fo_get j (fx_table fx))" "fx_objs fx' o' = mk y"
      "\<exists>st st'. f st = (Ok y, st')"
  | (failed) "\<not> (\<exists>a. r = Ok a)" "fx_table fx' = fx_table fx"
proof -
  obtain r1 fx1 where o: "on_fs f fx = (r1, fx1)" by fastforce
  note t = on_fs_table [OF o]
  show thesis
  proof (cases r1)
    case (Ok y)
    then obtain st' where y: "f (fx_fs fx) = (Ok y, st')" using o by (cases "f (fx_fs fx)"; cases "fst (f (fx_fs fx))") (auto simp: on_fs_def)
    have a: "add_obj (mk y) fx1 = (r, fx')" using assms(2) o Ok by simp
    have inv: "fo_inv (fx_table fx1)" using assms(1) t by simp
    show ?thesis
    proof (rule add_obj_cases [OF inv a])
      fix i assume "r = Ok (ucast i)" "fo_get i (fx_table fx1) = None" "\<forall>j < i. fo_get j (fx_table fx1) \<noteq> None"
        "\<forall>j. fo_get j (fx_table fx') = (if j = i then Some (fx_next fx1) else fo_get j (fx_table fx1))" "fx_objs fx' (fx_next fx1) = mk y"
      with y t show ?thesis by (intro added [of i "fx_next fx1" y]) auto
    next
      assume "r = Err EMFILE" "fx_table fx' = fx_table fx1"
      with t show ?thesis by (intro failed) auto
    qed
  next
    case (Err e)
    then show ?thesis using assms(2) o t by (intro failed) auto
  next
    case Panic
    then show ?thesis using assms(2) o t by (intro failed) auto
  qed
qed

text \<open>
  C27. \<^verbatim>\<open>open\<close> either returns the lowest free descriptor, which then stands for a file with exactly the access rights the flags ask for
  or for a directory, and leaves every other descriptor alone; or it returns an error and leaves the table alone.
\<close>

theorem open_installs_lowest:
  assumes "fo_inv (fx_table fx)" and "posix_open v (Ok name) flags fx = (Ok r, fx')"
  shows "(\<exists>i o'. r = ucast i \<and> fo_get i (fx_table fx) = None \<and> (\<forall>j < i. fo_get j (fx_table fx) \<noteq> None)
      \<and> (\<forall>j. fo_get j (fx_table fx') = (if j = i then Some o' else fo_get j (fx_table fx)))
      \<and> ((\<exists>f. fx_objs fx' o' = FileObj f name \<and> fl_cap f = cap_of_opts (flags_to_options flags)) \<or> (\<exists>d. fx_objs fx' o' = DirObj d name)))
    \<or> (\<exists>e. r = neg_code e \<and> fx_table fx' = fx_table fx)"
    (is "?installed r fx' \<or> ?failed r fx'")
proof -
  let ?opts = "flags_to_options flags"
  let ?file = "sbind (on_fs (file_open v name ?opts) fx) (\<lambda>f fx. add_obj (FileObj f name) fx)"
  let ?dir = "\<lambda>fx. sbind (on_fs (dir_open_dir v name ?opts) fx) (\<lambda>d fx. add_obj (DirObj d name) fx)"
  let ?claim = "\<lambda>m. (\<forall>a fx2. m = (Ok a, fx2) \<longrightarrow> ?installed a fx2) \<and> (\<forall>e fx2. m = (Err e, fx2) \<longrightarrow> fx_table fx2 = fx_table fx)"
  have d: "?claim (?dir fx1)" if t: "fx_table fx1 = fx_table fx" for fx1
  proof -
    obtain a fx2 where m: "?dir fx1 = (a, fx2)" by fastforce
    have inv: "fo_inv (fx_table fx1)" using assms(1) t by simp
    show ?thesis by (rule open_then_add [OF inv m]; use m t in auto)
  qed
  obtain a fx1 where f: "?file = (a, fx1)" by fastforce
  have fc: "?claim (a, fx1)"
  proof (rule open_then_add [OF assms(1) f])
    fix i o' y
    assume 1: "a = Ok (ucast i)" "fo_get i (fx_table fx) = None" "\<forall>j < i. fo_get j (fx_table fx) \<noteq> None"
      "\<forall>j. fo_get j (fx_table fx1) = (if j = i then Some o' else fo_get j (fx_table fx))" "fx_objs fx1 o' = FileObj y name"
      and "\<exists>st st'. file_open v name ?opts st = (Ok y, st')"
    then have "fl_cap y = cap_of_opts ?opts" unfolding file_open_def by (auto dest: open_at_OkD)
    with 1 show ?thesis by auto
  qed auto
  have "?claim (add_file_or_directory_fd (file_open v) (dir_open_dir v) name ?opts fx)"
  proof (cases "oo_directory ?opts")
    case True
    then show ?thesis using d [of fx] by (simp add: add_file_or_directory_fd_def)
  next
    case False
    show ?thesis
    proof (cases "a = Err EISDIR")
      case True
      then have "fx_table fx1 = fx_table fx" using fc by simp
      with d [of fx1] False f True show ?thesis by (simp add: add_file_or_directory_fd_def Let_def)
    next
      case a: False
      have "add_file_or_directory_fd (file_open v) (dir_open_dir v) name ?opts fx = (a, fx1)"
        using False f a unfolding add_file_or_directory_fd_def Let_def
        by (cases a) (auto split: linux_error.splits)
      with fc show ?thesis by simp
    qed
  qed
  then show ?thesis using assms(2) unfolding posix_open_def body_of_def
    by (cases "add_file_or_directory_fd (file_open v) (dir_open_dir v) name ?opts fx";
        cases "fst (add_file_or_directory_fd (file_open v) (dir_open_dir v) name ?opts fx)")
      (auto simp: syscall_body_def)
qed

theorem open_installs_lowest_witness:
  "\<exists>fx'. posix_open ramfs (Ok ''a'') 0 demo_files = (Ok 0, fx') \<and> (\<exists>o'. fo_get 0 (fx_table fx') = Some o')"
proof -
  have o: "file_open ramfs ''a'' (flags_to_options 0) demo_fs = (Ok \<lparr>fl_node = Sub 1, fl_cap = 1, fl_append = False, fl_offset = 0\<rparr>, demo_fs)"
    using demo_open [of None] by (simp add: file_open_def flags_to_options_def o_flag_defs)
  have d: "\<not> oo_directory (flags_to_options 0)" by (simp add: flags_to_options_def open_options_new_def o_flag_defs)
  have z: "first_false_index fo_new = Some 0" by (rule first_false_indexI) (simp_all add: fo_new_def AX_FILE_LIMIT_NAT_def)
  have t: "fx_table demo_files = fo_new" "fx_fs demo_files = demo_fs" by (simp_all add: demo_files_def)
  obtain fx' where p: "posix_open ramfs (Ok ''a'') 0 demo_files = (Ok 0, fx')"
    using d by (simp add: posix_open_def body_of_def syscall_body_def add_file_or_directory_fd_def on_fs_def t o add_obj_def add_file_like_def fo_add_def z Let_def)
  have inv: "fo_inv (fx_table demo_files)" by (simp add: t fo_inv_def fo_new_def)
  have e: "fo_get j (fx_table demo_files) = None" for j by (simp add: t fo_get_eq fo_new_def)
  have n: "(0 :: i32) \<noteq> neg_code x" for x by (cases x) (simp_all add: neg_code_def)
  have "\<exists>i o'. (\<forall>j < i. fo_get j (fx_table demo_files) \<noteq> None) \<and> fo_get i (fx_table fx') = Some o'"
    using open_installs_lowest [OF inv p] n by force
  then obtain i o' where i: "\<forall>j < i. fo_get j (fx_table demo_files) \<noteq> None" "fo_get i (fx_table fx') = Some o'" by blast
  then have "i = 0" using e by (metis word_gt_0)
  with i p show ?thesis by blast
qed

lemma get_as_bytes_huge: "0x8000000000000000 \<le> n \<Longrightarrow> get_as_bytes f p n m = (Panic, m)"
  by (simp add: get_as_bytes_def layout_size_ok_def word_le_nat_alt)

lemma mem_errno_huge: "0x8000000000000000 \<le> n \<Longrightarrow> mem_errno (get_as_bytes f p n) st = (Panic, st)"
  by (cases st) (simp add: mem_errno_def mem_def errno_def get_as_bytes_huge)

lemma scast_negative:
  assumes "i <s (0 :: i32)" shows "(0x8000000000000000 :: usize) \<le> scast i"
proof -
  have s: "sint i < 0" using assms unfolding word_sless_alt by simp
  have r: "- (2 ^ 31) \<le> sint i" using sint_greater_eq [of i] by simp
  have "(scast i :: usize) = word_of_int (sint i)" by (rule scast_eq)
  then have "uint (scast i :: usize) = take_bit 64 (sint i)" by (simp only: uint_word_of_int_eq) simp
  also have "\<dots> = (sint i + 2 ^ 64) mod 2 ^ 64" unfolding take_bit_eq_mod by simp
  also have "\<dots> = sint i + 2 ^ 64" by (rule mod_pos_pos_trivial) (use s r in simp_all)
  finally show ?thesis using r unfolding word_le_def by simp
qed

text \<open>
  A length above \<^verbatim>\<open>isize::MAX\<close> passed to \<^verbatim>\<open>read\<close>, \<^verbatim>\<open>write\<close> or \<^verbatim>\<open>getdents64\<close>, or a negative count passed to \<^verbatim>\<open>writev\<close>, panics the kernel
  instead of being refused.
\<close>

lemma huge_length_panics:
  assumes "0x8000000000000000 \<le> count" and "iocnt <s 0"
  shows "fst (sys_read v fd buf count st) = Panic \<and> fst (sys_write v fd buf count st) = Panic
    \<and> fst (sys_writev v fd buf iocnt st) = Panic \<and> sys_getdents64 v fd buf count st = Some (Panic, st)"
  using assms scast_negative [OF assms(2)]
  by (simp add: sys_read_def sys_write_def sys_writev_def sys_getdents64_def mem_errno_huge)

end
