(* ===== verification/File_Api.thy ===== *)
theory File_Api
  imports Ram_Fs
begin

text \<open>
  The file interface the kernel itself uses (\<^verbatim>\<open>.arceos/modules/axfs/src/api\<close>): opening a file by name, reading all of it, writing
  all of it. \<^verbatim>\<open>default_read_to_end\<close> of \<^verbatim>\<open>vendor/axio\<close> is modelled with the capacity of its vector, which decides how much each
  read asks for; the heap is taken to serve every request of at most \<^verbatim>\<open>isize::MAX\<close> bytes.

  Lemmas: reading all of a file returns, with the contents of the file; \<^verbatim>\<open>write_all\<close> leaves the buffer in the file.
\<close>

section \<open>Files\<close>

definition api_open :: "('n, 's) vfs \<Rightarrow> string \<Rightarrow> ('n, 's, 'n open_file) fs_op" where
  "api_open v path = file_open v path (open_options_new\<lparr>oo_read := True\<rparr>)"

definition api_create :: "('n, 's) vfs \<Rightarrow> string \<Rightarrow> ('n, 's, 'n open_file) fs_op" where
  "api_create v path = file_open v path (open_options_new\<lparr>oo_write := True, oo_create := True, oo_truncate := True\<rparr>)"

definition api_create_new :: "('n, 's) vfs \<Rightarrow> string \<Rightarrow> ('n, 's, 'n open_file) fs_op" where
  "api_create_new v path = file_open v path (open_options_new\<lparr>oo_read := True, oo_write := True, oo_create_new := True\<rparr>)"

text \<open>A \<^verbatim>\<open>File\<close> as a reader: the state has the file with its offset.\<close>

definition api_file_read :: "('n, 's) vfs \<Rightarrow> nat \<Rightarrow> 'n open_file \<times> ('n, 's) fsys \<Rightarrow> (ax_error, u8 list) outcome \<times> 'n open_file \<times> ('n, 's) fsys" where
  "api_file_read v n = (\<lambda>(f, st).
     case file_read v n f st of
       (Ok (bs, f'), st') \<Rightarrow> (Ok bs, (f', st'))
     | (Err e, st') \<Rightarrow> (Err e, (f, st'))
     | (Panic, st') \<Rightarrow> (Panic, (f, st')))"

section \<open>Reading to the end\<close>

definition PROBE_SIZE :: nat where "PROBE_SIZE = 32"

text \<open>The capacity of a byte vector of length \<open>len\<close> after room for \<open>n\<close> more bytes was reserved.\<close>

definition vec_reserve :: "nat \<Rightarrow> nat \<Rightarrow> nat \<Rightarrow> nat" where
  "vec_reserve cap len n = (if cap - len < n then max 8 (max (2 * cap) (len + n)) else cap)"

definition small_probe_read ::
  "(nat \<Rightarrow> 'st \<Rightarrow> (ax_error, u8 list) outcome \<times> 'st) \<Rightarrow> nat \<Rightarrow> u8 list \<Rightarrow> 'st \<Rightarrow> (ax_error, bool \<times> nat \<times> u8 list) outcome \<times> 'st" where
  "small_probe_read rd cap buf s =
     sbind (rd PROBE_SIZE s) (\<lambda>bs s. (Ok (bs = [], vec_reserve cap (length buf) (length bs), buf @ bs), s))"

text \<open>
  An iteration of the loop of \<^verbatim>\<open>default_read_to_end\<close>, which has the limit of a read, the capacity and the buffer. The buffer is
  always initialized before it is read into, so the limit is lifted only after full reads.
\<close>

definition read_to_end_step ::
  "(nat \<Rightarrow> 'st \<Rightarrow> (ax_error, u8 list) outcome \<times> 'st) \<Rightarrow> usize option \<Rightarrow> nat \<Rightarrow> nat \<times> nat \<times> u8 list \<Rightarrow> 'st
     \<Rightarrow> (ax_error, u8 list + nat \<times> nat \<times> u8 list) outcome \<times> 'st" where
  "read_to_end_step rd size_hint start_cap = (\<lambda>(max_read_size, cap, buf) s.
     sbind (if length buf = cap \<and> cap = start_cap then small_probe_read rd cap buf s else (Ok (False, cap, buf), s)) (\<lambda>(eof, cap, buf) s.
       if eof then (Ok (Inl buf), s)
       else
         let cap = (if length buf = cap then vec_reserve cap (length buf) PROBE_SIZE else cap) in
         if ISIZE_MAX < cap then (Err NoMemory, s)
         else
           let buf_len = min (cap - length buf) max_read_size in
           sbind (rd buf_len s) (\<lambda>bs s.
             if bs = [] then (Ok (Inl buf), s)
             else
               (Ok (Inr (if size_hint = None \<and> max_read_size \<le> buf_len \<and> length bs = buf_len
                         then min (2 * max_read_size) (2 ^ 64 - 1) else max_read_size, cap, buf @ bs)), s))))"

partial_function (option) read_to_end_loop ::
  "(nat \<Rightarrow> 'st \<Rightarrow> (ax_error, u8 list) outcome \<times> 'st) \<Rightarrow> usize option \<Rightarrow> nat \<Rightarrow> nat \<times> nat \<times> u8 list \<Rightarrow> 'st
     \<Rightarrow> ((ax_error, u8 list) outcome \<times> 'st) option" where
  "read_to_end_loop rd size_hint start_cap l s =
     (case read_to_end_step rd size_hint start_cap l s of
        (Ok (Inl buf), s) \<Rightarrow> Some (Ok buf, s)
      | (Ok (Inr l), s) \<Rightarrow> read_to_end_loop rd size_hint start_cap l s
      | (Err e, s) \<Rightarrow> Some (Err e, s)
      | (Panic, s) \<Rightarrow> Some (Panic, s))"

definition first_read_size :: "usize option \<Rightarrow> nat" where
  "first_read_size size_hint =
     (case size_hint of
        None \<Rightarrow> 1024
      | Some s \<Rightarrow> (let n = ((unat s + 1024) + 1023) div 1024 * 1024 in if unat s + 1024 < 2 ^ 64 \<and> n < 2 ^ 64 then n else 1024))"

definition default_read_to_end ::
  "(nat \<Rightarrow> 'st \<Rightarrow> (ax_error, u8 list) outcome \<times> 'st) \<Rightarrow> usize option \<Rightarrow> nat \<Rightarrow> 'st \<Rightarrow> ((ax_error, u8 list) outcome \<times> 'st) option" where
  "default_read_to_end rd size_hint cap s =
     (case (if (size_hint = None \<or> size_hint = Some 0) \<and> cap < PROBE_SIZE then small_probe_read rd cap [] s
            else (Ok (False, cap, []), s)) of
        (Ok (eof, cap', buf), s) \<Rightarrow>
          if eof then Some (Ok buf, s) else read_to_end_loop rd size_hint cap (first_read_size size_hint, cap', buf) s
      | (Err e, s) \<Rightarrow> Some (Err e, s)
      | (Panic, s) \<Rightarrow> Some (Panic, s))"

text \<open>\<^verbatim>\<open>axfs::api::read\<close>; the file is closed at the end.\<close>

definition api_read :: "('n, 's) vfs \<Rightarrow> string \<Rightarrow> ('n, 's) fsys \<Rightarrow> ((ax_error, u8 list) outcome \<times> ('n, 's) fsys) option" where
  "api_read v path st =
     (case api_open v path st of
        (Ok f, st) \<Rightarrow>
          (case file_get_attr v f st of
             (Panic, st) \<Rightarrow> Some (Panic, st)
           | (r, st) \<Rightarrow>
               let sz = (case r of Ok a \<Rightarrow> unat (at_size a) | _ \<Rightarrow> 0) in
               if ISIZE_MAX < sz then Some (Panic, st)
               else
                 case file_get_attr v f st of
                   (Panic, st) \<Rightarrow> Some (Panic, st)
                 | (r, st) \<Rightarrow>
                     map_option (\<lambda>(x, (f, st)). (x, file_drop v f st))
                       (default_read_to_end (api_file_read v) (case r of Ok a \<Rightarrow> Some (at_size a) | _ \<Rightarrow> None) sz (f, st)))
      | (Err e, st) \<Rightarrow> Some (Err e, st)
      | (Panic, st) \<Rightarrow> Some (Panic, st))"

section \<open>Writing all\<close>

text \<open>\<^verbatim>\<open>Write::write_all\<close> on a file; a count beyond the buffer panics in the slice.\<close>

function write_all :: "('n, 's) vfs \<Rightarrow> u8 list \<Rightarrow> 'n open_file \<Rightarrow> ('n, 's, 'n open_file) fs_op" where
  "write_all v buf f st =
     (if buf = [] then (Ok f, st)
      else case file_write v buf f st of
        (Ok (n, f'), st) \<Rightarrow>
          if n = 0 then (Err WriteZero, st)
          else if length buf < unat n then (Panic, st)
          else write_all v (drop (unat n) buf) f' st
      | (Err e, st) \<Rightarrow> (Err e, st)
      | (Panic, st) \<Rightarrow> (Panic, st))"
  by pat_completeness auto
termination
  by (relation "measure (\<lambda>(v, buf, f, st). length buf)") (auto simp: unat_gt_0)

declare write_all.simps [simp del]

definition api_write :: "('n, 's) vfs \<Rightarrow> string \<Rightarrow> u8 list \<Rightarrow> ('n, 's, unit) fs_op" where
  "api_write v path contents st =
     sbind (api_create v path st) (\<lambda>f st.
       case write_all v contents f st of
         (Ok f, st) \<Rightarrow> (Ok (), file_drop v f st)
       | (Err e, st) \<Rightarrow> (Err e, file_drop v f st)
       | (Panic, st) \<Rightarrow> (Panic, st))"

section \<open>Properties\<close>

lemma first_read_size_ge:
  assumes "unat sz = k" "k \<le> ISIZE_MAX"
  shows "k \<le> first_read_size (Some sz)"
proof -
  let ?n = "(k + 1024 + 1023) div 1024 * 1024"
  have "?n + (k + 1024 + 1023) mod 1024 = k + 1024 + 1023" by (rule div_mult_mod_eq)
  moreover have "(k + 1024 + 1023) mod 1024 < 1024" by simp
  ultimately have "k \<le> ?n" "?n \<le> k + 2047" by linarith+
  moreover have "k + 2047 < 2 ^ 64" using assms(2) by (simp add: ISIZE_MAX_def)
  ultimately have "k \<le> ?n" "?n < 2 ^ 64" "k + 1024 < 2 ^ 64" by linarith+
  then show ?thesis unfolding first_read_size_def Let_def option.case assms(1) by (simp only: if_True simp_thms)
qed

context file_store
begin

lemma api_file_read_ok:
  assumes "fl_node f = Sub n" "content n (fs_sub st) = Some c" "cap_contains (fl_cap f) CAP_READ"
    and "unat (fl_offset f) + len \<le> limit"
  shows "api_file_read v len (f, st) = (Ok (take len (drop (unat (fl_offset f)) c)),
     (f\<lparr>fl_offset := fl_offset f + of_nat (length (take len (drop (unat (fl_offset f)) c)))\<rparr>, st))"
  using read_ok [OF assms] by (simp add: api_file_read_def)

lemma get_attr_ok:
  assumes "fl_node f = Sub n" "content n (fs_sub st) = Some c"
  shows "\<exists>a. file_get_attr v f st = (Ok a, st) \<and> unat (at_size a) = length c"
  using attr [OF assms(2)] assms(1)
  by (auto simp: file_get_attr_def file_access_def access_or_err_def cap_contains_def nd_get_attr_def sub_def)

lemma read_to_end_ok:
  assumes f: "fl_node f = Sub n" "content n (fs_sub st) = Some c" "cap_contains (fl_cap f) CAP_READ" "fl_offset f = 0"
    and len: "length c + 32 \<le> limit" "length c \<le> ISIZE_MAX" "unat sz = length c"
  shows "\<exists>f'. default_read_to_end (api_file_read v) (Some sz) (length c) (f, st) = Some (Ok c, (f', st)) \<and> fl_node f' = fl_node f"
proof (cases "c = []")
  case True
  have "sz = 0" using True len by (simp add: unat_eq_0)
  then show ?thesis
    using True f len api_file_read_ok [OF f(1-3), of PROBE_SIZE]
    by (auto simp: default_read_to_end_def small_probe_read_def PROBE_SIZE_def)
next
  case False
  let ?f1 = "f\<lparr>fl_offset := of_nat (length c)\<rparr>"
  have off: "unat (of_nat (length c) :: u64) = length c" using len limit by (simp add: unat_of_nat)
  have r1: "api_file_read v (length c) (f, st) = (Ok c, (?f1, st))"
    using api_file_read_ok [OF f(1-3), of "length c"] f(4) len by simp
  have r2: "api_file_read v PROBE_SIZE (?f1, st) = (Ok [], (?f1, st))"
    using api_file_read_ok [of ?f1 n st c PROBE_SIZE] f len by (simp add: off PROBE_SIZE_def)
  have sz: "sz \<noteq> 0" using False len(3) by auto
  have "length c \<le> first_read_size (Some sz)" by (rule first_read_size_ge [OF len(3,2)])
  then have s1: "read_to_end_step (api_file_read v) (Some sz) (length c) (first_read_size (Some sz), length c, []) (f, st)
      = (Ok (Inr (first_read_size (Some sz), length c, c)), (?f1, st))"
    using False r1 len(2) by (simp add: read_to_end_step_def Let_def)
  have s2: "read_to_end_step (api_file_read v) (Some sz) (length c) (first_read_size (Some sz), length c, c) (?f1, st)
      = (Ok (Inl c), (?f1, st))"
    using r2 by (simp add: read_to_end_step_def small_probe_read_def)
  have "read_to_end_loop (api_file_read v) (Some sz) (length c) (first_read_size (Some sz), length c, []) (f, st) = Some (Ok c, (?f1, st))"
    by (subst read_to_end_loop.simps, simp add: s1, subst read_to_end_loop.simps, simp add: s2)
  then show ?thesis using sz by (simp add: default_read_to_end_def)
qed

lemma api_read_ok:
  assumes "api_open v path st = (Ok f, st1)" "fl_node f = Sub n" "content n (fs_sub st1) = Some c"
    and "length c + 32 \<le> limit" "length c \<le> ISIZE_MAX"
  shows "\<exists>st2. api_read v path st = Some (Ok c, st2)"
proof -
  note o = open_at_OkD [OF assms(1) [unfolded api_open_def file_open_def]]
  have cap: "cap_contains (fl_cap f) CAP_READ" by (simp add: o(2) cap_of_opts_contains)
  obtain a where a: "file_get_attr v f st1 = (Ok a, st1)" "unat (at_size a) = length c"
    using get_attr_ok [OF assms(2,3)] by blast
  obtain f' where "default_read_to_end (api_file_read v) (Some (at_size a)) (length c) (f, st1) = Some (Ok c, (f', st1))"
    using read_to_end_ok [OF assms(2,3) cap o(4) assms(4,5) a(2)] by blast
  with assms a show ?thesis by (simp add: api_read_def Let_def)
qed

lemma write_all_ok:
  assumes "fl_node f = Sub n" "content n (fs_sub st) = Some c" "cap_contains (fl_cap f) CAP_WRITE" "\<not> fl_append f"
    and "unat (fl_offset f) + length bs \<le> limit" "bs \<noteq> []"
  shows "\<exists>f' s'. write_all v bs f st = (Ok f', st\<lparr>fs_sub := s'\<rparr>) \<and> content n s' = Some (overwrite c (unat (fl_offset f)) bs)"
proof -
  obtain s' where w: "file_write v bs f st
      = (Ok (of_nat (length bs), f\<lparr>fl_offset := fl_offset f + of_nat (length bs)\<rparr>), st\<lparr>fs_sub := s'\<rparr>)"
    "content n s' = Some (overwrite c (unat (fl_offset f)) bs)"
    using write_ok [OF assms(1-5)] by blast
  have "unat (of_nat (length bs) :: u64) = length bs" using assms(5) limit by (simp add: unat_of_nat)
  moreover from this have "(of_nat (length bs) :: u64) \<noteq> 0" using assms(6) by (metis length_0_conv unat_0)
  ultimately show ?thesis using w assms(6)
    by (subst write_all.simps) (auto simp: write_all.simps [of v "[]"])
qed

end

text \<open>
  C22. The kernel reads a whole file of the RAM file system: when the file opens, \<^verbatim>\<open>axfs::api::read\<close> returns (the read loop ends),
  and returns exactly the contents of the file.
\<close>

theorem read_whole_file:
  assumes "api_open ramfs path st = (Ok f, st1)" and "fl_node f = Sub n" and "ram_content n (fs_sub st1) = Some c"
    and "length c + 32 \<le> ISIZE_MAX"
  shows "\<exists>st2. api_read ramfs path st = Some (Ok c, st2)"
  using assms(4) by (intro ram_store.api_read_ok [OF assms(1-3)]) auto

theorem read_whole_file_witness: "\<exists>st2. api_read ramfs ''a'' demo_fs = Some (Ok [65], st2)"
proof (rule read_whole_file)
  show "api_open ramfs ''a'' demo_fs = (Ok \<lparr>fl_node = Sub 1, fl_cap = 1, fl_append = False, fl_offset = 0\<rparr>, demo_fs)"
    unfolding api_open_def file_open_def by (rule demo_open) simp
qed (auto simp: demo_fs_def ram_content_def ISIZE_MAX_def)

end
