(* ===== verification/User_Stack.thy ===== *)
theory User_Stack
  imports File_Objects
begin

unbundle bit_operations_syntax

text \<open>
  Executable files and the initial stack of a program (\<^verbatim>\<open>vendor/kernel-elf-parser\<close>). What \<^verbatim>\<open>xmas_elf\<close> reads from a file is the
  record \<open>elf_file\<close>.

  Lemmas: the stack that is built holds what a C runtime expects: the number of arguments, the pointers to the argument and
  environment strings with the strings behind them, and the null pointers that end both lists.
\<close>

section \<open>Executable files\<close>

datatype elf_type = Executable | SharedObject | OtherType
datatype ph_type = PhLoad | PhInterp | PhOther

record program_header =
  ph_type :: ph_type
  ph_offset :: u64
  ph_vaddr :: u64
  ph_file_size :: u64
  ph_mem_size :: u64
  ph_read :: bool
  ph_write :: bool
  ph_execute :: bool

record elf_file =
  ef_input :: "u8 list"
  ef_magic :: "u8 list"
  ef_type :: elf_type
  ef_entry :: u64
  ef_ph_offset :: u64
  ef_ph_entry_size :: u16
  ef_ph_count :: u16
  ef_program :: "program_header list"

definition elf_interps :: "elf_file \<Rightarrow> program_header list" where
  "elf_interps elf = filter (\<lambda>ph. ph_type ph = PhInterp) (ef_program elf)"

definition elf_loads :: "elf_file \<Rightarrow> program_header list" where
  "elf_loads elf = filter (\<lambda>ph. ph_type ph = PhLoad) (ef_program elf)"

definition elf_base_addr :: "elf_file \<Rightarrow> usize \<Rightarrow> usize option" where
  "elf_base_addr elf interp_base =
     (case ef_type elf of
        Executable \<Rightarrow> Some 0
      | SharedObject \<Rightarrow>
          if length (elf_interps elf) = 0 then Some interp_base else if length (elf_interps elf) = 1 then Some 0 else None
      | OtherType \<Rightarrow> None)"

text \<open>\<^verbatim>\<open>ELFParser::new\<close>: the base address of the file in memory.\<close>

definition elf_parser_new :: "elf_file \<Rightarrow> usize \<Rightarrow> usize option \<Rightarrow> usize \<Rightarrow> usize option" where
  "elf_parser_new elf interp_base bias uspace_base =
     (if ef_magic elf \<noteq> [0x7f, 0x45, 0x4c, 0x46] then None
      else
        let is_pie = (ef_type elf = SharedObject \<or> (ef_type elf = Executable \<and> elf_interps elf \<noteq> [])) in
        if \<not> is_pie \<and> list_ex (\<lambda>ph. ph_vaddr ph < uspace_base) (elf_loads elf) then None
        else map_option (\<lambda>base. if is_pie then base + (case bias of Some b \<Rightarrow> b | None \<Rightarrow> 0) else base) (elf_base_addr elf interp_base))"

definition elf_entry :: "elf_file \<Rightarrow> usize \<Rightarrow> usize" where
  "elf_entry elf base = ef_entry elf + base"

definition elf_phdr :: "elf_file \<Rightarrow> usize \<Rightarrow> usize" where
  "elf_phdr elf base = ef_ph_offset elf + base + (case elf_loads elf of ph # _ \<Rightarrow> ph_vaddr ph | [] \<Rightarrow> 0)"

record elfph =
  sg_offset :: usize
  sg_vaddr :: usize
  sg_memsz :: u64
  sg_filesz :: u64
  sg_flags :: mapping_flags

definition ph_load :: "elf_file \<Rightarrow> usize \<Rightarrow> elfph list" where
  "ph_load elf base =
     map (\<lambda>ph. \<lparr>sg_offset = ph_offset ph, sg_vaddr = ph_vaddr ph + base, sg_memsz = ph_mem_size ph, sg_filesz = ph_file_size ph,
       sg_flags = USER OR (if ph_read ph then READ else 0) OR (if ph_write ph then WRITE else 0) OR (if ph_execute ph then EXECUTE else 0)\<rparr>)
     (elf_loads elf)"

section \<open>Auxiliary vector\<close>

datatype auxv_type =
    AT_NULL | AT_IGNORE | AT_EXECFD | AT_PHDR | AT_PHENT | AT_PHNUM | AT_PAGESZ | AT_BASE | AT_FLAGS | AT_ENTRY | AT_NOTELF |
    AT_UID | AT_EUID | AT_GID | AT_EGID | AT_PLATFORM | AT_HWCAP | AT_CLKTCK | AT_FPUCW | AT_DCACHEBSIZE | AT_ICACHEBSIZE |
    AT_UCACHEBSIZE | AT_IGNOREPPC | AT_SECURE | AT_BASE_PLATFORM | AT_RANDOM | AT_HWCAP2 | AT_EXECFN | AT_SYSINFO |
    AT_SYSINFO_EHDR | AT_L1I_CACHESHAPE | AT_L1D_CACHESHAPE | AT_L2_CACHESHAPE | AT_L3_CACHESHAPE | AT_L1I_CACHESIZE |
    AT_L1I_CACHEGEOMETRY | AT_L1D_CACHESIZE | AT_L1D_CACHEGEOMETRY | AT_L2_CACHESIZE | AT_L2_CACHEGEOMETRY | AT_L3_CACHESIZE |
    AT_L3_CACHEGEOMETRY | AT_MINSIGSTKSZ

fun auxv_code :: "auxv_type \<Rightarrow> usize" where
  "auxv_code AT_NULL = 0" | "auxv_code AT_IGNORE = 1" | "auxv_code AT_EXECFD = 2" | "auxv_code AT_PHDR = 3" |
  "auxv_code AT_PHENT = 4" | "auxv_code AT_PHNUM = 5" | "auxv_code AT_PAGESZ = 6" | "auxv_code AT_BASE = 7" |
  "auxv_code AT_FLAGS = 8" | "auxv_code AT_ENTRY = 9" | "auxv_code AT_NOTELF = 10" | "auxv_code AT_UID = 11" |
  "auxv_code AT_EUID = 12" | "auxv_code AT_GID = 13" | "auxv_code AT_EGID = 14" | "auxv_code AT_PLATFORM = 15" |
  "auxv_code AT_HWCAP = 16" | "auxv_code AT_CLKTCK = 17" | "auxv_code AT_FPUCW = 18" | "auxv_code AT_DCACHEBSIZE = 19" |
  "auxv_code AT_ICACHEBSIZE = 20" | "auxv_code AT_UCACHEBSIZE = 21" | "auxv_code AT_IGNOREPPC = 22" |
  "auxv_code AT_SECURE = 23" | "auxv_code AT_BASE_PLATFORM = 24" | "auxv_code AT_RANDOM = 25" | "auxv_code AT_HWCAP2 = 26" |
  "auxv_code AT_EXECFN = 31" | "auxv_code AT_SYSINFO = 32" | "auxv_code AT_SYSINFO_EHDR = 33" |
  "auxv_code AT_L1I_CACHESHAPE = 34" | "auxv_code AT_L1D_CACHESHAPE = 35" | "auxv_code AT_L2_CACHESHAPE = 36" |
  "auxv_code AT_L3_CACHESHAPE = 37" | "auxv_code AT_L1I_CACHESIZE = 40" | "auxv_code AT_L1I_CACHEGEOMETRY = 41" |
  "auxv_code AT_L1D_CACHESIZE = 42" | "auxv_code AT_L1D_CACHEGEOMETRY = 43" | "auxv_code AT_L2_CACHESIZE = 44" |
  "auxv_code AT_L2_CACHEGEOMETRY = 45" | "auxv_code AT_L3_CACHESIZE = 46" | "auxv_code AT_L3_CACHEGEOMETRY = 47" |
  "auxv_code AT_MINSIGSTKSZ = 51"

type_synonym auxv_entry = "auxv_type \<times> usize"

definition auxv_vector :: "elf_file \<Rightarrow> usize \<Rightarrow> usize \<Rightarrow> auxv_entry list" where
  "auxv_vector elf base pagesz =
     [(AT_PHDR, elf_phdr elf base), (AT_PHENT, ucast (ef_ph_entry_size elf)), (AT_PHNUM, ucast (ef_ph_count elf)),
      (AT_PAGESZ, pagesz), (AT_BASE, base), (AT_FLAGS, 0), (AT_ENTRY, elf_entry elf base), (AT_HWCAP, 0), (AT_CLKTCK, 100),
      (AT_PLATFORM, 0), (AT_UID, 0), (AT_EUID, 0), (AT_GID, 0), (AT_EGID, 0), (AT_RANDOM, 0), (AT_EXECFN, 0)]"

section \<open>The stack\<close>

text \<open>The stack pointer and the bytes from it up to the top.\<close>

type_synonym user_stack = "usize \<times> u8 list"

definition stack_push :: "u8 list \<Rightarrow> user_stack \<Rightarrow> user_stack" where
  "stack_push src = (\<lambda>(sp, data). (sp - of_nat (length src), src @ data))"

definition push_usize_slice :: "usize list \<Rightarrow> user_stack \<Rightarrow> user_stack" where
  "push_usize_slice src st = fold (\<lambda>w. stack_push (le_bytes 8 w)) (rev src) st"

definition push_str :: "string \<Rightarrow> user_stack \<Rightarrow> usize \<times> user_stack" where
  "push_str s st = (let st = stack_push (bytes_of_string s) (stack_push [0] st) in (fst st, st))"

fun push_strs :: "string list \<Rightarrow> user_stack \<Rightarrow> usize list \<times> user_stack" where
  "push_strs [] st = ([], st)"
| "push_strs (s # ss) st = (case push_str s st of (p, st) \<Rightarrow> case push_strs ss st of (ps, st) \<Rightarrow> (p # ps, st))"

text \<open>The entries whose value is known only once the strings are on the stack; the index panics without arguments.\<close>

fun fill_auxv :: "usize \<Rightarrow> usize list \<Rightarrow> auxv_entry list \<Rightarrow> ('e, auxv_entry list) outcome" where
  "fill_auxv rnd argv [] = Ok []"
| "fill_auxv rnd argv ((t, x) # es) =
     (if t = AT_EXECFN \<and> argv = [] then Panic
      else obind (fill_auxv rnd argv es) (\<lambda>es. Ok ((t, if t = AT_RANDOM then rnd else if t = AT_EXECFN then hd argv else x) # es)))"

definition init_stack :: "string list \<Rightarrow> string list \<Rightarrow> auxv_entry list \<Rightarrow> usize \<Rightarrow> ('e, u8 list) outcome" where
  "init_stack args envs auxv sp =
     (let st = stack_push (bytes_of_string ''0123456789abcdef'') (sp, []);
          random_str_pos = fst st;
          (envs_slice, st) = push_strs envs st;
          (argv_slice, st) = push_strs args st;
          st = stack_push (replicate 8 0) st;
          st = stack_push (replicate (unat (fst st mod 16)) 0) st
      in if fst st mod 16 \<noteq> 0 then Panic
         else obind (fill_auxv random_str_pos argv_slice auxv) (\<lambda>auxv.
           let st = push_usize_slice (concat (map (\<lambda>(t, x). [auxv_code t, x]) auxv)) st;
               st = stack_push (replicate 8 0) st;
               st = push_usize_slice envs_slice st;
               st = stack_push (replicate 8 0) st;
               st = push_usize_slice argv_slice st;
               st = push_usize_slice [of_nat (length args)] st
           in Ok (snd st)))"

definition app_stack_region :: "string list \<Rightarrow> string list \<Rightarrow> auxv_entry list \<Rightarrow> usize \<Rightarrow> usize \<Rightarrow> ('e, u8 list) outcome" where
  "app_stack_region args envs auxv stack_base stack_size = init_stack args envs auxv (stack_base + stack_size)"

section \<open>What a program finds on its stack\<close>

text \<open>The reads of the start-up code of a program: words at the stack pointer, and strings behind pointers into the stack.\<close>

definition stack_word :: "u8 list \<Rightarrow> nat \<Rightarrow> usize" where
  "stack_word data i = le_word (take 8 (drop (8 * i) data))"

definition stack_str :: "usize \<Rightarrow> u8 list \<Rightarrow> usize \<Rightarrow> u8 list" where
  "stack_str sp data p = takeWhile (\<lambda>b. b \<noteq> 0) (drop (unat (p - sp)) data)"

definition str_at :: "user_stack \<Rightarrow> usize \<Rightarrow> string \<Rightarrow> bool" where
  "str_at st p s \<longleftrightarrow> (\<exists>pre post. p = fst st + of_nat (length pre) \<and> snd st = pre @ bytes_of_string s @ 0 # post)"

lemma le_bytes_Suc: "le_bytes (Suc n) w = ucast w # le_bytes n (drop_bit 8 w)"
proof -
  have "[0..<Suc n] = 0 # map Suc [0..<n]" by (simp only: upt_conv_Cons map_Suc_upt zero_less_Suc)
  then show ?thesis unfolding le_bytes_def by (simp del: upt_Suc add: drop_bit_drop_bit add.commute)
qed

lemma length_le_bytes [simp]: "length (le_bytes n w) = n"
  by (simp add: le_bytes_def)

lemma le_word_le_bytes: "le_word (le_bytes n (w :: 'n::len word)) = take_bit (8 * n) w"
proof (induction n arbitrary: w)
  case 0
  then show ?case by (simp add: le_bytes_def)
next
  case (Suc n)
  show ?case
    by (rule bit_word_eqI)
      (auto simp: le_bytes_Suc Suc bit_simps)
qed

lemma le_word_le_bytes_8 [simp]: "le_word (le_bytes 8 (w :: usize)) = w"
  by (simp add: le_word_le_bytes take_bit_word_eq_self)

lemma push_usize_slice_eq:
  "push_usize_slice src (sp, data) = (sp - of_nat (8 * length src), concat (map (le_bytes 8) src) @ data)"
  unfolding push_usize_slice_def
proof (induction src arbitrary: sp data)
  case (Cons w ws)
  then show ?case by (simp add: stack_push_def algebra_simps)
qed simp

lemma replicate_le_bytes: "replicate 8 0 = le_bytes 8 (0 :: usize)"
  by (simp add: le_bytes_def map_replicate_const)

text \<open>\<open>n\<close> bytes were pushed.\<close>

definition extends :: "nat \<Rightarrow> user_stack \<Rightarrow> user_stack \<Rightarrow> bool" where
  "extends n st st' \<longleftrightarrow> (\<exists>pre. snd st' = pre @ snd st \<and> fst st' = fst st - of_nat (length pre) \<and> length pre = n)"

lemma extends_refl: "extends 0 st st"
  by (simp add: extends_def)

lemma extends_trans: "extends m st st' \<Longrightarrow> extends n st' st'' \<Longrightarrow> extends (m + n) st st''"
  unfolding extends_def by (auto simp: diff_diff_eq add.commute)

lemma extends_push: "extends (length src) st (stack_push src st)"
  by (auto simp: extends_def stack_push_def split: prod.splits)

lemma extends_push_usize: "extends (8 * length src) st (push_usize_slice src st)"
  by (cases st) (auto simp: extends_def push_usize_slice_eq length_concat comp_def sum_list_triv algebra_simps)

lemma str_at_extends: "extends n st st' \<Longrightarrow> str_at st p s \<Longrightarrow> str_at st' p s"
proof -
  assume "extends n st st'" "str_at st p s"
  then obtain pre pre' post where "p = fst st + of_nat (length pre)" "snd st = pre @ bytes_of_string s @ 0 # post"
    "snd st' = pre' @ snd st" "fst st' = fst st - of_nat (length pre')"
    unfolding str_at_def extends_def by blast
  then show ?thesis unfolding str_at_def by (intro exI [of _ "pre' @ pre"] exI [of _ post]) simp
qed

lemma push_strE:
  assumes "push_str s st = (p, st')"
  shows "extends (length s + 1) st st'" "str_at st' p s"
proof -
  have st': "st' = stack_push (bytes_of_string s) (stack_push [0] st)" "p = fst st'"
    using assms by (auto simp: push_str_def Let_def)
  have "extends (length [0 :: u8] + length (bytes_of_string s)) st st'"
    unfolding st'(1) by (rule extends_trans [OF extends_push extends_push])
  then show "extends (length s + 1) st st'" by (simp add: bytes_of_string_def)
  show "str_at st' p s" unfolding st'
    by (cases st) (auto simp: str_at_def stack_push_def intro: exI [of _ "[]"])
qed

definition strs_size :: "string list \<Rightarrow> nat" where
  "strs_size ss = sum_list (map (\<lambda>s. length s + 1) ss)"

lemma push_strsE:
  assumes "push_strs ss st = (ps, st')"
  shows "length ps = length ss \<and> extends (strs_size ss) st st' \<and> (\<forall>i < length ss. str_at st' (ps ! i) (ss ! i))"
  using assms
proof (induction ss arbitrary: st ps)
  case Nil
  then show ?case by (simp add: extends_refl strs_size_def)
next
  case (Cons s ss)
  obtain p st1 qs where p: "push_str s st = (p, st1)" and q: "push_strs ss st1 = (qs, st')" "ps = p # qs"
    using Cons.prems by (auto split: prod.splits)
  note i = Cons.IH [OF q(1)]
  have "extends (length s + 1 + strs_size ss) st st'" using extends_trans [OF push_strE(1) [OF p]] i by blast
  moreover have "str_at st' p s" using str_at_extends push_strE(2) [OF p] i by blast
  ultimately show ?case using i q(2) by (auto simp: strs_size_def nth_Cons split: nat.splits)
qed

lemma stack_word_concat:
  "i < length ws \<Longrightarrow> stack_word (concat (map (le_bytes 8) ws) @ rest) i = ws ! i"
proof (induction ws arbitrary: i)
  case (Cons w ws)
  then show ?case by (cases i) (simp_all add: stack_word_def)
qed simp

lemma stack_str_at:
  assumes "str_at (sp, data) p s" "length data < 2 ^ 64" "0 \<notin> set (bytes_of_string s)"
  shows "stack_str sp data p = bytes_of_string s"
proof -
  obtain pre post where p: "p = sp + of_nat (length pre)" "data = pre @ bytes_of_string s @ 0 # post"
    using assms(1) by (auto simp: str_at_def)
  have "unat (of_nat (length pre) :: usize) = length pre" using assms(2) p(2) by (simp add: unat_of_nat)
  then show ?thesis using assms(3) by (simp add: stack_str_def p) (subst takeWhile_append2, auto)
qed

lemma fill_auxv_Ok:
  assumes "argv \<noteq> []"
  shows "\<exists>av. (fill_auxv rnd argv auxv :: ('e, auxv_entry list) outcome) = Ok av \<and> length av = length auxv
    \<and> (\<forall>j < length auxv. fst (av ! j) = fst (auxv ! j) \<and> (fst (auxv ! j) \<notin> {AT_RANDOM, AT_EXECFN} \<longrightarrow> snd (av ! j) = snd (auxv ! j)))"
proof (induction auxv)
  case (Cons e es)
  then obtain av where "(fill_auxv rnd argv es :: ('e, auxv_entry list) outcome) = Ok av" "length av = length es"
    "\<forall>j < length es. fst (av ! j) = fst (es ! j) \<and> (fst (es ! j) \<notin> {AT_RANDOM, AT_EXECFN} \<longrightarrow> snd (av ! j) = snd (es ! j))" by blast
  then show ?case using assms by (cases e) (auto simp: nth_Cons split: nat.splits)
qed simp

lemma nth_auxv_words:
  "j < length av \<Longrightarrow> concat (map (\<lambda>(t, x). [auxv_code t, x]) av) ! (2 * j) = auxv_code (fst (av ! j))
    \<and> concat (map (\<lambda>(t, x). [auxv_code t, x]) av) ! (2 * j + 1) = snd (av ! j)"
proof (induction av arbitrary: j)
  case (Cons e es)
  then show ?case by (cases e; cases j) simp_all
qed simp

lemma length_auxv_words: "length (concat (map (\<lambda>(t, x). [auxv_code t, x]) av)) = 2 * length av"
  by (induction av) auto

lemma mod_16: "(a - a mod 16) mod 16 = (0 :: usize)"
proof -
  have le: "a mod 16 \<le> a" by (simp add: word_le_nat_alt unat_mod)
  have "unat ((a - a mod 16) mod 16) = (unat a - unat a mod 16) mod 16"
    by (simp add: unat_mod unat_sub [OF le])
  also have "\<dots> = 0" by (simp flip: minus_mod_eq_mult_div)
  finally show ?thesis by (simp add: unat_eq_0)
qed

text \<open>The parts of the stack: the words a program reads first, and the strings behind them.\<close>

lemma init_stack_parts:
  assumes "args \<noteq> []"
  obtains data rest argv envp av where "(init_stack args envs auxv sp :: ('e, u8 list) outcome) = Ok data"
    and "data = concat (map (le_bytes 8) (of_nat (length args) # argv @ 0 # envp @ 0 # concat (map (\<lambda>(t, x). [auxv_code t, x]) av))) @ rest"
    and "length argv = length args" and "length envp = length envs" and "length av = length auxv"
    and "\<forall>j < length auxv. fst (av ! j) = fst (auxv ! j) \<and> (fst (auxv ! j) \<notin> {AT_RANDOM, AT_EXECFN} \<longrightarrow> snd (av ! j) = snd (auxv ! j))"
    and "\<And>i. i < length args \<Longrightarrow> str_at (sp - of_nat (length data), data) (argv ! i) (args ! i)"
    and "\<And>i. i < length envs \<Longrightarrow> str_at (sp - of_nat (length data), data) (envp ! i) (envs ! i)"
    and "length data \<le> 63 + strs_size args + strs_size envs + 8 * (length args + length envs + 2 * length auxv)"
proof -
  define st1 where "st1 = stack_push (bytes_of_string ''0123456789abcdef'') (sp, [])"
  obtain envp st2 where e: "push_strs envs st1 = (envp, st2)" by (cases "push_strs envs st1")
  obtain argv st3 where a: "push_strs args st2 = (argv, st3)" by (cases "push_strs args st2")
  define st4 where "st4 = stack_push (replicate 8 0) st3"
  define st5 where "st5 = stack_push (replicate (unat (fst st4 mod 16)) 0) st4"
  note e' = push_strsE [OF e] and a' = push_strsE [OF a]
  have "argv \<noteq> []" using a' assms by auto
  then obtain av where av: "(fill_auxv (fst st1) argv auxv :: ('e, auxv_entry list) outcome) = Ok av" "length av = length auxv"
    "\<forall>j < length auxv. fst (av ! j) = fst (auxv ! j) \<and> (fst (auxv ! j) \<notin> {AT_RANDOM, AT_EXECFN} \<longrightarrow> snd (av ! j) = snd (auxv ! j))"
    using fill_auxv_Ok by blast
  define ws where "ws = of_nat (length args) # argv @ 0 # envp @ 0 # concat (map (\<lambda>(t, x). [auxv_code t, x]) av)"
  define data where "data = concat (map (le_bytes 8) ws) @ snd st5"
  have mod: "fst st5 mod 16 = 0"
    by (cases st4) (simp add: st5_def stack_push_def mod_16)
  have Ok: "(init_stack args envs auxv sp :: ('e, u8 list) outcome) = Ok data"
    by (simp add: init_stack_def Let_def flip: st1_def)
      (simp add: e a flip: st4_def, simp add: mod av flip: st5_def,
        cases st5, simp add: push_usize_slice_eq stack_push_def replicate_le_bytes data_def ws_def)
  have n: "unat (fst st4 mod 16) \<le> 15" by (simp add: unat_mod)
  have x1: "extends 16 (sp, []) st1" using extends_push [of "bytes_of_string ''0123456789abcdef''" "(sp, [])"]
    by (simp add: st1_def bytes_of_string_def numeral_eq_Suc)
  have x35: "extends (8 + unat (fst st4 mod 16)) st3 st5"
    using extends_trans [OF extends_push [of "replicate 8 0" st3] extends_push [of "replicate (unat (fst st4 mod 16)) 0"]]
    by (simp add: st5_def st4_def)
  have x56: "extends (8 * length ws) st5 (push_usize_slice ws st5)" by (rule extends_push_usize)
  have x25: "extends (strs_size args + (8 + unat (fst st4 mod 16))) st2 st5" using extends_trans x35 a' by blast
  have all: "extends (16 + (strs_size envs + (strs_size args + (8 + unat (fst st4 mod 16)) + 8 * length ws))) (sp, []) (push_usize_slice ws st5)"
    using extends_trans x1 e' x25 x56 by blast
  have sn: "data = snd (push_usize_slice ws st5)" by (cases st5) (simp add: push_usize_slice_eq data_def)
  have fin: "push_usize_slice ws st5 = (sp - of_nat (length data), data)"
    using all by (auto simp: extends_def prod_eq_iff simp flip: sn)
  have len: "length data = 16 + (strs_size envs + (strs_size args + (8 + unat (fst st4 mod 16)) + 8 * length ws))"
    using all unfolding fin by (auto simp: extends_def)
  have lw: "length ws = 3 + length args + length envs + 2 * length auxv"
    using a' e' av(2) by (simp add: ws_def length_auxv_words)
  show ?thesis
  proof (rule that [OF Ok _ _ _ av(2,3)])
    show "data = concat (map (le_bytes 8) (of_nat (length args) # argv @ 0 # envp @ 0 # concat (map (\<lambda>(t, x). [auxv_code t, x]) av))) @ snd st5"
      by (simp add: data_def ws_def)
    show "length argv = length args" "length envp = length envs" using a' e' by auto
    show "str_at (sp - of_nat (length data), data) (argv ! i) (args ! i)" if "i < length args" for i
      using a' that str_at_extends [OF x35] str_at_extends [OF x56] by (simp flip: fin)
    show "str_at (sp - of_nat (length data), data) (envp ! i) (envs ! i)" if "i < length envs" for i
      using e' that str_at_extends [OF x25] str_at_extends [OF x56] by (simp flip: fin)
    show "length data \<le> 63 + strs_size args + strs_size envs + 8 * (length args + length envs + 2 * length auxv)"
      using n by (simp add: len lw)
  qed
qed

lemma str_at_nonzero:
  assumes "str_at (sp - of_nat (length data), data) p s" "length data < unat sp"
  shows "p \<noteq> 0"
proof -
  obtain pre post where p: "p = sp - of_nat (length data) + of_nat (length pre)" "data = pre @ bytes_of_string s @ 0 # post"
    using assms(1) by (auto simp: str_at_def)
  have l: "length data - length pre \<le> length data" "length pre \<le> length data" using p(2) by auto
  have "p = sp - of_nat (length data - length pre)" unfolding p(1) using l by (simp add: of_nat_diff)
  moreover have "unat (of_nat (length data - length pre) :: usize) < unat sp"
    using assms(2) l(1) unat_less_2p64 [of sp] by (simp add: unat_of_nat)
  ultimately show ?thesis by auto
qed

text \<open>
  C12. The initial stack of a program reads back as its arguments: \<^verbatim>\<open>app_stack_region\<close> succeeds when there is an argument, and the
  start-up code that follows the layout finds the number of arguments at the stack pointer, then pointers to the argument strings
  and a null pointer, pointers to the environment strings (none of them null) and a null pointer, and then the auxiliary vector.
  The size is bounded by the sizes of the strings, so no pointer wraps.
\<close>

theorem app_stack_layout:
  assumes "args \<noteq> []" and "\<forall>s \<in> set args \<union> set envs. 0 \<notin> set (bytes_of_string s)"
    and "63 + strs_size args + strs_size envs + 8 * (length args + length envs + 2 * length auxv) < unat (stack_base + stack_size)"
  shows "\<exists>data. app_stack_region args envs auxv stack_base stack_size = (Ok data :: ('e, u8 list) outcome)
    \<and> length data \<le> 63 + strs_size args + strs_size envs + 8 * (length args + length envs + 2 * length auxv)
    \<and> (let sp = stack_base + stack_size - of_nat (length data); n = length args; m = length envs in
       stack_word data 0 = of_nat n
       \<and> (\<forall>i < n. stack_str sp data (stack_word data (1 + i)) = bytes_of_string (args ! i))
       \<and> stack_word data (1 + n) = 0
       \<and> (\<forall>i < m. stack_word data (2 + n + i) \<noteq> 0 \<and> stack_str sp data (stack_word data (2 + n + i)) = bytes_of_string (envs ! i))
       \<and> stack_word data (2 + n + m) = 0
       \<and> (\<forall>j < length auxv. stack_word data (3 + n + m + 2 * j) = auxv_code (fst (auxv ! j))
            \<and> (fst (auxv ! j) \<notin> {AT_RANDOM, AT_EXECFN} \<longrightarrow> stack_word data (4 + n + m + 2 * j) = snd (auxv ! j))))"
proof -
  let ?top = "stack_base + stack_size"
  obtain data rest argv envp av where d: "init_stack args envs auxv ?top = (Ok data :: ('e, u8 list) outcome)"
    and w: "data = concat (map (le_bytes 8) (of_nat (length args) # argv @ 0 # envp @ 0 # concat (map (\<lambda>(t, x). [auxv_code t, x]) av))) @ rest"
    and l: "length argv = length args" "length envp = length envs" "length av = length auxv"
    and av: "\<forall>j < length auxv. fst (av ! j) = fst (auxv ! j) \<and> (fst (auxv ! j) \<notin> {AT_RANDOM, AT_EXECFN} \<longrightarrow> snd (av ! j) = snd (auxv ! j))"
    and a: "\<And>i. i < length args \<Longrightarrow> str_at (?top - of_nat (length data), data) (argv ! i) (args ! i)"
    and e: "\<And>i. i < length envs \<Longrightarrow> str_at (?top - of_nat (length data), data) (envp ! i) (envs ! i)"
    and sz: "length data \<le> 63 + strs_size args + strs_size envs + 8 * (length args + length envs + 2 * length auxv)"
    by (rule init_stack_parts [OF assms(1), of envs auxv ?top]) (rule that)
  define ws where "ws = of_nat (length args) # argv @ 0 # envp @ 0 # concat (map (\<lambda>(t, x). [auxv_code t, x]) av)"
  have W: "stack_word data i = ws ! i" if "i < length ws" for i
    using that unfolding w ws_def [symmetric] by (rule stack_word_concat)
  have lw: "length ws = 3 + length args + length envs + 2 * length auxv" by (simp add: ws_def l length_auxv_words)
  have lt: "length data < unat ?top" using sz assms(3) by linarith
  then have l64: "length data < 2 ^ 64" using unat_less_2p64 [of ?top] by linarith
  have 1: "stack_word data (1 + i) = argv ! i" if "i < length args" for i
    using that by (subst W) (simp_all add: lw ws_def nth_append l)
  have 2: "stack_word data (2 + length args + i) = envp ! i" if "i < length envs" for i
    using that by (subst W) (simp_all add: lw ws_def nth_append l)
  have 3: "stack_word data (3 + length args + length envs + k) = concat (map (\<lambda>(t, x). [auxv_code t, x]) av) ! k"
    if "k < 2 * length auxv" for k
    using that by (subst W) (simp_all add: lw ws_def nth_append l numeral_3_eq_3 length_auxv_words)
  have str: "stack_str (?top - of_nat (length data)) data p = bytes_of_string s"
    if "str_at (?top - of_nat (length data), data) p s" "s \<in> set args \<union> set envs" for p s
    using stack_str_at [OF that(1) l64] that(2) assms(2) by blast
  show ?thesis unfolding app_stack_region_def Let_def
  proof (intro exI [of _ data] conjI allI impI)
    show "stack_word data 0 = of_nat (length args)" by (simp add: W lw, simp add: ws_def)
    show "stack_word data (1 + length args) = 0" "stack_word data (2 + length args + length envs) = 0"
      by (simp_all add: W lw, simp_all add: ws_def nth_append l)
  next
    fix j assume j: "j < length auxv"
    show "stack_word data (3 + length args + length envs + 2 * j) = auxv_code (fst (auxv ! j))"
      using j 3 [of "2 * j"] nth_auxv_words [of j av] l av by simp
    show "stack_word data (4 + length args + length envs + 2 * j) = snd (auxv ! j)" if "fst (auxv ! j) \<notin> {AT_RANDOM, AT_EXECFN}"
      using j that 3 [of "2 * j + 1"] nth_auxv_words [of j av] l av by (simp add: add.assoc)
  next
    fix i assume i: "i < length envs"
    show "stack_word data (2 + length args + i) \<noteq> 0" unfolding 2 [OF i] by (rule str_at_nonzero [OF e [OF i] lt])
    show "stack_str (?top - of_nat (length data)) data (stack_word data (2 + length args + i)) = bytes_of_string (envs ! i)"
      unfolding 2 [OF i] using str [OF e [OF i]] i by simp
  qed (use d sz a 1 str in auto)
qed

theorem app_stack_layout_witness:
  "\<exists>data. app_stack_region [''/bin/ls'', ''-l''] [''A=b''] [(AT_PAGESZ, 4096)] 0x7ffefff00000 0x10000 = (Ok data :: (ax_error, u8 list) outcome)
    \<and> stack_word data 0 = 2
    \<and> stack_str (0x7ffefff10000 - of_nat (length data)) data (stack_word data 2) = bytes_of_string ''-l''"
proof -
  let ?args = "[''/bin/ls'', ''-l'']" and ?envs = "[''A=b'']" and ?auxv = "[(AT_PAGESZ, 4096)]"
  have 1: "?args \<noteq> []" by simp
  have 2: "\<forall>s \<in> set ?args \<union> set ?envs. 0 \<notin> set (bytes_of_string s)" by (simp add: bytes_of_string_def)
  have 3: "63 + strs_size ?args + strs_size ?envs + 8 * (length ?args + length ?envs + 2 * length ?auxv)
      < unat (0x7ffefff00000 + 0x10000 :: usize)" by (simp add: strs_size_def)
  from app_stack_layout [OF 1 2 3] show ?thesis by (auto simp: Let_def All_less_Suc numeral_2_eq_2)
qed

end
