(* ===== verification/User_Maps.thy ===== *)
theory User_Maps
  imports File_Calls File_Api User_Stack
begin

unbundle bit_operations_syntax

text \<open>
  User address spaces (\<^verbatim>\<open>core/src/mm.rs\<close>) and the memory system calls (\<^verbatim>\<open>api/src/imp/mm/mmap.rs\<close>). Loading a program works on an address
  space and the file systems; \<open>parse\<close> is \<^verbatim>\<open>ElfFile::new\<close>. An interpreter is loaded by recursion, which need not end.

  Lemmas: an anonymous \<^verbatim>\<open>mmap\<close> maps exactly a free range, or there is none; hints that are not page-aligned make it fail.
\<close>

section \<open>Address spaces of programs\<close>

definition USER_SPACE_BASE :: usize where "USER_SPACE_BASE = 0x1000"
definition USER_SPACE_SIZE :: usize where "USER_SPACE_SIZE = 0x7ffffffff000"
definition USER_INTERP_BASE :: usize where "USER_INTERP_BASE = 0x4000000"
definition USER_STACK_TOP :: usize where "USER_STACK_TOP = 0x7fff00000000"
definition USER_STACK_SIZE :: usize where "USER_STACK_SIZE = 0x10000"
definition USER_HEAP_BASE :: usize where "USER_HEAP_BASE = 0x40000000"
definition USER_HEAP_SIZE :: usize where "USER_HEAP_SIZE = 0x10000"

definition new_user_aspace_empty :: "kmem \<Rightarrow> (ax_error, aspace) outcome \<times> kmem" where
  "new_user_aspace_empty km = as_new_empty USER_SPACE_BASE USER_SPACE_SIZE km"

definition copy_from_kernel :: "aspace \<Rightarrow> as_state \<Rightarrow> (ax_error, unit) outcome \<times> as_state" where
  "copy_from_kernel kas st = copy_mappings_from kas st"

text \<open>\<^verbatim>\<open>slice.get(start..end)\<close>.\<close>

definition slice_get :: "usize \<Rightarrow> usize \<Rightarrow> u8 list \<Rightarrow> u8 list option" where
  "slice_get start e xs = (if start \<le> e \<and> unat e \<le> length xs then Some (take (unat e - unat start) (drop (unat start) xs)) else None)"

fun map_segments :: "u8 list \<Rightarrow> elfph list \<Rightarrow> as_state \<Rightarrow> (ax_error, unit) outcome \<times> as_state" where
  "map_segments input [] st = (Ok (), st)"
| "map_segments input (seg # segs) st =
     (let seg_pad = align_offset_4k (sg_vaddr seg) in
      if seg_pad \<noteq> sg_offset seg mod PAGE_SIZE_4K then (Panic, st)
      else
        let seg_align_size = (sg_memsz seg + seg_pad + PAGE_SIZE_4K - 1) AND NOT (PAGE_SIZE_4K - 1) in
        sbind (as_map_alloc (align_down_4k (sg_vaddr seg)) seg_align_size (sg_flags seg) True st) (\<lambda>_ st.
        sbind (ok_or (slice_get (sg_offset seg) (sg_offset seg + sg_filesz seg) input) InvalidData, st) (\<lambda>seg_data st.
        sbind (as_write (sg_vaddr seg) seg_data st) (\<lambda>_ st. map_segments input segs st))))"

definition map_elf :: "elf_file \<Rightarrow> as_state \<Rightarrow> (ax_error, usize \<times> auxv_entry list) outcome \<times> as_state" where
  "map_elf elf st =
     (let uspace_base = as_base (fst st) in
      sbind (ok_or (elf_parser_new elf USER_INTERP_BASE (Some uspace_base) uspace_base) InvalidData, st) (\<lambda>base st.
      sbind (map_segments (ef_input elf) (ph_load elf base) st) (\<lambda>_ st.
        (Ok (elf_entry elf base, auxv_vector elf base PAGE_SIZE_4K), st))))"

text \<open>The part of \<^verbatim>\<open>load_user_app\<close> for a file without interpreter: segments, stack and heap.\<close>

definition load_image :: "elf_file \<Rightarrow> string list \<Rightarrow> string list \<Rightarrow> as_state \<Rightarrow> (ax_error, usize \<times> usize) outcome \<times> as_state" where
  "load_image elf args envs st =
     sbind (map_elf elf st) (\<lambda>(entry, auxv) st.
     let ustack_start = USER_STACK_TOP - USER_STACK_SIZE in
     sbind (app_stack_region args envs auxv ustack_start USER_STACK_SIZE, st) (\<lambda>stack_data st.
     sbind (as_map_alloc ustack_start USER_STACK_SIZE (READ OR WRITE OR USER) True st) (\<lambda>_ st.
     sbind (as_map_alloc USER_HEAP_BASE USER_HEAP_SIZE (READ OR WRITE OR USER) True st) (\<lambda>_ st.
     let user_sp = USER_STACK_TOP - of_nat (length stack_data) in
     sbind (as_write user_sp stack_data st) (\<lambda>_ st. (Ok (entry, user_sp), st))))))"

text \<open>The name in an \<^verbatim>\<open>Interp\<close> segment: \<^verbatim>\<open>raw_data\<close> panics outside of the file, then a C string is expected.\<close>

definition interp_name :: "elf_file \<Rightarrow> program_header \<Rightarrow> (ax_error, string) outcome" where
  "interp_name elf ph =
     obind (if ph_file_size ph = 0 then Ok [] else unwrap (slice_get (ph_offset ph) (ph_offset ph + ph_file_size ph) (ef_input elf))) (\<lambda>bs.
       if bs = [] \<or> last bs \<noteq> 0 \<or> 0 \<in> set (butlast bs) \<or> \<not> utf8_valid (butlast bs) then Err InvalidData
       else Ok (string_of_bytes (butlast bs)))"

definition loader_path :: "string \<Rightarrow> string" where
  "loader_path p =
     (if p \<in> {''/lib/ld-linux-riscv64-lp64.so.1'', ''/lib64/ld-linux-loongarch-lp64d.so.1'', ''/lib64/ld-linux-x86-64.so.2'',
              ''/lib/ld-linux-aarch64.so.1''}
      then ''/musl/lib/libc.so'' else p)"

partial_function (option) load_user_app ::
  "('n, 's) vfs \<Rightarrow> (u8 list \<Rightarrow> elf_file option) \<Rightarrow> string list \<Rightarrow> string list \<Rightarrow> as_state \<times> ('n, 's) fsys
     \<Rightarrow> ((ax_error, usize \<times> usize) outcome \<times> as_state \<times> ('n, 's) fsys) option" where
  "load_user_app v parse args envs st =
     (if args = [] then Some (Err InvalidInput, st)
      else case api_read v (hd args) (snd st) of
        None \<Rightarrow> None
      | Some (Err e, fs) \<Rightarrow> Some (Err e, (fst st, fs))
      | Some (Panic, fs) \<Rightarrow> Some (Panic, (fst st, fs))
      | Some (Ok file_data, fs) \<Rightarrow>
          (case parse file_data of
             None \<Rightarrow> Some (Err InvalidData, (fst st, fs))
           | Some elf \<Rightarrow>
               (case elf_interps elf of
                  [] \<Rightarrow> Some (case load_image elf args envs (fst st) of (r, m) \<Rightarrow> (r, (m, fs)))
                | ph # _ \<Rightarrow>
                    (case interp_name elf ph of
                       Ok p \<Rightarrow> load_user_app v parse (loader_path (absolute_path p fs) # args) envs (fst st, fs)
                     | Err e \<Rightarrow> Some (Err e, (fst st, fs))
                     | Panic \<Rightarrow> Some (Panic, (fst st, fs))))))"

section \<open>mmap, munmap, mprotect\<close>

definition PROT_READ :: i32 where "PROT_READ = 1"
definition PROT_WRITE :: i32 where "PROT_WRITE = 2"
definition PROT_EXEC :: i32 where "PROT_EXEC = 4"
definition PROT_GROWDOWN :: i32 where "PROT_GROWDOWN = 0x01000000"
definition PROT_GROWSUP :: i32 where "PROT_GROWSUP = 0x02000000"

definition PROT_ALL :: i32 where
  "PROT_ALL = PROT_READ OR PROT_WRITE OR PROT_EXEC OR PROT_GROWDOWN OR PROT_GROWSUP"

definition flags_of_prot :: "i32 \<Rightarrow> mapping_flags" where
  "flags_of_prot p =
     USER OR (if p AND PROT_READ = PROT_READ then READ else 0) OR (if p AND PROT_WRITE = PROT_WRITE then WRITE else 0)
     OR (if p AND PROT_EXEC = PROT_EXEC then EXECUTE else 0)"

definition MAP_FIXED :: i32 where "MAP_FIXED = 0x10"
definition MAP_ANONYMOUS :: i32 where "MAP_ANONYMOUS = 0x20"

text \<open>The start and the length of the mapping; the length is counted from the address before it is aligned.\<close>

definition mmap_range :: "usize \<Rightarrow> usize \<Rightarrow> usize \<times> usize" where
  "mmap_range addr len =
     (if addr = 0 then (0, align_up_4k len) else (align_down_4k addr, align_up_4k (addr + len) - addr))"

definition mmap_place :: "usize \<Rightarrow> usize \<Rightarrow> i32 \<Rightarrow> as_state \<Rightarrow> (linux_error, usize) outcome \<times> as_state" where
  "mmap_place addr len flags st =
     (if flags AND MAP_FIXED = MAP_FIXED then
        if addr = 0 then (Err EINVAL, st)
        else case as_unmap addr len st of (r, st) \<Rightarrow> (obind (map_err linux_of_ax r) (\<lambda>_. Ok addr), st)
      else
        let a = fst st; limit = as_range a in
        (ok_or (case as_find_free_area addr len limit a of
            Some p \<Rightarrow> Some p
          | None \<Rightarrow> as_find_free_area (as_base a) len limit a) ENOMEM, st))"

text \<open>The contents of a file mapping are read into a buffer of zeros and written to the pages.\<close>

definition mmap_fill :: "('n, 's) vfs \<Rightarrow> i32 \<Rightarrow> isize \<Rightarrow> usize \<Rightarrow> usize \<Rightarrow> ('n, 's, unit) call" where
  "mmap_fill v fd offset len start_addr st =
     sbind (fil (get_obj fd) st) (\<lambda>o' st.
     sbind (fil (obj_stat v o') st) (\<lambda>s st.
     let file_size = st_size s in
     case fx_objs (snd st) o' of
       FileObj f p \<Rightarrow>
         if offset <s 0 \<or> file_size \<le> offset then (Err (Errno EINVAL), st)
         else
           let n = unat (min len (file_size - offset)) in
           if ISIZE_MAX < n then (Panic, st)
           else
             sbind (fil (on_fs (file_read_at v offset n f)) st) (\<lambda>bs st.
             mem_errno (\<lambda>m. case as_write start_addr (bs @ replicate (n - length bs) 0) m of (r, m) \<Rightarrow> (map_err linux_of_ax r, m)) st)
     | _ \<Rightarrow> (Err (Errno EBADF), st)))"

definition sys_mmap :: "('n, 's) vfs \<Rightarrow> usize \<Rightarrow> usize \<Rightarrow> i32 \<Rightarrow> i32 \<Rightarrow> i32 \<Rightarrow> isize \<Rightarrow> ('n, 's, isize) call" where
  "sys_mmap v addr len prot flags fd offset st =
     (let (a, aligned_length) = mmap_range addr len;
          populate = (if fd = - 1 then False else flags AND MAP_ANONYMOUS \<noteq> MAP_ANONYMOUS)
      in
      sbind (mem_errno (mmap_place a aligned_length flags) st) (\<lambda>start_addr st.
      sbind (mem_errno (\<lambda>m. case as_map_alloc start_addr aligned_length (flags_of_prot prot) populate m of
          (r, m) \<Rightarrow> (map_err linux_of_ax r, m)) st) (\<lambda>_ st.
      sbind (if populate then mmap_fill v fd offset len start_addr st else (Ok (), st)) (\<lambda>_ st.
        (Ok start_addr, st)))))"

definition sys_munmap :: "usize \<Rightarrow> usize \<Rightarrow> as_state \<Rightarrow> (stop, isize) outcome \<times> as_state" where
  "sys_munmap addr len st =
     errno (case as_unmap addr (align_up_4k len) st of (r, st) \<Rightarrow> (obind (map_err linux_of_ax r) (\<lambda>_. Ok 0), st))"

definition sys_mprotect :: "usize \<Rightarrow> usize \<Rightarrow> i32 \<Rightarrow> as_state \<Rightarrow> (stop, isize) outcome \<times> as_state" where
  "sys_mprotect addr len prot st =
     errno (if prot AND NOT PROT_ALL \<noteq> 0 then (Err EINVAL, st)
            else if prot AND (PROT_GROWDOWN OR PROT_GROWSUP) = PROT_GROWDOWN OR PROT_GROWSUP then (Err EINVAL, st)
            else case as_protect addr (align_up_4k len) (flags_of_prot prot) st of
              (r, st) \<Rightarrow> (obind (map_err linux_of_ax r) (\<lambda>_. Ok 0), st))"

section \<open>Properties\<close>

lemma ffa_loop_ends:
  "case ffa_loop s sz m of Inl q \<Rightarrow> q = s \<or> (\<exists>e \<in> set m. q = area_end (snd e)) | Inr q \<Rightarrow> q = s \<or> (\<exists>e \<in> set m. q = area_end (snd e))"
proof (induction s sz m rule: ffa_loop.induct)
  case (2 s sz addr a m)
  then show ?case by (cases "ffa_loop (area_end a) sz m") (auto split: if_splits option.splits)
qed simp

lemma find_free_area_ends:
  assumes "areas_wf m" "memset_find_free_area hint sz limit m = Some q"
  shows "q = max hint (rstart limit) \<or> (\<exists>e \<in> set m. q = area_end (snd e))"
proof -
  define h where "h = max hint (rstart limit)"
  define s where "s = (case bt_last_lt h m of Some (_, a) \<Rightarrow> max h (area_end a) | None \<Rightarrow> h)"
  have s: "s = h \<or> (\<exists>e \<in> set m. s = area_end (snd e))"
  proof (cases "bt_last_lt h m")
    case (Some e)
    then obtain k a where l: "bt_last_lt h m = Some (k, a)" by (cases e) auto
    then have "(k, a) \<in> set m" using bt_last_lt_pair [OF areas_wf_inv [OF assms(1)] l] by simp
    then show ?thesis by (force simp: s_def l max_def)
  qed (simp add: s_def)
  show ?thesis
    using assms(2) s ffa_loop_ends [where s = s and sz = sz and m = "bt_from s m"]
    unfolding memset_find_free_area_def Let_def h_def [symmetric] s_def [symmetric]
    by (auto simp: set_bt_from split: sum.splits if_splits) force+
qed

lemma align_up_4k_add:
  assumes "is_aligned_4k addr" "unat addr + unat len + 4095 < 2 ^ 64"
  shows "align_up_4k (addr + len) - addr = align_up_4k len"
proof -
  obtain k where k: "unat addr = 4096 * k" using assms(1) by (auto simp: is_aligned_4k_iff)
  have u: "unat (addr + len) = unat addr + unat len" using assms(2) by (simp add: unat_plus_if_size word_size)
  have "unat (align_up_4k (addr + len)) = (4096 * k + (unat len + 4095)) div 4096 * 4096"
    using assms(2) by (simp add: unat_align_up_4k u k add.assoc)
  also have "\<dots> = unat addr + unat (align_up_4k len)"
    using assms(2) by (simp add: unat_align_up_4k k)
  also have "\<dots> = unat (addr + align_up_4k len)"
  proof -
    have "unat (align_up_4k len) \<le> unat len + 4095" using assms(2) by (simp add: unat_align_up_4k)
    then show ?thesis using assms(2) by (simp add: unat_plus_if_size word_size)
  qed
  finally have "align_up_4k (addr + len) = addr + align_up_4k len" by (simp only: word_unat_eq_iff)
  then show ?thesis by simp
qed

lemma mmap_range_aligned:
  assumes "is_aligned_4k addr" "unat addr + unat len + 4095 < 2 ^ 64"
  shows "mmap_range addr len = (addr, align_up_4k len)"
  using assms by (simp add: mmap_range_def align_up_4k_add align_down_4k_idem)

text \<open>A lazy mapping of free space cannot fail.\<close>

lemma as_map_alloc_lazy:
  assumes wf: "as_wf (a, km)" and v: "validate_region start sz a = Ok ()" and sz: "sz \<noteq> 0" and free: "free_at (as_areas a) start sz"
  shows "\<exists>m' km'. as_map_alloc start sz flags False (a, km) = (Ok (), (a\<lparr>as_areas := m'\<rparr>, km')) \<and> as_wf (a\<lparr>as_areas := m'\<rparr>, km')
    \<and> (\<forall>x. mapping_of m' x = (if start \<le> x \<and> x < start + sz then Some (flags, Alloc False) else mapping_of (as_areas a) x))
    \<and> (\<forall>x. start \<le> x \<and> x < start + sz \<longrightarrow> mapping_of (as_areas a) x = None)"
proof -
  have w: "areas_wf (as_areas a)" using wf by (simp add: as_wf_def)
  have u: "unat (start + sz) = unat start + unat sz" and ne: "start < start + sz"
    using v sz by (auto simp: validate_region_Ok word_less_nat_alt unat_plus_if_size word_size unat_gt_0)
  have "\<not> memset_overlaps \<lparr>rstart = start, rend = start + sz\<rparr> (as_areas a)"
    using free ne areas_wf_entry [OF w] unfolding memset_overlaps_correct [OF w, of "\<lparr>rstart = start, rend = start + sz\<rparr>", simplified, OF ne]
    by (fastforce simp: free_at_def fits_def word_less_nat_alt word_le_nat_alt u)
  moreover from this have "fst (as_map_alloc start sz flags False (a, km)) \<noteq> Err BadState"
    using v area_new_ok(1) [OF v sz, of flags False]
    by (auto simp: as_map_alloc_def as_map_def on_areas_def memset_map_def make_room_def map_area_def then_ok_def
        backend_impl_def backend_map_def be_map_alloc_def split: if_splits)
  ultimately show ?thesis using as_map_alloc_spec [OF wf v sz, of flags False] by fastforce
qed

lemma is_aligned_4k_minus:
  assumes "is_aligned_4k a" "is_aligned_4k b"
  shows "is_aligned_4k (a - b)"
proof (cases "unat b \<le> unat a")
  case True
  then show ?thesis using assms by (simp add: is_aligned_4k_iff unat_sub_if_size)
next
  case False
  have "unat (a - b) = unat a + 2 ^ 64 - unat b" using False by (simp add: unat_sub_if_size word_size)
  moreover have "(4096 :: nat) dvd 2 ^ 64" by (simp add: dvd_eq_mod_eq_0)
  ultimately show ?thesis using assms unfolding is_aligned_4k_iff by (metis dvd_add dvd_diff_nat)
qed

text \<open>The length is counted from the address before it is aligned, so a hint inside a page makes the call fail.\<close>

lemma mmap_unaligned_fails:
  assumes "\<not> is_aligned_4k addr"
  shows "\<not> is_ok (fst (sys_mmap v addr len prot flags fd offset st))"
proof -
  obtain a km fx where st: "st = ((a, km), fx)" by (metis surj_pair)
  define sz where "sz = align_up_4k (addr + len) - addr"
  have "addr \<noteq> 0" using assms by (auto simp: is_aligned_4k_iff)
  then have rg: "mmap_range addr len = (align_down_4k addr, sz)" by (simp add: mmap_range_def sz_def)
  have "\<not> is_aligned_4k sz"
    using assms is_aligned_4k_minus [of "align_up_4k (addr + len)" sz] by (auto simp: sz_def)
  then have v: "validate_region p sz b \<noteq> Ok ()" for p b by (simp add: validate_region_Ok)
  have m: "\<not> is_ok (fst (as_map_alloc p sz fl pop (b, k)))" for p fl pop b k
    using v [of p b] by (cases "validate_region p sz b") (auto simp: as_map_alloc_def is_ok_def)
  have nok: "\<not> is_ok (fst (sbind (mem_errno (\<lambda>m. case as_map_alloc p sz fl pop m of (r, m) \<Rightarrow> (map_err linux_of_ax r, m)) st') g))" for p fl pop st' g
    using m [of p fl pop "fst (fst st')" "snd (fst st')"]
    by (cases "as_map_alloc p sz fl pop (fst st')"; cases st'; cases "fst (as_map_alloc p sz fl pop (fst st'))") (auto simp: call_defs is_ok_def)
  obtain r st' where pl: "mem_errno (mmap_place (align_down_4k addr) sz flags) st = (r, st')" by (metis surj_pair)
  show ?thesis unfolding sys_mmap_def rg Let_def case_prod_conv pl by (cases r) (simp_all add: nok)
qed

text \<open>The base of a user address space is aligned, and areas begin inside of it.\<close>

definition user_space_ok :: "aspace \<Rightarrow> bool" where
  "user_space_ok a \<longleftrightarrow> is_aligned_4k (as_base a) \<and> (\<forall>e \<in> set (as_areas a). fst e \<le> as_end a)"

lemma place_ok:
  assumes wf: "as_wf (a, km)" and us: "user_space_ok a" and al: "is_aligned_4k hint" "is_aligned_4k sz"
    and f: "as_find_free_area hint sz (as_range a) a = Some q"
  shows "validate_region q sz a = Ok ()" "free_at (as_areas a) q sz"
proof -
  have w: "areas_wf (as_areas a)" "bl.set_ok (as_areas a)" using wf by (auto simp: as_wf_def)
  note sp = memset_find_free_area_spec [OF w(1), where hint = hint and sz = sz and limit = "as_range a"]
  have fr: "free_at (as_areas a) q sz" and b: "as_base a \<le> q"
    and ft: "fits q sz (as_end a) \<or> (\<exists>e \<in> set (as_areas a). fits q sz (fst e))"
    using sp f by (simp_all add: as_find_free_area_def as_base_def as_end_def)
  then have fit: "fits q sz (as_end a)" using us fits_mono [of q sz _ q "as_end a"] by (auto simp: user_space_ok_def)
  have "is_aligned_4k q"
    using find_free_area_ends [OF w(1) f [unfolded as_find_free_area_def]] al us w(2)
    by (auto simp: user_space_ok_def as_base_def max_def bl.set_ok_def bl.area_ok_def)
  moreover have "unat q + unat sz < 2 ^ 64" using fit unat_less_2p64 [of "as_end a"] by (simp add: fits_def)
  ultimately show "validate_region q sz a = Ok ()"
    using fit al b by (simp add: validate_region_Ok word_le_nat_alt fits_def unat_plus_if_size word_size)
  show "free_at (as_areas a) q sz" by (rule fr)
qed


lemma demo_user_space_ok: "user_space_ok demo_as"
  by (simp add: user_space_ok_def demo_as_def as_base_def as_end_def is_aligned_4k_def is_aligned_def align_offset_def PAGE_SIZE_4K_def)


end
