(* ===== verification/Trap_Context.thy ===== *)
theory Trap_Context
  imports Kernel_Prelude
begin

unbundle bit_operations_syntax

text \<open>
  Saved registers and the paths into and out of the kernel on x86_64 (\<^verbatim>\<open>.arceos/modules/axhal/src/arch/x86_64\<close>): trap frames, the
  context of a user program, the context switch of tasks, and the entry and exit code of system calls. The processor is a
  record of registers; memory is its aligned 8-byte words, by address. Of the floating-point state only its identity is kept:
  \<^verbatim>\<open>FXSAVE\<close> and \<^verbatim>\<open>FXRSTOR\<close> move it as a whole.

  Lemmas: a task that is switched away from continues with its callee-saved registers and its stack; a new task starts at its entry
  with a stack of the right alignment; a system call keeps the registers of the program.
\<close>

section \<open>Memory and the stack\<close>

type_synonym words = "u64 \<Rightarrow> u64"

fun put_words :: "u64 \<Rightarrow> u64 list \<Rightarrow> words \<Rightarrow> words" where
  "put_words p [] m = m"
| "put_words p (w # ws) m = put_words (p + 8) ws (m(p := w))"

definition get_words :: "u64 \<Rightarrow> nat \<Rightarrow> words \<Rightarrow> u64 list" where
  "get_words p n m = map (\<lambda>i. m (p + 8 * of_nat i)) [0..<n]"

fun push_all :: "u64 list \<Rightarrow> u64 \<times> words \<Rightarrow> u64 \<times> words" where
  "push_all [] s = s"
| "push_all (w # ws) (rsp, m) = push_all ws (rsp - 8, m(rsp - 8 := w))"

section \<open>Registers\<close>

text \<open>An area of \<^verbatim>\<open>FXSAVE\<close>.\<close>

record fxsave_area =
  fx_fcw :: u16
  fx_ftw :: u16
  fx_mxcsr :: u32
  fx_rest :: "u64 list"

definition ext_state_default :: fxsave_area where
  "ext_state_default = \<lparr>fx_fcw = 0x37f, fx_ftw = 0xffff, fx_mxcsr = 0x1f80, fx_rest = replicate 60 0\<rparr>"

record cpu =
  c_rax :: u64
  c_rcx :: u64
  c_rdx :: u64
  c_rbx :: u64
  c_rbp :: u64
  c_rsi :: u64
  c_rdi :: u64
  c_r8 :: u64
  c_r9 :: u64
  c_r10 :: u64
  c_r11 :: u64
  c_r12 :: u64
  c_r13 :: u64
  c_r14 :: u64
  c_r15 :: u64
  c_rip :: u64
  c_cs :: u64
  c_rflags :: u64
  c_rsp :: u64
  c_ss :: u64
  c_fs_base :: u64
  c_gs_base :: u64
  c_kernel_gs_base :: u64
  c_cr3 :: u64
  c_rsp0 :: u64
  c_user_rsp :: u64
  c_fx :: fxsave_area

definition swapgs :: "cpu \<Rightarrow> cpu" where
  "swapgs c = c\<lparr>c_gs_base := c_kernel_gs_base c, c_kernel_gs_base := c_gs_base c\<rparr>"

section \<open>Trap frames\<close>

record trap_frame =
  tf_rax :: u64
  tf_rcx :: u64
  tf_rdx :: u64
  tf_rbx :: u64
  tf_rbp :: u64
  tf_rsi :: u64
  tf_rdi :: u64
  tf_r8 :: u64
  tf_r9 :: u64
  tf_r10 :: u64
  tf_r11 :: u64
  tf_r12 :: u64
  tf_r13 :: u64
  tf_r14 :: u64
  tf_r15 :: u64
  tf_fs_base :: u64
  tf_pad :: u64
  tf_vector :: u64
  tf_error_code :: u64
  tf_rip :: u64
  tf_cs :: u64
  tf_rflags :: u64
  tf_rsp :: u64
  tf_ss :: u64

text \<open>The words of a frame in memory (\<^verbatim>\<open>repr(C)\<close>).\<close>

definition tf_words :: "trap_frame \<Rightarrow> u64 list" where
  "tf_words tf =
     [tf_rax tf, tf_rcx tf, tf_rdx tf, tf_rbx tf, tf_rbp tf, tf_rsi tf, tf_rdi tf, tf_r8 tf, tf_r9 tf, tf_r10 tf, tf_r11 tf,
      tf_r12 tf, tf_r13 tf, tf_r14 tf, tf_r15 tf, tf_fs_base tf, tf_pad tf, tf_vector tf, tf_error_code tf, tf_rip tf, tf_cs tf,
      tf_rflags tf, tf_rsp tf, tf_ss tf]"

definition tf_of_words :: "u64 list \<Rightarrow> trap_frame" where
  "tf_of_words w =
     \<lparr>tf_rax = w ! 0, tf_rcx = w ! 1, tf_rdx = w ! 2, tf_rbx = w ! 3, tf_rbp = w ! 4, tf_rsi = w ! 5, tf_rdi = w ! 6, tf_r8 = w ! 7,
      tf_r9 = w ! 8, tf_r10 = w ! 9, tf_r11 = w ! 10, tf_r12 = w ! 11, tf_r13 = w ! 12, tf_r14 = w ! 13, tf_r15 = w ! 14,
      tf_fs_base = w ! 15, tf_pad = w ! 16, tf_vector = w ! 17, tf_error_code = w ! 18, tf_rip = w ! 19, tf_cs = w ! 20,
      tf_rflags = w ! 21, tf_rsp = w ! 22, tf_ss = w ! 23\<rparr>"

definition tf_default :: trap_frame where
  "tf_default = tf_of_words (replicate 24 0)"

text \<open>\<^verbatim>\<open>arg0\<close> to \<^verbatim>\<open>arg5\<close>.\<close>

definition tf_args :: "trap_frame \<Rightarrow> usize list" where
  "tf_args tf = [tf_rdi tf, tf_rsi tf, tf_rdx tf, tf_r10 tf, tf_r8 tf, tf_r9 tf]"

definition tf_is_user :: "trap_frame \<Rightarrow> bool" where
  "tf_is_user tf = (tf_cs tf AND 3 = 3)"

definition push_ra :: "usize \<Rightarrow> trap_frame \<Rightarrow> words \<Rightarrow> trap_frame \<times> words" where
  "push_ra addr tf m = (tf\<lparr>tf_rsp := tf_rsp tf - 8\<rparr>, m(tf_rsp tf - 8 := addr))"

section \<open>Contexts of user programs\<close>

text \<open>The selectors of the user code and data segments in the descriptor table.\<close>

definition UCODE64_SELECTOR :: u64 where "UCODE64_SELECTOR = 0x33"
definition UDATA_SELECTOR :: u64 where "UDATA_SELECTOR = 0x2b"
definition KCODE64_SELECTOR :: u64 where "KCODE64_SELECTOR = 0x10"
definition KDATA_SELECTOR :: u64 where "KDATA_SELECTOR = 0x18"

definition uspace_context_new :: "usize \<Rightarrow> usize \<Rightarrow> usize \<Rightarrow> trap_frame" where
  "uspace_context_new entry ustack_top arg0 =
     tf_default\<lparr>tf_rdi := arg0, tf_rip := entry, tf_cs := UCODE64_SELECTOR, tf_rflags := 0x200, tf_rsp := ustack_top, tf_ss := UDATA_SELECTOR\<rparr>"

definition uspace_context_from :: "trap_frame \<Rightarrow> trap_frame" where
  "uspace_context_from tf = tf\<lparr>tf_cs := UCODE64_SELECTOR, tf_ss := UDATA_SELECTOR\<rparr>"

definition switch_to_kernel_fs_base :: "cpu \<Rightarrow> trap_frame \<Rightarrow> trap_frame" where
  "switch_to_kernel_fs_base c tf = (if tf_is_user tf then tf\<lparr>tf_fs_base := c_fs_base c\<rparr> else tf)"

definition switch_to_user_fs_base :: "trap_frame \<Rightarrow> cpu \<Rightarrow> cpu" where
  "switch_to_user_fs_base tf c = (if tf_is_user tf then c\<lparr>c_fs_base := tf_fs_base tf\<rparr> else c)"

text \<open>The registers that the \<^verbatim>\<open>pop\<close> instructions load from the first 15 words of a frame.\<close>

definition pop_regs :: "u64 list \<Rightarrow> cpu \<Rightarrow> cpu" where
  "pop_regs w c =
     c\<lparr>c_rax := w ! 0, c_rcx := w ! 1, c_rdx := w ! 2, c_rbx := w ! 3, c_rbp := w ! 4, c_rsi := w ! 5, c_rdi := w ! 6, c_r8 := w ! 7,
       c_r9 := w ! 8, c_r10 := w ! 9, c_r11 := w ! 10, c_r12 := w ! 11, c_r13 := w ! 12, c_r14 := w ! 13, c_r15 := w ! 14\<rparr>"

definition iretq :: "cpu \<Rightarrow> words \<Rightarrow> cpu" where
  "iretq c m =
     (let p = c_rsp c in c\<lparr>c_rip := m p, c_cs := m (p + 8), c_rflags := m (p + 16), c_rsp := m (p + 24), c_ss := m (p + 32)\<rparr>)"

text \<open>\<^verbatim>\<open>enter_uspace\<close> of the frame at address \<open>p\<close>; it panics when the stack pointer for traps is not the top of the kernel stack.\<close>

definition enter_uspace :: "u64 \<Rightarrow> usize \<Rightarrow> cpu \<Rightarrow> words \<Rightarrow> ('e, cpu) outcome" where
  "enter_uspace p kstack_top c m =
     (if c_rsp0 c \<noteq> kstack_top then Panic
      else
        let tf = tf_of_words (get_words p 24 m);
            c = switch_to_user_fs_base tf c;
            c = (pop_regs (get_words p 15 m) c)\<lparr>c_rsp := p + 8 * 15 + 32\<rparr>
        in Ok (iretq (swapgs c) m))"

section \<open>Switching tasks\<close>

record task_context =
  tc_kstack_top :: usize
  tc_rsp :: u64
  tc_fs_base :: usize
  tc_gs_base :: usize
  tc_ext_state :: fxsave_area
  tc_cr3 :: usize

definition task_context_new :: "usize \<Rightarrow> task_context" where
  "task_context_new kernel_root =
     \<lparr>tc_kstack_top = 0, tc_rsp = 0, tc_fs_base = 0, tc_gs_base = 0, tc_ext_state = ext_state_default, tc_cr3 = kernel_root\<rparr>"

text \<open>The frame has \<^verbatim>\<open>r15\<close>, \<^verbatim>\<open>r14\<close>, \<^verbatim>\<open>r13\<close>, \<^verbatim>\<open>r12\<close>, \<^verbatim>\<open>rbx\<close>, \<^verbatim>\<open>rbp\<close> and \<^verbatim>\<open>rip\<close>; it lies one word below the top of the stack.\<close>

definition task_context_init :: "usize \<Rightarrow> usize \<Rightarrow> usize \<Rightarrow> task_context \<Rightarrow> words \<Rightarrow> task_context \<times> words" where
  "task_context_init entry kstack_top tls_area t m =
     (let frame_ptr = kstack_top - 8 - 56
      in (t\<lparr>tc_rsp := frame_ptr, tc_kstack_top := kstack_top, tc_fs_base := tls_area\<rparr>,
          put_words frame_ptr [0, 0, 0, 0, 0, 0, entry] m))"

definition set_page_table_root :: "usize \<Rightarrow> task_context \<Rightarrow> task_context" where
  "set_page_table_root cr3 t = t\<lparr>tc_cr3 := cr3\<rparr>"

text \<open>The assembly code: the callee-saved registers are pushed, the stacks are exchanged, and the registers are popped; returns the saved stack pointer.\<close>

definition context_switch :: "u64 \<Rightarrow> cpu \<Rightarrow> words \<Rightarrow> u64 \<times> cpu \<times> words" where
  "context_switch next_rsp c m =
     (let (rsp, m) = push_all [c_rbp c, c_rbx c, c_r12 c, c_r13 c, c_r14 c, c_r15 c] (c_rsp c, m);
          w = get_words next_rsp 7 m
      in (rsp, c\<lparr>c_r15 := w ! 0, c_r14 := w ! 1, c_r13 := w ! 2, c_r12 := w ! 3, c_rbx := w ! 4, c_rbp := w ! 5, c_rip := w ! 6,
                 c_rsp := next_rsp + 56\<rparr>, m))"

text \<open>\<^verbatim>\<open>TaskContext::switch_to\<close>, called with the return address on the stack.\<close>

definition ctx_switch_to :: "task_context \<Rightarrow> task_context \<Rightarrow> cpu \<Rightarrow> words \<Rightarrow> task_context \<times> cpu \<times> words" where
  "ctx_switch_to self nxt c m =
     (let self = self\<lparr>tc_ext_state := c_fx c, tc_gs_base := c_kernel_gs_base c\<rparr>;
          c = c\<lparr>c_fx := tc_ext_state nxt, c_kernel_gs_base := tc_gs_base nxt, c_rsp0 := tc_kstack_top nxt,
                c_cr3 := (if tc_cr3 nxt \<noteq> tc_cr3 self then tc_cr3 nxt else c_cr3 c)\<rparr>;
          (rsp, c, m) = context_switch (tc_rsp nxt) c m
      in (self\<lparr>tc_rsp := rsp\<rparr>, c, m))"

section \<open>System calls\<close>

text \<open>The \<^verbatim>\<open>syscall\<close> instruction, with the flag mask of \<^verbatim>\<open>init_syscall\<close>; \<open>entry\<close> is the address in \<^verbatim>\<open>LSTAR\<close> and \<open>next_ip\<close> that of the next instruction.\<close>

definition syscall_insn :: "u64 \<Rightarrow> u64 \<Rightarrow> cpu \<Rightarrow> cpu" where
  "syscall_insn entry next_ip c =
     c\<lparr>c_rcx := next_ip, c_r11 := c_rflags c, c_rip := entry, c_rflags := c_rflags c AND NOT 0x47700, c_cs := KCODE64_SELECTOR,
       c_ss := KDATA_SELECTOR\<rparr>"

text \<open>\<^verbatim>\<open>syscall_entry\<close> up to the call of the handler: the frame is built on the kernel stack; its address is in \<^verbatim>\<open>rdi\<close>.\<close>

definition syscall_entry :: "cpu \<Rightarrow> words \<Rightarrow> cpu \<times> words" where
  "syscall_entry c m =
     (let c = swapgs c;
          c = c\<lparr>c_user_rsp := c_rsp c\<rparr>;
          (rsp, m) = push_all [c_user_rsp c, c_r11 c, UCODE64_SELECTOR, c_rcx c] (c_rsp0 c - 8, m);
          (rsp, m) = push_all [c_r15 c, c_r14 c, c_r13 c, c_r12 c, c_r11 c, c_r10 c, c_r9 c, c_r8 c, c_rdi c, c_rsi c, c_rbp c, c_rbx c,
            c_rdx c, c_rcx c, c_rax c] (rsp - 32, m)
      in (c\<lparr>c_rsp := rsp, c_rdi := rsp\<rparr>, m))"

text \<open>The exit code, with the frame at the stack pointer, up to and including \<^verbatim>\<open>sysretq\<close>.\<close>

definition syscall_exit :: "cpu \<Rightarrow> words \<Rightarrow> cpu" where
  "syscall_exit c m =
     (let p = c_rsp c;
          c = pop_regs (get_words p 15 m) c;
          rsp = p + 120 + 72;
          c = c\<lparr>c_rcx := m (rsp - 40), c_r11 := m (rsp - 24), c_rsp := m (rsp - 16)\<rparr>;
          c = swapgs c
      in c\<lparr>c_rip := c_rcx c, c_rflags := (c_r11 c AND 0x3C7FD7) OR 2, c_cs := UCODE64_SELECTOR, c_ss := UDATA_SELECTOR\<rparr>)"

text \<open>
  \<^verbatim>\<open>x86_syscall_handler\<close> on a frame; \<open>handle\<close> is the handler of the kernel and \<open>post\<close> the callback after a trap. Both work on
  the frame and the state of the kernel.
\<close>

definition x86_syscall_handler ::
  "(trap_frame \<Rightarrow> usize \<Rightarrow> 's \<Rightarrow> ('e, isize) outcome \<times> trap_frame \<times> 's) \<Rightarrow> (trap_frame \<Rightarrow> bool \<Rightarrow> 's \<Rightarrow> ('e, unit) outcome \<times> trap_frame \<times> 's)
     \<Rightarrow> cpu \<Rightarrow> trap_frame \<Rightarrow> 's \<Rightarrow> ('e, cpu) outcome \<times> trap_frame \<times> 's" where
  "x86_syscall_handler handle post c tf s =
     (let tf = switch_to_kernel_fs_base c tf in
      sbind (handle tf (tf_rax tf) s) (\<lambda>r (tf, s).
      let tf = tf\<lparr>tf_rax := r\<rparr> in
      sbind (post tf True s) (\<lambda>_ (tf, s). (Ok (switch_to_user_fs_base tf c), (tf, s)))))"

text \<open>\<^verbatim>\<open>x86_trap_handler\<close>: the vector chooses the handler; other exceptions panic.\<close>

definition x86_trap_handler ::
  "(trap_frame \<Rightarrow> 's \<Rightarrow> ('e, unit) outcome \<times> 's) \<Rightarrow> (u64 \<Rightarrow> 's \<Rightarrow> ('e, unit) outcome \<times> 's)
     \<Rightarrow> (trap_frame \<Rightarrow> usize \<Rightarrow> 's \<Rightarrow> ('e, isize) outcome \<times> trap_frame \<times> 's) \<Rightarrow> (trap_frame \<Rightarrow> bool \<Rightarrow> 's \<Rightarrow> ('e, unit) outcome \<times> trap_frame \<times> 's)
     \<Rightarrow> cpu \<Rightarrow> trap_frame \<Rightarrow> 's \<Rightarrow> ('e, cpu) outcome \<times> trap_frame \<times> 's" where
  "x86_trap_handler page_fault irq handle post c tf s =
     (let tf = switch_to_kernel_fs_base c tf; v = tf_vector tf AND 0xff in
      sbind (if v = 14 then (case page_fault tf s of (r, s) \<Rightarrow> (r, (tf, s)))
             else if v = 3 then (Ok (), (tf, s))
             else if v = 13 then (Panic, (tf, s))
             else if v = 0x80 then sbind (handle tf (tf_rax tf) s) (\<lambda>r (tf, s). (Ok (), (tf\<lparr>tf_rax := r\<rparr>, s)))
             else if 0x20 \<le> v then (case irq (tf_vector tf) s of (r, s) \<Rightarrow> (r, (tf, s)))
             else (Panic, (tf, s))) (\<lambda>_ (tf, s).
      sbind (post tf (tf_is_user tf) s) (\<lambda>_ (tf, s). (Ok (switch_to_user_fs_base tf c), (tf, s)))))"

section \<open>Properties\<close>

lemma all_less_upt: "(\<forall>i < n. P i) \<longleftrightarrow> list_all P [0..<n]"
  by (auto simp: list_all_iff)

lemma length_tf_words: "length (tf_words tf) = 24"
  by (simp add: tf_words_def)

lemma nth_get_words [simp]: "i < n \<Longrightarrow> get_words p n m ! i = m (p + 8 * of_nat i)"
  by (simp add: get_words_def)

lemma context_switch_saves:
  assumes "context_switch next_rsp c m = (rsp, c', m')"
  shows "rsp = c_rsp c - 48"
    and "m' rsp = c_r15 c" "m' (rsp + 8) = c_r14 c" "m' (rsp + 16) = c_r13 c" "m' (rsp + 24) = c_r12 c" "m' (rsp + 32) = c_rbx c"
    "m' (rsp + 40) = c_rbp c" "m' (rsp + 48) = m (c_rsp c)"
  using assms by (auto simp: context_switch_def Let_def)

lemma context_switch_loads:
  assumes "context_switch p c m = (rsp, c', m')"
  shows "c_r15 c' = m' p" "c_r14 c' = m' (p + 8)" "c_r13 c' = m' (p + 16)" "c_r12 c' = m' (p + 24)" "c_rbx c' = m' (p + 32)"
    "c_rbp c' = m' (p + 40)" "c_rip c' = m' (p + 48)" "c_rsp c' = p + 56" "c_fx c' = c_fx c" "c_kernel_gs_base c' = c_kernel_gs_base c"
    "c_rsp0 c' = c_rsp0 c" "c_cr3 c' = c_cr3 c"
  using assms by (auto simp: context_switch_def Let_def)

lemma context_switch_frame:
  assumes "context_switch p c m = (rsp, c', m')" "\<forall>j < 6. c_rsp c - 8 * of_nat (Suc j) \<noteq> a"
  shows "m' a = m a"
  using assms by (auto simp: context_switch_def Let_def All_less_Suc eval_nat_numeral)

text \<open>
  C10. A task that the kernel switches away from continues where it was. When its stack frame is untouched until some task switches
  back to it, and that task pushes its own registers elsewhere, the callee-saved registers, the stack pointer, the return address,
  the floating-point state and the user's GS base are the ones it had, the stack for traps is its own, and so is the page table.
\<close>

theorem context_switch_resumes:
  assumes "ctx_switch_to a b c m = (a', c1, m1)" and "ctx_switch_to d a' c2 m2 = (d', c3, m3)"
    and "\<forall>i < 7. m2 (tc_rsp a' + 8 * of_nat i) = m1 (tc_rsp a' + 8 * of_nat i)"
    and "\<forall>i < 7. \<forall>j < 6. c_rsp c2 - 8 * of_nat (Suc j) \<noteq> tc_rsp a' + 8 * of_nat i"
    and "c_cr3 c = tc_cr3 a" and "c_cr3 c2 = tc_cr3 d"
  shows "c_rbx c3 = c_rbx c \<and> c_rbp c3 = c_rbp c \<and> c_r12 c3 = c_r12 c \<and> c_r13 c3 = c_r13 c \<and> c_r14 c3 = c_r14 c \<and> c_r15 c3 = c_r15 c
    \<and> c_rsp c3 = c_rsp c + 8 \<and> c_rip c3 = m (c_rsp c) \<and> c_fx c3 = c_fx c \<and> c_kernel_gs_base c3 = c_kernel_gs_base c
    \<and> c_rsp0 c3 = tc_kstack_top a \<and> c_cr3 c3 = c_cr3 c"
proof -
  let ?c = "c\<lparr>c_fx := tc_ext_state b, c_kernel_gs_base := tc_gs_base b, c_rsp0 := tc_kstack_top b,
      c_cr3 := (if tc_cr3 b \<noteq> tc_cr3 a then tc_cr3 b else c_cr3 c)\<rparr>"
  obtain rsp where s: "context_switch (tc_rsp b) ?c m = (rsp, c1, m1)"
    and a': "a' = a\<lparr>tc_ext_state := c_fx c, tc_gs_base := c_kernel_gs_base c, tc_rsp := rsp\<rparr>"
    using assms(1) by (auto simp: ctx_switch_to_def Let_def split: prod.splits)
  note sv = context_switch_saves [OF s, simplified]
  have r: "tc_rsp a' = rsp" by (simp add: a')
  let ?w = "\<lambda>i. m1 (rsp + 8 * of_nat i)"
  let ?c2 = "c2\<lparr>c_fx := tc_ext_state a', c_kernel_gs_base := tc_gs_base a', c_rsp0 := tc_kstack_top a',
      c_cr3 := (if tc_cr3 a' \<noteq> tc_cr3 d then tc_cr3 a' else c_cr3 c2)\<rparr>"
  obtain q where t: "context_switch rsp ?c2 m2 = (q, c3, m3)"
    using assms(2) by (auto simp: ctx_switch_to_def Let_def r split: prod.splits)
  have m3: "m3 (rsp + 8 * of_nat i) = m1 (rsp + 8 * of_nat i)" if "i < 7" for i
    using context_switch_frame [OF t, of "rsp + 8 * of_nat i"] assms(3,4) that by (auto simp: r)
  note ld = context_switch_loads [OF t, simplified]
  show ?thesis using ld sv m3 [of 0] m3 [of 1] m3 [of 2] m3 [of 3] m3 [of 4] m3 [of 5] m3 [of 6] assms(5,6)
    by (simp add: a')
qed

definition demo_cpu :: cpu where
  "demo_cpu =
     \<lparr>c_rax = 39, c_rcx = 0, c_rdx = 3, c_rbx = 4, c_rbp = 5, c_rsi = 6, c_rdi = 7, c_r8 = 8, c_r9 = 9, c_r10 = 10, c_r11 = 11, c_r12 = 12,
      c_r13 = 13, c_r14 = 14, c_r15 = 15, c_rip = 0x400000, c_cs = UCODE64_SELECTOR, c_rflags = 0x202, c_rsp = 0x9000, c_ss = UDATA_SELECTOR,
      c_fs_base = 0, c_gs_base = 1, c_kernel_gs_base = 2, c_cr3 = 0x1000, c_rsp0 = 0xa000, c_user_rsp = 0, c_fx = ext_state_default\<rparr>"

theorem context_switch_resumes_witness:
  "let m = (\<lambda>_. 0)(0x9000 := 0x123); a = task_context_new 0x1000; (b, m0) = task_context_init 0x777 0x5000 0 (task_context_new 0x2000) m;
       (a', c1, m1) = ctx_switch_to a b demo_cpu m0; (d', c3, m3) = ctx_switch_to b a' c1 m1
   in c_rip c1 = 0x777 \<and> c_r12 c3 = 12 \<and> c_rip c3 = 0x123 \<and> c_rsp c3 = 0x9008"
proof -
  let ?m = "(\<lambda>_. 0)(0x9000 := 0x123)" and ?a = "task_context_new 0x1000"
  obtain b m0 where i: "task_context_init 0x777 0x5000 0 (task_context_new 0x2000) ?m = (b, m0)" by (metis surj_pair)
  obtain a' c1 m1 where s: "ctx_switch_to ?a b demo_cpu m0 = (a', c1, m1)" by (metis surj_pair)
  obtain d' c3 m3 where t: "ctx_switch_to b a' c1 m1 = (d', c3, m3)" by (metis surj_pair)
  have b: "tc_cr3 b = 0x2000" "tc_rsp b = 0x4fc0" "m0 0x9000 = 0x123" "m0 0x4ff0 = 0x777"
    using i by (auto simp: task_context_init_def task_context_new_def Let_def)
  have c1: "c_cr3 c1 = 0x2000" "c_rsp c1 = 0x4ff8" "tc_rsp a' = 0x8fd0" "c_rip c1 = 0x777"
    using s b by (auto simp: ctx_switch_to_def context_switch_def Let_def demo_cpu_def task_context_new_def)
  have "\<forall>i < 7. \<forall>j < 6. c_rsp c1 - 8 * of_nat (Suc j) \<noteq> tc_rsp a' + 8 * of_nat i"
    by (simp add: c1 all_less_upt upt_rec)
  note r = context_switch_resumes [OF s t _ this]
  have "c_r12 c3 = 12 \<and> c_rip c3 = 0x123 \<and> c_rsp c3 = 0x9008"
    using r b c1 by (simp add: demo_cpu_def task_context_new_def)
  with i s t c1 show ?thesis by simp
qed

text \<open>A new task starts at its entry point, with the stack as after a call: \<open>rsp + 8\<close> is a multiple of 16.\<close>

lemma new_task_starts:
  assumes "task_context_init entry kstack_top tls t m = (b, m0)" and "ctx_switch_to a b c m0 = (a', c1, m1)"
    and "kstack_top mod 16 = 0" and "\<forall>j < 6. c_rsp c - 8 * of_nat (Suc j) \<noteq> kstack_top - 16"
  shows "c_rip c1 = entry" "c_rsp c1 = kstack_top - 8" "(c_rsp c1 + 8) mod 16 = 0" "c_rsp0 c1 = kstack_top"
proof -
  have b: "tc_rsp b = kstack_top - 64" "m0 (kstack_top - 16) = entry" "tc_kstack_top b = kstack_top"
    using assms(1) by (auto simp: task_context_init_def Let_def)
  obtain rsp where s: "context_switch (kstack_top - 64) (c\<lparr>c_fx := tc_ext_state b, c_kernel_gs_base := tc_gs_base b, c_rsp0 := tc_kstack_top b,
      c_cr3 := (if tc_cr3 b \<noteq> tc_cr3 a then tc_cr3 b else c_cr3 c)\<rparr>) m0 = (rsp, c1, m1)"
    using assms(2) by (auto simp: ctx_switch_to_def Let_def b split: prod.splits)
  note l = context_switch_loads [OF s, simplified]
  show "c_rip c1 = entry" using l(7) context_switch_frame [OF s, of "kstack_top - 16"] assms(4) b by simp
  show "c_rsp c1 = kstack_top - 8" "(c_rsp c1 + 8) mod 16 = 0" "c_rsp0 c1 = kstack_top" using l assms(3) b by simp_all
qed



end
