(* ===== verification/Signals.thy ===== *)
theory Signals
  imports User_Memory
begin

unbundle bit_operations_syntax

text \<open>
  Signals (\<^verbatim>\<open>core/src/signal.rs\<close>) and the data of a thread that they use (\<^verbatim>\<open>ThreadData\<close> of \<^verbatim>\<open>core/src/task.rs\<close>). \<^verbatim>\<open>check_signals\<close> has a loop that
  need not end: \<open>None\<close> is that it does not return.

  Lemmas: a signal number is accepted exactly from 1 to 31; a thread with a pending signal
  that is not blocked never leaves \<^verbatim>\<open>check_signals\<close>.
\<close>

section \<open>Signals and masks\<close>

datatype signal =
    SIGHUP | SIGINT | SIGQUIT | SIGILL | SIGTRAP | SIGABRT | SIGBUS | SIGFPE | SIGKILL | SIGUSR1 | SIGSEGV | SIGUSR2 | SIGPIPE |
    SIGALRM | SIGTERM | SIGSTKFLT | SIGCHLD | SIGCONT | SIGSTOP | SIGTSTP | SIGTTIN | SIGTTOU | SIGURG | SIGXCPU | SIGXFSZ |
    SIGVTALRM | SIGPROF | SIGWINCH | SIGIO | SIGPWR | SIGSYS

fun signal_code :: "signal \<Rightarrow> u32" where
  "signal_code SIGHUP = 1" | "signal_code SIGINT = 2" | "signal_code SIGQUIT = 3" | "signal_code SIGILL = 4" |
  "signal_code SIGTRAP = 5" | "signal_code SIGABRT = 6" | "signal_code SIGBUS = 7" | "signal_code SIGFPE = 8" |
  "signal_code SIGKILL = 9" | "signal_code SIGUSR1 = 10" | "signal_code SIGSEGV = 11" | "signal_code SIGUSR2 = 12" |
  "signal_code SIGPIPE = 13" | "signal_code SIGALRM = 14" | "signal_code SIGTERM = 15" | "signal_code SIGSTKFLT = 16" |
  "signal_code SIGCHLD = 17" | "signal_code SIGCONT = 18" | "signal_code SIGSTOP = 19" | "signal_code SIGTSTP = 20" |
  "signal_code SIGTTIN = 21" | "signal_code SIGTTOU = 22" | "signal_code SIGURG = 23" | "signal_code SIGXCPU = 24" |
  "signal_code SIGXFSZ = 25" | "signal_code SIGVTALRM = 26" | "signal_code SIGPROF = 27" | "signal_code SIGWINCH = 28" |
  "signal_code SIGIO = 29" | "signal_code SIGPWR = 30" | "signal_code SIGSYS = 31"

definition all_signals :: "signal list" where
  "all_signals =
    [SIGHUP, SIGINT, SIGQUIT, SIGILL, SIGTRAP, SIGABRT, SIGBUS, SIGFPE, SIGKILL, SIGUSR1, SIGSEGV, SIGUSR2, SIGPIPE, SIGALRM,
     SIGTERM, SIGSTKFLT, SIGCHLD, SIGCONT, SIGSTOP, SIGTSTP, SIGTTIN, SIGTTOU, SIGURG, SIGXCPU, SIGXFSZ, SIGVTALRM, SIGPROF,
     SIGWINCH, SIGIO, SIGPWR, SIGSYS]"

definition signal_from_u32 :: "i32 \<Rightarrow> signal option" where
  "signal_from_u32 sig = List.find (\<lambda>s. signal_code s = sig) all_signals"

type_synonym sig_mask = u32

text \<open>Every flag of \<^verbatim>\<open>SigMask\<close>: bits 1 to 31. The shift \<^verbatim>\<open>1 << sig\<close> uses the low five bits of the amount.\<close>

definition SIG_MASK_ALL :: sig_mask where "SIG_MASK_ALL = 0xfffffffe"

definition sig_mask_from_bits :: "u32 \<Rightarrow> sig_mask option" where
  "sig_mask_from_bits b = (if b AND NOT SIG_MASK_ALL = 0 then Some b else None)"

definition sig_bit :: "i32 \<Rightarrow> u32" where
  "sig_bit sig = push_bit (unat (sig AND 31)) 1"

definition mask_contains :: "sig_mask \<Rightarrow> sig_mask \<Rightarrow> bool" where
  "mask_contains m b = (m AND b = b)"

section \<open>Dispositions\<close>

datatype sig_disposition = DispDefault | DispIgnore | DispCoreDump | DispTerminate | DispStop | DispContinue

datatype signal_os_action = ActCoreDump | ActTerminate | ActStop | ActContinue | ActHandler sig_mask

definition DEFAULT_ACTIONS :: "sig_disposition list" where
  "DEFAULT_ACTIONS =
    [DispIgnore, DispTerminate, DispTerminate, DispCoreDump, DispCoreDump, DispCoreDump, DispCoreDump, DispCoreDump,
     DispCoreDump, DispTerminate, DispTerminate, DispCoreDump, DispTerminate, DispTerminate, DispTerminate, DispTerminate,
     DispTerminate, DispIgnore, DispContinue, DispStop, DispStop, DispStop, DispStop, DispIgnore, DispCoreDump, DispCoreDump,
     DispTerminate, DispTerminate, DispIgnore, DispTerminate, DispTerminate, DispCoreDump]"

definition handle_signal :: "sig_disposition \<Rightarrow> u32 \<Rightarrow> ('e, signal_os_action option) outcome" where
  "handle_signal disposition signo =
     (case disposition of
        DispDefault \<Rightarrow>
          if length DEFAULT_ACTIONS \<le> unat signo then Panic
          else (case DEFAULT_ACTIONS ! unat signo of
                  DispIgnore \<Rightarrow> Ok None
                | DispDefault \<Rightarrow> Panic
                | DispStop \<Rightarrow> Ok (Some ActStop)
                | DispContinue \<Rightarrow> Ok (Some ActContinue)
                | DispTerminate \<Rightarrow> Ok (Some ActTerminate)
                | DispCoreDump \<Rightarrow> Ok (Some ActCoreDump))
      | DispCoreDump \<Rightarrow> Ok (Some ActCoreDump)
      | DispTerminate \<Rightarrow> Ok (Some ActTerminate)
      | DispStop \<Rightarrow> Ok (Some ActStop)
      | DispContinue \<Rightarrow> Ok (Some ActContinue)
      | DispIgnore \<Rightarrow> Ok None)"

section \<open>Threads\<close>

record thread_data =
  td_clear_child_tid :: usize
  td_pending :: "signal list"
  td_blocked :: sig_mask
  td_saved :: sig_mask

definition thread_data_new :: thread_data where
  "thread_data_new = \<lparr>td_clear_child_tid = 0, td_pending = [], td_blocked = 0, td_saved = 0\<rparr>"

text \<open>The checks of a signal number, and the delivery to a thread that does not block it.\<close>

definition signal_args :: "i32 \<Rightarrow> (linux_error, sig_mask \<times> signal) outcome" where
  "signal_args sig =
     obind (ok_or (sig_mask_from_bits (sig_bit sig)) EINVAL) (\<lambda>b.
     obind (ok_or (signal_from_u32 sig) EINVAL) (\<lambda>s. Ok (b, s)))"

definition td_push :: "signal \<Rightarrow> thread_data \<Rightarrow> thread_data" where
  "td_push s td = td\<lparr>td_pending := td_pending td @ [s]\<rparr>"

section \<open>Checking for signals\<close>

text \<open>The loop: the front of the queue is looked at but never removed.\<close>

partial_function (option) signal_loop ::
  "sig_mask \<Rightarrow> sig_disposition list \<Rightarrow> signal list \<Rightarrow> ('e, (u32 \<times> signal_os_action) option) outcome option" where
  "signal_loop msk actions pending =
     (case pending of
        [] \<Rightarrow> Some (Ok None)
      | sig # _ \<Rightarrow>
          let signo = signal_code sig in
          (case sig_mask_from_bits (sig_bit signo) of
             None \<Rightarrow> Some Panic
           | Some b \<Rightarrow>
               if mask_contains msk b then signal_loop msk actions pending
               else if length actions \<le> unat signo then Some Panic
               else (case handle_signal (actions ! unat signo) signo of
                       Ok (Some a) \<Rightarrow> Some (Ok (Some (signo, a)))
                     | Ok None \<Rightarrow> signal_loop msk actions pending
                     | Err e \<Rightarrow> Some (Err e)
                     | Panic \<Rightarrow> Some Panic)))"

text \<open>How \<^verbatim>\<open>check_signals\<close> ends: it returns false, or calls \<^verbatim>\<open>do_exit\<close> with a code for the whole group. Every other way ends in \<^verbatim>\<open>unimplemented!\<close>.\<close>

datatype signal_end = NoSignal | ExitsGroup i32

definition check_signals :: "sig_disposition list \<Rightarrow> thread_data \<Rightarrow> ('e, signal_end) outcome option" where
  "check_signals actions td =
     map_option (\<lambda>r. obind r (\<lambda>x.
       case x of
         None \<Rightarrow> Ok NoSignal
       | Some (signo, ActCoreDump) \<Rightarrow> Ok (ExitsGroup (128 + signo))
       | Some (signo, ActTerminate) \<Rightarrow> Ok (ExitsGroup (128 + signo))
       | Some (signo, ActStop) \<Rightarrow> Ok (ExitsGroup 1)
       | Some _ \<Rightarrow> Panic))
     (signal_loop (NOT (td_blocked td) AND SIG_MASK_ALL) actions (td_pending td))"

definition post_trap_callback :: "bool \<Rightarrow> sig_disposition list \<Rightarrow> thread_data \<Rightarrow> ('e, signal_end) outcome option" where
  "post_trap_callback from_user actions td = (if \<not> from_user then Some (Ok NoSignal) else check_signals actions td)"

section \<open>Properties\<close>

lemma set_all_signals: "s \<in> set all_signals"
  by (cases s) (simp_all add: all_signals_def)

lemma signal_code_range: "0 < signal_code s \<and> signal_code s < 32"
  by (cases s) simp_all

lemma sig_bit_known: "sig_mask_from_bits (sig_bit (signal_code s)) = Some (sig_bit (signal_code s))"
  by (cases s) (simp_all add: sig_mask_from_bits_def sig_bit_def SIG_MASK_ALL_def)

lemma signal_from_u32_iff: "signal_from_u32 sig = Some s \<longleftrightarrow> signal_code s = sig"
proof
  assume "signal_from_u32 sig = Some s"
  then show "signal_code s = sig" unfolding signal_from_u32_def by (auto dest: find_SomeD)
next
  assume "signal_code s = sig"
  then show "signal_from_u32 sig = Some s" by (cases s) (auto simp: signal_from_u32_def all_signals_def)
qed

lemma signal_from_u32_range: "(\<exists>s. signal_from_u32 sig = Some s) \<longleftrightarrow> 0 < sig \<and> sig < 32"
proof
  assume "0 < sig \<and> sig < 32"
  then have "unat sig \<in> set [1..<32]" by (simp add: word_less_nat_alt)
  moreover have "list_all (\<lambda>n. signal_from_u32 (of_nat n) \<noteq> None) [1..<32]" by code_simp
  ultimately have "signal_from_u32 (of_nat (unat sig)) \<noteq> None" unfolding list_all_iff by blast
  then show "\<exists>s. signal_from_u32 sig = Some s" by simp
qed (auto simp: signal_from_u32_iff signal_code_range)

text \<open>A signal number is accepted exactly when it names a signal.\<close>

lemma signal_args_eq:
  "signal_args sig = (case signal_from_u32 sig of Some s \<Rightarrow> Ok (sig_bit sig, s) | None \<Rightarrow> Err EINVAL)"
proof (cases "signal_from_u32 sig")
  case None
  then show ?thesis by (cases "sig_mask_from_bits (sig_bit sig)") (simp_all add: signal_args_def)
next
  case (Some s)
  then have "sig_mask_from_bits (sig_bit sig) = Some (sig_bit sig)" using sig_bit_known [of s] by (simp add: signal_from_u32_iff)
  with Some show ?thesis by (simp add: signal_args_def)
qed

lemma mask_contains_complement:
  "mask_contains (NOT b AND SIG_MASK_ALL) (sig_bit (signal_code s)) \<longleftrightarrow> \<not> mask_contains b (sig_bit (signal_code s))"
proof -
  obtain k where k: "sig_bit (signal_code s) = push_bit k 1" "0 < k" "k < 32"
  proof (rule that)
    show "sig_bit (signal_code s) = push_bit (unat (signal_code s)) 1" by (cases s) (simp_all add: sig_bit_def)
  qed (use signal_code_range [of s] in \<open>simp_all add: word_less_nat_alt\<close>)
  have "mask_contains m (push_bit k 1) \<longleftrightarrow> bit m k" for m :: u32
  proof
    assume "mask_contains m (push_bit k 1)"
    then have "bit (m AND push_bit k 1) k = bit (push_bit k (1 :: u32)) k" by (simp add: mask_contains_def)
    then show "bit m k" using k(3) by (simp add: bit_simps)
  next
    assume "bit m k"
    then show "mask_contains m (push_bit k 1)" unfolding mask_contains_def by (intro bit_word_eqI) (auto simp: bit_simps)
  qed
  moreover have "list_all (bit SIG_MASK_ALL) [1..<32]" by code_simp
  then have "bit SIG_MASK_ALL k" using k(2,3) by (simp only: list_all_iff set_upt atLeastLessThan_iff) simp
  ultimately show ?thesis using k by (simp add: bit_simps)
qed

lemma signal_loop_hangs:
  assumes "mask_contains msk (sig_bit (signal_code s)) \<or> unat (signal_code s) < length actions \<and> handle_signal (actions ! unat (signal_code s)) (signal_code s) = (Ok None :: ('e, signal_os_action option) outcome)"
  shows "(signal_loop msk actions (s # rest) :: ('e, (u32 \<times> signal_os_action) option) outcome option) = None"
proof -
  have "(m, a, p) \<noteq> (msk, actions, s # rest)" if "(signal_loop m a p :: ('e, (u32 \<times> signal_os_action) option) outcome option) = Some r" for m a p r
  proof (rule signal_loop.raw_induct [where P = "\<lambda>m a p r. (m, a, p) \<noteq> (msk, actions, s # rest)", OF _ that], rule notI, goal_cases)
    case (1 loop m a p r)
    from 1(2,3) assms have "loop m a p = Some r"
      by (auto simp: Let_def sig_bit_known split: if_splits outcome.splits option.splits)
    with 1(1,3) show ?case by blast
  qed
  then show ?thesis by (cases "signal_loop msk actions (s # rest) :: ('e, (u32 \<times> signal_os_action) option) outcome option") auto
qed



end
