(* ===== verification/Processes.thy ===== *)
theory Processes
  imports Signals
begin

unbundle bit_operations_syntax

text \<open>
  Processes and threads (\<^verbatim>\<open>vendor/axprocess\<close>), the tables that find them (\<^verbatim>\<open>core/src/task.rs\<close>), and sending signals to them
  (\<^verbatim>\<open>core/src/signal.rs\<close>). A process is named by its process id and a thread by its thread id; ids come from the counter of task
  ids, so two objects share an id only after 2^32 tasks. \<open>pt_procs\<close> and \<open>pt_threads\<close> are the objects that exist: reference counts keep
  an object while its parent's list of children, a thread, or a running system call (\<open>pt_held\<close>) refers to it. The maps of weak
  references of the source are lists of keys, read through the objects that exist.

  Lemmas: the processes form a tree below the init process in every reachable state; every process that ended is a leaf that waits for
  its parent; waiting and exiting hand over the exit code.
\<close>

section \<open>Processes and threads\<close>

type_synonym pid = u32

text \<open>\<^verbatim>\<open>ProcessData\<close>; the address space, the descriptor table and the current directory are shared by reference.\<close>

record proc_data =
  pd_exe_path :: string
  pd_aspace :: nat
  pd_shared :: "signal list"
  pd_actions :: "sig_disposition list"
  pd_fds :: nat
  pd_cwd :: nat
  pd_heap_bottom :: usize
  pd_heap_top :: usize

record process =
  pr_zombie :: bool
  pr_threads :: "pid list"
  pr_exit_code :: i32
  pr_group_exited :: bool
  pr_data :: "proc_data option"
  pr_children :: "pid list"
  pr_parent :: "pid option"
  pr_pgid :: pid

record thread =
  th_proc :: pid
  th_data :: thread_data

record ptab =
  pt_procs :: "pid \<Rightarrow> process option"
  pt_threads :: "pid \<Rightarrow> thread option"
  pt_init :: pid
  pt_thread_table :: "pid list"
  pt_process_table :: "pid list"
  pt_held :: "pid list"

definition upd_proc :: "pid \<Rightarrow> (process \<Rightarrow> process) \<Rightarrow> ptab \<Rightarrow> ptab" where
  "upd_proc p f t = t\<lparr>pt_procs := (pt_procs t)(p := map_option f (pt_procs t p))\<rparr>"

definition upd_thread :: "pid \<Rightarrow> (thread \<Rightarrow> thread) \<Rightarrow> ptab \<Rightarrow> ptab" where
  "upd_thread x f t = t\<lparr>pt_threads := (pt_threads t)(x := map_option f (pt_threads t x))\<rparr>"

text \<open>Insertion in a map with ordered keys.\<close>

definition insert_key :: "pid \<Rightarrow> pid list \<Rightarrow> pid list" where
  "insert_key k ks = (if k \<in> set ks then ks else insort k ks)"

definition pgid_of :: "pid \<Rightarrow> ptab \<Rightarrow> pid" where
  "pgid_of p t = (case pt_procs t p of Some pr \<Rightarrow> pr_pgid pr | None \<Rightarrow> 0)"

definition children_of :: "pid \<Rightarrow> ptab \<Rightarrow> pid list" where
  "children_of p t = (case pt_procs t p of Some pr \<Rightarrow> pr_children pr | None \<Rightarrow> [])"

definition threads_of :: "pid \<Rightarrow> ptab \<Rightarrow> pid list" where
  "threads_of p t = (case pt_procs t p of Some pr \<Rightarrow> filter (\<lambda>x. pt_threads t x \<noteq> None) (pr_threads pr) | None \<Rightarrow> [])"

definition is_zombie :: "pid \<Rightarrow> ptab \<Rightarrow> bool" where
  "is_zombie p t = (case pt_procs t p of Some pr \<Rightarrow> pr_zombie pr | None \<Rightarrow> False)"

text \<open>\<^verbatim>\<open>ProcessBuilder::build\<close>; without a parent this is the init process.\<close>

definition process_build :: "pid \<Rightarrow> pid option \<Rightarrow> proc_data option \<Rightarrow> ptab \<Rightarrow> ptab" where
  "process_build pid parent data t =
     (let pr = \<lparr>pr_zombie = False, pr_threads = [], pr_exit_code = 0, pr_group_exited = False, pr_data = data, pr_children = [],
                pr_parent = parent, pr_pgid = (case parent of Some q \<Rightarrow> pgid_of q t | None \<Rightarrow> pid)\<rparr>;
          t = t\<lparr>pt_procs := (pt_procs t)(pid := Some pr)\<rparr>
      in case parent of
           Some q \<Rightarrow> upd_proc q (\<lambda>pr. pr\<lparr>pr_children := insert_key pid (pr_children pr)\<rparr>) t
         | None \<Rightarrow> t\<lparr>pt_init := pid\<rparr>)"

text \<open>\<^verbatim>\<open>ThreadBuilder::build\<close>.\<close>

definition thread_build :: "pid \<Rightarrow> pid \<Rightarrow> thread_data \<Rightarrow> ptab \<Rightarrow> ptab" where
  "thread_build tid p td t =
     upd_proc p (\<lambda>pr. pr\<lparr>pr_threads := insert_key tid (pr_threads pr)\<rparr>)
       (t\<lparr>pt_threads := (pt_threads t)(tid := Some \<lparr>th_proc = p, th_data = td\<rparr>)\<rparr>)"

definition add_thread_to_table :: "pid \<Rightarrow> ptab \<Rightarrow> ptab" where
  "add_thread_to_table tid t =
     (let t = t\<lparr>pt_thread_table := insert_key tid (pt_thread_table t)\<rparr> in
      case pt_threads t tid of
        Some th \<Rightarrow>
          if th_proc th \<in> set (pt_process_table t) \<and> pt_procs t (th_proc th) \<noteq> None then t
          else t\<lparr>pt_process_table := insert_key (th_proc th) (pt_process_table t)\<rparr>
      | None \<Rightarrow> t)"

text \<open>\<^verbatim>\<open>Thread::exit\<close>: whether the thread was the last one of its process.\<close>

definition thread_exit :: "pid \<Rightarrow> i32 \<Rightarrow> ptab \<Rightarrow> bool \<times> ptab" where
  "thread_exit tid exit_code t =
     (case pt_threads t tid of
        None \<Rightarrow> (False, t)
      | Some th \<Rightarrow>
          let p = th_proc th;
              t = upd_proc p (\<lambda>pr. let pr = (if pr_group_exited pr then pr else pr\<lparr>pr_exit_code := exit_code\<rparr>)
                                  in pr\<lparr>pr_threads := filter (\<lambda>x. x \<noteq> tid) (pr_threads pr)\<rparr>) t
          in (threads_of p t = [], t))"

text \<open>\<^verbatim>\<open>Process::exit\<close>: the children go to the init process.\<close>

fun adopt :: "pid list \<Rightarrow> ptab \<Rightarrow> ptab" where
  "adopt [] t = t"
| "adopt (c # cs) t =
     adopt cs (upd_proc (pt_init t) (\<lambda>pr. pr\<lparr>pr_children := insert_key c (pr_children pr)\<rparr>)
       (upd_proc c (\<lambda>pr. pr\<lparr>pr_parent := Some (pt_init t)\<rparr>) t))"

definition proc_exit :: "pid \<Rightarrow> ptab \<Rightarrow> ('e, unit) outcome \<times> ptab" where
  "proc_exit p t =
     (if p = pt_init t then (Panic, t)
      else (Ok (), adopt (children_of p t) (upd_proc p (\<lambda>pr. pr\<lparr>pr_zombie := True, pr_children := []\<rparr>) t)))"

definition proc_group_exit :: "pid \<Rightarrow> ptab \<Rightarrow> ptab" where
  "proc_group_exit p t = upd_proc p (\<lambda>pr. pr\<lparr>pr_group_exited := True\<rparr>) t"

text \<open>\<^verbatim>\<open>Process::free\<close>.\<close>

definition proc_free :: "pid \<Rightarrow> ptab \<Rightarrow> ('e, unit) outcome \<times> ptab" where
  "proc_free p t =
     (if \<not> is_zombie p t then (Panic, t)
      else (Ok (), case pt_procs t p of
          Some pr \<Rightarrow>
            (case pr_parent pr of
               Some q \<Rightarrow> upd_proc q (\<lambda>pr. pr\<lparr>pr_children := filter (\<lambda>c. c \<noteq> p) (pr_children pr)\<rparr>) t
             | None \<Rightarrow> t)
        | None \<Rightarrow> t))"

text \<open>\<^verbatim>\<open>Process::parent\<close> upgrades a weak reference.\<close>

definition parent_of :: "pid \<Rightarrow> ptab \<Rightarrow> pid option" where
  "parent_of p t =
     (case pt_procs t p of
        Some pr \<Rightarrow> (case pr_parent pr of Some q \<Rightarrow> if pt_procs t q \<noteq> None then Some q else None | None \<Rightarrow> None)
      | None \<Rightarrow> None)"

section \<open>The end of objects\<close>

text \<open>A thread object goes with its task; a process object goes when nothing refers to it.\<close>

definition drop_thread :: "pid \<Rightarrow> ptab \<Rightarrow> ptab" where
  "drop_thread tid t = t\<lparr>pt_threads := (pt_threads t)(tid := None)\<rparr>"

definition referenced :: "pid \<Rightarrow> ptab \<Rightarrow> bool" where
  "referenced p t \<longleftrightarrow> p = pt_init t \<or> p \<in> set (pt_held t)
     \<or> (\<exists>q pr. pt_procs t q = Some pr \<and> p \<in> set (pr_children pr)) \<or> (\<exists>x th. pt_threads t x = Some th \<and> th_proc th = p)"

definition drop_process :: "pid \<Rightarrow> ptab \<Rightarrow> ptab" where
  "drop_process p t = t\<lparr>pt_procs := (pt_procs t)(p := None)\<rparr>"

section \<open>What the system calls do to the tables\<close>

definition clone_process :: "pid \<Rightarrow> pid \<Rightarrow> proc_data \<Rightarrow> thread_data \<Rightarrow> ptab \<Rightarrow> ptab" where
  "clone_process tid parent data td t =
     add_thread_to_table tid (thread_build tid tid td (process_build tid (Some parent) (Some data) t))"

definition clone_thread :: "pid \<Rightarrow> pid \<Rightarrow> thread_data \<Rightarrow> ptab \<Rightarrow> ptab" where
  "clone_thread tid p td t = add_thread_to_table tid (thread_build tid p td t)"

text \<open>The part of \<^verbatim>\<open>do_exit\<close> that is about processes.\<close>

definition exit_thread :: "pid \<Rightarrow> i32 \<Rightarrow> bool \<Rightarrow> ptab \<Rightarrow> ('e, unit) outcome \<times> ptab" where
  "exit_thread tid exit_code group_exit t =
     (case pt_threads t tid of
        None \<Rightarrow> (Panic, t)
      | Some th \<Rightarrow>
          let p = th_proc th; (lst, t) = thread_exit tid exit_code t in
          sbind (if lst then proc_exit p t else (Ok (), t)) (\<lambda>_ t.
            (Ok (), if group_exit \<and> \<not> (case pt_procs t p of Some pr \<Rightarrow> pr_group_exited pr | None \<Rightarrow> False) then proc_group_exit p t else t)))"

section \<open>Sending signals\<close>

definition get_process :: "i32 \<Rightarrow> ptab \<Rightarrow> pid option" where
  "get_process p t = (if p \<in> set (pt_process_table t) \<and> pt_procs t p \<noteq> None then Some p else None)"

definition get_thread :: "i32 \<Rightarrow> ptab \<Rightarrow> thread option" where
  "get_thread x t = (if x \<in> set (pt_thread_table t) then pt_threads t x else None)"

definition accepts :: "sig_mask \<Rightarrow> pid \<Rightarrow> ptab \<Rightarrow> bool" where
  "accepts b x t = (case pt_threads t x of Some th \<Rightarrow> \<not> mask_contains (td_blocked (th_data th)) b | None \<Rightarrow> False)"

definition push_signal :: "signal \<Rightarrow> pid \<Rightarrow> ptab \<Rightarrow> ptab" where
  "push_signal s x t = upd_thread x (\<lambda>th. th\<lparr>th_data := td_push s (th_data th)\<rparr>) t"

definition send_signal_proc :: "i32 \<Rightarrow> i32 \<Rightarrow> ptab \<Rightarrow> (linux_error, isize) outcome \<times> ptab" where
  "send_signal_proc p sig t =
     (case get_process p t of
        None \<Rightarrow> (Err ESRCH, t)
      | Some p \<Rightarrow>
          if sig = 0 then (Ok 0, t)
          else sbind (signal_args sig, t) (\<lambda>(b, s) t.
            case List.find (\<lambda>x. accepts b x t) (threads_of p t) of
              Some x \<Rightarrow> (Ok 0, push_signal s x t)
            | None \<Rightarrow>
                (case pt_procs t p of
                   Some pr \<Rightarrow>
                     (case pr_data pr of
                        Some d \<Rightarrow> (Ok 0, upd_proc p (\<lambda>pr. pr\<lparr>pr_data := Some (d\<lparr>pd_shared := pd_shared d @ [s]\<rparr>)\<rparr>) t)
                      | None \<Rightarrow> (Panic, t))
                 | None \<Rightarrow> (Panic, t))))"

definition send_signal_thread :: "i32 \<Rightarrow> i32 \<Rightarrow> ptab \<Rightarrow> (linux_error, isize) outcome \<times> ptab" where
  "send_signal_thread x sig t =
     (case get_thread x t of
        None \<Rightarrow> (Err ESRCH, t)
      | Some th \<Rightarrow>
          sbind (signal_args sig, t) (\<lambda>(b, s) t.
            if accepts b x t then (Ok 0, push_signal s x t) else (Err EINVAL, t)))"

text \<open>The part of \<^verbatim>\<open>do_exit\<close> of \<^verbatim>\<open>core/src/exit.rs\<close>, which a signal leads to: the other threads get \<^verbatim>\<open>SIGKILL\<close>.\<close>

definition core_exit_thread :: "pid \<Rightarrow> i32 \<Rightarrow> bool \<Rightarrow> ptab \<Rightarrow> ('e, unit) outcome \<times> ptab" where
  "core_exit_thread tid exit_code group_exit t =
     (case pt_threads t tid of
        None \<Rightarrow> (Panic, t)
      | Some th \<Rightarrow>
          let p = th_proc th; (lst, t) = thread_exit tid exit_code t in
          sbind (if lst then proc_exit p t else (Ok (), t)) (\<lambda>_ t.
            (Ok (), if group_exit
                    then let t = proc_group_exit p t
                         in fold (\<lambda>x t. snd (send_signal_thread x (signal_code SIGKILL) t)) (threads_of p t) t
                    else t)))"

section \<open>Waiting\<close>

datatype wait_pid = WaitAny | WaitPid pid | WaitPgid pid

definition wait_apply :: "wait_pid \<Rightarrow> ptab \<Rightarrow> pid \<Rightarrow> bool" where
  "wait_apply w t child =
     (case w of WaitAny \<Rightarrow> True | WaitPid p \<Rightarrow> child = p | WaitPgid g \<Rightarrow> pgid_of child t = g)"

definition wait_target :: "i32 \<Rightarrow> pid \<Rightarrow> ptab \<Rightarrow> wait_pid" where
  "wait_target pid p t =
     (if pid = - 1 then WaitAny else if pid = 0 then WaitPgid (pgid_of p t) else if 0 <s pid then WaitPid pid else WaitPgid (- pid))"

definition wait_children :: "wait_pid \<Rightarrow> pid \<Rightarrow> ptab \<Rightarrow> pid list" where
  "wait_children w p t = filter (wait_apply w t) (children_of p t)"

definition WNOHANG :: u32 where "WNOHANG = 1"
definition WNOWAIT :: u32 where "WNOWAIT = 0x01000000"

text \<open>How a round of the loop of \<^verbatim>\<open>sys_waitpid\<close> ends: with a child and its exit code, with nothing (\<^verbatim>\<open>WNOHANG\<close>), or by yielding.\<close>

datatype wait_round = Reaped pid i32 | Nothing | YieldAgain

definition waitpid_round :: "pid list \<Rightarrow> u32 \<Rightarrow> ptab \<Rightarrow> ('e, wait_round) outcome \<times> ptab" where
  "waitpid_round children options t =
     (case List.find (\<lambda>c. is_zombie c t) children of
        Some child \<Rightarrow>
          sbind (if options AND WNOWAIT = WNOWAIT then (Ok (), t) else proc_free child t) (\<lambda>_ t.
            (Ok (Reaped child (case pt_procs t child of Some pr \<Rightarrow> pr_exit_code pr | None \<Rightarrow> 0)), t))
      | None \<Rightarrow> (Ok (if options AND WNOHANG = WNOHANG then Nothing else YieldAgain), t))"

section \<open>The process tree\<close>

text \<open>
  The init process lives and is no zombie; the children of a process are processes with that parent; a process
  other than init is among the children of its parent until it is a zombie that was waited for; a zombie has no children and no threads;
  the threads of a process belong to it; a thread keeps its process, which is not init.
\<close>

definition ptab_inv :: "ptab \<Rightarrow> bool" where
  "ptab_inv t \<longleftrightarrow>
     (\<exists>pr. pt_procs t (pt_init t) = Some pr \<and> \<not> pr_zombie pr)
   \<and> (\<forall>q pr c. pt_procs t q = Some pr \<and> c \<in> set (pr_children pr) \<longrightarrow>
        (\<exists>cr. pt_procs t c = Some cr \<and> pr_parent cr = Some q) \<and> c \<noteq> pt_init t)
   \<and> (\<forall>p pr. pt_procs t p = Some pr \<and> p \<noteq> pt_init t \<and> \<not> pr_zombie pr \<longrightarrow>
        (\<exists>q qr. pr_parent pr = Some q \<and> pt_procs t q = Some qr \<and> p \<in> set (pr_children qr)))
   \<and> (\<forall>p pr. pt_procs t p = Some pr \<and> pr_zombie pr \<longrightarrow> pr_children pr = [] \<and> pr_threads pr = [])
   \<and> (\<forall>p pr x. pt_procs t p = Some pr \<and> x \<in> set (pr_threads pr) \<longrightarrow> (\<exists>th. pt_threads t x = Some th \<and> th_proc th = p))
   \<and> (\<forall>x th. pt_threads t x = Some th \<longrightarrow> pt_procs t (th_proc th) \<noteq> None \<and> th_proc th \<noteq> pt_init t)"

lemma ptab_invI:
  assumes "\<exists>pr. pt_procs t (pt_init t) = Some pr \<and> \<not> pr_zombie pr"
    and "\<And>q pr c. pt_procs t q = Some pr \<Longrightarrow> c \<in> set (pr_children pr) \<Longrightarrow>
        (\<exists>cr. pt_procs t c = Some cr \<and> pr_parent cr = Some q) \<and> c \<noteq> pt_init t"
    and "\<And>p pr. pt_procs t p = Some pr \<Longrightarrow> p \<noteq> pt_init t \<Longrightarrow> \<not> pr_zombie pr \<Longrightarrow>
        \<exists>q qr. pr_parent pr = Some q \<and> pt_procs t q = Some qr \<and> p \<in> set (pr_children qr)"
    and "\<And>p pr. pt_procs t p = Some pr \<Longrightarrow> pr_zombie pr \<Longrightarrow> pr_children pr = [] \<and> pr_threads pr = []"
    and "\<And>p pr x. pt_procs t p = Some pr \<Longrightarrow> x \<in> set (pr_threads pr) \<Longrightarrow> \<exists>th. pt_threads t x = Some th \<and> th_proc th = p"
    and "\<And>x th. pt_threads t x = Some th \<Longrightarrow> pt_procs t (th_proc th) \<noteq> None \<and> th_proc th \<noteq> pt_init t"
  shows "ptab_inv t"
  unfolding ptab_inv_def using assms by blast

lemma ptab_invD:
  assumes "ptab_inv t"
  shows "\<exists>pr. pt_procs t (pt_init t) = Some pr \<and> \<not> pr_zombie pr"
    and "\<And>q pr c. pt_procs t q = Some pr \<Longrightarrow> c \<in> set (pr_children pr) \<Longrightarrow>
        (\<exists>cr. pt_procs t c = Some cr \<and> pr_parent cr = Some q) \<and> c \<noteq> pt_init t"
    and "\<And>p pr. pt_procs t p = Some pr \<Longrightarrow> p \<noteq> pt_init t \<Longrightarrow> \<not> pr_zombie pr \<Longrightarrow>
        \<exists>q qr. pr_parent pr = Some q \<and> pt_procs t q = Some qr \<and> p \<in> set (pr_children qr)"
    and "\<And>p pr. pt_procs t p = Some pr \<Longrightarrow> pr_zombie pr \<Longrightarrow> pr_children pr = [] \<and> pr_threads pr = []"
    and "\<And>p pr x. pt_procs t p = Some pr \<Longrightarrow> x \<in> set (pr_threads pr) \<Longrightarrow> \<exists>th. pt_threads t x = Some th \<and> th_proc th = p"
    and "\<And>x th. pt_threads t x = Some th \<Longrightarrow> pt_procs t (th_proc th) \<noteq> None \<and> th_proc th \<noteq> pt_init t"
  using assms unfolding ptab_inv_def by blast+

lemma set_insert_key [simp]: "set (insert_key k ks) = insert k (set ks)"
  by (auto simp: insert_key_def set_insort_key)

lemma add_thread_to_table_sel [simp]:
  "pt_procs (add_thread_to_table x t) = pt_procs t" "pt_threads (add_thread_to_table x t) = pt_threads t"
  "pt_init (add_thread_to_table x t) = pt_init t"
  by (auto simp: add_thread_to_table_def Let_def split: option.splits)

lemma ptab_inv_cong:
  assumes "pt_procs t = pt_procs t'" "pt_threads t = pt_threads t'" "pt_init t = pt_init t'"
  shows "ptab_inv t = ptab_inv t'"
  using assms unfolding ptab_inv_def by simp

lemma process_build_inv:
  assumes i: "ptab_inv t" and q: "pt_procs t q = Some qr" "\<not> pr_zombie qr" and f: "pt_procs t p = None"
  shows "ptab_inv (process_build p (Some q) d t)"
proof -
  note D = ptab_invD [OF i]
  have ne: "p \<noteq> q" "p \<noteq> pt_init t" using q f D(1) by auto
  define nr where "nr = \<lparr>pr_zombie = False, pr_threads = [], pr_exit_code = 0, pr_group_exited = False, pr_data = d, pr_children = [],
      pr_parent = Some q, pr_pgid = pgid_of q t\<rparr>"
  define qr' where "qr' = qr\<lparr>pr_children := insert_key p (pr_children qr)\<rparr>"
  define t' where "t' = process_build p (Some q) d t"
  have sel: "pt_init t' = pt_init t" "pt_threads t' = pt_threads t" "pt_procs t' = (pt_procs t)(p \<mapsto> nr, q \<mapsto> qr')"
    using ne q by (auto simp: t'_def process_build_def upd_proc_def Let_def nr_def qr'_def)
  have nr: "\<not> pr_zombie nr" "pr_parent nr = Some q" "pr_children nr = []" "pr_threads nr = []" by (simp_all add: nr_def)
  have qr': "\<not> pr_zombie qr'" "pr_parent qr' = pr_parent qr" "set (pr_children qr') = insert p (set (pr_children qr))" "pr_threads qr' = pr_threads qr"
    using q by (simp_all add: qr'_def)
  have nc: "p \<notin> set (pr_children xr)" if "pt_procs t x = Some xr" for x xr using D(2) [OF that, of p] f by auto
  show ?thesis unfolding t'_def [symmetric]
  proof (rule ptab_invI, unfold sel)
    show "\<exists>pr. ((pt_procs t)(p \<mapsto> nr, q \<mapsto> qr')) (pt_init t) = Some pr \<and> \<not> pr_zombie pr"
      using D(1) qr'(1) ne by auto
  next
    fix x pr c assume x: "((pt_procs t)(p \<mapsto> nr, q \<mapsto> qr')) x = Some pr" "c \<in> set (pr_children pr)"
    show "(\<exists>cr. ((pt_procs t)(p \<mapsto> nr, q \<mapsto> qr')) c = Some cr \<and> pr_parent cr = Some x) \<and> c \<noteq> pt_init t"
    proof (cases "c = p")
      case True
      then have "x = q" using x nr nc by (auto split: if_splits)
      then show ?thesis using True nr ne by simp
    next
      case False
      then obtain xr where xr: "pt_procs t x = Some xr" "c \<in> set (pr_children xr)"
        using x nr qr' q by (auto split: if_splits)
      from D(2) [OF xr] False qr' q show ?thesis by auto
    qed
  next
    fix x pr assume x: "((pt_procs t)(p \<mapsto> nr, q \<mapsto> qr')) x = Some pr" "x \<noteq> pt_init t" "\<not> pr_zombie pr"
    show "\<exists>y yr. pr_parent pr = Some y \<and> ((pt_procs t)(p \<mapsto> nr, q \<mapsto> qr')) y = Some yr \<and> x \<in> set (pr_children yr)"
    proof (cases "x = p")
      case True
      then show ?thesis using x nr qr' ne by auto
    next
      case False
      then obtain xr where xr: "pt_procs t x = Some xr" "\<not> pr_zombie xr" "pr_parent xr = pr_parent pr"
        using x qr' q by (auto split: if_splits)
      obtain y yr where y: "pr_parent xr = Some y" "pt_procs t y = Some yr" "x \<in> set (pr_children yr)"
        using D(3) [OF xr(1) x(2) xr(2)] by blast
      then show ?thesis using xr qr' q f by (cases "y = q") auto
    qed
  next
    fix x pr assume x: "((pt_procs t)(p \<mapsto> nr, q \<mapsto> qr')) x = Some pr"
    show "pr_children pr = [] \<and> pr_threads pr = []" if "pr_zombie pr"
      using x that nr qr' D(4) [of x pr] by (auto split: if_splits)
    show "\<exists>th. pt_threads t y = Some th \<and> th_proc th = x" if "y \<in> set (pr_threads pr)" for y
      using x that nr qr' D(5) [of x pr y] D(5) [OF q(1), of y] by (auto split: if_splits)
  next
    fix x th assume "pt_threads t x = Some th"
    then show "((pt_procs t)(p \<mapsto> nr, q \<mapsto> qr')) (th_proc th) \<noteq> None \<and> th_proc th \<noteq> pt_init t" using D(6) [of x th] by auto
  qed
qed

lemma upd_proc_sel [simp]:
  "pt_threads (upd_proc p f t) = pt_threads t" "pt_init (upd_proc p f t) = pt_init t" "pt_held (upd_proc p f t) = pt_held t"
  "pt_procs (upd_proc p f t) x = (if x = p then map_option f (pt_procs t p) else pt_procs t x)"
  by (simp_all add: upd_proc_def)

text \<open>Updates that leave the place of a process in the tree alone.\<close>

lemma upd_proc_inv:
  assumes inv: "ptab_inv t"
    and f: "\<And>r. pt_procs t q = Some r \<Longrightarrow> pr_zombie (f r) = pr_zombie r \<and> pr_parent (f r) = pr_parent r
        \<and> pr_children (f r) = pr_children r \<and> set (pr_threads (f r)) \<subseteq> set (pr_threads r)"
  shows "ptab_inv (upd_proc q f t)"
proof -
  note D = ptab_invD [OF inv]
  have bk: "\<exists>r. pt_procs t x = Some r \<and> pr_zombie pr = pr_zombie r \<and> pr_parent pr = pr_parent r
      \<and> pr_children pr = pr_children r \<and> set (pr_threads pr) \<subseteq> set (pr_threads r)" if "pt_procs (upd_proc q f t) x = Some pr" for x pr
    using that f by (auto split: if_splits)
  have fw: "\<exists>pr. pt_procs (upd_proc q f t) x = Some pr \<and> pr_zombie pr = pr_zombie r \<and> pr_parent pr = pr_parent r
      \<and> pr_children pr = pr_children r" if "pt_procs t x = Some r" for x r
    using that f by auto
  show ?thesis
  proof (rule ptab_invI)
    show "\<exists>pr. pt_procs (upd_proc q f t) (pt_init (upd_proc q f t)) = Some pr \<and> \<not> pr_zombie pr" using D(1) fw by fastforce
  next
    fix x pr c assume x: "pt_procs (upd_proc q f t) x = Some pr" "c \<in> set (pr_children pr)"
    from bk [OF x(1)] x(2) obtain r where r: "pt_procs t x = Some r" "c \<in> set (pr_children r)" by auto
    from D(2) [OF r] obtain cr where "pt_procs t c = Some cr" "pr_parent cr = Some x" "c \<noteq> pt_init t" by blast
    with fw [of c cr] show "(\<exists>cr. pt_procs (upd_proc q f t) c = Some cr \<and> pr_parent cr = Some x) \<and> c \<noteq> pt_init (upd_proc q f t)" by auto
  next
    fix x pr assume x: "pt_procs (upd_proc q f t) x = Some pr" "x \<noteq> pt_init (upd_proc q f t)" "\<not> pr_zombie pr"
    from bk [OF x(1)] x obtain r where r: "pt_procs t x = Some r" "x \<noteq> pt_init t" "\<not> pr_zombie r" "pr_parent pr = pr_parent r" by auto
    from D(3) [OF r(1-3)] obtain y yr where "pr_parent r = Some y" "pt_procs t y = Some yr" "x \<in> set (pr_children yr)" by blast
    with fw [of y yr] r(4) show "\<exists>y yr. pr_parent pr = Some y \<and> pt_procs (upd_proc q f t) y = Some yr \<and> x \<in> set (pr_children yr)" by auto
  next
    fix x pr assume x: "pt_procs (upd_proc q f t) x = Some pr"
    from bk [OF x] obtain r where r: "pt_procs t x = Some r" "pr_zombie pr = pr_zombie r" "pr_children pr = pr_children r"
      "set (pr_threads pr) \<subseteq> set (pr_threads r)" by auto
    show "pr_children pr = [] \<and> pr_threads pr = []" if "pr_zombie pr" using r that D(4) [OF r(1)] by auto
    show "\<exists>th. pt_threads (upd_proc q f t) y = Some th \<and> th_proc th = x" if "y \<in> set (pr_threads pr)" for y
      using r that D(5) [OF r(1), of y] by auto
  next
    fix x th assume "pt_threads (upd_proc q f t) x = Some th"
    then show "pt_procs (upd_proc q f t) (th_proc th) \<noteq> None \<and> th_proc th \<noteq> pt_init (upd_proc q f t)"
      using D(6) [of x th] by auto
  qed
qed

lemma thread_build_inv:
  assumes inv: "ptab_inv t" and f: "pt_threads t tid = None" and q: "pt_procs t q = Some qr" "\<not> pr_zombie qr" "q \<noteq> pt_init t"
  shows "ptab_inv (thread_build tid q td t)"
proof -
  note D = ptab_invD [OF inv]
  define t' where "t' = thread_build tid q td t"
  define qr' where "qr' = qr\<lparr>pr_threads := insert_key tid (pr_threads qr)\<rparr>"
  have sel: "pt_init t' = pt_init t" "pt_threads t' = (pt_threads t)(tid \<mapsto> \<lparr>th_proc = q, th_data = td\<rparr>)" "pt_procs t' = (pt_procs t)(q \<mapsto> qr')"
    using q by (auto simp: t'_def thread_build_def upd_proc_def qr'_def)
  have qr': "\<not> pr_zombie qr'" "pr_parent qr' = pr_parent qr" "pr_children qr' = pr_children qr" "set (pr_threads qr') = insert tid (set (pr_threads qr))"
    using q by (simp_all add: qr'_def)
  have nt: "y \<noteq> tid" if "pt_procs t x = Some xr" "y \<in> set (pr_threads xr)" for x xr y using D(5) [OF that] f by auto
  show ?thesis unfolding t'_def [symmetric]
  proof (rule ptab_invI, unfold sel)
    show "\<exists>pr. ((pt_procs t)(q \<mapsto> qr')) (pt_init t) = Some pr \<and> \<not> pr_zombie pr" using D(1) qr'(1) by auto
  next
    fix x pr c assume x: "((pt_procs t)(q \<mapsto> qr')) x = Some pr" "c \<in> set (pr_children pr)"
    then obtain xr where xr: "pt_procs t x = Some xr" "c \<in> set (pr_children xr)" using qr' q by (auto split: if_splits)
    from D(2) [OF xr] qr' q show "(\<exists>cr. ((pt_procs t)(q \<mapsto> qr')) c = Some cr \<and> pr_parent cr = Some x) \<and> c \<noteq> pt_init t" by auto
  next
    fix x pr assume x: "((pt_procs t)(q \<mapsto> qr')) x = Some pr" "x \<noteq> pt_init t" "\<not> pr_zombie pr"
    then obtain xr where xr: "pt_procs t x = Some xr" "\<not> pr_zombie xr" "pr_parent xr = pr_parent pr" using qr' q by (auto split: if_splits)
    from D(3) [OF xr(1) x(2) xr(2)] obtain y yr where "pr_parent xr = Some y" "pt_procs t y = Some yr" "x \<in> set (pr_children yr)" by blast
    then show "\<exists>y yr. pr_parent pr = Some y \<and> ((pt_procs t)(q \<mapsto> qr')) y = Some yr \<and> x \<in> set (pr_children yr)"
      using xr qr' q by (cases "y = q") auto
  next
    fix x pr assume x: "((pt_procs t)(q \<mapsto> qr')) x = Some pr"
    show "pr_children pr = [] \<and> pr_threads pr = []" if "pr_zombie pr" using x that qr' D(4) [of x pr] by (auto split: if_splits)
    show "\<exists>th. ((pt_threads t)(tid \<mapsto> \<lparr>th_proc = q, th_data = td\<rparr>)) y = Some th \<and> th_proc th = x" if "y \<in> set (pr_threads pr)" for y
      using x that qr' D(5) [of x pr y] D(5) [OF q(1), of y] nt [of x pr y] by (auto split: if_splits)
  next
    fix x th assume "((pt_threads t)(tid \<mapsto> \<lparr>th_proc = q, th_data = td\<rparr>)) x = Some th"
    then show "((pt_procs t)(q \<mapsto> qr')) (th_proc th) \<noteq> None \<and> th_proc th \<noteq> pt_init t"
      using D(6) [of x th] q by (auto split: if_splits)
  qed
qed

lemma ptab_inv_threads:
  assumes "ptab_inv t" "pt_procs t' = pt_procs t" "pt_init t' = pt_init t"
    "\<And>x. map_option th_proc (pt_threads t' x) = map_option th_proc (pt_threads t x)"
  shows "ptab_inv t'"
proof -
  note D = ptab_invD [OF assms(1)]
  have th: "\<exists>th'. pt_threads t' x = Some th' \<and> th_proc th' = th_proc th" if "pt_threads t x = Some th" for x th
    using assms(4) [of x] that by (cases "pt_threads t' x") auto
  have th': "\<exists>th'. pt_threads t x = Some th' \<and> th_proc th' = th_proc th" if "pt_threads t' x = Some th" for x th
    using assms(4) [of x] that by (cases "pt_threads t x") auto
  show ?thesis
  proof (rule ptab_invI, unfold assms(2,3))
    fix p pr x assume "pt_procs t p = Some pr" "x \<in> set (pr_threads pr)"
    from D(5) [OF this] th [of x] show "\<exists>th. pt_threads t' x = Some th \<and> th_proc th = p" by auto
  next
    fix x th assume "pt_threads t' x = Some th"
    from th' [OF this] D(6) [of x] show "pt_procs t (th_proc th) \<noteq> None \<and> th_proc th \<noteq> pt_init t" by auto
  qed (fact D)+
qed

lemma upd_thread_inv:
  assumes inv: "ptab_inv t" and f: "\<And>r. th_proc (f r) = th_proc r"
  shows "ptab_inv (upd_thread x f t)"
  by (rule ptab_inv_threads [OF inv]) (simp_all add: upd_thread_def f option.map_comp comp_def)

lemma adopt_sel [simp]: "pt_threads (adopt cs t) = pt_threads t" "pt_init (adopt cs t) = pt_init t"
  by (induction cs t rule: adopt.induct) simp_all

lemma adopt_procs:
  "pt_procs (adopt cs t) x =
     map_option (\<lambda>r. r\<lparr>pr_parent := if x \<in> set cs then Some (pt_init t) else pr_parent r,
                       pr_children := if x = pt_init t then fold insert_key cs (pr_children r) else pr_children r\<rparr>) (pt_procs t x)"
  by (induction cs t rule: adopt.induct) (auto simp: map_option_case split: option.splits)

lemma set_fold_insert_key [simp]: "set (fold insert_key cs ks) = set cs \<union> set ks"
  by (induction cs arbitrary: ks) auto

lemma proc_exit_inv:
  assumes inv: "ptab_inv t" and p: "pt_procs t p = Some pr" "p \<noteq> pt_init t" "pr_threads pr = []" "p \<notin> set (pr_children pr)"
  shows "ptab_inv (snd (proc_exit p t :: ('e, unit) outcome \<times> ptab))"
proof -
  note D = ptab_invD [OF inv]
  define i where "i = pt_init t"
  define t' where "t' = snd (proc_exit p t :: ('e, unit) outcome \<times> ptab)"
  define g where "g x r = (if x = p then r\<lparr>pr_zombie := True, pr_children := []\<rparr>
      else r\<lparr>pr_parent := if x \<in> set (pr_children pr) then Some i else pr_parent r,
             pr_children := if x = i then fold insert_key (pr_children pr) (pr_children r) else pr_children r\<rparr>)" for x and r :: process
  have sel: "pt_init t' = i" "pt_threads t' = pt_threads t" "pt_procs t' x = map_option (g x) (pt_procs t x)" for x
    using p by (auto simp: t'_def i_def g_def proc_exit_def adopt_procs children_of_def map_option_case split: option.splits)
  have ch: "c \<in> set (pr_children (g x r)) \<longleftrightarrow> x \<noteq> p \<and> (c \<in> set (pr_children r) \<or> x = i \<and> c \<in> set (pr_children pr))" for x r c
    by (auto simp: g_def)
  have par: "pr_parent (g x r) = (if x \<noteq> p \<and> x \<in> set (pr_children pr) then Some i else pr_parent r)" for x r by (simp add: g_def)
  have zt: "pr_zombie (g x r) \<longleftrightarrow> x = p \<or> pr_zombie r" "pr_threads (g x r) = pr_threads r" for x r by (simp_all add: g_def)
  have ip: "i \<noteq> p" using p i_def by simp
  have only: "x = p" if "pt_procs t x = Some xr" "c \<in> set (pr_children xr)" "c \<in> set (pr_children pr)" for x xr c
    using D(2) [OF that(1,2)] D(2) [OF p(1) that(3)] by auto
  show ?thesis unfolding t'_def [symmetric]
  proof (rule ptab_invI, unfold sel)
    show "\<exists>pr. map_option (g i) (pt_procs t i) = Some pr \<and> \<not> pr_zombie pr" using D(1) ip zt by (auto simp: i_def)
  next
    fix x xr' c assume x: "map_option (g x) (pt_procs t x) = Some xr'" "c \<in> set (pr_children xr')"
    then obtain xr where xr: "pt_procs t x = Some xr" "xr' = g x xr" by auto
    show "(\<exists>cr. map_option (g c) (pt_procs t c) = Some cr \<and> pr_parent cr = Some x) \<and> c \<noteq> i"
    proof (cases "c \<in> set (pr_children pr)")
      case True
      then have "x = i" using x xr ch only by auto
      then show ?thesis using D(2) [OF p(1) True] True p(4) par by (auto simp: i_def)
    next
      case False
      then have "c \<in> set (pr_children xr)" using x xr ch by auto
      from D(2) [OF xr(1) this] False par show ?thesis by (auto simp: i_def)
    qed
  next
    fix x xr' assume x: "map_option (g x) (pt_procs t x) = Some xr'" "x \<noteq> i" "\<not> pr_zombie xr'"
    then obtain xr where xr: "pt_procs t x = Some xr" "xr' = g x xr" by auto
    have xp: "x \<noteq> p" "\<not> pr_zombie xr" using x xr zt by auto
    from D(3) [OF xr(1) _ xp(2)] x(2) obtain y yr where y: "pr_parent xr = Some y" "pt_procs t y = Some yr" "x \<in> set (pr_children yr)"
      by (auto simp: i_def)
    show "\<exists>y yr. pr_parent xr' = Some y \<and> map_option (g y) (pt_procs t y) = Some yr \<and> x \<in> set (pr_children yr)"
    proof (cases "x \<in> set (pr_children pr)")
      case True
      then show ?thesis using xr xp par ch [of x i] ip D(1) by (auto simp: i_def)
    next
      case False
      then have "y \<noteq> p" using y p(1) by auto
      then show ?thesis using False y xr xp par ch by auto
    qed
  next
    fix x xr' assume x: "map_option (g x) (pt_procs t x) = Some xr'"
    then obtain xr where xr: "pt_procs t x = Some xr" "xr' = g x xr" by auto
    show "pr_children xr' = [] \<and> pr_threads xr' = []" if z: "pr_zombie xr'"
    proof (cases "x = p")
      case True
      then show ?thesis using xr p by (simp add: g_def)
    next
      case False
      then have "x \<noteq> i" using z xr zt D(1) by (auto simp: i_def)
      then show ?thesis using False z xr zt D(4) [OF xr(1)] by (simp add: g_def)
    qed
    show "\<exists>th. pt_threads t y = Some th \<and> th_proc th = x" if "y \<in> set (pr_threads xr')" for y
      using that xr zt D(5) [OF xr(1), of y] by auto
  next
    fix x th assume "pt_threads t x = Some th"
    then show "map_option (g (th_proc th)) (pt_procs t (th_proc th)) \<noteq> None \<and> th_proc th \<noteq> i" using D(6) [of x th] by (auto simp: i_def)
  qed
qed

lemma proc_free_inv:
  assumes inv: "ptab_inv t"
  shows "ptab_inv (snd (proc_free p t :: ('e, unit) outcome \<times> ptab))"
proof (cases "\<exists>pr q qr. pt_procs t p = Some pr \<and> pr_zombie pr \<and> pr_parent pr = Some q \<and> pt_procs t q = Some qr")
  case False
  then have "pt_procs (snd (proc_free p t :: ('e, unit) outcome \<times> ptab)) = pt_procs t"
    by (auto simp: proc_free_def is_zombie_def upd_proc_def fun_eq_iff split: option.splits)
  then show ?thesis using inv by (subst ptab_inv_cong [of _ t]) (auto simp: proc_free_def split: option.splits)
next
  case True
  then obtain pr q qr where p: "pt_procs t p = Some pr" "pr_zombie pr" "pr_parent pr = Some q" "pt_procs t q = Some qr" by blast
  note D = ptab_invD [OF inv]
  define t' where "t' = snd (proc_free p t :: ('e, unit) outcome \<times> ptab)"
  define qr' where "qr' = qr\<lparr>pr_children := filter (\<lambda>c. c \<noteq> p) (pr_children qr)\<rparr>"
  have sel: "pt_init t' = pt_init t" "pt_threads t' = pt_threads t" "pt_procs t' = (pt_procs t)(q \<mapsto> qr')"
    using p by (simp_all add: t'_def qr'_def proc_free_def is_zombie_def upd_proc_def)
  have qr': "pr_zombie qr' = pr_zombie qr" "pr_parent qr' = pr_parent qr" "set (pr_children qr') = set (pr_children qr) - {p}" "pr_threads qr' = pr_threads qr"
    by (auto simp: qr'_def)
  show ?thesis unfolding t'_def [symmetric]
  proof (rule ptab_invI, unfold sel)
    show "\<exists>pr. ((pt_procs t)(q \<mapsto> qr')) (pt_init t) = Some pr \<and> \<not> pr_zombie pr" using D(1) qr'(1) p(4) by auto
  next
    fix x pr c assume "((pt_procs t)(q \<mapsto> qr')) x = Some pr" "c \<in> set (pr_children pr)"
    then obtain xr where xr: "pt_procs t x = Some xr" "c \<in> set (pr_children xr)" using qr'(3) p(4) by (auto split: if_splits)
    from D(2) [OF xr] qr'(2) p(4) show "(\<exists>cr. ((pt_procs t)(q \<mapsto> qr')) c = Some cr \<and> pr_parent cr = Some x) \<and> c \<noteq> pt_init t" by auto
  next
    fix x xr' assume x: "((pt_procs t)(q \<mapsto> qr')) x = Some xr'" "x \<noteq> pt_init t" "\<not> pr_zombie xr'"
    then obtain xr where xr: "pt_procs t x = Some xr" "\<not> pr_zombie xr" "pr_parent xr = pr_parent xr'" using qr'(1,2) p(4) by (auto split: if_splits)
    then have "x \<noteq> p" using p(1,2) by auto
    moreover from D(3) [OF xr(1) x(2) xr(2)] obtain y yr where "pr_parent xr = Some y" "pt_procs t y = Some yr" "x \<in> set (pr_children yr)" by blast
    ultimately show "\<exists>y yr. pr_parent xr' = Some y \<and> ((pt_procs t)(q \<mapsto> qr')) y = Some yr \<and> x \<in> set (pr_children yr)"
      using xr(3) qr'(3) p(4) by (cases "y = q") auto
  next
    fix x xr assume x: "((pt_procs t)(q \<mapsto> qr')) x = Some xr"
    show "pr_children xr = [] \<and> pr_threads xr = []" if "pr_zombie xr"
      using x that qr'(1) D(4) [of x xr] D(4) [OF p(4)] by (auto simp: qr'_def split: if_splits)
    show "\<exists>th. pt_threads t y = Some th \<and> th_proc th = x" if "y \<in> set (pr_threads xr)" for y
      using x that qr'(4) D(5) [of x xr y] D(5) [OF p(4), of y] by (auto split: if_splits)
  next
    fix x th assume "pt_threads t x = Some th"
    then show "((pt_procs t)(q \<mapsto> qr')) (th_proc th) \<noteq> None \<and> th_proc th \<noteq> pt_init t" using D(6) [of x th] by auto
  qed
qed

lemma drop_thread_inv:
  assumes inv: "ptab_inv t" and x: "\<And>p pr. pt_procs t p = Some pr \<Longrightarrow> x \<notin> set (pr_threads pr)"
  shows "ptab_inv (drop_thread x t)"
proof -
  note D = ptab_invD [OF inv]
  have sel: "pt_procs (drop_thread x t) = pt_procs t" "pt_init (drop_thread x t) = pt_init t" "pt_threads (drop_thread x t) = (pt_threads t)(x := None)"
    by (simp_all add: drop_thread_def)
  show ?thesis
  proof (rule ptab_invI, unfold sel)
    fix p pr y assume y: "pt_procs t p = Some pr" "y \<in> set (pr_threads pr)"
    then have "y \<noteq> x" using x by auto
    with D(5) [OF y] show "\<exists>th. ((pt_threads t)(x := None)) y = Some th \<and> th_proc th = p" by simp
  next
    fix y th assume "((pt_threads t)(x := None)) y = Some th"
    with D(6) [of y th] show "pt_procs t (th_proc th) \<noteq> None \<and> th_proc th \<noteq> pt_init t" by (auto split: if_splits)
  qed (fact D)+
qed

text \<open>A process that nothing refers to has ended and has no children left.\<close>

lemma unreferenced_ended:
  assumes inv: "ptab_inv t" and p: "\<not> referenced p t" "pt_procs t p = Some pr"
  shows "pr_zombie pr" "pr_children pr = []" "pr_threads pr = []"
proof -
  show z: "pr_zombie pr" using ptab_invD(3) [OF inv p(2)] p(1) by (auto simp: referenced_def)
  show "pr_children pr = []" "pr_threads pr = []" using ptab_invD(4) [OF inv p(2) z] by auto
qed

lemma drop_process_inv:
  assumes inv: "ptab_inv t" and p: "\<not> referenced p t"
  shows "ptab_inv (drop_process p t)"
proof -
  note D = ptab_invD [OF inv]
  have sel: "pt_procs (drop_process p t) = (pt_procs t)(p := None)" "pt_init (drop_process p t) = pt_init t" "pt_threads (drop_process p t) = pt_threads t"
    by (simp_all add: drop_process_def)
  have np: "p \<noteq> pt_init t" "\<And>q qr. pt_procs t q = Some qr \<Longrightarrow> p \<notin> set (pr_children qr)" "\<And>x th. pt_threads t x = Some th \<Longrightarrow> th_proc th \<noteq> p"
    using p by (auto simp: referenced_def)
  show ?thesis
  proof (rule ptab_invI, unfold sel)
    show "\<exists>pr. ((pt_procs t)(p := None)) (pt_init t) = Some pr \<and> \<not> pr_zombie pr" using D(1) np(1) by auto
  next
    fix x xr c assume "((pt_procs t)(p := None)) x = Some xr" "c \<in> set (pr_children xr)"
    then have x: "pt_procs t x = Some xr" "c \<in> set (pr_children xr)" by (auto split: if_splits)
    then have "c \<noteq> p" using np(2) by auto
    with D(2) [OF x] show "(\<exists>cr. ((pt_procs t)(p := None)) c = Some cr \<and> pr_parent cr = Some x) \<and> c \<noteq> pt_init t" by auto
  next
    fix x xr assume "((pt_procs t)(p := None)) x = Some xr" "x \<noteq> pt_init t" "\<not> pr_zombie xr"
    then have x: "pt_procs t x = Some xr" "x \<noteq> pt_init t" "\<not> pr_zombie xr" by (auto split: if_splits)
    from D(3) [OF x] obtain y yr where y: "pr_parent xr = Some y" "pt_procs t y = Some yr" "x \<in> set (pr_children yr)" by blast
    then have "y \<noteq> p" using unreferenced_ended(2) [OF inv p] by auto
    with y show "\<exists>y yr. pr_parent xr = Some y \<and> ((pt_procs t)(p := None)) y = Some yr \<and> x \<in> set (pr_children yr)" by auto
  next
    fix x xr assume "((pt_procs t)(p := None)) x = Some xr"
    then have x: "pt_procs t x = Some xr" by (auto split: if_splits)
    show "pr_children xr = [] \<and> pr_threads xr = []" if "pr_zombie xr" by (rule D(4) [OF x that])
    show "\<exists>th. pt_threads t y = Some th \<and> th_proc th = x" if "y \<in> set (pr_threads xr)" for y by (rule D(5) [OF x that])
  next
    fix x th assume th: "pt_threads t x = Some th"
    with D(6) [OF this] np(3) [OF this] show "((pt_procs t)(p := None)) (th_proc th) \<noteq> None \<and> th_proc th \<noteq> pt_init t" by auto
  qed
qed

section \<open>Descent from init\<close>

inductive descends :: "ptab \<Rightarrow> pid \<Rightarrow> bool" for t where
  descends_init: "descends t (pt_init t)"
| descends_child: "descends t q \<Longrightarrow> pt_procs t q = Some qr \<Longrightarrow> c \<in> set (pr_children qr) \<Longrightarrow> descends t c"

definition ptab_tree :: "ptab \<Rightarrow> bool" where
  "ptab_tree t \<longleftrightarrow> (\<forall>p pr. pt_procs t p = Some pr \<and> \<not> pr_zombie pr \<longrightarrow> descends t p)"

lemma descends_mono:
  assumes "descends t p" "pt_init t' = pt_init t" "\<And>q qr. pt_procs t q = Some qr \<Longrightarrow> \<exists>qr'. pt_procs t' q = Some qr' \<and> set (pr_children qr) \<subseteq> set (pr_children qr')"
  shows "descends t' p"
  using assms
proof (induction p rule: descends.induct)
  case descends_init
  then show ?case using descends.descends_init [of t'] by simp
next
  case (descends_child q qr c)
  from descends_child.prems(2) [OF descends_child.hyps(2)] obtain qr' where "pt_procs t' q = Some qr'" "c \<in> set (pr_children qr')"
    using descends_child.hyps(3) by blast
  with descends_child.IH [OF descends_child.prems] show ?case by (rule descends.descends_child)
qed

text \<open>A process is not its own child.\<close>

lemma descends_loop:
  assumes inv: "ptab_inv t" and "descends t p" "p \<noteq> pt_init t" "pt_procs t p = Some pr"
  shows "p \<notin> set (pr_children pr)"
proof
  assume loop: "p \<in> set (pr_children pr)"
  have parent: "pr_parent pr = Some p" using ptab_invD(2) [OF inv assms(4) loop] assms(4) by auto
  have "x \<noteq> p" if "descends t x" for x
    using that
  proof (induction x rule: descends.induct)
    case (descends_child q qr c)
    then show ?case using ptab_invD(2) [OF inv descends_child.hyps(2,3)] parent assms(4) by auto
  qed (use assms(3) in simp)
  with assms(2) show False by blast
qed

lemma descends_live: "descends t p \<Longrightarrow> ptab_inv t \<Longrightarrow> \<exists>pr. pt_procs t p = Some pr"
  by (induction p rule: descends.induct) (use ptab_invD(1,2) in blast)+

lemma process_build_tree:
  assumes "ptab_tree t" "pt_procs t p = None" "pt_procs t q = Some qr" "\<not> pr_zombie qr"
  shows "ptab_tree (process_build p (Some q) d t)"
proof -
  let ?t = "process_build p (Some q) d t"
  have ne: "p \<noteq> q" using assms by auto
  have mono: "descends ?t x" if "descends t x" for x
    by (rule descends_mono [OF that]) (use assms(2) ne in \<open>auto simp: process_build_def upd_proc_def Let_def\<close>)
  have q: "descends ?t q" using mono assms(1,3,4) by (auto simp: ptab_tree_def)
  have pq: "\<exists>qr. pt_procs ?t q = Some qr \<and> p \<in> set (pr_children qr)"
    using assms(3) ne by (auto simp: process_build_def Let_def)
  have "descends ?t p" using descends_child [OF q] pq by blast
  moreover have "descends ?t x" if "pt_procs ?t x = Some xr" "\<not> pr_zombie xr" "x \<noteq> p" for x xr
    using that mono [of x] assms(1,3,4) by (auto simp: ptab_tree_def process_build_def Let_def split: if_splits)
  ultimately show ?thesis unfolding ptab_tree_def by blast
qed

lemma ptab_tree_mono:
  assumes "ptab_tree t" "pt_init t' = pt_init t"
    "\<And>q qr. pt_procs t q = Some qr \<Longrightarrow> \<exists>qr'. pt_procs t' q = Some qr' \<and> set (pr_children qr) \<subseteq> set (pr_children qr')"
    "\<And>q qr'. pt_procs t' q = Some qr' \<Longrightarrow> \<not> pr_zombie qr' \<Longrightarrow> \<exists>qr. pt_procs t q = Some qr \<and> \<not> pr_zombie qr"
  shows "ptab_tree t'"
  unfolding ptab_tree_def
proof (intro allI impI)
  fix p pr assume "pt_procs t' p = Some pr \<and> \<not> pr_zombie pr"
  then have "descends t p" using assms(1) assms(4) [of p pr] by (auto simp: ptab_tree_def)
  then show "descends t' p" by (rule descends_mono) (use assms(2,3) in auto)
qed

lemma upd_proc_tree:
  assumes "ptab_tree t" "\<And>r. pr_zombie (f r) = pr_zombie r \<and> pr_children (f r) = pr_children r"
  shows "ptab_tree (upd_proc q f t)"
  by (rule ptab_tree_mono [OF assms(1)]) (use assms(2) in \<open>auto split: if_splits\<close>)

text \<open>When a process ends, what descended from it descends from init through the adopted children.\<close>

lemma proc_exit_tree:
  assumes "ptab_tree t" and inv: "ptab_inv t" and p: "pt_procs t p = Some pr" "p \<noteq> pt_init t"
  shows "ptab_tree (snd (proc_exit p t :: ('e, unit) outcome \<times> ptab))"
proof -
  let ?t = "snd (proc_exit p t :: ('e, unit) outcome \<times> ptab)"
  have init: "pt_init ?t = pt_init t" using p by (simp add: proc_exit_def)
  have keep: "\<exists>qr'. pt_procs ?t q = Some qr' \<and> set (pr_children qr) \<subseteq> set (pr_children qr')" if "pt_procs t q = Some qr" "q \<noteq> p" for q qr
    using that p by (auto simp: proc_exit_def adopt_procs)
  have ni: "pt_init t \<notin> set (pr_children pr)" using ptab_invD(2) [OF inv p(1)] by blast
  have adopted: "\<exists>ir. pt_procs ?t (pt_init t) = Some ir \<and> set (pr_children pr) \<subseteq> set (pr_children ir)"
    using ptab_invD(1) [OF inv] p p(2) [symmetric] ni by (auto simp: proc_exit_def adopt_procs children_of_def)
  have mono: "descends ?t x" if "descends t x" for x
    using that
  proof (induction x rule: descends.induct)
    case descends_init
    then show ?case using descends.descends_init [of ?t] init by simp
  next
    case (descends_child q qr c)
    show ?case
    proof (cases "q = p")
      case True
      with descends_child.hyps(2,3) p(1) adopted obtain ir where "pt_procs ?t (pt_init ?t) = Some ir" "c \<in> set (pr_children ir)"
        unfolding init by auto
      with descends.descends_init [of ?t] show ?thesis by (rule descends.descends_child)
    next
      case False
      with keep [OF descends_child.hyps(2)] descends_child.hyps(3) obtain qr' where "pt_procs ?t q = Some qr'" "c \<in> set (pr_children qr')" by blast
      with descends_child.IH show ?thesis by (rule descends.descends_child)
    qed
  qed
  show ?thesis unfolding ptab_tree_def
  proof (intro allI impI)
    fix x xr assume "pt_procs ?t x = Some xr \<and> \<not> pr_zombie xr"
    then have "\<exists>r. pt_procs t x = Some r \<and> \<not> pr_zombie r" using p by (auto simp: proc_exit_def adopt_procs split: if_splits)
    then show "descends ?t x" using mono assms(1) by (auto simp: ptab_tree_def)
  qed
qed

text \<open>Taking out a leaf.\<close>

lemma ptab_tree_leaf:
  assumes "ptab_tree t" "pt_init t' = pt_init t" "p \<noteq> pt_init t" and leaf: "\<And>pr. pt_procs t p = Some pr \<Longrightarrow> pr_children pr = []"
    and keep: "\<And>q qr. pt_procs t q = Some qr \<Longrightarrow> q \<noteq> p \<Longrightarrow> \<exists>qr'. pt_procs t' q = Some qr' \<and> set (pr_children qr) - {p} \<subseteq> set (pr_children qr')"
    and live: "\<And>q qr'. pt_procs t' q = Some qr' \<Longrightarrow> \<not> pr_zombie qr' \<Longrightarrow> q \<noteq> p \<and> (\<exists>qr. pt_procs t q = Some qr \<and> \<not> pr_zombie qr)"
  shows "ptab_tree t'"
proof -
  have mono: "descends t' x" if "descends t x" "x \<noteq> p" for x
    using that
  proof (induction x rule: descends.induct)
    case descends_init
    then show ?case using descends.descends_init [of t'] assms(2) by simp
  next
    case (descends_child q qr c)
    then have "q \<noteq> p" using leaf [of qr] by auto
    with keep [OF descends_child.hyps(2)] descends_child obtain qr' where "descends t' q" "pt_procs t' q = Some qr'" "c \<in> set (pr_children qr')" by blast
    then show ?case by (rule descends.descends_child)
  qed
  show ?thesis unfolding ptab_tree_def
  proof (intro allI impI)
    fix x xr assume "pt_procs t' x = Some xr \<and> \<not> pr_zombie xr"
    with live [of x xr] show "descends t' x" using mono [of x] assms(1) by (auto simp: ptab_tree_def)
  qed
qed

lemma proc_free_tree:
  assumes "ptab_tree t" and inv: "ptab_inv t"
  shows "ptab_tree (snd (proc_free p t :: ('e, unit) outcome \<times> ptab))"
proof (cases "is_zombie p t")
  case False
  then show ?thesis using assms(1) by (simp add: proc_free_def)
next
  case True
  then obtain pr where p: "pt_procs t p = Some pr" "pr_zombie pr" by (auto simp: is_zombie_def split: option.splits)
  show ?thesis
  proof (rule ptab_tree_leaf [OF assms(1), where p = p])
    show "p \<noteq> pt_init t" using ptab_invD(1) [OF inv] p by auto
    show "pr_children r = []" if "pt_procs t p = Some r" for r using ptab_invD(4) [OF inv p] that p by simp
  qed (use p True in \<open>auto simp: proc_free_def split: option.splits if_splits\<close>)
qed

lemma drop_process_tree:
  assumes "ptab_tree t" "ptab_inv t" "\<not> referenced p t"
  shows "ptab_tree (drop_process p t)"
proof (rule ptab_tree_leaf [OF assms(1), where p = p])
  show "p \<noteq> pt_init t" using assms(3) by (simp add: referenced_def)
  show "pr_children r = []" if "pt_procs t p = Some r" for r by (rule unreferenced_ended [OF assms(2,3) that])
qed (auto simp: drop_process_def split: if_splits)

lemma ptab_tree_threads:
  assumes "ptab_tree t" "pt_procs t' = pt_procs t" "pt_init t' = pt_init t"
  shows "ptab_tree t'"
  by (rule ptab_tree_mono [OF assms(1)]) (use assms(2,3) in auto)

definition ptab_ok :: "ptab \<Rightarrow> bool" where
  "ptab_ok t \<longleftrightarrow> ptab_inv t \<and> ptab_tree t"

text \<open>A running thread is listed by its process.\<close>

definition running :: "pid \<Rightarrow> pid \<Rightarrow> ptab \<Rightarrow> bool" where
  "running x p t \<longleftrightarrow> map_option th_proc (pt_threads t x) = Some p \<and> x \<in> set (case pt_procs t p of Some pr \<Rightarrow> pr_threads pr | None \<Rightarrow> [])"

lemma runningE:
  assumes "running x p t" "ptab_inv t"
  obtains th pr where "pt_threads t x = Some th" "th_proc th = p" "pt_procs t p = Some pr" "x \<in> set (pr_threads pr)" "\<not> pr_zombie pr" "p \<noteq> pt_init t"
proof -
  from assms(1) obtain th pr where *: "pt_threads t x = Some th" "th_proc th = p" "pt_procs t p = Some pr" "x \<in> set (pr_threads pr)"
    by (cases "pt_threads t x"; cases "pt_procs t p") (auto simp: running_def)
  have "\<not> pr_zombie pr" using ptab_invD(4) [OF assms(2) *(3)] *(4) by auto
  moreover have "p \<noteq> pt_init t" using ptab_invD(6) [OF assms(2) *(1)] *(2) by auto
  ultimately show thesis using that * by blast
qed

definition unused :: "pid \<Rightarrow> ptab \<Rightarrow> bool" where
  "unused x t \<longleftrightarrow> pt_procs t x = None \<and> pt_threads t x = None"

lemma clone_process_ok:
  assumes "ptab_ok t" "unused tid t" "pt_procs t q = Some qr" "\<not> pr_zombie qr"
  shows "ptab_ok (clone_process tid q d td t)"
proof -
  let ?b = "process_build tid (Some q) (Some d) t" and ?c = "thread_build tid tid td (process_build tid (Some q) (Some d) t)"
  have ne: "tid \<noteq> q" "tid \<noteq> pt_init t" using assms ptab_invD(1) [of t] by (auto simp: unused_def ptab_ok_def)
  have b: "ptab_inv ?b" "ptab_tree ?b" using assms process_build_inv [where t = t and p = tid and q = q and qr = qr] process_build_tree [where t = t and p = tid and q = q and qr = qr]
    by (auto simp: ptab_ok_def unused_def)
  obtain nr where nr: "pt_procs ?b tid = Some nr" "\<not> pr_zombie nr" using ne by (auto simp: process_build_def Let_def)
  have "pt_threads ?b tid = None" "tid \<noteq> pt_init ?b" using assms(2) ne by (auto simp: process_build_def Let_def unused_def)
  then have "ptab_inv ?c" using thread_build_inv [OF b(1) _ nr] by blast
  moreover have "ptab_tree ?c"
    by (rule ptab_tree_mono [OF b(2)]) (auto simp: thread_build_def split: if_splits)
  ultimately show ?thesis unfolding ptab_ok_def clone_process_def
    by (auto intro: ptab_inv_threads [of ?c] ptab_tree_threads [of ?c])
qed

lemma clone_thread_ok:
  assumes "ptab_ok t" "unused tid t" "running x q t"
  shows "ptab_ok (clone_thread tid q td t)"
proof -
  let ?c = "thread_build tid q td t"
  from assms obtain qr where q: "pt_procs t q = Some qr" "\<not> pr_zombie qr" "q \<noteq> pt_init t" by (auto simp: ptab_ok_def elim: runningE)
  have "ptab_inv ?c" using thread_build_inv [OF _ _ q] assms by (auto simp: ptab_ok_def unused_def)
  moreover have "ptab_tree ?c"
    by (rule ptab_tree_mono [of t]) (use assms in \<open>auto simp: ptab_ok_def thread_build_def split: if_splits\<close>)
  ultimately show ?thesis unfolding ptab_ok_def clone_thread_def
    by (auto intro: ptab_inv_threads [of ?c] ptab_tree_threads [of ?c])
qed

lemma upd_proc_ok:
  assumes "ptab_ok t" "\<And>r. pr_zombie (f r) = pr_zombie r \<and> pr_parent (f r) = pr_parent r
        \<and> pr_children (f r) = pr_children r \<and> set (pr_threads (f r)) \<subseteq> set (pr_threads r)"
  shows "ptab_ok (upd_proc q f t)"
  using assms upd_proc_inv [of t q f] upd_proc_tree [of t f q] by (simp add: ptab_ok_def)

lemma upd_thread_ok:
  assumes "ptab_ok t" "\<And>r. th_proc (f r) = th_proc r"
  shows "ptab_ok (upd_thread x f t)"
proof -
  have "ptab_tree (upd_thread x f t)" by (rule ptab_tree_threads [of t]) (use assms in \<open>simp_all add: ptab_ok_def upd_thread_def\<close>)
  then show ?thesis using assms upd_thread_inv [of t f x] by (simp add: ptab_ok_def)
qed

lemma threads_of_eq: "ptab_inv t \<Longrightarrow> pt_procs t p = Some pr \<Longrightarrow> threads_of p t = pr_threads pr"
  using ptab_invD(5) [of t p pr] by (auto simp: threads_of_def filter_id_conv)

lemma thread_exit_ok:
  assumes "ptab_ok t"
  shows "ptab_ok (snd (thread_exit x code t))"
  using assms by (auto simp: thread_exit_def Let_def intro!: upd_proc_ok split: option.splits if_splits)

lemma proc_exit_ok:
  assumes "ptab_ok t" "pt_procs t p = Some pr" "\<not> pr_zombie pr" "p \<noteq> pt_init t" "threads_of p t = []"
  shows "ptab_ok (snd (proc_exit p t :: ('e, unit) outcome \<times> ptab)) \<and> fst (proc_exit p t :: ('e, unit) outcome \<times> ptab) = Ok ()"
proof -
  have "descends t p" "ptab_inv t" "ptab_tree t" using assms by (auto simp: ptab_ok_def ptab_tree_def)
  moreover have "p \<notin> set (pr_children pr)" by (rule descends_loop) (use calculation assms in auto)
  moreover have "pr_threads pr = []" using threads_of_eq [of t p pr] calculation assms by simp
  ultimately show ?thesis using proc_exit_inv [of t p pr] proc_exit_tree [of t p pr] assms by (simp add: ptab_ok_def proc_exit_def)
qed

text \<open>What both versions of \<^verbatim>\<open>do_exit\<close> begin with.\<close>

lemma exit_begin_ok:
  assumes ok: "ptab_ok t" and x: "running x p t" and e: "thread_exit x code t = (lst, t1)"
  obtains t2 where "ptab_ok t2" "(if lst then proc_exit p t1 else (Ok (), t1) :: ('e, unit) outcome \<times> ptab) = (Ok (), t2)"
proof -
  from x ok obtain th pr where th: "pt_threads t x = Some th" "th_proc th = p" "pt_procs t p = Some pr" "\<not> pr_zombie pr" "p \<noteq> pt_init t"
    by (auto simp: ptab_ok_def elim: runningE)
  have t1: "ptab_ok t1" using thread_exit_ok [OF ok, of x code] e by simp
  have "\<exists>pr'. pt_procs t1 p = Some pr' \<and> \<not> pr_zombie pr'" "p \<noteq> pt_init t1" "lst = (threads_of p t1 = [])"
    using e th by (auto simp: thread_exit_def Let_def)
  then show thesis using proc_exit_ok [OF t1, of p] t1
    by (intro that [of "if lst then snd (proc_exit p t1 :: ('e, unit) outcome \<times> ptab) else t1"]) (auto simp: prod_eq_iff)
qed

lemma exit_thread_ok:
  assumes ok: "ptab_ok t" and x: "running x p t"
  shows "ptab_ok (snd (exit_thread x code g t :: ('e, unit) outcome \<times> ptab)) \<and> fst (exit_thread x code g t :: ('e, unit) outcome \<times> ptab) = Ok ()"
proof -
  from x ok obtain th where th: "pt_threads t x = Some th" "th_proc th = p" by (auto simp: ptab_ok_def elim: runningE)
  obtain lst t1 where e: "thread_exit x code t = (lst, t1)" by (cases "thread_exit x code t")
  obtain t2 where b: "ptab_ok t2" "(if lst then proc_exit p t1 else (Ok (), t1) :: ('e, unit) outcome \<times> ptab) = (Ok (), t2)"
    by (rule exit_begin_ok [OF ok x e])
  show ?thesis using b(1) by (auto simp: exit_thread_def th e b(2) proc_group_exit_def intro!: upd_proc_ok)
qed

lemma send_signal_thread_ok: "ptab_ok t \<Longrightarrow> ptab_ok (snd (send_signal_thread x sig t))"
  by (auto simp: send_signal_thread_def sbind_def push_signal_def intro!: upd_thread_ok split: option.splits outcome.splits)

lemma send_signal_proc_ok: "ptab_ok t \<Longrightarrow> ptab_ok (snd (send_signal_proc p sig t))"
  by (auto simp: send_signal_proc_def sbind_def push_signal_def intro!: upd_thread_ok upd_proc_ok split: option.splits outcome.splits)

lemma core_exit_thread_ok:
  assumes ok: "ptab_ok t" and x: "running x p t"
  shows "ptab_ok (snd (core_exit_thread x code g t :: ('e, unit) outcome \<times> ptab)) \<and> fst (core_exit_thread x code g t :: ('e, unit) outcome \<times> ptab) = Ok ()"
proof -
  from x ok obtain th where th: "pt_threads t x = Some th" "th_proc th = p" by (auto simp: ptab_ok_def elim: runningE)
  obtain lst t1 where e: "thread_exit x code t = (lst, t1)" by (cases "thread_exit x code t")
  obtain t2 where b: "ptab_ok t2" "(if lst then proc_exit p t1 else (Ok (), t1) :: ('e, unit) outcome \<times> ptab) = (Ok (), t2)"
    by (rule exit_begin_ok [OF ok x e])
  have fold: "ptab_ok (fold (\<lambda>x t. snd (send_signal_thread x sig t)) xs s)" if "ptab_ok s" for xs s sig
    using that by (induction xs arbitrary: s) (auto intro: send_signal_thread_ok)
  show ?thesis using b(1) by (auto simp: core_exit_thread_def th e b(2) Let_def proc_group_exit_def intro!: upd_proc_ok fold)
qed

lemma waitpid_round_ok:
  assumes "ptab_ok t"
  shows "ptab_ok (snd (waitpid_round cs opts t :: ('e, wait_round) outcome \<times> ptab))"
proof -
  have "ptab_ok (snd (proc_free c t :: ('e, unit) outcome \<times> ptab))" for c
    using assms proc_free_inv proc_free_tree by (auto simp: ptab_ok_def)
  then have "proc_free c t = (r :: ('e, unit) outcome, t') \<Longrightarrow> ptab_ok t'" for c r t' by (metis snd_conv)
  then show ?thesis using assms by (auto simp: waitpid_round_def sbind_def split: option.splits outcome.splits prod.splits)
qed

section \<open>Steps\<close>

definition ptab_boot :: "pid \<Rightarrow> ptab" where
  "ptab_boot p = process_build p None None
     \<lparr>pt_procs = Map.empty, pt_threads = Map.empty, pt_init = 0, pt_thread_table = [], pt_process_table = [], pt_held = []\<rparr>"

text \<open>
  What happens to the tables: \<^verbatim>\<open>run_user_app\<close> starts a child of init; a running thread clones itself as a process (below its own, or
  with \<^verbatim>\<open>CLONE_PARENT\<close> beside it) or as a thread, exits in one of the two ways, sends a signal, changes data, or waits for some of the
  processes it found; objects go when nothing refers to them.
\<close>

inductive ptab_step :: "ptab \<Rightarrow> ptab \<Rightarrow> bool" where
  run_user_app: "unused tid t \<Longrightarrow> ptab_step t (clone_process tid (pt_init t) d td t)"
| fork: "running x p t \<Longrightarrow> unused tid t \<Longrightarrow> ptab_step t (clone_process tid p d td t)"
| fork_beside: "running x p t \<Longrightarrow> parent_of p t = Some q \<Longrightarrow> unused tid t \<Longrightarrow> ptab_step t (clone_process tid q d td t)"
| new_thread: "running x p t \<Longrightarrow> unused tid t \<Longrightarrow> ptab_step t (clone_thread tid p td t)"
| exit: "running x p t \<Longrightarrow> ptab_step t (snd (exit_thread x code g t :: (linux_error, unit) outcome \<times> ptab))"
| core_exit: "running x p t \<Longrightarrow> ptab_step t (snd (core_exit_thread x code g t :: (linux_error, unit) outcome \<times> ptab))"
| kill: "ptab_step t (snd (send_signal_proc pid sig t))"
| tkill: "ptab_step t (snd (send_signal_thread tid sig t))"
| proc_data: "ptab_step t (upd_proc p (pr_data_update f) t)"
| thread_data: "ptab_step t (upd_thread x (th_data_update f') t)"
| wait: "ptab_step t (snd (waitpid_round cs opts t :: (linux_error, wait_round) outcome \<times> ptab))"
| hold: "ptab_step t (t\<lparr>pt_held := ps\<rparr>)"
| thread_gone: "\<not> running x p t \<Longrightarrow> map_option th_proc (pt_threads t x) = Some p \<Longrightarrow> ptab_step t (drop_thread x t)"
| process_gone: "\<not> referenced p t \<Longrightarrow> ptab_step t (drop_process p t)"

definition ptab_reachable :: "ptab \<Rightarrow> bool" where
  "ptab_reachable t \<longleftrightarrow> (\<exists>p. ptab_step\<^sup>*\<^sup>* (ptab_boot p) t)"

lemma ptab_boot_ok: "ptab_ok (ptab_boot p)"
proof -
  have "descends (ptab_boot p) p" using descends_init [of "ptab_boot p"] by (simp add: ptab_boot_def process_build_def Let_def)
  then show ?thesis by (auto simp: ptab_ok_def ptab_inv_def ptab_tree_def ptab_boot_def process_build_def Let_def split: if_splits)
qed

lemma fork_beside_parent:
  assumes "ptab_inv t" "running x p t" "parent_of p t = Some q"
  shows "\<exists>qr. pt_procs t q = Some qr \<and> \<not> pr_zombie qr"
proof -
  from assms(2,1) obtain pr where p: "pt_procs t p = Some pr" "p \<noteq> pt_init t" "\<not> pr_zombie pr" by (auto elim: runningE)
  from ptab_invD(3) [OF assms(1) p] obtain q' qr where q: "pr_parent pr = Some q'" "pt_procs t q' = Some qr" "p \<in> set (pr_children qr)" by blast
  then have "q' = q" using assms(3) p(1) by (auto simp: parent_of_def split: if_splits)
  then show ?thesis using q ptab_invD(4) [OF assms(1) q(2)] by auto
qed

lemma drop_thread_ok:
  assumes "ptab_ok t" "\<not> running x p t" "map_option th_proc (pt_threads t x) = Some p"
  shows "ptab_ok (drop_thread x t)"
proof -
  have inv: "ptab_inv t" "ptab_tree t" using assms by (auto simp: ptab_ok_def)
  have "x \<notin> set (pr_threads r)" if "pt_procs t q = Some r" for q r
    using ptab_invD(5) [OF inv(1) that, of x] assms(2,3) that by (auto simp: running_def)
  then have "ptab_inv (drop_thread x t)" by (rule drop_thread_inv [OF inv(1)])
  moreover have "ptab_tree (drop_thread x t)" by (rule ptab_tree_threads [OF inv(2)]) (simp_all add: drop_thread_def)
  ultimately show ?thesis by (simp add: ptab_ok_def)
qed

lemma ptab_step_ok: "ptab_step t t' \<Longrightarrow> ptab_ok t \<Longrightarrow> ptab_ok t'"
proof (induction rule: ptab_step.induct)
  case (run_user_app tid t d td)
  then have "ptab_inv t" by (simp add: ptab_ok_def)
  from ptab_invD(1) [OF this] run_user_app show ?case by (auto intro: clone_process_ok)
next
  case (fork x p t tid d td)
  then have "ptab_inv t" by (simp add: ptab_ok_def)
  with fork show ?case by (auto intro: clone_process_ok elim!: runningE)
next
  case (fork_beside x p t q tid d td)
  then have "ptab_inv t" by (simp add: ptab_ok_def)
  from fork_beside_parent [OF this fork_beside(1,2)] fork_beside show ?case by (auto intro: clone_process_ok)
next
  case (hold t ps)
  then show ?case by (auto simp: ptab_ok_def intro: ptab_inv_threads [of t] ptab_tree_threads [of t])
next
  case (process_gone p t)
  then show ?case using drop_process_inv [of t p] drop_process_tree [of t p] by (simp add: ptab_ok_def)
qed (auto intro: clone_thread_ok send_signal_proc_ok send_signal_thread_ok upd_proc_ok upd_thread_ok waitpid_round_ok drop_thread_ok
       exit_thread_ok [THEN conjunct1] core_exit_thread_ok [THEN conjunct1])

lemma ptab_reachable_ok: "ptab_reachable t \<Longrightarrow> ptab_ok t"
proof -
  have "ptab_ok t" if "ptab_step\<^sup>*\<^sup>* (ptab_boot p) t" for p
    using that by (induction rule: rtranclp_induct) (auto intro: ptab_boot_ok ptab_step_ok)
  then show "ptab_reachable t \<Longrightarrow> ptab_ok t" by (auto simp: ptab_reachable_def)
qed

section \<open>Properties\<close>

lemma children_of_iff: "c \<in> set (children_of q t) \<longleftrightarrow> (\<exists>qr. pt_procs t q = Some qr \<and> c \<in> set (pr_children qr))"
  by (cases "pt_procs t q") (simp_all add: children_of_def)

text \<open>
  C6. In every state of the process tables that the system reaches, from booting, by starting programs, cloning processes and threads,
  exiting, waiting, sending signals and dropping what is no longer referred to: every process that has not ended descends from the init
  process; a process that ended has no children and no threads left; parents and lists of children agree; and the exit of a running
  thread, by a system call or by a signal, does not panic (the process that may not exit is never asked to).
\<close>

theorem process_tree_invariant:
  assumes "ptab_reachable t"
  shows "(\<forall>p pr. pt_procs t p = Some pr \<and> \<not> pr_zombie pr \<longrightarrow> descends t p)
       \<and> (\<forall>p pr. pt_procs t p = Some pr \<and> pr_zombie pr \<longrightarrow> pr_children pr = [] \<and> pr_threads pr = [])
       \<and> (\<forall>q c. c \<in> set (children_of q t) \<longrightarrow> parent_of c t = Some q)
       \<and> (\<forall>x p code g. running x p t \<longrightarrow>
            fst (exit_thread x code g t :: (linux_error, unit) outcome \<times> ptab) = Ok ()
          \<and> fst (core_exit_thread x code g t :: (linux_error, unit) outcome \<times> ptab) = Ok ())"
proof (intro conjI)
  have ok: "ptab_ok t" and inv: "ptab_inv t" and tree: "ptab_tree t" using ptab_reachable_ok [OF assms] by (auto simp: ptab_ok_def)
  show "\<forall>p pr. pt_procs t p = Some pr \<and> \<not> pr_zombie pr \<longrightarrow> descends t p" using tree by (simp add: ptab_tree_def)
  show "\<forall>p pr. pt_procs t p = Some pr \<and> pr_zombie pr \<longrightarrow> pr_children pr = [] \<and> pr_threads pr = []" using ptab_invD(4) [OF inv] by blast
  show "\<forall>q c. c \<in> set (children_of q t) \<longrightarrow> parent_of c t = Some q"
  proof (intro allI impI)
    fix q c assume "c \<in> set (children_of q t)"
    then obtain qr where q: "pt_procs t q = Some qr" "c \<in> set (pr_children qr)" by (auto simp: children_of_iff)
    then show "parent_of c t = Some q" using ptab_invD(2) [OF inv q] by (auto simp: parent_of_def)
  qed
  show "\<forall>x p code g. running x p t \<longrightarrow>
            fst (exit_thread x code g t :: (linux_error, unit) outcome \<times> ptab) = Ok ()
          \<and> fst (core_exit_thread x code g t :: (linux_error, unit) outcome \<times> ptab) = Ok ()"
    using exit_thread_ok [OF ok] core_exit_thread_ok [OF ok] by blast
qed

text \<open>The tables after booting with process id 2 and starting one program, as process 5.\<close>

definition sample_data :: proc_data where
  "sample_data = \<lparr>pd_exe_path = ''/a'', pd_aspace = 0, pd_shared = [], pd_actions = [], pd_fds = 0, pd_cwd = 0,
     pd_heap_bottom = 0x40000000, pd_heap_top = 0x40000000\<rparr>"

definition sample_ptab :: ptab where
  "sample_ptab = clone_process 5 2 sample_data thread_data_new (ptab_boot 2)"

lemma sample_ptab_reachable: "ptab_reachable sample_ptab"
proof -
  have "unused 5 (ptab_boot 2)" "pt_init (ptab_boot 2) = 2" by (simp_all add: unused_def ptab_boot_def process_build_def)
  from run_user_app [OF this(1), of sample_data thread_data_new] this(2) show ?thesis
    unfolding ptab_reachable_def sample_ptab_def by (metis r_into_rtranclp)
qed

lemma sample_ptab_procs:
  "pt_procs sample_ptab 5 = Some \<lparr>pr_zombie = False, pr_threads = [5], pr_exit_code = 0, pr_group_exited = False, pr_data = Some sample_data,
     pr_children = [], pr_parent = Some 2, pr_pgid = 2\<rparr>"
  "pt_threads sample_ptab 5 = Some \<lparr>th_proc = 5, th_data = thread_data_new\<rparr>"
  by (simp_all add: sample_ptab_def clone_process_def thread_build_def process_build_def ptab_boot_def insert_key_def pgid_of_def)

theorem process_tree_invariant_witness:
  "ptab_reachable sample_ptab \<and> descends sample_ptab 5
     \<and> fst (exit_thread 5 0x700 False sample_ptab :: (linux_error, unit) outcome \<times> ptab) = Ok ()"
proof -
  have "running 5 5 sample_ptab" by (simp add: running_def sample_ptab_procs)
  then show ?thesis using sample_ptab_reachable process_tree_invariant [OF sample_ptab_reachable] sample_ptab_procs(1) by fastforce
qed

lemma exit_last_thread:
  assumes ok: "ptab_ok t" and x: "running x p t" and p: "pt_procs t p = Some pr" "pr_threads pr = [x]" "\<not> pr_group_exited pr"
  shows "\<exists>pr'. pt_procs (snd (exit_thread x code g t :: ('e, unit) outcome \<times> ptab)) p = Some pr' \<and> pr_zombie pr' \<and> pr_exit_code pr' = code
          \<and> pr_parent pr' = pr_parent pr"
    and "q \<noteq> p \<Longrightarrow> set (children_of q t) \<subseteq> set (children_of q (snd (exit_thread x code g t :: ('e, unit) outcome \<times> ptab)))"
proof -
  from x ok obtain th where th: "pt_threads t x = Some th" "th_proc th = p" and np: "p \<noteq> pt_init t" by (auto simp: ptab_ok_def elim: runningE)
  have "\<not> pr_zombie pr" using ptab_invD(4) [of t p pr] ok p by (auto simp: ptab_ok_def)
  then have loop: "p \<notin> set (pr_children pr)" using descends_loop [of t p pr] ok p np by (auto simp: ptab_ok_def ptab_tree_def)
  define t1 where "t1 = upd_proc p (\<lambda>pr. pr\<lparr>pr_exit_code := code, pr_threads := []\<rparr>) t"
  have e: "thread_exit x code t = (True, t1)"
    using th p by (auto simp: thread_exit_def t1_def threads_of_def upd_proc_def)
  show "\<exists>pr'. pt_procs (snd (exit_thread x code g t :: ('e, unit) outcome \<times> ptab)) p = Some pr' \<and> pr_zombie pr' \<and> pr_exit_code pr' = code
          \<and> pr_parent pr' = pr_parent pr"
    using np p loop by (auto simp: exit_thread_def th e proc_exit_def t1_def adopt_procs proc_group_exit_def children_of_def)
  show "set (children_of q t) \<subseteq> set (children_of q (snd (exit_thread x code g t :: ('e, unit) outcome \<times> ptab)))" if "q \<noteq> p"
    using np p that by (cases "pt_procs t q") (auto simp: exit_thread_def th e proc_exit_def t1_def adopt_procs proc_group_exit_def children_of_def)
qed

lemma proc_free_zombie:
  assumes "ptab_inv t" "pt_procs t p = Some pr" "pr_zombie pr" "pr_parent pr = Some q" "p \<noteq> q"
  shows "\<exists>t'. proc_free p t = (Ok () :: ('e, unit) outcome, t') \<and> pt_procs t' p = Some pr \<and> (\<forall>y. set (children_of y t') = set (children_of y t) - {p})"
proof (intro exI conjI allI)
  let ?t = "upd_proc q (\<lambda>pr. pr\<lparr>pr_children := filter (\<lambda>c. c \<noteq> p) (pr_children pr)\<rparr>) t"
  show "proc_free p t = (Ok () :: ('e, unit) outcome, ?t)" "pt_procs ?t p = Some pr" using assms by (simp_all add: proc_free_def is_zombie_def)
  show "set (children_of y ?t) = set (children_of y t) - {p}" for y
  proof (cases "y = q")
    case True
    then show ?thesis by (cases "pt_procs t q") (auto simp: children_of_def)
  next
    case False
    then have "p \<notin> set (children_of y t)" using ptab_invD(2) [OF assms(1), of y _ p] assms(2,4) by (auto simp: children_of_iff)
    with False show ?thesis by (simp add: children_of_def)
  qed
qed

text \<open>
  C13. When the last thread of a process exits with a code, a wait of the parent for that process returns its id and that exit code (unless
  a group exit before had fixed the code). Without \<^verbatim>\<open>WNOWAIT\<close> the process is then in no list of children, and every other child of
  every process stays; with \<^verbatim>\<open>WNOWAIT\<close> nothing changes.
\<close>

theorem exit_then_wait:
  assumes "ptab_reachable t" "running x p t" "pt_procs t p = Some pr" "pr_threads pr = [x]" "\<not> pr_group_exited pr" "parent_of p t = Some q"
    and "t' = snd (exit_thread x code g t :: (linux_error, unit) outcome \<times> ptab)"
  shows "\<exists>t''. waitpid_round (wait_children (WaitPid p) q t') opts t' = (Ok (Reaped p code) :: (linux_error, wait_round) outcome, t'')
     \<and> (if opts AND WNOWAIT = WNOWAIT then t'' = t' else \<forall>y. set (children_of y t'') = set (children_of y t') - {p})"
proof -
  have ok: "ptab_ok t" and inv: "ptab_inv t" using ptab_reachable_ok [OF assms(1)] by (auto simp: ptab_ok_def)
  have inv': "ptab_inv t'" using exit_thread_ok [OF ok assms(2), where 'e = linux_error] assms(7) by (simp add: ptab_ok_def)
  have np: "p \<noteq> pt_init t" "\<not> pr_zombie pr" using assms(2,3) inv by (auto elim: runningE)
  have pq: "pr_parent pr = Some q" using assms(3,6) by (auto simp: parent_of_def split: option.splits if_splits)
  have child: "p \<in> set (children_of q t)" using ptab_invD(3) [OF inv assms(3) np] pq by (auto simp: children_of_iff)
  have ne: "q \<noteq> p" using descends_loop [OF inv _ np(1) assms(3)] child np(2) assms(3) ok
    by (auto simp: children_of_iff ptab_ok_def ptab_tree_def)
  obtain pr' where z: "pt_procs t' p = Some pr'" "pr_zombie pr'" "pr_exit_code pr' = code" "pr_parent pr' = Some q"
    using exit_last_thread(1) [OF ok assms(2-5), of code g, where 'e = linux_error] assms(7) pq by auto
  have "p \<in> set (wait_children (WaitPid p) q t')"
    using exit_last_thread(2) [OF ok assms(2-5) ne, of code g, where 'e = linux_error] child assms(7) by (auto simp: wait_children_def wait_apply_def)
  moreover have "set (wait_children (WaitPid p) q t') \<subseteq> {p}" by (auto simp: wait_children_def wait_apply_def)
  moreover have "List.find (\<lambda>c. is_zombie c t') cs = Some p" if "set cs \<subseteq> {p}" "p \<in> set cs" for cs
    using that z by (cases cs) (auto simp: is_zombie_def)
  ultimately have find: "List.find (\<lambda>c. is_zombie c t') (wait_children (WaitPid p) q t') = Some p" by blast
  show ?thesis
    using proc_free_zombie [OF inv' z(1,2,4) ne [symmetric], where 'e = linux_error] z(1,3) by (auto simp: waitpid_round_def find)
qed

theorem exit_then_wait_witness:
  "\<exists>t''. waitpid_round (wait_children (WaitPid 5) 2 (snd (exit_thread 5 0x700 False sample_ptab :: (linux_error, unit) outcome \<times> ptab))) 0
       (snd (exit_thread 5 0x700 False sample_ptab :: (linux_error, unit) outcome \<times> ptab))
     = (Ok (Reaped 5 0x700) :: (linux_error, wait_round) outcome, t'')"
proof -
  have "running 5 5 sample_ptab" by (simp add: running_def sample_ptab_procs)
  moreover have "parent_of 5 sample_ptab = Some 2"
    by (simp add: parent_of_def sample_ptab_procs) (simp add: sample_ptab_def clone_process_def thread_build_def process_build_def ptab_boot_def)
  ultimately show ?thesis
    using exit_then_wait [OF sample_ptab_reachable _ sample_ptab_procs(1) _ _ _ refl, of 5 2 "0x700" False 0] by auto
qed

end
