(* ===== verification/Task_Calls.thy ===== *)
theory Task_Calls
  imports User_Maps Trap_Context Processes Scheduler
begin

unbundle bit_operations_syntax

text \<open>
  The system calls on tasks (\<^verbatim>\<open>api/src/imp/task\<close>), \<^verbatim>\<open>brk\<close>, \<^verbatim>\<open>uname\<close> and the start of a program (\<^verbatim>\<open>src/entry.rs\<close>), over the state of the
  whole kernel: the scheduler, the process tables, physical memory, the address spaces, descriptor tables and current directories
  by reference (processes may share them), the files, and for every task its name, the user context it starts with and its times. The
  descriptor table and the current directory inside \<open>k_files\<close> are those of the namespace of kernel tasks. A call that
  touches user memory in vain has the outcome \<open>Err (Exits code)\<close>: the page-fault handler then calls \<^verbatim>\<open>do_exit\<close>.

  Lemmas: a failed \<^verbatim>\<open>clone\<close> leaves the processes and the scheduler alone; a \<^verbatim>\<open>fork\<close> makes a child that continues as the caller with the
  result 0, with the same descriptors; the heap top stays in its bounds.
\<close>

section \<open>The state of the kernel\<close>

record user_task =
  ut_name :: string
  ut_ctx :: trap_frame
  ut_set_child_tid :: "usize option"
  ut_root :: usize
  ut_time :: time_stat

record ('n, 's) kern =
  k_sched :: sched
  k_tab :: ptab
  k_mem :: kmem
  k_kspace :: aspace
  k_spaces :: "nat \<Rightarrow> aspace"
  k_tables :: "nat \<Rightarrow> nat fd_table"
  k_cwds :: "nat \<Rightarrow> 'n node \<times> string"
  k_next_ref :: nat
  k_files :: "('n, 's) files"
  k_tasks :: "tid \<Rightarrow> user_task"
  k_user_gs :: u64

type_synonym ('n, 's, 'a) kcall = "('n, 's) kern \<Rightarrow> (stop, 'a) outcome \<times> ('n, 's) kern"

definition cur_tid :: "('n, 's) kern \<Rightarrow> tid" where
  "cur_tid k = sd_current (k_sched k)"

definition cur_thread :: "('n, 's) kern \<Rightarrow> pid" where
  "cur_thread k = ucast (cur_tid k)"

text \<open>The process of the current task with its data; a kernel task has none, and asking for it panics.\<close>

definition cur_proc :: "('n, 's) kern \<Rightarrow> (pid \<times> proc_data) option" where
  "cur_proc k =
     (case pt_threads (k_tab k) (cur_thread k) of
        None \<Rightarrow> None
      | Some th \<Rightarrow>
          (case pt_procs (k_tab k) (th_proc th) of
             None \<Rightarrow> None
           | Some pr \<Rightarrow> map_option (\<lambda>d. (th_proc th, d)) (pr_data pr)))"

definition with_proc :: "(pid \<Rightarrow> proc_data \<Rightarrow> ('n, 's, 'a) kcall) \<Rightarrow> ('n, 's, 'a) kcall" where
  "with_proc f k = (case cur_proc k of None \<Rightarrow> (Panic, k) | Some (p, d) \<Rightarrow> f p d k)"

definition on_space :: "(as_state \<Rightarrow> (stop, 'a) outcome \<times> as_state) \<Rightarrow> ('n, 's, 'a) kcall" where
  "on_space f = with_proc (\<lambda>p d k.
     case f (k_spaces k (pd_aspace d), k_mem k) of
       (r, (a, m)) \<Rightarrow> (r, k\<lparr>k_spaces := (k_spaces k)(pd_aspace d := a), k_mem := m\<rparr>))"

definition on_sched :: "(sched \<Rightarrow> (machine_end, unit) outcome \<times> sched) \<Rightarrow> ('n, 's, unit) kcall" where
  "on_sched f k = (case f (k_sched k) of (Ok _, s) \<Rightarrow> (Ok (), k\<lparr>k_sched := s\<rparr>) | (_, s) \<Rightarrow> (Panic, k\<lparr>k_sched := s\<rparr>))"

definition upd_data :: "pid \<Rightarrow> (proc_data \<Rightarrow> proc_data) \<Rightarrow> ('n, 's) kern \<Rightarrow> ('n, 's) kern" where
  "upd_data p f k = k\<lparr>k_tab := upd_proc p (\<lambda>pr. pr\<lparr>pr_data := map_option f (pr_data pr)\<rparr>) (k_tab k)\<rparr>"

section \<open>Identity, brk, uname\<close>

definition sys_getpid :: "('n, 's, isize) kcall" where
  "sys_getpid = with_proc (\<lambda>p d k. (Ok (ucast p), k))"

definition sys_getppid :: "('n, 's, isize) kcall" where
  "sys_getppid = with_proc (\<lambda>p d k. case parent_of p (k_tab k) of Some q \<Rightarrow> (Ok (ucast q), k) | None \<Rightarrow> (Panic, k))"

definition sys_gettid :: "('n, 's, isize) kcall" where
  "sys_gettid k = (Ok (cur_tid k), k)"

definition sys_set_tid_address :: "usize \<Rightarrow> ('n, 's, isize) kcall" where
  "sys_set_tid_address clear_child_tid = with_proc (\<lambda>p d k.
     (Ok (cur_tid k), k\<lparr>k_tab := upd_thread (cur_thread k) (\<lambda>th. th\<lparr>th_data := (th_data th)\<lparr>td_clear_child_tid := clear_child_tid\<rparr>\<rparr>) (k_tab k)\<rparr>))"

text \<open>The codes of \<^verbatim>\<open>ArchPrctlCode\<close>; the GS base of user space is in \<^verbatim>\<open>IA32_KERNEL_GSBASE\<close> while the kernel runs.\<close>

definition sys_arch_prctl :: "trap_frame \<Rightarrow> i32 \<Rightarrow> usize \<Rightarrow> ('n, 's, isize \<times> trap_frame) kcall" where
  "sys_arch_prctl tf code a k =
     (if code = 0x1003 then
        on_space (\<lambda>m. sbind (errno (ptr_get_as USER_PTR_ACCESS a 8 8 m)) (\<lambda>p m.
          sbind (user_write_bytes False p (le_bytes 8 (tf_fs_base tf)) m) (\<lambda>_ m. (Ok (0, tf), m)))) k
      else if code = 0x1002 then (Ok (0, tf\<lparr>tf_fs_base := a\<rparr>), k)
      else if code = 0x1004 then
        on_space (\<lambda>m. sbind (errno (ptr_get_as USER_PTR_ACCESS a 8 8 m)) (\<lambda>p m.
          sbind (user_write_bytes False p (le_bytes 8 (k_user_gs k)) m) (\<lambda>_ m. (Ok (0, tf), m)))) k
      else if code = 0x1001 then (Ok (0, tf), k\<lparr>k_user_gs := a\<rparr>)
      else if code = 0x1011 then (Ok (0, tf), k)
      else if code = 0x1012 then (Err (Errno ENODEV), k)
      else (Err (Errno EINVAL), k))"

definition sys_brk :: "usize \<Rightarrow> ('n, 's, isize) kcall" where
  "sys_brk a = with_proc (\<lambda>p d k.
     if a \<noteq> 0 \<and> pd_heap_bottom d \<le> a \<and> a \<le> pd_heap_bottom d + USER_HEAP_SIZE
     then (Ok a, upd_data p (\<lambda>d. d\<lparr>pd_heap_top := a\<rparr>) k)
     else (Ok (pd_heap_top d), k))"

definition uts_from_str :: "string \<Rightarrow> u8 list" where
  "uts_from_str info = bytes_of_string info @ replicate (65 - length info) 0"

definition uts_name_default :: "u8 list" where
  "uts_name_default =
     concat (map uts_from_str [''Starry'', ''Starry - machine[0]'', ''10.0.0'', ''10.0.0'', ''10.0.0'',
       ''https://github.com/BattiestStone4/Starry-On-ArceOS''])"

definition sys_uname :: "usize \<Rightarrow> ('n, 's, isize) kcall" where
  "sys_uname name = on_space (\<lambda>m.
     sbind (errno (ptr_get_as USER_PTR_ACCESS name 390 1 m)) (\<lambda>p m.
     sbind (user_write_bytes False p uts_name_default m) (\<lambda>_ m. (Ok 0, m))))"

section \<open>Cloning\<close>

definition CLONE_VM :: u32 where "CLONE_VM = 0x100"
definition CLONE_FS :: u32 where "CLONE_FS = 0x200"
definition CLONE_FILES :: u32 where "CLONE_FILES = 0x400"
definition CLONE_SIGHAND :: u32 where "CLONE_SIGHAND = 0x800"
definition CLONE_PARENT :: u32 where "CLONE_PARENT = 0x8000"
definition CLONE_THREAD :: u32 where "CLONE_THREAD = 0x10000"
definition CLONE_SETTLS :: u32 where "CLONE_SETTLS = 0x80000"
definition CLONE_PARENT_SETTID :: u32 where "CLONE_PARENT_SETTID = 0x100000"
definition CLONE_CHILD_CLEARTID :: u32 where "CLONE_CHILD_CLEARTID = 0x200000"
definition CLONE_CHILD_SETTID :: u32 where "CLONE_CHILD_SETTID = 0x1000000"

lemmas clone_flag_defs = CLONE_VM_def CLONE_FS_def CLONE_FILES_def CLONE_SIGHAND_def CLONE_PARENT_def CLONE_THREAD_def CLONE_SETTLS_def
  CLONE_PARENT_SETTID_def CLONE_CHILD_CLEARTID_def CLONE_CHILD_SETTID_def

definition has_flags :: "u32 \<Rightarrow> u32 \<Rightarrow> bool" where
  "has_flags flags f \<longleftrightarrow> flags AND f = f"

text \<open>The context of the new task.\<close>

definition clone_uctx :: "trap_frame \<Rightarrow> u32 \<Rightarrow> usize \<Rightarrow> usize \<Rightarrow> trap_frame" where
  "clone_uctx tf flags stack tls =
     (let u = uspace_context_from tf;
          u = (if stack \<noteq> 0 then u\<lparr>tf_rsp := stack\<rparr> else u);
          u = (if has_flags flags CLONE_SETTLS then u\<lparr>tf_fs_base := tls\<rparr> else u)
      in u\<lparr>tf_rax := 0\<rparr>)"

text \<open>\<^verbatim>\<open>new_user_task\<close>: the task takes the next id; it is known to the scheduler when it is spawned.\<close>

definition new_user_task :: "string \<Rightarrow> trap_frame \<Rightarrow> usize option \<Rightarrow> ('n, 's) kern \<Rightarrow> tid \<times> ('n, 's) kern" where
  "new_user_task name uctx set_child_tid k =
     (let s = k_sched k; t = sd_next_id s in
      (t, k\<lparr>k_sched := s\<lparr>sd_next_id := t + 1\<rparr>,
            k_tasks := (k_tasks k)(t := \<lparr>ut_name = name, ut_ctx = uctx, ut_set_child_tid = set_child_tid, ut_root = 0, ut_time = time_stat_new\<rparr>)\<rparr>))"

definition spawn_user_task :: "tid \<Rightarrow> ('n, 's, unit) kcall" where
  "spawn_user_task t k =
     on_sched (\<lambda>s. add_task t (s\<lparr>sd_ids := t # sd_ids s, sd_task := (sd_task s)(t := task_new (ut_name (k_tasks k t)))\<rparr>)) k"

definition proc_data_new :: "string \<Rightarrow> nat \<Rightarrow> nat \<Rightarrow> nat \<Rightarrow> proc_data" where
  "proc_data_new exe_path asp fds cwd =
     \<lparr>pd_exe_path = exe_path, pd_aspace = asp, pd_shared = [], pd_actions = replicate 32 DispDefault, pd_fds = fds, pd_cwd = cwd,
      pd_heap_bottom = USER_HEAP_BASE, pd_heap_top = USER_HEAP_BASE\<rparr>"

text \<open>The address space of the new process; when the kernel part cannot be copied the new address space is dropped.\<close>

definition clone_space :: "u32 \<Rightarrow> proc_data \<Rightarrow> ('n, 's, nat) kcall" where
  "clone_space flags d k =
     (if has_flags flags CLONE_VM then (Ok (pd_aspace d), k)
      else case clone_or_err (k_spaces k (pd_aspace d), k_mem k) of
        (Ok new, m) \<Rightarrow>
          (case copy_from_kernel (k_kspace k) (new, m) of
             (Ok _, (new, m)) \<Rightarrow>
               (Ok (k_next_ref k), k\<lparr>k_spaces := (k_spaces k)(k_next_ref k := new), k_mem := m, k_next_ref := k_next_ref k + 1\<rparr>)
           | (Err e, st) \<Rightarrow>
               (case as_drop st of (Ok _, m) \<Rightarrow> (Err (Errno (linux_of_ax e)), k\<lparr>k_mem := m\<rparr>) | (_, m) \<Rightarrow> (Panic, k\<lparr>k_mem := m\<rparr>))
           | (Panic, (_, m)) \<Rightarrow> (Panic, k\<lparr>k_mem := m\<rparr>))
      | (Err e, m) \<Rightarrow> (Err (Errno (linux_of_ax e)), k\<lparr>k_mem := m\<rparr>)
      | (Panic, m) \<Rightarrow> (Panic, k\<lparr>k_mem := m\<rparr>))"

definition clone_table :: "u32 \<Rightarrow> proc_data \<Rightarrow> ('n, 's, nat) kcall" where
  "clone_table flags d k =
     (if has_flags flags CLONE_FILES then (Ok (pd_fds d), k)
      else case copy_inner (k_tables k (pd_fds d)) of
        Ok t \<Rightarrow> (Ok (k_next_ref k), k\<lparr>k_tables := (k_tables k)(k_next_ref k := t), k_next_ref := k_next_ref k + 1\<rparr>)
      | Err e \<Rightarrow> (Err e, k)
      | Panic \<Rightarrow> (Panic, k))"

definition clone_cwd :: "u32 \<Rightarrow> proc_data \<Rightarrow> ('n, 's) kern \<Rightarrow> nat \<times> ('n, 's) kern" where
  "clone_cwd flags d k =
     (if has_flags flags CLONE_FS then (pd_cwd d, k)
      else (k_next_ref k, k\<lparr>k_cwds := (k_cwds k)(k_next_ref k := k_cwds k (pd_cwd d)), k_next_ref := k_next_ref k + 1\<rparr>))"

definition clone_thread_data :: "u32 \<Rightarrow> usize \<Rightarrow> thread_data" where
  "clone_thread_data flags child_tid =
     (if has_flags flags CLONE_CHILD_CLEARTID then thread_data_new\<lparr>td_clear_child_tid := child_tid\<rparr> else thread_data_new)"

definition set_root :: "tid \<Rightarrow> usize \<Rightarrow> ('n, 's) kern \<Rightarrow> ('n, 's) kern" where
  "set_root t root k = k\<lparr>k_tasks := (k_tasks k)(t := (k_tasks k t)\<lparr>ut_root := root\<rparr>)\<rparr>"

text \<open>The process of the new thread: the caller's, or a new one.\<close>

definition clone_into :: "tid \<Rightarrow> u32 \<Rightarrow> usize \<Rightarrow> ('n, 's, unit) kcall" where
  "clone_into t flags child_tid = with_proc (\<lambda>p d k.
     let td = clone_thread_data flags child_tid in
     if has_flags flags CLONE_THREAD then
       (Ok (), (set_root t (as_root (k_spaces k (pd_aspace d))) k)\<lparr>k_tab := clone_thread (ucast t) p td (k_tab k)\<rparr>)
     else
       sbind (errno (ok_or (if has_flags flags CLONE_PARENT then parent_of p (k_tab k) else Some p) EINVAL, k)) (\<lambda>parent k.
       sbind (clone_space flags d k) (\<lambda>asp k.
       let k = set_root t (as_root (k_spaces k asp)) k in
       sbind (clone_table flags d k) (\<lambda>fds k.
       let (cwd, k) = clone_cwd flags d k in
       (Ok (), k\<lparr>k_tab := clone_process (ucast t) parent (proc_data_new (pd_exe_path d) asp fds cwd) td (k_tab k)\<rparr>)))))"

definition sys_clone :: "trap_frame \<Rightarrow> u32 \<Rightarrow> usize \<Rightarrow> usize \<Rightarrow> usize \<Rightarrow> usize \<Rightarrow> ('n, 's, isize) kcall" where
  "sys_clone tf flags stack parent_tid child_tid tls k =
     (let flags = flags AND NOT 0xff in
      if has_flags flags CLONE_THREAD \<and> \<not> has_flags flags (CLONE_VM OR CLONE_SIGHAND) then (Err (Errno EINVAL), k)
      else
        sbind (if has_flags flags CLONE_CHILD_SETTID
               then on_space (\<lambda>m. sbind (errno (ptr_get_as USER_PTR_ACCESS child_tid 4 4 m)) (\<lambda>p m. (Ok (if p = 0 then None else Some p), m))) k
               else (Ok None, k)) (\<lambda>set_child_tid k.
        let (t, k) = new_user_task (ut_name (k_tasks k (cur_tid k))) (clone_uctx tf flags stack tls) set_child_tid k in
        sbind (if has_flags flags CLONE_PARENT_SETTID
               then on_space (\<lambda>m. sbind (errno (ptr_get_as USER_PTR_ACCESS parent_tid 4 4 m)) (\<lambda>p m.
                      user_write_bytes False p (le_bytes 4 (ucast t :: pid)) m)) k
               else (Ok (), k)) (\<lambda>_ k.
        sbind (clone_into t flags child_tid k) (\<lambda>_ k.
        sbind (spawn_user_task t k) (\<lambda>_ k. (Ok (ucast (ucast t :: pid)), k))))))"

definition sys_fork :: "trap_frame \<Rightarrow> ('n, 's, isize) kcall" where
  "sys_fork tf = sys_clone tf 17 0 0 0 0"

section \<open>Exiting and waiting\<close>

text \<open>How a call ends: with a result, by waiting (its later rounds are functions of their own), in a new user context, or with the task.\<close>

datatype sys_end = Returned isize | Waiting | Entered trap_frame | Ended i32

definition do_exit :: "i32 \<Rightarrow> bool \<Rightarrow> ('n, 's, sys_end) kcall" where
  "do_exit exit_code group_exit k =
     (case pt_threads (k_tab k) (cur_thread k) of
        None \<Rightarrow> (Panic, k)
      | Some th \<Rightarrow>
          sbind (case on_space (\<lambda>m. errno (ptr_get_as USER_PTR_ACCESS (td_clear_child_tid (th_data th)) 4 4 m)) k of
                   (Ok p, k) \<Rightarrow> on_space (\<lambda>m. user_write_bytes False p (le_bytes 4 (0 :: pid)) m) k
                 | (Err _, k) \<Rightarrow> (Ok (), k)
                 | (Panic, k) \<Rightarrow> (Panic, k)) (\<lambda>_ k.
          case exit_thread (cur_thread k) exit_code group_exit (k_tab k) of
            (Ok _, t) \<Rightarrow>
              (let k = k\<lparr>k_tab := t\<rparr> in
               case exit_current exit_code (k_sched k) of
                 (Panic, s) \<Rightarrow> (Panic, k\<lparr>k_sched := s\<rparr>)
               | (_, s) \<Rightarrow> (Ok (Ended exit_code), k\<lparr>k_sched := s\<rparr>))
          | (Err x, t) \<Rightarrow> (Err x, k\<lparr>k_tab := t\<rparr>)
          | (Panic, t) \<Rightarrow> (Panic, k\<lparr>k_tab := t\<rparr>)))"

definition sys_exit :: "i32 \<Rightarrow> ('n, 's, sys_end) kcall" where
  "sys_exit exit_code = do_exit (push_bit 8 exit_code) False"

definition sys_exit_group :: "i32 \<Rightarrow> ('n, 's, sys_end) kcall" where
  "sys_exit_group exit_code = do_exit (push_bit 8 exit_code) True"

text \<open>A round of the loop of \<^verbatim>\<open>waitpid\<close> over the children found at the start; between two rounds the task yields.\<close>

definition waitpid_loop_round :: "pid list \<Rightarrow> usize option \<Rightarrow> u32 \<Rightarrow> ('n, 's, sys_end) kcall" where
  "waitpid_loop_round children exit_code options k =
     (case waitpid_round children options (k_tab k) of
        (Ok (Reaped child code), t) \<Rightarrow>
          sbind (case exit_code of
                   Some p \<Rightarrow> on_space (\<lambda>m. user_write_bytes False p (le_bytes 4 code) m) (k\<lparr>k_tab := t\<rparr>)
                 | None \<Rightarrow> (Ok (), k\<lparr>k_tab := t\<rparr>)) (\<lambda>_ k. (Ok (Returned (ucast child)), k))
      | (Ok Nothing, t) \<Rightarrow> (Ok (Returned 0), k\<lparr>k_tab := t\<rparr>)
      | (Ok YieldAgain, t) \<Rightarrow> sbind (on_sched yield_current (k\<lparr>k_tab := t\<rparr>)) (\<lambda>_ k. (Ok Waiting, k))
      | (Err x, t) \<Rightarrow> (Err x, k\<lparr>k_tab := t\<rparr>)
      | (Panic, t) \<Rightarrow> (Panic, k\<lparr>k_tab := t\<rparr>))"

definition sys_waitpid :: "i32 \<Rightarrow> usize \<Rightarrow> u32 \<Rightarrow> ('n, 's, sys_end) kcall" where
  "sys_waitpid pid exit_code_ptr options = with_proc (\<lambda>p d k.
     let children = wait_children (wait_target pid p (k_tab k)) p (k_tab k) in
     if children = [] then (Err (Errno ECHILD), k)
     else
       sbind (on_space (nullable (\<lambda>q m. errno (ptr_get_as USER_PTR_ACCESS q 4 4 m)) exit_code_ptr) k) (\<lambda>exit_code k.
         waitpid_loop_round children exit_code options k))"

section \<open>Programs\<close>

text \<open>The strings of an array of \<open>n\<close> pointers.\<close>

fun user_strs :: "nat \<Rightarrow> usize \<Rightarrow> as_state \<Rightarrow> (stop, string list) outcome \<times> as_state" where
  "user_strs 0 p m = (Ok [], m)"
| "user_strs (Suc n) p m =
     sbind (user_read_bytes False 8 p m) (\<lambda>bs m.
     sbind (user_str (le_word bs) m) (\<lambda>s m.
     sbind (user_strs n (p + 8) m) (\<lambda>ss m. (Ok (s # ss), m))))"

definition user_str_array :: "usize \<Rightarrow> as_state \<Rightarrow> (stop, string list) outcome \<times> as_state" where
  "user_str_array p m =
     sbind (the (check_null_terminated 8 8 USER_CONST_PTR_ACCESS p m)) (\<lambda>n m. user_strs (unat n) p m)"

definition base_name :: "string \<Rightarrow> string" where
  "base_name path = (case rsplit_once slash path of None \<Rightarrow> path | Some (_, name) \<Rightarrow> name)"

text \<open>The files as the process sees them: with its own current directory.\<close>

definition proc_fs :: "proc_data \<Rightarrow> ('n, 's) kern \<Rightarrow> ('n, 's) fsys" where
  "proc_fs d k = (fx_fs (k_files k))\<lparr>fs_cwd := fst (k_cwds k (pd_cwd d)), fs_cwd_path := snd (k_cwds k (pd_cwd d))\<rparr>"

definition put_proc_fs :: "proc_data \<Rightarrow> ('n, 's) fsys \<Rightarrow> ('n, 's) kern \<Rightarrow> ('n, 's) kern" where
  "put_proc_fs d fs k =
     k\<lparr>k_files := (k_files k)\<lparr>fx_fs := fs\<lparr>fs_cwd := fs_cwd (fx_fs (k_files k)), fs_cwd_path := fs_cwd_path (fx_fs (k_files k))\<rparr>\<rparr>,
       k_cwds := (k_cwds k)(pd_cwd d := (fs_cwd fs, fs_cwd_path fs))\<rparr>"

text \<open>The part of \<^verbatim>\<open>execve\<close> after the arguments are read; \<open>None\<close> when an interpreter leads back to itself forever.\<close>

definition exec_image :: "('n, 's) vfs \<Rightarrow> (u8 list \<Rightarrow> elf_file option) \<Rightarrow> string \<Rightarrow> string list \<Rightarrow> string list \<Rightarrow> pid \<Rightarrow> proc_data \<Rightarrow> ('n, 's) kern
    \<Rightarrow> ((stop, sys_end) outcome \<times> ('n, 's) kern) option" where
  "exec_image v parse path args envs p d k =
     (if 1 < length (threads_of p (k_tab k)) then Some (Err (Errno EAGAIN), k)
      else
        let put = (\<lambda>(a, m) k. k\<lparr>k_spaces := (k_spaces k)(pd_aspace d := a), k_mem := m\<rparr>) in
        case unmap_user_areas (k_spaces k (pd_aspace d), k_mem k) of
          (Ok _, m) \<Rightarrow>
            (case load_user_app v parse args envs (m, proc_fs d k) of
               None \<Rightarrow> None
             | Some (Ok (entry_point, user_stack_base), (m, fs)) \<Rightarrow>
                 (let k = put_proc_fs d fs (put m k);
                      k = k\<lparr>k_tasks := (k_tasks k)(cur_tid k := (k_tasks k (cur_tid k))\<lparr>ut_name := base_name path\<rparr>)\<rparr>;
                      k = upd_data p (\<lambda>d. d\<lparr>pd_exe_path := path\<rparr>) k
                  in Some (Ok (Entered (uspace_context_new entry_point user_stack_base 0)), k))
             | Some (Err _, (m, fs)) \<Rightarrow> Some (Err (Errno ENOENT), put_proc_fs d fs (put m k))
             | Some (Panic, (m, fs)) \<Rightarrow> Some (Panic, put_proc_fs d fs (put m k)))
        | (Err e, m) \<Rightarrow> Some (Err (Errno (linux_of_ax e)), put m k)
        | (Panic, m) \<Rightarrow> Some (Panic, put m k))"

definition sys_execve :: "('n, 's) vfs \<Rightarrow> (u8 list \<Rightarrow> elf_file option) \<Rightarrow> usize \<Rightarrow> usize \<Rightarrow> usize \<Rightarrow> ('n, 's) kern
    \<Rightarrow> ((stop, sys_end) outcome \<times> ('n, 's) kern) option" where
  "sys_execve v parse path argv envp k =
     (case on_space (\<lambda>m. sbind (user_str path m) (\<lambda>path m.
             sbind (user_str_array argv m) (\<lambda>args m.
             sbind (user_str_array envp m) (\<lambda>envs m. (Ok (path, args, envs), m))))) k of
        (Ok (path, args, envs), k) \<Rightarrow>
          (case cur_proc k of
             Some (p, d) \<Rightarrow> exec_image v parse path args envs p d k
           | None \<Rightarrow> Some (Panic, k))
      | (Err x, k) \<Rightarrow> Some (Err x, k)
      | (Panic, k) \<Rightarrow> Some (Panic, k))"

text \<open>
  \<^verbatim>\<open>run_user_app\<close>, up to the waiting for the new task; it runs on a kernel task. Every failure of a step is a panic.
\<close>

definition run_user_app :: "('n, 's) vfs \<Rightarrow> (u8 list \<Rightarrow> elf_file option) \<Rightarrow> string list \<Rightarrow> string list \<Rightarrow> ('n, 's) kern
    \<Rightarrow> ((stop, tid) outcome \<times> ('n, 's) kern) option" where
  "run_user_app v parse args envs k =
     (case new_user_aspace_empty (k_mem k) of
        (Ok uspace, m) \<Rightarrow>
          (case copy_from_kernel (k_kspace k) (uspace, m) of
             (Ok _, st) \<Rightarrow>
               if args = [] then Some (Panic, k\<lparr>k_mem := snd st\<rparr>)
               else
                 let exe_path = hd args;
                     dir = (case rsplit_once slash exe_path of None \<Rightarrow> [] | Some (dir, _) \<Rightarrow> dir)
                 in (case set_current_dir v dir (fx_fs (k_files k)) of
                       (Ok _, fs) \<Rightarrow>
                         (case load_user_app v parse args envs (st, fs) of
                            None \<Rightarrow> None
                          | Some (Ok (ent, sp), ((uspace, m), fs)) \<Rightarrow>
                              (let k = k\<lparr>k_mem := m, k_files := (k_files k)\<lparr>fx_fs := fs\<rparr>\<rparr>;
                                   (t, k) = new_user_task (base_name exe_path) (uspace_context_new ent sp 2333) None k;
                                   k = set_root t (as_root uspace) k;
                                   r = k_next_ref k
                               in case copy_inner (fx_table (k_files k)) of
                                    Ok fds \<Rightarrow>
                                      (let k = k\<lparr>k_spaces := (k_spaces k)(r := uspace), k_tables := (k_tables k)(r := fds),
                                                 k_cwds := (k_cwds k)(r := (fs_cwd fs, fs_cwd_path fs)), k_next_ref := r + 1,
                                                 k_tab := clone_process (ucast t) (pt_init (k_tab k)) (proc_data_new exe_path r r r) thread_data_new (k_tab k)\<rparr>
                                       in Some (sbind (spawn_user_task t k) (\<lambda>_ k. (Ok t, k))))
                                  | Err e \<Rightarrow> Some (Err e, k)
                                  | Panic \<Rightarrow> Some (Panic, k))
                          | Some (_, ((_, m), fs)) \<Rightarrow> Some (Panic, k\<lparr>k_mem := m\<rparr>))
                     | (_, fs) \<Rightarrow> Some (Panic, k\<lparr>k_mem := snd st\<rparr>))
           | (_, (_, m)) \<Rightarrow> Some (Panic, k\<lparr>k_mem := m\<rparr>))
      | (_, m) \<Rightarrow> Some (Panic, k\<lparr>k_mem := m\<rparr>))"

text \<open>What a new user task does first: it stores its id when asked to, and enters user space with its context.\<close>

definition user_task_entry :: "('n, 's, sys_end) kcall" where
  "user_task_entry k =
     (let u = k_tasks k (cur_tid k) in
      sbind (case ut_set_child_tid u of
               Some p \<Rightarrow> on_space (\<lambda>m. user_write_bytes False p (le_bytes 4 (ucast (cur_tid k) :: pid)) m) k
             | None \<Rightarrow> (Ok (), k)) (\<lambda>_ k. (Ok (Entered (ut_ctx u)), k)))"

section \<open>Cloning\<close>

text \<open>What an access to user memory and the allocation of a task id leave alone.\<close>

definition same_tasks :: "('n, 's) kern \<Rightarrow> ('n, 's) kern \<Rightarrow> bool" where
  "same_tasks k k' \<longleftrightarrow> k_tab k' = k_tab k \<and> k_tables k' = k_tables k \<and> k_cwds k' = k_cwds k \<and> k_files k' = k_files k
     \<and> (k_sched k')\<lparr>sd_next_id := 0\<rparr> = (k_sched k)\<lparr>sd_next_id := 0\<rparr>"

lemma same_tasks_refl [simp]: "same_tasks k k"
  by (simp add: same_tasks_def)

lemma same_tasks_trans: "same_tasks k1 k2 \<Longrightarrow> same_tasks k2 k3 \<Longrightarrow> same_tasks k1 k3"
  by (simp add: same_tasks_def)

lemma on_space_same: "same_tasks k (snd (on_space f k)) \<and> k_sched (snd (on_space f k)) = k_sched k \<and> k_tasks (snd (on_space f k)) = k_tasks k
    \<and> k_next_ref (snd (on_space f k)) = k_next_ref k"
  by (auto simp: on_space_def with_proc_def same_tasks_def split: option.splits prod.splits)

lemma on_spaceD:
  assumes "on_space f k = (r, k')"
  shows "same_tasks k k'" "k_sched k' = k_sched k" "k_tasks k' = k_tasks k" "k_next_ref k' = k_next_ref k"
  using on_space_same [of k f] assms by simp_all

lemma same_tasks_cur: "same_tasks k k' \<Longrightarrow> cur_tid k' = cur_tid k \<and> cur_thread k' = cur_thread k \<and> cur_proc k' = cur_proc k"
  unfolding same_tasks_def cur_tid_def cur_thread_def cur_proc_def by (metis sched.select_convs(4) sched.surjective sched.update_convs(3))

text \<open>The steps of a successful \<^verbatim>\<open>clone\<close>: up to the point where the task has its id, and after it.\<close>

lemma sys_clone_OkE:
  assumes "sys_clone tf flags stack ptid ctid tls k = (Ok r, k')"
  obtains st k2 k3 k4 where
    "same_tasks k k2" "k_sched k2 = (k_sched k)\<lparr>sd_next_id := sd_next_id (k_sched k) + 1\<rparr>" "k_next_ref k2 = k_next_ref k"
    "k_tasks k2 = (k_tasks k)(sd_next_id (k_sched k) :=
       \<lparr>ut_name = ut_name (k_tasks k (cur_tid k)), ut_ctx = clone_uctx tf (flags AND NOT 0xff) stack tls, ut_set_child_tid = st, ut_root = 0,
        ut_time = time_stat_new\<rparr>)"
    "same_tasks k2 k3" "k_sched k3 = k_sched k2" "k_tasks k3 = k_tasks k2" "k_next_ref k3 = k_next_ref k2"
    "clone_into (sd_next_id (k_sched k)) (flags AND NOT 0xff) ctid k3 = (Ok (), k4)"
    "spawn_user_task (sd_next_id (k_sched k)) k4 = (Ok (), k')" "r = ucast (ucast (sd_next_id (k_sched k)) :: pid)"
proof -
  let ?fl = "flags AND NOT 0xff"
  define m where "m = (if has_flags ?fl CLONE_CHILD_SETTID
               then on_space (\<lambda>m. sbind (errno (ptr_get_as USER_PTR_ACCESS ctid 4 4 m)) (\<lambda>p m. (Ok (if p = 0 then None else Some p), m))) k
               else (Ok None, k))"
  from assms obtain st k1 where m: "m = (Ok st, k1)" unfolding sys_clone_def Let_def m_def [symmetric] by (auto simp: sbind_eq_Ok split: if_splits)
  have k1: "same_tasks k k1" "k_sched k1 = k_sched k" "k_tasks k1 = k_tasks k" "k_next_ref k1 = k_next_ref k"
    using m on_spaceD by (fastforce simp: m_def split: if_splits)+
  obtain t k2 where n: "new_user_task (ut_name (k_tasks k1 (cur_tid k1))) (clone_uctx tf ?fl stack tls) st k1 = (t, k2)"
    by (cases "new_user_task (ut_name (k_tasks k1 (cur_tid k1))) (clone_uctx tf ?fl stack tls) st k1")
  define w where "w = (if has_flags ?fl CLONE_PARENT_SETTID
               then on_space (\<lambda>m. sbind (errno (ptr_get_as USER_PTR_ACCESS ptid 4 4 m)) (\<lambda>p m.
                      user_write_bytes False p (le_bytes 4 (ucast t :: pid)) m)) k2
               else (Ok (), k2))"
  from assms m n obtain k3 k4 where w: "w = (Ok (), k3)" and r: "clone_into t ?fl ctid k3 = (Ok (), k4)" "spawn_user_task t k4 = (Ok (), k')"
      "r = ucast (ucast t :: pid)"
    unfolding sys_clone_def Let_def m_def [symmetric] w_def by (auto simp: sbind_eq_Ok split: if_splits)
  have k3: "same_tasks k2 k3" "k_sched k3 = k_sched k2" "k_tasks k3 = k_tasks k2" "k_next_ref k3 = k_next_ref k2"
    using w on_spaceD by (fastforce simp: w_def split: if_splits)+
  have t: "t = sd_next_id (k_sched k)" using n k1 by (simp add: new_user_task_def Let_def)
  have cur: "cur_tid k1 = cur_tid k" using same_tasks_cur [OF k1(1)] by simp
  have k2: "k_sched k2 = (k_sched k)\<lparr>sd_next_id := t + 1\<rparr>" "k_next_ref k2 = k_next_ref k" "same_tasks k k2"
    "k_tasks k2 = (k_tasks k)(t := \<lparr>ut_name = ut_name (k_tasks k (cur_tid k)), ut_ctx = clone_uctx tf ?fl stack tls, ut_set_child_tid = st,
        ut_root = 0, ut_time = time_stat_new\<rparr>)"
    using n k1 cur by (auto simp: new_user_task_def Let_def same_tasks_def)
  show thesis by (rule that [OF k2(3) _ k2(2) _ k3 _ _ ]) (use k2 r t in simp_all)
qed

lemma has_flags_low [simp]:
  "has_flags (flags AND - 256) CLONE_VM = has_flags flags CLONE_VM" "has_flags (flags AND - 256) CLONE_FS = has_flags flags CLONE_FS"
  "has_flags (flags AND - 256) CLONE_FILES = has_flags flags CLONE_FILES" "has_flags (flags AND - 256) CLONE_THREAD = has_flags flags CLONE_THREAD"
  "has_flags (flags AND - 256) CLONE_PARENT = has_flags flags CLONE_PARENT" "has_flags (flags AND - 256) CLONE_SETTLS = has_flags flags CLONE_SETTLS"
  by (simp_all add: has_flags_def clone_flag_defs and.assoc)

lemma spawn_user_taskD:
  assumes "spawn_user_task t k = (Ok (), k')"
  shows "k' = k\<lparr>k_sched := k_sched k'\<rparr>" "sd_ready (k_sched k') = sd_ready (k_sched k) @ [t]" "sd_current (k_sched k') = sd_current (k_sched k)"
  using assms by (auto simp: spawn_user_task_def on_sched_def add_task_def sched_push_def task_state_def task_new_def task_new_common_def split: outcome.splits prod.splits)

lemma set_root_sel [simp]:
  "k_tab (set_root t r k) = k_tab k" "k_tables (set_root t r k) = k_tables k" "k_cwds (set_root t r k) = k_cwds k" "k_sched (set_root t r k) = k_sched k"
  "k_spaces (set_root t r k) = k_spaces k" "k_next_ref (set_root t r k) = k_next_ref k"
  "k_tasks (set_root t r k) = (k_tasks k)(t := (k_tasks k t)\<lparr>ut_root := r\<rparr>)"
  by (simp_all add: set_root_def)

lemma clone_space_Ok:
  assumes "clone_space flags d k = (Ok asp, k')" and "pd_aspace d < k_next_ref k"
  shows "k_tab k' = k_tab k" "k_tables k' = k_tables k" "k_cwds k' = k_cwds k" "k_sched k' = k_sched k" "k_tasks k' = k_tasks k"
    "k_next_ref k \<le> k_next_ref k'" "asp = pd_aspace d \<longleftrightarrow> has_flags flags CLONE_VM"
  using assms by (auto simp: clone_space_def split: if_splits outcome.splits prod.splits)

lemma clone_table_Ok:
  assumes "clone_table flags d k = (Ok fds, k')" and "pd_fds d < k_next_ref k" and "fo_inv (k_tables k (pd_fds d))"
  shows "k_tab k' = k_tab k" "k_cwds k' = k_cwds k" "k_sched k' = k_sched k" "k_tasks k' = k_tasks k" "k_spaces k' = k_spaces k"
    "k_next_ref k \<le> k_next_ref k'" "fds = pd_fds d \<longleftrightarrow> has_flags flags CLONE_FILES" "k_tables k' fds = k_tables k (pd_fds d)"
    "k_tables k' (pd_fds d) = k_tables k (pd_fds d)"
  using assms by (auto simp: clone_table_def copy_inner_same split: if_splits)

lemma clone_cwd_Ok:
  assumes "clone_cwd flags d k = (cwd, k')" and "pd_cwd d < k_next_ref k"
  shows "k_tab k' = k_tab k" "k_tables k' = k_tables k" "k_sched k' = k_sched k" "k_tasks k' = k_tasks k" "k_spaces k' = k_spaces k"
    "cwd = pd_cwd d \<longleftrightarrow> has_flags flags CLONE_FS" "k_cwds k' cwd = k_cwds k (pd_cwd d)"
  using assms by (auto simp: clone_cwd_def split: if_splits)

lemma clone_process_new:
  assumes "tid \<noteq> parent"
  shows "\<exists>pr. pt_procs (clone_process tid parent d td t) tid = Some pr \<and> pr_data pr = Some d \<and> pr_parent pr = Some parent \<and> pr_threads pr = [tid]"
  using assms by (simp add: clone_process_def thread_build_def process_build_def Let_def insert_key_def)

lemma clone_into_process:
  assumes "clone_into t flags ctid k = (Ok (), k')" and "cur_proc k = Some (p, d)" and "\<not> has_flags flags CLONE_THREAD"
  obtains parent asp fds cwd k1 k2 where
    "(if has_flags flags CLONE_PARENT then parent_of p (k_tab k) else Some p) = Some parent" "clone_space flags d k = (Ok asp, k1)"
    "clone_table flags d (set_root t (as_root (k_spaces k1 asp)) k1) = (Ok fds, k2)" "clone_cwd flags d k2 = (cwd, k'\<lparr>k_tab := k_tab k2\<rparr>)"
    "k_tab k' = clone_process (ucast t) parent (proc_data_new (pd_exe_path d) asp fds cwd) (clone_thread_data flags ctid) (k_tab k2)"
proof -
  obtain parent where par: "(if has_flags flags CLONE_PARENT then parent_of p (k_tab k) else Some p) = Some parent"
    using assms by (cases "if has_flags flags CLONE_PARENT then parent_of p (k_tab k) else Some p")
      (simp_all add: clone_into_def with_proc_def Let_def errno_def)
  obtain asp k1 where s: "clone_space flags d k = (Ok asp, k1)"
    using assms par by (auto simp: clone_into_def with_proc_def Let_def errno_def sbind_eq_Ok)
  obtain fds k2 where f: "clone_table flags d (set_root t (as_root (k_spaces k1 asp)) k1) = (Ok fds, k2)"
    using assms par s by (auto simp: clone_into_def with_proc_def Let_def errno_def sbind_eq_Ok)
  obtain cwd k3 where c: "clone_cwd flags d k2 = (cwd, k3)" by (cases "clone_cwd flags d k2")
  have k': "k' = k3\<lparr>k_tab := clone_process (ucast t) parent (proc_data_new (pd_exe_path d) asp fds cwd) (clone_thread_data flags ctid) (k_tab k3)\<rparr>"
    using assms par s f c by (simp add: clone_into_def with_proc_def Let_def errno_def)
  have k3: "k_tab k3 = k_tab k2" using c by (auto simp: clone_cwd_def split: if_splits)
  show thesis by (rule that [OF par s f]) (use c k' k3 in simp_all)
qed

lemma cur_proc_live: "cur_proc k = Some (p, d) \<Longrightarrow> \<exists>pr. pt_procs (k_tab k) p = Some pr"
  by (auto simp: cur_proc_def split: option.splits)

lemma clone_parent_live:
  assumes "cur_proc k = Some (p, d)" "(if has_flags flags CLONE_PARENT then parent_of p (k_tab k) else Some p) = Some parent" "unused tid (k_tab k)"
  shows "tid \<noteq> parent"
  using assms cur_proc_live [OF assms(1)] by (auto simp: parent_of_def unused_def split: if_splits option.splits)


text \<open>
  C14. The child of a successful \<^verbatim>\<open>clone\<close> without \<^verbatim>\<open>CLONE_THREAD\<close> continues as the caller: its context is the trap frame of the call with the
  result 0 (and the stack and thread-local storage that were asked for). It sees the same descriptors and the same current directory. Each of
  the address space, the descriptor table and the current directory is shared with the caller exactly when the flag for it is given, and
  the new task runs on the page table of the child's address space.
\<close>

theorem clone_child:
  assumes "sys_clone tf flags stack ptid ctid tls k = (Ok r, k')" and "cur_proc k = Some (p, d)" and "\<not> has_flags flags CLONE_THREAD"
    and "unused (ucast (sd_next_id (k_sched k))) (k_tab k)" and "fo_inv (k_tables k (pd_fds d))"
    and "pd_aspace d < k_next_ref k" "pd_fds d < k_next_ref k" "pd_cwd d < k_next_ref k"
  shows "\<exists>pr d'. pt_procs (k_tab k') (ucast (sd_next_id (k_sched k))) = Some pr \<and> pr_data pr = Some d'
     \<and> pr_parent pr = (if has_flags flags CLONE_PARENT then parent_of p (k_tab k) else Some p)
     \<and> k_tables k' (pd_fds d') = k_tables k (pd_fds d) \<and> (pd_fds d' = pd_fds d \<longleftrightarrow> has_flags flags CLONE_FILES)
     \<and> k_cwds k' (pd_cwd d') = k_cwds k (pd_cwd d) \<and> (pd_cwd d' = pd_cwd d \<longleftrightarrow> has_flags flags CLONE_FS)
     \<and> (pd_aspace d' = pd_aspace d \<longleftrightarrow> has_flags flags CLONE_VM)
     \<and> ut_root (k_tasks k' (sd_next_id (k_sched k))) = as_root (k_spaces k' (pd_aspace d'))
     \<and> ut_ctx (k_tasks k' (sd_next_id (k_sched k))) =
          tf\<lparr>tf_cs := UCODE64_SELECTOR, tf_ss := UDATA_SELECTOR, tf_rsp := (if stack = 0 then tf_rsp tf else stack),
             tf_fs_base := (if has_flags flags CLONE_SETTLS then tls else tf_fs_base tf), tf_rax := 0\<rparr>"
  using assms(1)
proof (rule sys_clone_OkE)
  let ?t = "sd_next_id (k_sched k)" and ?fl = "flags AND NOT 0xff"
  fix st k2 k3 k4
  assume k2: "same_tasks k k2" "k_next_ref k2 = k_next_ref k"
    "k_tasks k2 = (k_tasks k)(?t := \<lparr>ut_name = ut_name (k_tasks k (cur_tid k)), ut_ctx = clone_uctx tf ?fl stack tls, ut_set_child_tid = st, ut_root = 0,
        ut_time = time_stat_new\<rparr>)"
    and k3: "same_tasks k2 k3" "k_tasks k3 = k_tasks k2" "k_next_ref k3 = k_next_ref k2"
    and into: "clone_into ?t ?fl ctid k3 = (Ok (), k4)" and sp: "spawn_user_task ?t k4 = (Ok (), k')"
  have k: "same_tasks k k3" using k2(1) k3(1) by (rule same_tasks_trans)
  then have tab: "k_tab k3 = k_tab k" "k_tables k3 = k_tables k" "k_cwds k3 = k_cwds k" by (simp_all add: same_tasks_def)
  have p: "cur_proc k3 = Some (p, d)" using same_tasks_cur [OF k] assms(2) by simp
  have nt: "\<not> has_flags ?fl CLONE_THREAD" using assms(3) by simp
  have nr: "k_next_ref k3 = k_next_ref k" using k2 k3 by simp
  obtain parent asp fds cwd k5 k6 where par: "(if has_flags ?fl CLONE_PARENT then parent_of p (k_tab k3) else Some p) = Some parent"
      and s: "clone_space ?fl d k3 = (Ok asp, k5)" and f: "clone_table ?fl d (set_root ?t (as_root (k_spaces k5 asp)) k5) = (Ok fds, k6)"
      and c: "clone_cwd ?fl d k6 = (cwd, k4\<lparr>k_tab := k_tab k6\<rparr>)"
      and t: "k_tab k4 = clone_process (ucast ?t) parent (proc_data_new (pd_exe_path d) asp fds cwd) (clone_thread_data ?fl ctid) (k_tab k6)"
    by (rule clone_into_process [OF into p nt])
  note S = clone_space_Ok [OF s, unfolded nr, OF assms(6)]
  have F: "k_tab k6 = k_tab k5" "k_cwds k6 = k_cwds k5" "k_tasks k6 = (k_tasks k5)(?t := (k_tasks k5 ?t)\<lparr>ut_root := as_root (k_spaces k5 asp)\<rparr>)" "k_spaces k6 = k_spaces k5"
    "k_next_ref k5 \<le> k_next_ref k6" "fds = pd_fds d \<longleftrightarrow> has_flags ?fl CLONE_FILES" "k_tables k6 fds = k_tables k5 (pd_fds d)"
    using clone_table_Ok [OF f] S assms(5,7) tab by simp_all
  have C: "k_tables k4 = k_tables k6" "k_tasks k4 = k_tasks k6" "k_spaces k4 = k_spaces k6" "cwd = pd_cwd d \<longleftrightarrow> has_flags ?fl CLONE_FS" "k_cwds k4 cwd = k_cwds k6 (pd_cwd d)"
    using clone_cwd_Ok [OF c] F S assms(8) by simp_all
  have k': "k_tab k' = k_tab k4" "k_tables k' = k_tables k4" "k_cwds k' = k_cwds k4" "k_tasks k' = k_tasks k4" "k_spaces k' = k_spaces k4"
    using arg_cong [OF spawn_user_taskD(1) [OF sp], of k_tab] arg_cong [OF spawn_user_taskD(1) [OF sp], of k_tables]
      arg_cong [OF spawn_user_taskD(1) [OF sp], of k_cwds] arg_cong [OF spawn_user_taskD(1) [OF sp], of k_tasks]
      arg_cong [OF spawn_user_taskD(1) [OF sp], of k_spaces] by simp_all
  have par': "(if has_flags flags CLONE_PARENT then parent_of p (k_tab k) else Some p) = Some parent" using par tab(1) by (simp split: if_splits)
  let ?d = "proc_data_new (pd_exe_path d) asp fds cwd"
  from clone_process_new [OF clone_parent_live [OF assms(2) par' assms(4)], of ?d "clone_thread_data ?fl ctid" "k_tab k6"]
  obtain pr where pr: "pt_procs (k_tab k') (ucast ?t) = Some pr" "pr_data pr = Some ?d" "pr_parent pr = Some parent"
    using t k'(1) by auto
  have sel: "pd_fds ?d = fds" "pd_cwd ?d = cwd" "pd_aspace ?d = asp" by (simp_all add: proc_data_new_def)
  have tasks: "k_tasks k' ?t = (k_tasks k2 ?t)\<lparr>ut_root := as_root (k_spaces k' asp)\<rparr>" using k'(4,5) C(2,3) F(3,4) S(5) k3(2) by simp
  have ctx: "ut_ctx (k_tasks k' ?t) = tf\<lparr>tf_cs := UCODE64_SELECTOR, tf_ss := UDATA_SELECTOR, tf_rsp := (if stack = 0 then tf_rsp tf else stack),
             tf_fs_base := (if has_flags flags CLONE_SETTLS then tls else tf_fs_base tf), tf_rax := 0\<rparr>"
    by (simp add: tasks k2(3) clone_uctx_def uspace_context_from_def Let_def)
  have flags: "fds = pd_fds d \<longleftrightarrow> has_flags flags CLONE_FILES" "cwd = pd_cwd d \<longleftrightarrow> has_flags flags CLONE_FS" "asp = pd_aspace d \<longleftrightarrow> has_flags flags CLONE_VM"
    using F(6) C(4) S(7) by simp_all
  have same: "k_tables k' fds = k_tables k (pd_fds d)" "k_cwds k' cwd = k_cwds k (pd_cwd d)"
    using k'(2,3) C(1,5) F(2,7) S(2,3) tab by simp_all
  show ?thesis
  proof (intro exI conjI)
    show "pt_procs (k_tab k') (ucast ?t) = Some pr" "pr_data pr = Some ?d" by (fact pr)+
    show "pr_parent pr = (if has_flags flags CLONE_PARENT then parent_of p (k_tab k) else Some p)" unfolding par' by (fact pr)
    show "k_tables k' (pd_fds ?d) = k_tables k (pd_fds d)" "k_cwds k' (pd_cwd ?d) = k_cwds k (pd_cwd d)" unfolding sel by (fact same)+
    show "pd_fds ?d = pd_fds d \<longleftrightarrow> has_flags flags CLONE_FILES" "pd_cwd ?d = pd_cwd d \<longleftrightarrow> has_flags flags CLONE_FS"
      "pd_aspace ?d = pd_aspace d \<longleftrightarrow> has_flags flags CLONE_VM" unfolding sel by (fact flags)+
    show "ut_root (k_tasks k' ?t) = as_root (k_spaces k' (pd_aspace ?d))" by (simp add: tasks sel)
  qed (fact ctx)
qed

lemma sbind_eq_Err: "sbind m f = (Err e, t) \<longleftrightarrow> m = (Err e, t) \<or> (\<exists>a s. m = (Ok a, s) \<and> f a s = (Err e, t))"
  by (cases m; cases "fst m") auto

lemma copy_inner_no_Err: "copy_inner t \<noteq> Err e"
proof -
  let ?f = "\<lambda>i r. obind r (\<lambda>new. case fo_get i t of Some f \<Rightarrow> Ok (snd (fo_add_at i f new)) | None \<Rightarrow> Panic)"
  have step: "?f i r \<noteq> Err e" if "r \<noteq> Err e" for i r using that by (cases r) (auto split: option.splits)
  have "fold ?f xs r \<noteq> Err e" if "r \<noteq> Err e" for xs r
    using that
  proof (induction xs arbitrary: r)
    case (Cons i xs)
    from Cons.IH [OF step [OF Cons.prems]] show ?case by simp
  qed simp
  then show ?thesis by (simp add: copy_inner_def)
qed

lemma clone_into_Err:
  assumes "clone_into t flags ctid k = (Err e, k')"
  shows "same_tasks k k'"
proof (cases "cur_proc k")
  case None
  then show ?thesis using assms by (simp add: clone_into_def with_proc_def)
next
  case (Some pd)
  then obtain p d where p: "cur_proc k = Some (p, d)" by (cases pd) auto
  have space: "same_tasks k k1" if "clone_space flags d k = (r, k1)" for r k1
    using that by (auto simp: clone_space_def same_tasks_def split: if_splits outcome.splits prod.splits)
  have root: "same_tasks k1 (set_root t r k1)" for r and k1 :: "('a, 'b) kern" by (simp add: same_tasks_def set_root_def)
  have table: "clone_table flags d k1 \<noteq> (Err e, k2)" for k1 k2 :: "('a, 'b) kern"
    by (auto simp: clone_table_def copy_inner_no_Err split: outcome.splits)
  have "\<not> has_flags flags CLONE_THREAD" using assms p by (auto simp: clone_into_def with_proc_def Let_def)
  then have "clone_space flags d k = (Err e, k') \<or> k' = k"
    using assms p table by (auto simp: clone_into_def with_proc_def Let_def errno_def sbind_eq_Err split: prod.splits if_splits option.splits)
  then show ?thesis using space by auto
qed

text \<open>
  C28. A \<^verbatim>\<open>clone\<close> that fails leaves every process, thread, descriptor table, current directory and open file as it was, and the scheduler too
  except that the task id it took is not given back.
\<close>

theorem failed_clone_harmless:
  assumes "sys_clone tf flags stack ptid ctid tls k = (Err e, k')"
  shows "k_tab k' = k_tab k \<and> k_tables k' = k_tables k \<and> k_cwds k' = k_cwds k \<and> k_files k' = k_files k
     \<and> (k_sched k')\<lparr>sd_next_id := 0\<rparr> = (k_sched k)\<lparr>sd_next_id := 0\<rparr>"
proof -
  let ?fl = "flags AND NOT 0xff"
  have new: "same_tasks k1 k2" if "new_user_task n u st k1 = (t, k2)" for n u st t and k1 k2 :: "('a, 'b) kern"
    using that by (auto simp: new_user_task_def Let_def same_tasks_def)
  have spawn: "spawn_user_task t k1 \<noteq> (Err e, k2)" for t and k1 k2 :: "('a, 'b) kern"
    by (auto simp: spawn_user_task_def on_sched_def split: prod.splits outcome.splits)
  define m where "m = (if has_flags ?fl CLONE_CHILD_SETTID
               then on_space (\<lambda>m. sbind (errno (ptr_get_as USER_PTR_ACCESS ctid 4 4 m)) (\<lambda>p m. (Ok (if p = 0 then None else Some p), m))) k
               else (Ok None, k))"
  have m: "same_tasks k (snd m)" by (simp add: m_def on_space_same)
  define g where "g t k = (if has_flags ?fl CLONE_PARENT_SETTID
               then on_space (\<lambda>m. sbind (errno (ptr_get_as USER_PTR_ACCESS ptid 4 4 m)) (\<lambda>p m.
                      user_write_bytes False p (le_bytes 4 (ucast t :: pid)) m)) k
               else (Ok (), k))" for t :: tid and k :: "('a, 'b) kern"
  have g: "same_tasks k1 (snd (g t k1))" for t k1 by (simp add: g_def on_space_same)
  have "same_tasks k k'"
  proof (cases "has_flags ?fl CLONE_THREAD \<and> \<not> has_flags ?fl (CLONE_VM OR CLONE_SIGHAND)")
    case True
    then show ?thesis using assms by (simp add: sys_clone_def Let_def)
  next
    case False
    obtain x k1 where x: "m = (x, k1)" by (cases m)
    have body: "sbind m (\<lambda>st k. let (t, k) = new_user_task (ut_name (k_tasks k (cur_tid k))) (clone_uctx tf ?fl stack tls) st k in
        sbind (g t k) (\<lambda>_ k. sbind (clone_into t ?fl ctid k) (\<lambda>_ k. sbind (spawn_user_task t k) (\<lambda>_ k. (Ok (ucast (ucast t :: pid) :: isize), k))))) = (Err e, k')"
      using assms unfolding sys_clone_def Let_def if_not_P [OF False] m_def g_def .
    show ?thesis
    proof (cases x)
      case (Ok st)
      obtain t k2 where n: "new_user_task (ut_name (k_tasks k1 (cur_tid k1))) (clone_uctx tf ?fl stack tls) st k1 = (t, k2)"
        by (cases "new_user_task (ut_name (k_tasks k1 (cur_tid k1))) (clone_uctx tf ?fl stack tls) st k1")
      have "g t k2 = (Err e, k') \<or> (\<exists>k3. g t k2 = (Ok (), k3) \<and> clone_into t ?fl ctid k3 = (Err e, k'))"
        using body x Ok n spawn by (auto simp: sbind_eq_Err)
      then have "same_tasks k2 k'" using g [of k2 t] clone_into_Err [of t ?fl ctid _ e k'] by (auto intro: same_tasks_trans)
      moreover have "same_tasks k k2" using m x new [OF n] by (auto intro: same_tasks_trans)
      ultimately show ?thesis by (auto intro: same_tasks_trans)
    qed (use body x m in auto)
  qed
  then show ?thesis by (simp add: same_tasks_def)
qed

text \<open>A kernel with one program: task 5 runs process 5, which the init process started.\<close>

definition demo_kern :: "(nat, ram) kern" where
  "demo_kern =
     \<lparr>k_sched = sched_init\<lparr>sd_current := 5, sd_next_id := 6\<rparr>, k_tab = sample_ptab, k_mem = demo_km, k_kspace = demo_as, k_spaces = (\<lambda>_. demo_as),
      k_tables = (\<lambda>_. demo_fds), k_cwds = (\<lambda>_. (RootDir, ''/'')), k_next_ref = 1, k_files = demo_files,
      k_tasks = (\<lambda>_. \<lparr>ut_name = ''a'', ut_ctx = tf_default, ut_set_child_tid = None, ut_root = 0, ut_time = time_stat_new\<rparr>), k_user_gs = 0\<rparr>"

lemma demo_kern_sel:
  "cur_thread demo_kern = 5" "cur_proc demo_kern = Some (5, sample_data)" "sd_next_id (k_sched demo_kern) = 6" "running 5 5 (k_tab demo_kern)"
  by (simp_all add: demo_kern_def cur_thread_def cur_tid_def cur_proc_def sample_ptab_procs running_def)

lemma demo_kern_unused: "unused 6 (k_tab demo_kern)"
  by (simp add: demo_kern_def sample_ptab_def clone_process_def thread_build_def process_build_def ptab_boot_def unused_def)

lemma demo_clone_thread: "\<exists>r k'. sys_clone tf_default 0x10900 0x5000 0 0 0 demo_kern = (Ok r, k')"
  by (simp add: sys_clone_def has_flags_def clone_flag_defs Let_def new_user_task_def clone_into_def with_proc_def cur_proc_def demo_kern_def
      cur_thread_def cur_tid_def sample_ptab_procs spawn_user_task_def on_sched_def add_task_def task_state_def task_new_def task_new_common_def set_root_def)

lemma demo_clone_process: "\<exists>r k'. sys_clone tf_default 0x111 0 0 0 0 demo_kern = (Ok r, k')"
  by (simp add: sys_clone_def has_flags_def clone_flag_defs Let_def new_user_task_def clone_into_def with_proc_def cur_proc_def demo_kern_def
      cur_thread_def cur_tid_def sample_ptab_procs spawn_user_task_def on_sched_def add_task_def task_state_def task_new_def task_new_common_def set_root_def
      errno_def clone_space_def clone_table_def copy_inner_same [OF demo_fds_inv] clone_cwd_def)


theorem clone_child_witness:
  "\<exists>r k' pr d'. sys_clone tf_default 0x111 0 0 0 0 demo_kern = (Ok r, k') \<and> pt_procs (k_tab k') 6 = Some pr \<and> pr_data pr = Some d'
     \<and> k_tables k' (pd_fds d') = demo_fds \<and> pd_fds d' \<noteq> 0 \<and> pd_aspace d' = 0"
proof -
  from demo_clone_process obtain r k' where c: "sys_clone tf_default 0x111 0 0 0 0 demo_kern = (Ok r, k')" by blast
  have f: "\<not> has_flags 0x111 CLONE_THREAD" "\<not> has_flags 0x111 CLONE_FILES" "has_flags 0x111 CLONE_VM" by (simp_all add: has_flags_def clone_flag_defs)
  have d: "k_tables demo_kern (pd_fds sample_data) = demo_fds" "pd_aspace sample_data = 0" "pd_fds sample_data = 0" "pd_cwd sample_data = 0" "k_next_ref demo_kern = 1"
    by (simp_all add: demo_kern_def sample_data_def)
  have u: "unused (ucast (sd_next_id (k_sched demo_kern))) (k_tab demo_kern)" using demo_kern_unused demo_kern_sel(3) by simp
  have "fo_inv (k_tables demo_kern (pd_fds sample_data))" using demo_fds_inv d by simp
  from clone_child [OF c demo_kern_sel(2) f(1) u this] d f demo_kern_sel(3) c show ?thesis by auto
qed

theorem failed_clone_harmless_witness:
  "\<exists>k'. sys_clone tf_default 0x10000 0 0 0 0 demo_kern = (Err (Errno EINVAL), k') \<and> k_tab k' = k_tab demo_kern"
proof -
  have "sys_clone tf_default 0x10000 0 0 0 0 demo_kern = (Err (Errno EINVAL), demo_kern)"
    by (simp add: sys_clone_def has_flags_def clone_flag_defs Let_def)
  from this failed_clone_harmless [OF this] show ?thesis by blast
qed

text \<open>
  C29. The end of the heap stays between the bottom of the heap and the bottom plus its size: \<^verbatim>\<open>brk\<close> grants exactly the requests in these
  bounds, answers every other with the present end, and changes nothing else of the process.
\<close>

theorem brk_stays_in_bounds:
  assumes "cur_proc k = Some (p, d)" and "pd_heap_bottom d = USER_HEAP_BASE" and "USER_HEAP_BASE \<le> pd_heap_top d" "pd_heap_top d \<le> USER_HEAP_BASE + USER_HEAP_SIZE"
  shows "\<exists>r k'. sys_brk a k = (Ok r, k') \<and> cur_proc k' = Some (p, d\<lparr>pd_heap_top := r\<rparr>)
     \<and> r = (if USER_HEAP_BASE \<le> a \<and> a \<le> USER_HEAP_BASE + USER_HEAP_SIZE then a else pd_heap_top d)
     \<and> USER_HEAP_BASE \<le> r \<and> r \<le> USER_HEAP_BASE + USER_HEAP_SIZE"
proof -
  have base: "(0 :: usize) < USER_HEAP_BASE" by (simp add: USER_HEAP_BASE_def)
  obtain th pr where th: "pt_threads (k_tab k) (cur_thread k) = Some th" "pt_procs (k_tab k) (th_proc th) = Some pr" "pr_data pr = Some d" "p = th_proc th"
    using assms(1) by (auto simp: cur_proc_def split: option.splits)
  show ?thesis
  proof (cases "USER_HEAP_BASE \<le> a \<and> a \<le> USER_HEAP_BASE + USER_HEAP_SIZE")
    case True
    then have "a \<noteq> 0" using base by auto
    with True assms(1,2) have "sys_brk a k = (Ok a, upd_data p (\<lambda>d. d\<lparr>pd_heap_top := a\<rparr>) k)" by (simp add: sys_brk_def with_proc_def)
    moreover have "cur_proc (upd_data p (\<lambda>d. d\<lparr>pd_heap_top := a\<rparr>) k) = Some (p, d\<lparr>pd_heap_top := a\<rparr>)"
      using th by (simp add: cur_proc_def upd_data_def cur_thread_def cur_tid_def)
    ultimately show ?thesis using True by simp
  next
    case False
    then have "sys_brk a k = (Ok (pd_heap_top d), k)" using assms(1,2) by (auto simp: sys_brk_def with_proc_def)
    then show ?thesis using False assms by auto
  qed
qed

theorem brk_stays_in_bounds_witness:
  "\<exists>r k'. sys_brk 0x40001000 demo_kern = (Ok r, k') \<and> r = 0x40001000"
proof -
  have "pd_heap_bottom sample_data = USER_HEAP_BASE" "USER_HEAP_BASE \<le> pd_heap_top sample_data" "pd_heap_top sample_data \<le> USER_HEAP_BASE + USER_HEAP_SIZE"
    by (simp_all add: sample_data_def USER_HEAP_BASE_def USER_HEAP_SIZE_def)
  from brk_stays_in_bounds [OF demo_kern_sel(2) this, where a = "0x40001000"] show ?thesis by (auto simp: USER_HEAP_BASE_def USER_HEAP_SIZE_def)
qed

end
