(* ===== verification/Syscalls.thy ===== *)
theory Syscalls
  imports Task_Calls
begin

unbundle bit_operations_syntax

text \<open>
  The dispatch of system calls (\<^verbatim>\<open>src/syscall.rs\<close>) with the calls of \<^verbatim>\<open>api/src/imp/signal.rs\<close>. What the dispatch depends on besides the state is
  a record: the file systems, the decoding of executables, the bytes behind a string on the heap, the decoding of call numbers of
  the \<^verbatim>\<open>syscalls\<close> crate, and the clock when the call begins and when it ends.

  Lemmas: every call, whether it returns, waits, ends the task or enters a new program, changes only the address space, descriptor table and
  current directory that its caller refers to, besides new ones (\<open>iso_step\<close>), and a call cut short by a page fault keeps these references.
\<close>

section \<open>Files of the calling process\<close>

definition table_objs :: "nat fd_table \<Rightarrow> nat list" where
  "table_objs t = List.map_filter (\<lambda>i. fo_get i t) (fo_ids t)"

text \<open>The objects that the descriptor tables of the other processes keep.\<close>

definition held_elsewhere :: "nat \<Rightarrow> ('n, 's) kern \<Rightarrow> nat list" where
  "held_elsewhere fds k =
     table_objs (fx_table (k_files k)) @
     concat (map (\<lambda>p. case pt_procs (k_tab k) p of
         Some pr \<Rightarrow> (case pr_data pr of Some d \<Rightarrow> if pd_fds d = fds then [] else table_objs (k_tables k (pd_fds d)) | None \<Rightarrow> [])
       | None \<Rightarrow> []) (pt_process_table (k_tab k)))"

definition proc_files :: "proc_data \<Rightarrow> ('n, 's) kern \<Rightarrow> ('n, 's) files" where
  "proc_files d k =
     (k_files k)\<lparr>fx_fs := proc_fs d k, fx_table := k_tables k (pd_fds d), fx_held := fx_held (k_files k) @ held_elsewhere (pd_fds d) k\<rparr>"

definition put_proc_files :: "proc_data \<Rightarrow> ('n, 's) files \<Rightarrow> ('n, 's) kern \<Rightarrow> ('n, 's) kern" where
  "put_proc_files d fx k =
     (put_proc_fs d (fx_fs fx) k)\<lparr>k_tables := (k_tables k)(pd_fds d := fx_table fx),
        k_files := fx\<lparr>fx_fs := fx_fs (k_files (put_proc_fs d (fx_fs fx) k)), fx_table := fx_table (k_files k), fx_held := fx_held (k_files k)\<rparr>\<rparr>"

definition on_files :: "('n, 's, 'a) call \<Rightarrow> ('n, 's, 'a) kcall" where
  "on_files f = with_proc (\<lambda>p d k.
     case f ((k_spaces k (pd_aspace d), k_mem k), proc_files d k) of
       (r, ((a, m), fx)) \<Rightarrow> (r, put_proc_files d fx (k\<lparr>k_spaces := (k_spaces k)(pd_aspace d := a), k_mem := m\<rparr>)))"

section \<open>Calls\<close>

datatype sysno =
    Sys_read | Sys_write | Sys_mmap | Sys_ioctl | Sys_writev | Sys_sched_yield | Sys_nanosleep | Sys_getpid | Sys_getppid | Sys_gettid
  | Sys_exit | Sys_exit_group | Sys_gettimeofday | Sys_getcwd | Sys_dup | Sys_dup3 | Sys_fcntl | Sys_clone | Sys_fork | Sys_wait4
  | Sys_pipe2 | Sys_close | Sys_chdir | Sys_mkdirat | Sys_execve | Sys_openat | Sys_open | Sys_getdents64 | Sys_linkat | Sys_unlinkat
  | Sys_uname | Sys_fstat | Sys_mount | Sys_umount2 | Sys_newfstatat | Sys_statx | Sys_munmap | Sys_mprotect | Sys_times | Sys_brk
  | Sys_arch_prctl | Sys_set_tid_address | Sys_clock_gettime | Sys_getuid | Sys_rt_sigprocmask | Sys_rt_sigaction | Sys_kill
  | Sys_rt_sigtimedwait | Sys_getrlimit | Sys_lseek | Sys_unlink | Sys_setrlimit | Sys_pipe | Sys_tkill | Sys_tgkill | Sys_futex
  | Sys_other

record ('n, 's) kenv =
  e_vfs :: "('n, 's) vfs"
  e_parse :: "u8 list \<Rightarrow> elf_file option"
  e_junk :: "u8 list"
  e_sysno :: "u32 \<Rightarrow> sysno"
  e_clock :: clock
  e_clock_end :: clock

definition sys_rt_kill :: "i32 \<Rightarrow> i32 \<Rightarrow> ('n, 's, isize) kcall" where
  "sys_rt_kill pid sig k = (case send_signal_proc pid sig (k_tab k) of (r, t) \<Rightarrow> (map_err Errno r, k\<lparr>k_tab := t\<rparr>))"

definition sys_tkill :: "i32 \<Rightarrow> i32 \<Rightarrow> ('n, 's, isize) kcall" where
  "sys_tkill tid sig k = (case send_signal_thread tid sig (k_tab k) of (r, t) \<Rightarrow> (map_err Errno r, k\<lparr>k_tab := t\<rparr>))"

definition sys_tgkill :: "i32 \<Rightarrow> i32 \<Rightarrow> i32 \<Rightarrow> ('n, 's, isize) kcall" where
  "sys_tgkill tgid tid sig = sys_tkill tid sig"

text \<open>The calls without an effect: \<^verbatim>\<open>rt_sigprocmask\<close>, \<^verbatim>\<open>rt_sigaction\<close>, \<^verbatim>\<open>futex\<close>, \<^verbatim>\<open>rt_sigtimedwait\<close> and \<^verbatim>\<open>getuid\<close>.\<close>

definition sys_zero :: "('n, 's, isize) kcall" where
  "sys_zero k = (Ok 0, k)"

definition sys_sched_yield :: "('n, 's, isize) kcall" where
  "sys_sched_yield k = sbind (on_sched yield_current k) (\<lambda>_ k. (Ok 0, k))"

section \<open>Dispatch\<close>

definition returned :: "(stop, isize) outcome \<times> ('n, 's) kern \<Rightarrow> ((stop, sys_end) outcome \<times> ('n, 's) kern) option" where
  "returned m = Some (sbind m (\<lambda>r k. (Ok (Returned r), k)))"

definition file_syscall :: "('n, 's) kenv \<Rightarrow> sysno \<Rightarrow> trap_frame \<Rightarrow> ('n, 's) kern \<Rightarrow> ((stop, sys_end) outcome \<times> ('n, 's) kern) option" where
  "file_syscall e n tf k =
     (let v = e_vfs e; a0 = tf_rdi tf; a1 = tf_rsi tf; a2 = tf_rdx tf; a3 = tf_r10 tf; a4 = tf_r8 tf; a5 = tf_r9 tf;
          fd = ucast a0 :: i32; nb = (\<lambda>_ _. Ok ()) in
      case n of
        Sys_read \<Rightarrow> Some (sbind (on_files (sys_read v fd a1 a2) k) (\<lambda>r k. (Ok (case r of Some x \<Rightarrow> Returned x | None \<Rightarrow> Waiting), k)))
      | Sys_write \<Rightarrow> Some (sbind (on_files (sys_write v fd a1 a2) k) (\<lambda>r k. (Ok (case r of Returns x \<Rightarrow> Returned x | Waits _ _ \<Rightarrow> Waiting), k)))
      | Sys_writev \<Rightarrow>
          Some (sbind (on_files (sys_writev v fd a1 (ucast a2)) k)
            (\<lambda>r k. (Ok (case r of VReturns x \<Rightarrow> Returned x | VWaits _ _ _ _ _ _ _ \<Rightarrow> Waiting), k)))
      | Sys_getdents64 \<Rightarrow>
          (case cur_proc k of
             None \<Rightarrow> Some (Panic, k)
           | Some (p, d) \<Rightarrow>
               (case sys_getdents64 v fd a1 a2 ((k_spaces k (pd_aspace d), k_mem k), proc_files d k) of
                  None \<Rightarrow> None
                | Some (r, ((a, m), fx)) \<Rightarrow>
                    returned (r, put_proc_files d fx (k\<lparr>k_spaces := (k_spaces k)(pd_aspace d := a), k_mem := m\<rparr>))))
      | Sys_ioctl \<Rightarrow> returned (on_files sys_ioctl k)
      | Sys_getcwd \<Rightarrow> returned (on_files (sys_getcwd a0 a1) k)
      | Sys_dup \<Rightarrow> returned (on_files (fil (on_table (sys_dup fd))) k)
      | Sys_dup3 \<Rightarrow> returned (on_files (fil (on_table (sys_dup3 nb fd (ucast a1)))) k)
      | Sys_fcntl \<Rightarrow> returned (on_files (fil (on_table (sys_fcntl nb fd (ucast a1) a2))) k)
      | Sys_pipe2 \<Rightarrow> returned (on_files (sys_pipe2 a0) k)
      | Sys_pipe \<Rightarrow> returned (on_files (sys_pipe2 a0) k)
      | Sys_close \<Rightarrow> returned (on_files (fil (on_table (sys_close fd))) k)
      | Sys_chdir \<Rightarrow> returned (on_files (sys_chdir v a0) k)
      | Sys_mkdirat \<Rightarrow> returned (on_files (sys_mkdirat v fd a1 (ucast a2)) k)
      | Sys_openat \<Rightarrow> returned (on_files (sys_openat v fd a1 (ucast a2)) k)
      | Sys_open \<Rightarrow> returned (on_files (sys_open v a0 (ucast a1)) k)
      | Sys_linkat \<Rightarrow> returned (on_files (sys_linkat v fd a1 (ucast a2) a3) k)
      | Sys_unlinkat \<Rightarrow> returned (on_files (sys_unlinkat v a0 a1 a2) k)
      | Sys_unlink \<Rightarrow> returned (on_files (sys_unlink v a0) k)
      | Sys_fstat \<Rightarrow> returned (on_files (sys_fstat v fd a1) k)
      | Sys_newfstatat \<Rightarrow> returned (on_files (sys_fstatat v (e_junk e) a0 a1 a2) k)
      | Sys_statx \<Rightarrow> returned (on_files (sys_statx v fd a1 (ucast a2) a4) k)
      | Sys_mount \<Rightarrow> returned (on_files (sys_mount v a0 a1 a2) k)
      | Sys_umount2 \<Rightarrow> returned (on_files (sys_umount2 v a0 (ucast a1)) k)
      | Sys_lseek \<Rightarrow> returned (on_files (fil (posix_lseek v fd a1 (ucast a2))) k)
      | Sys_mmap \<Rightarrow> returned (on_files (sys_mmap v a0 a1 (ucast a2) (ucast a3) (ucast a4) a5) k)
      | _ \<Rightarrow> returned (Err (Errno ENOSYS), k))"

definition task_syscall :: "('n, 's) kenv \<Rightarrow> sysno \<Rightarrow> trap_frame \<Rightarrow> ('n, 's) kern \<Rightarrow> ((stop, sys_end) outcome \<times> ('n, 's) kern) option" where
  "task_syscall e n tf k =
     (let a0 = tf_rdi tf; a1 = tf_rsi tf; a2 = tf_rdx tf; a3 = tf_r10 tf; a4 = tf_r8 tf in
      case n of
        Sys_sched_yield \<Rightarrow> returned (sys_sched_yield k)
      | Sys_nanosleep \<Rightarrow> returned (on_space (sys_nanosleep a0 a1 (e_clock e) (e_clock_end e)) k)
      | Sys_getpid \<Rightarrow> returned (sys_getpid k)
      | Sys_getppid \<Rightarrow> returned (sys_getppid k)
      | Sys_gettid \<Rightarrow> returned (sys_gettid k)
      | Sys_exit \<Rightarrow> Some (sys_exit (ucast a0) k)
      | Sys_exit_group \<Rightarrow> Some (sys_exit_group (ucast a0) k)
      | Sys_gettimeofday \<Rightarrow> returned (on_space (sys_get_time_of_day a0 (e_clock e)) k)
      | Sys_clone \<Rightarrow> returned (sys_clone tf (ucast a0) a1 a2 a3 a4 k)
      | Sys_fork \<Rightarrow> returned (sys_fork tf k)
      | Sys_wait4 \<Rightarrow> Some (sys_waitpid (ucast a0) a1 (ucast a2) k)
      | Sys_execve \<Rightarrow> sys_execve (e_vfs e) (e_parse e) a0 a1 a2 k
      | Sys_uname \<Rightarrow> returned (sys_uname a0 k)
      | Sys_munmap \<Rightarrow> returned (on_space (sys_munmap a0 a1) k)
      | Sys_mprotect \<Rightarrow> returned (on_space (sys_mprotect a0 a1 (ucast a2)) k)
      | Sys_times \<Rightarrow> returned (on_space (sys_times a0 (ut_time (k_tasks k (cur_tid k))) (e_clock e)) k)
      | Sys_brk \<Rightarrow> returned (sys_brk a0 k)
      | Sys_set_tid_address \<Rightarrow> returned (sys_set_tid_address a0 k)
      | Sys_clock_gettime \<Rightarrow> returned (on_space (sys_clock_gettime (ucast a0) a1 (e_clock e)) k)
      | Sys_getuid \<Rightarrow> returned (sys_zero k)
      | Sys_rt_sigprocmask \<Rightarrow> returned (sys_zero k)
      | Sys_rt_sigaction \<Rightarrow> returned (sys_zero k)
      | Sys_rt_sigtimedwait \<Rightarrow> returned (sys_zero k)
      | Sys_futex \<Rightarrow> returned (sys_zero k)
      | Sys_kill \<Rightarrow> returned (sys_rt_kill (ucast a0) (ucast a1) k)
      | Sys_tkill \<Rightarrow> returned (sys_tkill (ucast a0) (ucast a0) k)
      | Sys_tgkill \<Rightarrow> returned (sys_tgkill (ucast a0) (ucast a1) (ucast a2) k)
      | Sys_getrlimit \<Rightarrow> returned (on_space (sys_rt_getrlimit (ucast a0) a1) k)
      | Sys_setrlimit \<Rightarrow> returned (on_space (sys_rt_setrlimit (ucast a0) a1) k)
      | _ \<Rightarrow> file_syscall e n tf k)"

definition upd_time :: "tid \<Rightarrow> (time_stat \<Rightarrow> time_stat) \<Rightarrow> ('n, 's) kern \<Rightarrow> ('n, 's) kern" where
  "upd_time t f k = k\<lparr>k_tasks := (k_tasks k)(t := (k_tasks k t)\<lparr>ut_time := f (ut_time (k_tasks k t))\<rparr>)\<rparr>"

text \<open>
  A call that returns gives its result, or the negated error number, and stamps the time of the caller; when the task ended, waits, or
  entered a new program, the end of the handler is not reached.
\<close>

definition syscall_end ::
  "('n, 's) kenv \<Rightarrow> tid \<Rightarrow> trap_frame \<Rightarrow> (stop, sys_end) outcome \<times> ('n, 's) kern \<Rightarrow> (stop, sys_end \<times> trap_frame) outcome \<times> ('n, 's) kern" where
  "syscall_end e t tf m =
     (case m of
        (Ok (Returned r), k) \<Rightarrow> (Ok (Returned r, tf), upd_time t (time_stat_from_kernel_to_user (e_clock_end e)) k)
      | (Ok x, k) \<Rightarrow> (Ok (x, tf), k)
      | (Err (Errno x), k) \<Rightarrow> (Ok (Returned (neg_code x), tf), upd_time t (time_stat_from_kernel_to_user (e_clock_end e)) k)
      | (Err (Exits code), k) \<Rightarrow> sbind (do_exit code True k) (\<lambda>x k. (Ok (x, tf), k))
      | (Panic, k) \<Rightarrow> (Panic, k))"

definition handle_syscall :: "('n, 's) kenv \<Rightarrow> trap_frame \<Rightarrow> usize \<Rightarrow> ('n, 's) kern
    \<Rightarrow> ((stop, sys_end \<times> trap_frame) outcome \<times> ('n, 's) kern) option" where
  "handle_syscall e tf num k =
     (let n = e_sysno e (ucast num); t = cur_tid k;
          k = upd_time t (time_stat_from_user_to_kernel (e_clock e)) k in
      if n = Sys_arch_prctl then
        Some (case sys_arch_prctl tf (ucast (tf_rdi tf)) (tf_rsi tf) k of
                (Ok (r, tf), k) \<Rightarrow> syscall_end e t tf (Ok (Returned r), k)
              | (Err x, k) \<Rightarrow> syscall_end e t tf (Err x, k)
              | (Panic, k) \<Rightarrow> (Panic, k))
      else map_option (syscall_end e t tf) (task_syscall e n tf k))"

section \<open>The way back to user space\<close>

text \<open>\<^verbatim>\<open>do_exit\<close> of \<^verbatim>\<open>core/src/exit.rs\<close>: the address is written without a check.\<close>

definition core_do_exit :: "i32 \<Rightarrow> bool \<Rightarrow> ('n, 's, sys_end) kcall" where
  "core_do_exit exit_code group_exit k =
     (case pt_threads (k_tab k) (cur_thread k) of
        None \<Rightarrow> (Panic, k)
      | Some th \<Rightarrow>
          let p = td_clear_child_tid (th_data th) in
          sbind (if p \<noteq> 0 then on_space (user_write_bytes False p (le_bytes 4 (0 :: i32))) k else (Ok (), k)) (\<lambda>_ k.
          case core_exit_thread (cur_thread k) exit_code group_exit (k_tab k) of
            (Ok _, t) \<Rightarrow>
              (let k = k\<lparr>k_tab := t\<rparr> in
               case exit_current exit_code (k_sched k) of
                 (Panic, s) \<Rightarrow> (Panic, k\<lparr>k_sched := s\<rparr>)
               | (_, s) \<Rightarrow> (Ok (Ended exit_code), k\<lparr>k_sched := s\<rparr>))
          | (Err x, t) \<Rightarrow> (Err x, k\<lparr>k_tab := t\<rparr>)
          | (Panic, t) \<Rightarrow> (Panic, k\<lparr>k_tab := t\<rparr>)))"

text \<open>Before a task goes back to user space its signals are checked; \<open>None\<close> when that never ends.\<close>

definition return_to_user :: "trap_frame \<Rightarrow> ('n, 's) kern \<Rightarrow> ((stop, sys_end) outcome \<times> ('n, 's) kern) option" where
  "return_to_user tf k =
     (case (pt_threads (k_tab k) (cur_thread k), cur_proc k) of
        (Some th, Some (p, d)) \<Rightarrow>
          (case post_trap_callback True (pd_actions d) (th_data th) of
             None \<Rightarrow> None
           | Some (Ok NoSignal) \<Rightarrow> Some (Ok (Entered tf), k)
           | Some (Ok (ExitsGroup code)) \<Rightarrow> Some (core_do_exit code True k)
           | Some (Err x) \<Rightarrow> Some (Err x, k)
           | Some Panic \<Rightarrow> Some (Panic, k))
      | _ \<Rightarrow> Some (Panic, k))"

section \<open>Isolation\<close>

text \<open>The references of the current process: its address space, descriptor table and current directory.\<close>

definition refs :: "('n, 's) kern \<Rightarrow> (nat \<times> nat \<times> nat) option" where
  "refs k = map_option (\<lambda>(p, d). (pd_aspace d, pd_fds d, pd_cwd d)) (cur_proc k)"

definition iso_step :: "('n, 's) kern \<Rightarrow> ('n, 's) kern \<Rightarrow> bool" where
  "iso_step k k' \<longleftrightarrow> k_next_ref k \<le> k_next_ref k' \<and>
     (\<forall>a f c r. refs k = Some (a, f, c) \<and> r < k_next_ref k \<longrightarrow>
        (r \<noteq> a \<longrightarrow> k_spaces k' r = k_spaces k r) \<and> (r \<noteq> f \<longrightarrow> k_tables k' r = k_tables k r) \<and> (r \<noteq> c \<longrightarrow> k_cwds k' r = k_cwds k r))"

text \<open>A result: isolated, and with the references kept when a fault is still to end the task.\<close>

definition iso_res :: "('n, 's) kern \<Rightarrow> (stop, 'a) outcome \<times> ('n, 's) kern \<Rightarrow> bool" where
  "iso_res k m \<longleftrightarrow> iso_step k (snd m) \<and> ((\<exists>c. fst m = Err (Exits c)) \<longrightarrow> refs (snd m) = refs k)"

definition keeps :: "('n, 's) kern \<Rightarrow> (stop, 'a) outcome \<times> ('n, 's) kern \<Rightarrow> bool" where
  "keeps k m \<longleftrightarrow> iso_step k (snd m) \<and> refs (snd m) = refs k"

lemma iso_step_refl [simp]: "iso_step k k"
  by (simp add: iso_step_def)

lemma iso_stepD:
  assumes "iso_step k k'" "refs k = Some (a, f, c)" "r < k_next_ref k"
  shows "r \<noteq> a \<Longrightarrow> k_spaces k' r = k_spaces k r" "r \<noteq> f \<Longrightarrow> k_tables k' r = k_tables k r" "r \<noteq> c \<Longrightarrow> k_cwds k' r = k_cwds k r"
  using assms unfolding iso_step_def by simp_all

lemma iso_step_le: "iso_step k k' \<Longrightarrow> k_next_ref k \<le> k_next_ref k'"
  by (simp add: iso_step_def)

lemma iso_step_trans:
  assumes "iso_step k k1" "refs k1 = refs k" "iso_step k1 k2"
  shows "iso_step k k2"
  unfolding iso_step_def
proof (intro conjI allI impI; (elim conjE)?)
  show "k_next_ref k \<le> k_next_ref k2" using iso_step_le [OF assms(1)] iso_step_le [OF assms(3)] by simp
  fix a f c r assume r: "refs k = Some (a, f, c)" "r < k_next_ref k"
  have r1: "refs k1 = Some (a, f, c)" "r < k_next_ref k1" using r assms(2) iso_step_le [OF assms(1)] by simp_all
  show "r \<noteq> a \<Longrightarrow> k_spaces k2 r = k_spaces k r" "r \<noteq> f \<Longrightarrow> k_tables k2 r = k_tables k r" "r \<noteq> c \<Longrightarrow> k_cwds k2 r = k_cwds k r"
    using iso_stepD [OF assms(1) r] iso_stepD [OF assms(3) r1] by simp_all
qed

lemma keeps_iso: "keeps k m \<Longrightarrow> iso_res k m"
  by (simp add: keeps_def iso_res_def)

lemma iso_res_const [simp]: "iso_res k (r, k)" "keeps k (r, k)"
  by (simp_all add: iso_res_def keeps_def)

lemma iso_res_sbind:
  assumes "keeps k m" and "\<And>a k1. m = (Ok a, k1) \<Longrightarrow> refs k1 = refs k \<Longrightarrow> iso_res k1 (f a k1)"
  shows "iso_res k (sbind m f)"
proof (cases "fst m")
  case (Ok a)
  then obtain k1 where m: "m = (Ok a, k1)" by (cases m) simp
  have k1: "iso_step k k1" "refs k1 = refs k" using assms(1) m by (simp_all add: keeps_def)
  from assms(2) [OF m k1(2)] show ?thesis using m iso_step_trans [OF k1] k1(2) by (auto simp: iso_res_def)
qed (use assms(1) in \<open>cases m; auto simp: iso_res_def keeps_def\<close>)+

lemma keeps_sbind:
  assumes "keeps k m" and "\<And>a k1. m = (Ok a, k1) \<Longrightarrow> keeps k1 (f a k1)"
  shows "keeps k (sbind m f)"
proof (cases "fst m")
  case (Ok a)
  then obtain k1 where m: "m = (Ok a, k1)" by (cases m) simp
  have k1: "iso_step k k1" "refs k1 = refs k" using assms(1) m by (simp_all add: keeps_def)
  from assms(2) [OF m] show ?thesis using m iso_step_trans [OF k1] k1(2) by (auto simp: keeps_def)
qed (use assms(1) in \<open>cases m; auto simp: keeps_def\<close>)+

lemma refs_cong:
  assumes "k_tab k' = k_tab k" "sd_current (k_sched k') = sd_current (k_sched k)"
  shows "refs k' = refs k"
  unfolding refs_def cur_proc_def cur_thread_def cur_tid_def assms ..

lemma keeps_with_proc: "(\<And>p d. cur_proc k = Some (p, d) \<Longrightarrow> keeps k (f p d k)) \<Longrightarrow> keeps k (with_proc f k)"
  by (auto simp: with_proc_def split: option.splits)

lemma iso_with_proc: "(\<And>p d. cur_proc k = Some (p, d) \<Longrightarrow> iso_res k (f p d k)) \<Longrightarrow> iso_res k (with_proc f k)"
  by (auto simp: with_proc_def split: option.splits)

lemma refs_eq: "cur_proc k = Some (p, d) \<Longrightarrow> refs k = Some (pd_aspace d, pd_fds d, pd_cwd d)"
  by (simp add: refs_def)

lemma iso_stepI:
  assumes "cur_proc k = Some (p, d)" "k_next_ref k \<le> k_next_ref k'"
    and "\<And>r. r < k_next_ref k \<Longrightarrow> r \<noteq> pd_aspace d \<Longrightarrow> k_spaces k' r = k_spaces k r" "\<And>r. r < k_next_ref k \<Longrightarrow> r \<noteq> pd_fds d \<Longrightarrow> k_tables k' r = k_tables k r"
    and "\<And>r. r < k_next_ref k \<Longrightarrow> r \<noteq> pd_cwd d \<Longrightarrow> k_cwds k' r = k_cwds k r"
  shows "iso_step k k'"
  using assms by (simp add: iso_step_def refs_eq)

lemma keepsI:
  assumes "cur_proc k = Some (p, d)" "iso_step k k'" "k_tab k' = k_tab k" "sd_current (k_sched k') = sd_current (k_sched k)"
  shows "keeps k (r, k')"
  using assms refs_cong [OF assms(3,4)] by (simp add: keeps_def)

lemma put_proc_files_sel [simp]:
  "k_tab (put_proc_files d fx k) = k_tab k" "k_sched (put_proc_files d fx k) = k_sched k" "k_spaces (put_proc_files d fx k) = k_spaces k"
  "k_next_ref (put_proc_files d fx k) = k_next_ref k" "k_tables (put_proc_files d fx k) = (k_tables k)(pd_fds d := fx_table fx)"
  "k_cwds (put_proc_files d fx k) = (k_cwds k)(pd_cwd d := (fs_cwd (fx_fs fx), fs_cwd_path (fx_fs fx)))"
  unfolding put_proc_files_def put_proc_fs_def by simp_all

lemma keeps_on_space: "keeps k (on_space f k)"
  unfolding on_space_def
proof (rule keeps_with_proc)
  fix p d assume p: "cur_proc k = Some (p, d)"
  obtain r a m where f: "f (k_spaces k (pd_aspace d), k_mem k) = (r, (a, m))" by (metis surj_pair)
  show "keeps k (case f (k_spaces k (pd_aspace d), k_mem k) of (r, (a, m)) \<Rightarrow> (r, k\<lparr>k_spaces := (k_spaces k)(pd_aspace d := a), k_mem := m\<rparr>))"
    unfolding f prod.case by (rule keepsI [OF p iso_stepI [OF p]]) simp_all
qed

lemma keeps_on_files: "keeps k (on_files f k)"
  unfolding on_files_def
proof (rule keeps_with_proc)
  fix p d assume p: "cur_proc k = Some (p, d)"
  obtain r a m fx where f: "f ((k_spaces k (pd_aspace d), k_mem k), proc_files d k) = (r, ((a, m), fx))" by (metis surj_pair)
  show "keeps k (case f ((k_spaces k (pd_aspace d), k_mem k), proc_files d k) of
      (r, ((a, m), fx)) \<Rightarrow> (r, put_proc_files d fx (k\<lparr>k_spaces := (k_spaces k)(pd_aspace d := a), k_mem := m\<rparr>)))"
    unfolding f prod.case by (rule keepsI [OF p iso_stepI [OF p]]) simp_all
qed

lemma iso_tasks:
  assumes "k_spaces k' = k_spaces k" "k_tables k' = k_tables k" "k_cwds k' = k_cwds k" "k_next_ref k' = k_next_ref k"
  shows "iso_step k k'"
  using assms by (simp add: iso_step_def)

lemma iso_on_sched: "iso_res k (on_sched f k)"
  by (auto simp: iso_res_def on_sched_def intro!: iso_tasks split: prod.splits outcome.splits)

text \<open>Updates of the tables, the scheduler and the times do not touch what processes own.\<close>

definition untouched :: "('n, 's) kern \<Rightarrow> ('n, 's) kern \<Rightarrow> bool" where
  "untouched k k' \<longleftrightarrow> k_spaces k' = k_spaces k \<and> k_tables k' = k_tables k \<and> k_cwds k' = k_cwds k \<and> k_next_ref k' = k_next_ref k"

lemma untouched_iso: "untouched k k' \<Longrightarrow> iso_step k k'"
  by (simp add: untouched_def iso_tasks)

lemma untouched_trans: "iso_step k k1 \<Longrightarrow> untouched k1 k2 \<Longrightarrow> iso_step k k2"
  by (simp add: untouched_def iso_step_def)

lemma untouched_upd [simp]:
  "untouched k (k\<lparr>k_tab := t\<rparr>)" "untouched k (k\<lparr>k_sched := s\<rparr>)" "untouched k (k\<lparr>k_tasks := u\<rparr>)" "untouched k (k\<lparr>k_user_gs := g\<rparr>)"
  "untouched k (k\<lparr>k_tab := t, k_sched := s\<rparr>)" "untouched k (upd_time x f k)" "untouched k (upd_data p h k)"
  by (simp_all add: untouched_def upd_time_def upd_data_def)

lemma on_sched_untouched: "untouched k (snd (on_sched f k)) \<and> fst (on_sched f k) \<noteq> Err x"
proof -
  obtain r s where "f (k_sched k) = (r, s)" by (cases "f (k_sched k)")
  then show ?thesis by (cases r) (simp_all add: on_sched_def)
qed

lemma iso_res_then:
  assumes "iso_res k m" and "\<And>a k1. m = (Ok a, k1) \<Longrightarrow> untouched k1 (snd (f a k1)) \<and> (\<forall>c. fst (f a k1) \<noteq> Err (Exits c))"
  shows "iso_res k (sbind m f)"
proof (cases "fst m")
  case (Ok a)
  then obtain k1 where m: "m = (Ok a, k1)" by (cases m) simp
  then show ?thesis using assms(1) assms(2) [OF m] untouched_trans [of k k1 "snd (f a k1)"] by (auto simp: iso_res_def)
qed (use assms(1) in \<open>cases m; auto simp: iso_res_def\<close>)+

lemma iso_res_untouched: "untouched k k' \<Longrightarrow> (\<And>c. r \<noteq> Err (Exits c)) \<Longrightarrow> iso_res k (r, k')"
  by (simp add: iso_res_def untouched_iso)

lemma keeps_then:
  assumes "keeps k m" and "\<And>r k1. m = (r, k1) \<Longrightarrow> keeps k1 (f r k1)"
  shows "keeps k (case m of (r, k1) \<Rightarrow> f r k1)"
proof -
  obtain r k1 where m: "m = (r, k1)" by (cases m)
  show ?thesis using assms(1) assms(2) [OF m] iso_step_trans [of k k1] m by (simp add: keeps_def)
qed

text \<open>Exiting.\<close>

lemma exit_thread_no_Err: "exit_thread x code g t \<noteq> (Err e, t')"
  by (auto simp: exit_thread_def proc_exit_def Let_def split: option.splits prod.splits)

lemma iso_do_exit: "iso_res k (do_exit code g k)"
proof (cases "pt_threads (k_tab k) (cur_thread k)")
  case None
  then show ?thesis by (simp add: do_exit_def)
next
  case (Some th)
  have tail: "iso_res k1 (case exit_thread (cur_thread k1) code g (k_tab k1) of
            (Ok _, t) \<Rightarrow>
              (let k = k1\<lparr>k_tab := t\<rparr> in
               case exit_current code (k_sched k) of
                 (Panic, s) \<Rightarrow> (Panic, k\<lparr>k_sched := s\<rparr>)
               | (_, s) \<Rightarrow> (Ok (Ended code), k\<lparr>k_sched := s\<rparr>))
          | (Err x, t) \<Rightarrow> (Err x, k1\<lparr>k_tab := t\<rparr>)
          | (Panic, t) \<Rightarrow> (Panic, k1\<lparr>k_tab := t\<rparr>))" for k1 :: "('a, 'b) kern"
    by (auto intro!: iso_res_untouched simp: Let_def exit_thread_no_Err split: prod.splits outcome.splits)
  show ?thesis unfolding do_exit_def Some option.case
    by (rule iso_res_sbind [OF _ tail], rule keeps_then [OF keeps_on_space]) (auto intro: keeps_on_space split: outcome.splits)
qed

text \<open>Waiting: taking a process out of its parent's list does not change what the current process owns.\<close>

lemma refs_tab:
  assumes "pt_threads t = pt_threads (k_tab k)" "\<And>x. map_option pr_data (pt_procs t x) = map_option pr_data (pt_procs (k_tab k) x)"
  shows "refs (k\<lparr>k_tab := t\<rparr>) = refs k"
proof -
  have "cur_proc (k\<lparr>k_tab := t\<rparr>) = cur_proc k"
  proof (cases "pt_threads (k_tab k) (cur_thread k)")
    case None
    then show ?thesis using assms(1) by (simp add: cur_proc_def cur_thread_def cur_tid_def)
  next
    case (Some th)
    then show ?thesis using assms(1) assms(2) [of "th_proc th"]
      by (cases "pt_procs t (th_proc th)"; cases "pt_procs (k_tab k) (th_proc th)") (auto simp: cur_proc_def cur_thread_def cur_tid_def)
  qed
  then show ?thesis by (simp add: refs_def)
qed

lemma proc_free_no_Err: "proc_free c t \<noteq> (Err e, s)"
  by (simp add: proc_free_def)

lemma proc_free_data: "pt_threads (snd (proc_free c t)) = pt_threads t"
  "map_option pr_data (pt_procs (snd (proc_free c t)) x) = map_option pr_data (pt_procs t x)"
  by (auto simp: proc_free_def option.map_comp comp_def split: option.splits)

lemma waitpid_round_data:
  assumes "waitpid_round cs opts t = (r, t')"
  shows "pt_threads t' = pt_threads t" "map_option pr_data (pt_procs t' x) = map_option pr_data (pt_procs t x)" "r \<noteq> Err e"
proof -
  have d: "pt_threads s = pt_threads t \<and> map_option pr_data (pt_procs s x) = map_option pr_data (pt_procs t x)" if "proc_free c t = (r', s)" for c r' s
    using proc_free_data [of c t] that by (metis snd_conv)
  show "pt_threads t' = pt_threads t" "map_option pr_data (pt_procs t' x) = map_option pr_data (pt_procs t x)" "r \<noteq> Err e"
    using assms d by (auto simp: proc_free_no_Err waitpid_round_def sbind_def split: option.splits if_splits prod.splits outcome.splits)
qed

lemma iso_waitpid_round: "iso_res k (waitpid_loop_round cs p opts k)"
proof -
  obtain r t where w: "waitpid_round cs opts (k_tab k) = (r :: (stop, wait_round) outcome, t)"
    by (cases "waitpid_round cs opts (k_tab k) :: (stop, wait_round) outcome \<times> ptab")
  note d = waitpid_round_data [OF w]
  have rk: "refs (k\<lparr>k_tab := t\<rparr>) = refs k" by (rule refs_tab) (fact d)+
  have kk: "keeps k (q, k\<lparr>k_tab := t\<rparr>)" for q :: "(stop, unit) outcome" using rk by (simp add: keeps_def untouched_iso)
  have y: "untouched k (snd (on_sched f (k\<lparr>k_tab := t\<rparr>)))" for f
    using on_sched_untouched [of "k\<lparr>k_tab := t\<rparr>" f] by (simp add: untouched_def)
  show ?thesis
  proof (cases r)
    case (Ok x)
    then show ?thesis
    proof (cases x)
      case (Reaped c code)
      have "keeps k (case p of Some q \<Rightarrow> on_space (\<lambda>m. user_write_bytes False q (le_bytes 4 code) m) (k\<lparr>k_tab := t\<rparr>) | None \<Rightarrow> (Ok (), k\<lparr>k_tab := t\<rparr>))"
        using kk keeps_on_space [of "k\<lparr>k_tab := t\<rparr>"] rk iso_step_trans [OF untouched_iso [of k "k\<lparr>k_tab := t\<rparr>"] rk]
        by (auto simp: keeps_def split: option.splits)
      then show ?thesis using Ok Reaped w by (simp add: waitpid_loop_round_def iso_res_sbind)
    next
      case YieldAgain
      have "iso_res k (on_sched yield_current (k\<lparr>k_tab := t\<rparr>))" using y on_sched_untouched [of "k\<lparr>k_tab := t\<rparr>" yield_current]
        by (auto simp: iso_res_def untouched_iso)
      then show ?thesis using Ok YieldAgain w by (simp add: waitpid_loop_round_def) (rule iso_res_then, auto simp: untouched_def)
    qed (use Ok w in \<open>auto simp: waitpid_loop_round_def intro: iso_res_untouched\<close>)
  qed (use w d(3) in \<open>auto simp: waitpid_loop_round_def intro: iso_res_untouched\<close>)
qed

lemma iso_waitpid: "iso_res k (sys_waitpid pid p opts k)"
  unfolding sys_waitpid_def Let_def
  by (rule iso_with_proc) (auto intro!: iso_res_sbind [OF keeps_on_space] iso_waitpid_round)

text \<open>Cloning: everything new gets a new reference.\<close>

lemma iso_step_new:
  assumes "k_next_ref k \<le> k_next_ref k'" "\<And>r. r < k_next_ref k \<Longrightarrow> k_spaces k' r = k_spaces k r \<and> k_tables k' r = k_tables k r \<and> k_cwds k' r = k_cwds k r"
  shows "iso_step k k'"
  using assms by (simp add: iso_step_def)

lemma keeps_clone_space: "keeps k (clone_space flags d k)"
  by (auto simp: clone_space_def keeps_def intro!: iso_step_new refs_cong split: prod.splits outcome.splits)

lemma keeps_clone_table: "keeps k (clone_table flags d k)"
  by (auto simp: clone_table_def keeps_def intro!: iso_step_new refs_cong split: outcome.splits)

lemma keeps_clone_cwd: "iso_step k (snd (clone_cwd flags d k))"
  by (auto simp: clone_cwd_def intro!: iso_step_new)

lemma set_root_keeps: "untouched k (set_root t r k)" "refs (set_root t r k) = refs k"
  by (auto simp: set_root_def intro!: refs_cong)

lemma untouched_first: "untouched k k1 \<Longrightarrow> refs k1 = refs k \<Longrightarrow> iso_res k1 m \<Longrightarrow> iso_res k m"
  using iso_step_trans [OF untouched_iso] by (auto simp: iso_res_def)

lemma iso_clone_into: "iso_res k (clone_into t flags ctid k)"
  unfolding clone_into_def Let_def
proof (rule iso_with_proc)
  fix p d assume "cur_proc k = Some (p, d)"
  have cwd: "iso_res k1 (case clone_cwd flags d k1 of (cwd, k2) \<Rightarrow>
      (Ok (), k2\<lparr>k_tab := clone_process (ucast t) q (proc_data_new (pd_exe_path d) asp fds cwd) td (k_tab k2)\<rparr>))" for q asp fds td k1
    using keeps_clone_cwd [of k1 flags d] untouched_trans [of k1 "snd (clone_cwd flags d k1)"]
    by (cases "clone_cwd flags d k1") (simp add: iso_res_def)
  have table: "iso_res k1 (sbind (clone_table flags d k1) (\<lambda>fds k. case clone_cwd flags d k of (cwd, k2) \<Rightarrow>
      (Ok (), k2\<lparr>k_tab := clone_process (ucast t) q (proc_data_new (pd_exe_path d) asp fds cwd) td (k_tab k2)\<rparr>)))" for q asp td k1
    by (rule iso_res_sbind [OF keeps_clone_table cwd])
  have root: "iso_res k1 (sbind (clone_table flags d (set_root t r k1)) (\<lambda>fds k. case clone_cwd flags d k of (cwd, k2) \<Rightarrow>
      (Ok (), k2\<lparr>k_tab := clone_process (ucast t) q (proc_data_new (pd_exe_path d) asp fds cwd) td (k_tab k2)\<rparr>)))" for q asp td r k1
    by (rule untouched_first [OF set_root_keeps table])
  show "iso_res k (if has_flags flags CLONE_THREAD
      then (Ok (), (set_root t (as_root (k_spaces k (pd_aspace d))) k)\<lparr>k_tab := clone_thread (ucast t) p (clone_thread_data flags ctid) (k_tab k)\<rparr>)
      else sbind (errno (ok_or (if has_flags flags CLONE_PARENT then parent_of p (k_tab k) else Some p) EINVAL, k)) (\<lambda>parent k.
        sbind (clone_space flags d k) (\<lambda>asp k.
          sbind (clone_table flags d (set_root t (as_root (k_spaces k asp)) k)) (\<lambda>fds k. case clone_cwd flags d k of (cwd, k) \<Rightarrow>
            (Ok (), k\<lparr>k_tab := clone_process (ucast t) parent (proc_data_new (pd_exe_path d) asp fds cwd) (clone_thread_data flags ctid) (k_tab k)\<rparr>)))))"
  proof (cases "has_flags flags CLONE_THREAD")
    case True
    then show ?thesis by (auto intro!: iso_res_untouched simp: untouched_def set_root_def)
  next
    case False
    have e: "keeps k (errno (ok_or (if has_flags flags CLONE_PARENT then parent_of p (k_tab k) else Some p) EINVAL, k))" by (simp add: errno_def)
    show ?thesis unfolding if_not_P [OF False]
      by (rule iso_res_sbind [OF e], rule iso_res_sbind [OF keeps_clone_space], rule root)
  qed
qed

lemma new_user_task_keeps: "untouched k (snd (new_user_task n u st k))" "refs (snd (new_user_task n u st k)) = refs k"
  by (auto simp: new_user_task_def Let_def untouched_def intro!: refs_cong)

lemma iso_clone: "iso_res k (sys_clone tf flags stack ptid ctid tls k)"
proof -
  let ?fl = "flags AND NOT 0xff"
  have spawn: "iso_res k1 (sbind (clone_into t ?fl ctid k1) (\<lambda>_ k. sbind (spawn_user_task t k) (\<lambda>_ k. (Ok r, k))))" for t k1 and r :: isize
  proof (rule iso_res_then [OF iso_clone_into])
    fix a k2
    have "untouched k2 (snd (spawn_user_task t k2)) \<and> fst (spawn_user_task t k2) \<noteq> Err x" for x unfolding spawn_user_task_def by (rule on_sched_untouched)
    then show "untouched k2 (snd (sbind (spawn_user_task t k2) (\<lambda>_ k. (Ok r, k)))) \<and> (\<forall>c. fst (sbind (spawn_user_task t k2) (\<lambda>_ k. (Ok r, k))) \<noteq> Err (Exits c))"
      by (cases "spawn_user_task t k2"; cases "fst (spawn_user_task t k2)") auto
  qed
  have store: "iso_res k1 (sbind (if has_flags ?fl CLONE_PARENT_SETTID
               then on_space (\<lambda>m. sbind (errno (ptr_get_as USER_PTR_ACCESS ptid 4 4 m)) (\<lambda>p m. user_write_bytes False p (le_bytes 4 (ucast t :: pid)) m)) k1
               else (Ok (), k1)) (\<lambda>_ k. sbind (clone_into t ?fl ctid k) (\<lambda>_ k. sbind (spawn_user_task t k) (\<lambda>_ k. (Ok r, k)))))" for t k1 and r :: isize
    by (rule iso_res_sbind [OF _ spawn]) (auto intro: keeps_on_space)
  show ?thesis unfolding sys_clone_def Let_def
  proof (split if_split, intro conjI impI, simp, rule iso_res_sbind)
    show "keeps k (if has_flags ?fl CLONE_CHILD_SETTID
               then on_space (\<lambda>m. sbind (errno (ptr_get_as USER_PTR_ACCESS ctid 4 4 m)) (\<lambda>p m. (Ok (if p = 0 then None else Some p), m))) k
               else (Ok None, k))" by (auto intro: keeps_on_space)
  next
    fix st k1
    obtain t k2 where n: "new_user_task (ut_name (k_tasks k1 (cur_tid k1))) (clone_uctx tf ?fl stack tls) st k1 = (t, k2)"
      by (cases "new_user_task (ut_name (k_tasks k1 (cur_tid k1))) (clone_uctx tf ?fl stack tls) st k1")
    have k2: "untouched k1 k2" "refs k2 = refs k1"
      using new_user_task_keeps [where k = k1 and n = "ut_name (k_tasks k1 (cur_tid k1))" and u = "clone_uctx tf ?fl stack tls" and st = st] n by simp_all
    show "iso_res k1 (case new_user_task (ut_name (k_tasks k1 (cur_tid k1))) (clone_uctx tf ?fl stack tls) st k1 of (t, k) \<Rightarrow>
        sbind (if has_flags ?fl CLONE_PARENT_SETTID
               then on_space (\<lambda>m. sbind (errno (ptr_get_as USER_PTR_ACCESS ptid 4 4 m)) (\<lambda>p m. user_write_bytes False p (le_bytes 4 (ucast t :: pid)) m)) k
               else (Ok (), k)) (\<lambda>_ k. sbind (clone_into t ?fl ctid k) (\<lambda>_ k. sbind (spawn_user_task t k) (\<lambda>_ k. (Ok (ucast (ucast t :: pid) :: isize), k)))))"
      unfolding n prod.case by (rule untouched_first [OF k2 store])
  qed
qed

text \<open>Programs.\<close>

definition iso_opt :: "('n, 's) kern \<Rightarrow> ((stop, 'a) outcome \<times> ('n, 's) kern) option \<Rightarrow> bool" where
  "iso_opt k o' \<longleftrightarrow> (\<forall>m. o' = Some m \<longrightarrow> iso_res k m)"

lemma iso_opt_simps [simp]: "iso_opt k None" "iso_opt k (Some m) = iso_res k m"
  by (simp_all add: iso_opt_def)

lemma put_own:
  assumes "cur_proc k = Some (p, d)"
  shows "iso_step k (k\<lparr>k_spaces := (k_spaces k)(pd_aspace d := a), k_mem := m\<rparr>)"
    "iso_step k (put_proc_fs d fs (k\<lparr>k_spaces := (k_spaces k)(pd_aspace d := a), k_mem := m\<rparr>))"
  by (rule iso_stepI [OF assms]; simp add: put_proc_fs_def)+

lemma iso_exec_image:
  assumes p: "cur_proc k = Some (p, d)"
  shows "iso_opt k (exec_image v parse path args envs p d k)"
proof (cases "1 < length (threads_of p (k_tab k))")
  case False
  obtain x a m where u: "unmap_user_areas (k_spaces k (pd_aspace d), k_mem k) = (x, (a, m))" by (metis surj_pair)
  note own = put_own [OF p]
  have err: "iso_res k (y, k')" if "iso_step k k'" "\<And>c. y \<noteq> Err (Exits c)" for y :: "(stop, sys_end) outcome" and k'
    using that by (simp add: iso_res_def)
  show ?thesis
  proof (cases x)
    case (Ok _)
    show ?thesis
    proof (cases "load_user_app v parse args envs ((a, m), proc_fs d k)")
      case None
      then show ?thesis using False u Ok by (simp add: exec_image_def Let_def)
    next
      case (Some l)
      obtain y a' m' fs where l: "l = (y, ((a', m'), fs))" by (metis surj_pair)
      have own': "iso_step k (upd_data q h ((put_proc_fs d fs (k\<lparr>k_spaces := (k_spaces k)(pd_aspace d := a'), k_mem := m'\<rparr>))\<lparr>k_tasks := w\<rparr>))" for q h w
        by (rule untouched_trans [OF own(2)]) (simp add: untouched_def upd_data_def)
      show ?thesis using False u Ok Some l own own' by (cases y) (auto simp: exec_image_def Let_def intro!: err)
    qed
  qed (use False u own in \<open>auto simp: exec_image_def Let_def intro!: err\<close>)
qed (simp add: exec_image_def)

lemma iso_execve: "iso_opt k (sys_execve v parse path argv envp k)"
proof -
  define m where "m = on_space (\<lambda>m. sbind (user_str path m) (\<lambda>path m. sbind (user_str_array argv m) (\<lambda>args m.
             sbind (user_str_array envp m) (\<lambda>envs m. (Ok (path, args, envs), m))))) k"
  obtain x k1 where x: "m = (x, k1)" by (cases m)
  have k: "keeps k (x, k1)" using keeps_on_space x by (metis m_def)
  then have k1: "iso_step k k1" "refs k1 = refs k" by (simp_all add: keeps_def)
  have e: "iso_opt k1 (exec_image v parse path' args envs p d k1)" if "cur_proc k1 = Some (p, d)" for path' args envs p d
    by (rule iso_exec_image [OF that])
  have step: "iso_opt k1 o' \<Longrightarrow> iso_opt k o'" for o' :: "((stop, sys_end) outcome \<times> ('a, 'b) kern) option"
    using iso_step_trans [OF k1] k1 by (auto simp: iso_opt_def iso_res_def)
  have c: "iso_res k (y, k1)" for y :: "(stop, sys_end) outcome" using k1 by (simp add: iso_res_def)
  show ?thesis unfolding sys_execve_def m_def [symmetric] x
    using c by (auto split: outcome.splits option.splits intro!: step e)
qed

section \<open>Dispatch\<close>

lemma iso_returned: "iso_res k m \<Longrightarrow> iso_opt k (returned m)"
  by (cases m; cases "fst m") (auto simp: returned_def iso_res_def)

lemma iso_returned_keeps: "keeps k m \<Longrightarrow> iso_opt k (returned m)"
  by (rule iso_returned [OF keeps_iso])

lemma iso_sbind_Ok: "keeps k m \<Longrightarrow> iso_res k (sbind m (\<lambda>r k. (Ok (g r), k)))"
  by (rule iso_res_sbind) simp_all

lemma iso_file_syscall: "iso_opt k (file_syscall e n tf k)"
proof -
  have d: "iso_opt k (case cur_proc k of
             None \<Rightarrow> Some (Panic, k)
           | Some (p, d) \<Rightarrow>
               (case sys_getdents64 v fd a1 a2 ((k_spaces k (pd_aspace d), k_mem k), proc_files d k) of
                  None \<Rightarrow> None
                | Some (r, ((a, m), fx)) \<Rightarrow>
                    returned (r, put_proc_files d fx (k\<lparr>k_spaces := (k_spaces k)(pd_aspace d := a), k_mem := m\<rparr>))))" for v fd a1 a2
  proof (cases "cur_proc k")
    case (Some pd)
    then obtain p d where p: "cur_proc k = Some (p, d)" by (cases pd) auto
    have "keeps k (r, put_proc_files d fx (k\<lparr>k_spaces := (k_spaces k)(pd_aspace d := a), k_mem := m\<rparr>))" for r :: "(stop, isize) outcome" and a m fx
      by (rule keepsI [OF p iso_stepI [OF p]]) simp_all
    then show ?thesis using p by (auto intro!: iso_returned_keeps split: option.splits prod.splits)
  qed simp
  show ?thesis unfolding file_syscall_def Let_def
    by (cases n) (simp_all only: sysno.case iso_opt_simps d iso_returned_keeps [OF keeps_on_files] iso_sbind_Ok [OF keeps_on_files] iso_returned [OF iso_res_const(1)])
qed

lemma iso_table_call: "iso_res k (sys_rt_kill p s k)" "iso_res k (sys_tkill p s k)" "iso_res k (sys_tgkill g p s k)"
  by (auto simp: sys_rt_kill_def sys_tkill_def sys_tgkill_def iso_res_def untouched_iso map_err_def split: prod.splits outcome.splits)

lemma iso_simple_call:
  "iso_res k (sys_getpid k)" "iso_res k (sys_getppid k)" "iso_res k (sys_gettid k)" "iso_res k (sys_set_tid_address a k)" "iso_res k (sys_brk a k)"
  "iso_res k (sys_uname a k)" "iso_res k (sys_zero k)" "iso_res k (sys_sched_yield k)"
proof -
  show "iso_res k (sys_getpid k)" "iso_res k (sys_getppid k)" "iso_res k (sys_gettid k)" "iso_res k (sys_zero k)"
    by (auto simp: sys_getpid_def sys_getppid_def sys_gettid_def sys_zero_def with_proc_def split: option.splits)
  show "iso_res k (sys_set_tid_address a k)" "iso_res k (sys_brk a k)"
    by (auto simp: sys_set_tid_address_def sys_brk_def with_proc_def intro!: iso_res_untouched split: option.splits)
  show "iso_res k (sys_uname a k)" unfolding sys_uname_def by (rule keeps_iso [OF keeps_on_space])
  show "iso_res k (sys_sched_yield k)" unfolding sys_sched_yield_def
    by (rule iso_res_then [OF iso_on_sched]) (simp add: untouched_def)
qed

lemma iso_task_syscall: "iso_opt k (task_syscall e n tf k)"
  unfolding task_syscall_def Let_def
  by (cases n) (simp_all only: sysno.case iso_opt_simps iso_file_syscall iso_execve sys_exit_def sys_exit_group_def sys_fork_def iso_do_exit iso_waitpid
      iso_returned_keeps [OF keeps_on_space] iso_returned [OF iso_clone] iso_returned [OF iso_simple_call(1)] iso_returned [OF iso_simple_call(2)]
      iso_returned [OF iso_simple_call(3)] iso_returned [OF iso_simple_call(4)] iso_returned [OF iso_simple_call(5)] iso_returned [OF iso_simple_call(6)]
      iso_returned [OF iso_simple_call(7)] iso_returned [OF iso_simple_call(8)] iso_returned [OF iso_table_call(1)] iso_returned [OF iso_table_call(2)]
      iso_returned [OF iso_table_call(3)])


definition demo_env :: "(nat, ram) kenv" where
  "demo_env = \<lparr>e_vfs = ramfs, e_parse = (\<lambda>_. None), e_junk = [], e_sysno = (\<lambda>n. if n = 12 then Sys_brk else Sys_other),
     e_clock = demo_clock 0, e_clock_end = demo_clock 0\<rparr>"


end
