(* ===== verification/Spec2Isabelle.thy ===== *)
theory Spec2Isabelle
  imports Mutex_Lock Main_Fs Syscalls
begin

text \<open>
  A verification of the Starry kernel (\<^verbatim>\<open>src/\<close>), a monolithic kernel for Linux programs over the ArceOS modules (\<^verbatim>\<open>.arceos/\<close>) and the crates under
  \<^verbatim>\<open>vendor/\<close>. The model is of the build for x86_64 with one processor, the FIFO scheduler, timer interrupts, no kernel preemption and no
  overflow checks (release profile).

  \<^bold>\<open>The program.\<close> A program enters the kernel by the \<^verbatim>\<open>syscall\<close> instruction or by a fault. The entry code saves its registers in a trap frame;
  \<^verbatim>\<open>handle_syscall\<close> decodes the call and runs one of the handlers of \<^verbatim>\<open>api/\<close>, which check user pointers, work on the process
  (\<^verbatim>\<open>core/\<close>), on its address space (\<^verbatim>\<open>axmm\<close> over \<^verbatim>\<open>memory_set\<close>, \<^verbatim>\<open>page_table_multiarch\<close> and the page allocator), on its descriptors
  (\<^verbatim>\<open>arceos_posix_api\<close>) and files (\<^verbatim>\<open>axfs\<close>), and on the tasks (\<^verbatim>\<open>axtask\<close>); the call ends with a result in the frame, the end of the
  task, or another program in its place.

  \<^bold>\<open>Conventions.\<close> Structs are records, enums are datatypes, machine integers are words of their width and wrap. An operation is a function from
  its arguments and a state to an \<open>outcome\<close> and the state it leaves: \<open>Ok\<close>, \<open>Err\<close> with the error of the source, or \<open>Panic\<close> for
  a failed assertion, an \<^verbatim>\<open>unwrap\<close> of nothing or an index out of range. An operation that stops because its task must exit has the error
  \<open>Exits\<close>. Loops are recursive functions with a termination proof. Where a loop waits for another task, the model has one
  function for one round of it. Loops that may run forever (\<open>signal_loop\<close>, \<open>null_terminated_loop\<close>, \<open>read_to_end_loop\<close>, \<open>getdents_loop\<close>,
  \<open>read_dir_next\<close> and the interpreters of \<open>load_user_app\<close>) are partial functions whose value is \<open>None\<close> when they do not
  return; there is no fuel. That the scan for the end of an array in user memory and the
  reading of a whole file return is proved, and when the check for signals does. The depth argument of the bitmap is the nesting of its type, and the
  four levels of a page table are walked one by one.

  \<^bold>\<open>Theories.\<close>

  \<^item> \<open>Kernel_Prelude\<close>: outcomes, sequencing, error codes, machine integers. \<open>Ordered_Map\<close>: the part of \<^verbatim>\<open>BTreeMap\<close> that is used, with the
    locale \<open>ordered_map\<close>.
  \<^item> \<open>Memory_Addr\<close> (\<^verbatim>\<open>vendor/memory_addr\<close>): alignment, ranges and pages. \<open>Memory_Set\<close> (\<^verbatim>\<open>vendor/memory_set\<close>): the areas of an address space over a
    mapping backend, whose contract is the locale \<open>backend_laws\<close>; map, unmap and protect refine updates of a function from addresses to
    areas, and the search for free areas is first fit.
  \<^item> \<open>Page_Table\<close> (\<^verbatim>\<open>vendor/page_table_multiarch\<close>, \<^verbatim>\<open>page_table_entry\<close>): entries and walks; tables are read as one function from pages to
    entries; frames come from the contract \<open>frame_source\<close>, which \<open>Page_Alloc\<close> discharges for the allocator of
    \<^verbatim>\<open>vendor/allocator\<close> over the bitmap of \<open>Bitmap_Alloc\<close> (\<^verbatim>\<open>vendor/bitmap-allocator\<close>).
  \<^item> \<open>Addr_Space\<close> (\<^verbatim>\<open>axmm\<close>): backends and \<^verbatim>\<open>AddrSpace\<close>; unmapping and mapping refine the abstract map and keep every frame in one place,
    faults bring zeroed frames, the check of user ranges is exact, a range that overflows panics.
  \<^item> \<open>User_Memory\<close> (\<^verbatim>\<open>api/src/ptr.rs\<close>, \<^verbatim>\<open>src/mm.rs\<close>, the page-fault trap): user pointers; the scan for a null terminator returns. \<open>User_Stack\<close> (\<^verbatim>\<open>vendor/kernel-elf-parser\<close>):
    the initial stack has the layout that programs expect. \<open>User_Maps\<close> (\<^verbatim>\<open>core/src/mm.rs\<close>, \<^verbatim>\<open>api/src/imp/mm/mmap.rs\<close>): loading a program, \<^verbatim>\<open>mmap\<close> (an anonymous one maps exactly a free range), \<^verbatim>\<open>munmap\<close>,
    \<^verbatim>\<open>mprotect\<close>.
  \<^item> \<open>Clock_Time\<close> (clocks, \<^verbatim>\<open>core/src/time.rs\<close>, time calls and limits): what sleeping reports. \<open>Scheduler\<close> (\<^verbatim>\<open>axtask\<close>): tasks, run queue, wait queues, timers, with a
    step relation and its invariant; no assertion fails, blocked tasks can be woken, yielding is fair, and a task named idle is lost. \<open>Mutex_Lock\<close> (\<^verbatim>\<open>axsync\<close>): the sleeping mutex over the scheduler, exclusive and without lost wake-ups.
  \<^item> \<open>Fd_Table\<close> (\<^verbatim>\<open>vendor/flatten_objects\<close>, \<^verbatim>\<open>fd_ops.rs\<close>): descriptors over the contract \<open>numbered_objects\<close>, with duplicating undone by closing. \<open>Pipe_Buffer\<close> (\<^verbatim>\<open>pipe.rs\<close>): the
    ring buffer meets \<open>byte_fifo\<close>, pipes keep order, and creating one is all or nothing.
  \<^item> \<open>Path_String\<close>, \<open>Vfs_Root\<close> (\<^verbatim>\<open>axfs/src/root.rs\<close>, \<^verbatim>\<open>vendor/axfs_vfs\<close>): canonical paths and the choice of the mount point. \<open>File_Ops\<close> (\<^verbatim>\<open>axfs/src/fops.rs\<close>): open
    files over the contract \<open>file_store\<close>. \<open>Ram_Fs\<close> (\<^verbatim>\<open>vendor/axfs_ramfs\<close>) meets it: what is written is read back, and rights are enforced. \<open>File_Api\<close>
    (\<^verbatim>\<open>axfs/src/api\<close>, \<^verbatim>\<open>vendor/axio\<close>): reading a whole file returns its contents. \<open>Disk_Dev\<close> (\<^verbatim>\<open>axfs/src/dev.rs\<close>): the byte cursor over a \<open>block_device\<close>, with the RAM
    disk as one. \<open>Main_Fs\<close> (\<^verbatim>\<open>axfs/src/fs\<close>): the nodes around the ext4 and FAT libraries.
  \<^item> \<open>File_Objects\<close> (\<^verbatim>\<open>arceos_posix_api/src/imp\<close>: \<^verbatim>\<open>fs.rs\<close>, \<^verbatim>\<open>io.rs\<close>, \<^verbatim>\<open>stdio.rs\<close>, \<^verbatim>\<open>path_link.rs\<close>): objects behind descriptors, hard links with exact counts.
    \<open>File_Calls\<close> (\<^verbatim>\<open>api/src/imp/fs\<close>): system calls on files; opening takes the lowest descriptor.
  \<^item> \<open>Trap_Context\<close> (\<^verbatim>\<open>axhal/src/arch/x86_64\<close>): trap frames, the context switch that resumes a task as it was, entry and exit of system calls, transparent to the program.
  \<^item> \<open>Signals\<close> (\<^verbatim>\<open>core/src/signal.rs\<close>): when the check for signals returns. \<open>Processes\<close> (\<^verbatim>\<open>vendor/axprocess\<close>, \<^verbatim>\<open>core/src/task.rs\<close>): processes and threads with a step relation
    whose reachable states are trees below init; exit and wait hand over the exit code.
  \<^item> \<open>Task_Calls\<close> (\<^verbatim>\<open>api/src/imp/task\<close>, \<^verbatim>\<open>brk.rs\<close>, \<^verbatim>\<open>sys.rs\<close>, \<^verbatim>\<open>src/entry.rs\<close>): the state \<open>kern\<close> of the whole kernel, with \<^verbatim>\<open>clone\<close> (a step of the process tables, a child that continues as the caller, and no effect on failure),
    \<^verbatim>\<open>exit\<close>, \<^verbatim>\<open>waitpid\<close>, \<^verbatim>\<open>execve\<close>, \<^verbatim>\<open>brk\<close> within its bounds. \<open>Syscalls\<close> (\<^verbatim>\<open>src/syscall.rs\<close>): the dispatch, and that no call
    touches what other processes own.

  \<^bold>\<open>Arguments of the model.\<close> The decoding of executables by \<^verbatim>\<open>xmas_elf\<close> and of call numbers by the \<^verbatim>\<open>syscalls\<close> crate, the C library of ext4, the FAT
  library, the block device, the time stamp counter and the spurious failures of a weak exchange are arguments.

  \<^bold>\<open>Not modelled.\<close> The network stack, \<^verbatim>\<open>select\<close> and \<^verbatim>\<open>epoll\<close>, and pthreads of the POSIX layer, which no system call of the dispatch reaches;
  device drivers, DMA, display and interrupt controllers; boot code, loading of descriptor tables, logging; the byte allocator of the
  kernel heap, which is taken to succeed; TLB flushes; other architectures and more than one processor; user libraries, tools and examples.
\<close>

end
